(* ===== verification/Prelude.thy ===== *)
theory Prelude
  imports Main "HOL-Library.Multiset" "HOL-Library.Char_ord" "HOL-Library.List_Lexorder"
begin

text \<open>
  Shared vocabulary of the development: the type synonyms of the model, the four row-level
  statements the Go code sends to Postgres (insert, upsert, update, delete) as operations on
  lists of records, the contract of a keyed table, the contract of a normalising function, and
  reachable states with the invariant rule.
\<close>

named_theorems table_simps \<open>unfolds the row-level statements\<close>
named_theorems step_inv \<open>one lemma per operation: it keeps its component's invariant\<close>

type_synonym project_id = int

text \<open>A \<open>time.Time\<close> in UTC: nanoseconds since the Unix epoch. A \<open>time.Duration\<close> too.\<close>

type_synonym time = int
type_synonym duration = int

abbreviation microsecond :: duration where "microsecond \<equiv> 1000"
abbreviation second :: duration where "second \<equiv> 1000000000"
abbreviation minute :: duration where "minute \<equiv> 60 * 1000000000"
abbreviation hour :: duration where "hour \<equiv> 3600 * 1000000000"
abbreviation day :: duration where "day \<equiv> 86400 * 1000000000"
abbreviation week :: duration where "week \<equiv> 604800 * 1000000000"

text \<open>Signed machine integers: what an \<open>int32\<close> or \<open>int64\<close> operation leaves of the exact result.\<close>

definition wrap32 :: "int \<Rightarrow> int" where
  "wrap32 x = (x + 2 ^ 31) mod 2 ^ 32 - 2 ^ 31"

definition wrap64 :: "int \<Rightarrow> int" where
  "wrap64 x = (x + 2 ^ 63) mod 2 ^ 64 - 2 ^ 63"

lemma wrap32_id [simp]: "- (2 ^ 31) \<le> x \<Longrightarrow> x < 2 ^ 31 \<Longrightarrow> wrap32 x = x"
  by (simp add: wrap32_def)

lemma wrap64_id [simp]: "- (2 ^ 63) \<le> x \<Longrightarrow> x < 2 ^ 63 \<Longrightarrow> wrap64 x = x"
  by (simp add: wrap64_def)

text \<open>The zero \<open>time.Time\<close>, January 1 of year 1: what \<open>IsZero\<close> tests for.\<close>

definition zero_time :: time where
  "zero_time = - 62135596800 * 1000000000"

text \<open>
  \<open>t.Truncate(d)\<close> rounds down to a multiple of \<open>d\<close> counted from the zero time; every width
  the code uses divides a day, so counting from the epoch gives the same value.
\<close>

definition truncate_time :: "time \<Rightarrow> duration \<Rightarrow> time" where
  "truncate_time t d = (if d \<le> 0 then t else t - (t - zero_time) mod d)"

lemma truncate_time_epoch:
  assumes "0 < d" and "d dvd day"
  shows "truncate_time t d = t - t mod d"
proof -
  have "day dvd zero_time"
    unfolding zero_time_def by (rule dvdI [of _ _ "- 719162"]) simp
  with assms(2) have "d dvd zero_time" by (rule dvd_trans)
  then have "(t - zero_time) mod d = t mod d"
    by (metis dvd_imp_mod_0 diff_zero mod_diff_right_eq)
  with assms(1) show ?thesis by (simp add: truncate_time_def)
qed

lemma truncate_time_le: "truncate_time t d \<le> t"
  by (simp add: truncate_time_def)

lemma truncate_time_near: "0 < d \<Longrightarrow> t < truncate_time t d + d"
  using pos_mod_bound [of d "t - zero_time"] by (simp add: truncate_time_def)

lemma truncate_time_idem: "truncate_time (truncate_time t d) d = truncate_time t d"
proof -
  have "(t - (t - zero_time) mod d - zero_time) mod d = 0"
  proof -
    have "t - (t - zero_time) mod d - zero_time = (t - zero_time) - (t - zero_time) mod d" by simp
    then show ?thesis by (simp only: minus_mod_eq_mult_div) simp
  qed
  then show ?thesis by (simp add: truncate_time_def)
qed

section \<open>Results\<close>

text \<open>
  A step that may return an error: the rest runs only on success (\<open>if err != nil { return err }\<close>), for
  one step, over a list, and over a list with a state. \<open>result_iff\<close> says when such a sequence succeeds.
\<close>

named_theorems result_iff \<open>when a sequence of fallible steps succeeds\<close>

definition and_then :: "'e + 'a \<Rightarrow> ('a \<Rightarrow> 'e + 'b) \<Rightarrow> 'e + 'b" where
  "and_then r f = (case r of Inl e \<Rightarrow> Inl e | Inr x \<Rightarrow> f x)"

definition or_error :: "'e \<Rightarrow> 'a option \<Rightarrow> 'e + 'a" where
  "or_error e x = (case x of None \<Rightarrow> Inl e | Some y \<Rightarrow> Inr y)"

fun collect :: "('a \<Rightarrow> 'e + 'b) \<Rightarrow> 'a list \<Rightarrow> 'e + 'b list" where
  "collect f [] = Inr []"
| "collect f (x # xs) = and_then (f x) (\<lambda>y. and_then (collect f xs) (\<lambda>ys. Inr (y # ys)))"

fun fold_result :: "('a \<Rightarrow> 's \<Rightarrow> 'e + 's) \<Rightarrow> 'a list \<Rightarrow> 's \<Rightarrow> 'e + 's" where
  "fold_result f [] s = Inr s"
| "fold_result f (x # xs) s = and_then (f x s) (fold_result f xs)"

lemma and_then_simps [simp]: "and_then (Inl e) f = Inl e" "and_then (Inr x) f = f x"
  by (simp_all add: and_then_def)

lemma and_then_Inr [result_iff]: "and_then r f = Inr y \<longleftrightarrow> (\<exists>x. r = Inr x \<and> f x = Inr y)"
  by (cases r) simp_all

lemma and_then_Inl [result_iff]: "and_then r f = Inl e \<longleftrightarrow> r = Inl e \<or> (\<exists>x. r = Inr x \<and> f x = Inl e)"
  by (cases r) simp_all

lemma or_error_Inr [result_iff]: "or_error e x = Inr y \<longleftrightarrow> x = Some y"
  by (cases x) (simp_all add: or_error_def)

lemma or_error_Inl [result_iff]: "or_error e x = Inl e' \<longleftrightarrow> x = None \<and> e = e'"
  by (cases x) (auto simp: or_error_def)

lemma collect_Inr: "collect f xs = Inr ys \<longleftrightarrow> map f xs = map Inr ys"
  by (induction xs arbitrary: ys) (auto simp: result_iff Cons_eq_map_conv)

lemma collect_Inl: "collect f xs = Inl e \<Longrightarrow> \<exists>x \<in> set xs. f x = Inl e"
  by (induction xs) (auto simp: result_iff)

lemma fold_result_invariant:
  assumes "fold_result f xs s = Inr t" and "P s"
    and "\<And>x s t. x \<in> set xs \<Longrightarrow> P s \<Longrightarrow> f x s = Inr t \<Longrightarrow> P t"
  shows "P t"
  using assms by (induction xs arbitrary: s) (auto simp: result_iff)

section \<open>Tables\<close>

text \<open>
  A table is a list of rows. \<open>key\<close> is its primary key (or unique index); the statements are
  those of the store package: \<open>INSERT ... ON CONFLICT DO NOTHING\<close>, \<open>INSERT ... ON CONFLICT DO
  UPDATE\<close>, \<open>UPDATE ... WHERE\<close> and \<open>DELETE ... WHERE\<close>.
\<close>

definition lookup_by :: "('r \<Rightarrow> 'k) \<Rightarrow> 'k \<Rightarrow> 'r list \<Rightarrow> 'r option" where
  "lookup_by key k t = find (\<lambda>r. key r = k) t"

definition unique_by :: "('r \<Rightarrow> 'k) \<Rightarrow> 'r list \<Rightarrow> bool" where
  "unique_by key t \<longleftrightarrow> distinct (map key t)"

definition insert_nothing :: "('r \<Rightarrow> 'k) \<Rightarrow> 'r \<Rightarrow> 'r list \<Rightarrow> 'r list" where
  "insert_nothing key r t = (if key r \<in> key ` set t then t else t @ [r])"

definition upsert :: "('r \<Rightarrow> 'k) \<Rightarrow> ('r \<Rightarrow> 'r \<Rightarrow> 'r) \<Rightarrow> 'r \<Rightarrow> 'r list \<Rightarrow> 'r list" where
  "upsert key merge r t =
     (if key r \<in> key ` set t then map (\<lambda>x. if key x = key r then merge x r else x) t
      else t @ [r])"

definition update_where :: "('r \<Rightarrow> bool) \<Rightarrow> ('r \<Rightarrow> 'r) \<Rightarrow> 'r list \<Rightarrow> 'r list" where
  "update_where p f t = map (\<lambda>x. if p x then f x else x) t"

definition delete_where :: "('r \<Rightarrow> bool) \<Rightarrow> 'r list \<Rightarrow> 'r list" where
  "delete_where p t = filter (\<lambda>x. \<not> p x) t"

lemma lookup_by_Some: "lookup_by key k t = Some r \<Longrightarrow> r \<in> set t \<and> key r = k"
  by (auto simp: lookup_by_def find_Some_iff)

lemma lookup_by_None: "lookup_by key k t = None \<longleftrightarrow> k \<notin> key ` set t"
  by (auto simp: lookup_by_def find_None_iff)

lemma lookup_by_iff:
  "unique_by key t \<Longrightarrow> lookup_by key k t = Some r \<longleftrightarrow> r \<in> set t \<and> key r = k"
proof (induction t)
  case Nil
  then show ?case by (simp add: lookup_by_def)
next
  case (Cons a t)
  from Cons.prems have u: "unique_by key t" and "key a \<notin> key ` set t"
    by (simp_all add: unique_by_def)
  then have ne: "x \<in> set t \<Longrightarrow> key x \<noteq> key a" for x by (metis imageI)
  show ?case
  proof (cases "key a = k")
    case True
    with ne show ?thesis by (auto simp: lookup_by_def)
  next
    case False
    then have "lookup_by key k (a # t) = lookup_by key k t" by (simp add: lookup_by_def)
    with False Cons.IH [OF u] show ?thesis by auto
  qed
qed

lemma unique_by_same:
  "unique_by key t \<Longrightarrow> a \<in> set t \<Longrightarrow> b \<in> set t \<Longrightarrow> key a = key b \<Longrightarrow> a = b"
  by (simp add: unique_by_def distinct_map inj_on_def)

lemma unique_insert_nothing [step_inv]:
  "unique_by key t \<Longrightarrow> unique_by key (insert_nothing key r t)"
  by (auto simp: unique_by_def insert_nothing_def)

lemma unique_delete_where [step_inv]: "unique_by key t \<Longrightarrow> unique_by key (delete_where p t)"
  by (induction t) (auto simp: unique_by_def delete_where_def)

lemma set_delete_where [simp]: "set (delete_where p t) = {x \<in> set t. \<not> p x}"
  by (simp add: delete_where_def)

lemma set_update_where [simp]: "set (update_where p f t) = (\<lambda>x. if p x then f x else x) ` set t"
  by (simp add: update_where_def)

lemma set_insert_nothing:
  "set (insert_nothing key r t) = (if key r \<in> key ` set t then set t else insert r (set t))"
  by (simp add: insert_nothing_def)

lemma map_update_where:
  "(\<And>x. p x \<Longrightarrow> g (f x) = g x) \<Longrightarrow> map g (update_where p f t) = map g t"
  by (induction t) (auto simp: update_where_def)

lemma unique_update_where [step_inv]:
  "(\<And>x. p x \<Longrightarrow> key (f x) = key x) \<Longrightarrow> unique_by key t \<Longrightarrow> unique_by key (update_where p f t)"
  by (simp add: unique_by_def map_update_where)

lemma lookup_update_key:
  assumes "\<And>x. key (f x) = key x"
  shows "lookup_by key k (update_where (\<lambda>x. key x = k') f t) =
           (if k = k' then map_option f (lookup_by key k t) else lookup_by key k t)"
  by (induction t) (auto simp: lookup_by_def update_where_def assms)

text \<open>A partial unique index survives an update that keeps the key and adds no row to the index.\<close>

lemma distinct_filter_update:
  assumes "\<forall>x \<in> set xs. key (g x) = key x \<and> (P (g x) \<longrightarrow> P x)"
    and "distinct (map key (filter P xs))"
  shows "distinct (map key (filter P (map g xs)))"
proof -
  have "map key (filter P (map g xs)) = map key (filter (\<lambda>x. P (g x)) (filter P xs))"
    using assms(1) by (induction xs) auto
  then show ?thesis using distinct_map_filter [OF assms(2)] by simp
qed

text \<open>
  The contract of an \<open>ON CONFLICT DO UPDATE\<close>: the update of a conflicting row never changes its
  key. From it follow, for every table, the laws of a finite map with a combining insert.
\<close>

locale keyed_table =
  fixes key :: "'r \<Rightarrow> 'k" and merge :: "'r \<Rightarrow> 'r \<Rightarrow> 'r"
  assumes key_merge: "key x = key r \<Longrightarrow> key (merge x r) = key x"
begin

lemma keys_upsert: "key ` set (upsert key merge r t) = insert (key r) (key ` set t)"
proof (cases "key r \<in> key ` set t")
  case True
  have "map key (map (\<lambda>x. if key x = key r then merge x r else x) t) = map key t"
    by (simp add: key_merge)
  then have "set (map key (map (\<lambda>x. if key x = key r then merge x r else x) t)) = set (map key t)"
    by (rule arg_cong)
  then have "key ` set (map (\<lambda>x. if key x = key r then merge x r else x) t) = key ` set t"
    by (simp only: set_map)
  with True show ?thesis by (simp add: upsert_def insert_absorb del: set_map)
qed (simp add: upsert_def)

lemma unique_upsert: "unique_by key t \<Longrightarrow> unique_by key (upsert key merge r t)"
proof -
  assume u: "unique_by key t"
  have m: "map key (map (\<lambda>x. if key x = key r then merge x r else x) t) = map key t"
    by (simp add: key_merge)
  show ?thesis
  proof (cases "key r \<in> key ` set t")
    case True
    with u show ?thesis by (simp add: unique_by_def upsert_def m del: map_map)
  next
    case False
    with u show ?thesis by (simp add: unique_by_def upsert_def)
  qed
qed

lemma lookup_upsert_same:
  "lookup_by key (key r) (upsert key merge r t) =
     Some (case lookup_by key (key r) t of None \<Rightarrow> r | Some x \<Rightarrow> merge x r)"
proof (cases "key r \<in> key ` set t")
  case False
  then have "lookup_by key (key r) t = None" by (simp add: lookup_by_None)
  moreover from False have "lookup_by key (key r) (t @ [r]) = Some r"
    by (induction t) (auto simp: lookup_by_def)
  ultimately show ?thesis using False by (simp add: upsert_def)
next
  case True
  then have "\<exists>x. lookup_by key (key r) t = Some x \<and>
      lookup_by key (key r) (map (\<lambda>x. if key x = key r then merge x r else x) t) = Some (merge x r)"
    by (induction t) (auto simp: lookup_by_def key_merge)
  with True show ?thesis by (auto simp: upsert_def)
qed

lemma lookup_upsert_other:
  "k \<noteq> key r \<Longrightarrow> lookup_by key k (upsert key merge r t) = lookup_by key k t"
proof (induction t)
  case Nil
  then show ?case by (simp add: lookup_by_def upsert_def)
next
  case (Cons a t)
  have "lookup_by key k (map (\<lambda>x. if key x = key r then merge x r else x) xs) = lookup_by key k xs"
    for xs using Cons.prems by (induction xs) (auto simp: lookup_by_def key_merge)
  moreover have "lookup_by key k (xs @ [r]) = lookup_by key k xs" for xs
    using Cons.prems by (induction xs) (auto simp: lookup_by_def)
  ultimately show ?case by (simp only: upsert_def split: if_split) simp
qed

lemma lookup_upsert:
  "lookup_by key k (upsert key merge r t) =
     (if k = key r then Some (case lookup_by key k t of None \<Rightarrow> r | Some x \<Rightarrow> merge x r)
      else lookup_by key k t)"
  by (simp add: lookup_upsert_same lookup_upsert_other)

lemma set_upsert_cases:
  "x \<in> set (upsert key merge r t) \<Longrightarrow>
     x = r \<and> key r \<notin> key ` set t \<or> x \<in> set t \<and> key x \<noteq> key r
     \<or> (\<exists>y \<in> set t. key y = key r \<and> x = merge y r)"
  by (cases "key r \<in> key ` set t") (auto simp: upsert_def rev_image_eqI split: if_splits)

end

section \<open>Related lists\<close>

lemma list_all2_filter_cong:
  assumes "list_all2 R xs ys" and "\<And>x y. R x y \<Longrightarrow> P x = P y"
  shows "list_all2 R (filter P xs) (filter P ys)"
  using assms(1) by (induction rule: list_all2_induct) (auto dest: assms(2))

lemma list_all2_map_cong:
  assumes "list_all2 R xs ys" and "\<And>x y. R x y \<Longrightarrow> f x = g y"
  shows "map f xs = map g ys"
  using assms(1) by (induction rule: list_all2_induct) (auto dest: assms(2))

lemma list_all2_ball_cong:
  assumes "list_all2 R xs ys" and "\<And>x y. R x y \<Longrightarrow> P x = P y"
  shows "(\<forall>x \<in> set xs. P x) = (\<forall>y \<in> set ys. P y)"
  using assms(1) by (induction rule: list_all2_induct) (auto dest: assms(2))

lemma image_where: "S \<subseteq> f ` A \<Longrightarrow> f ` {x \<in> A. f x \<in> S} = S"
proof (intro equalityI subsetI)
  fix y assume "S \<subseteq> f ` A" and y: "y \<in> S"
  then obtain x where "x \<in> A" and "y = f x" by blast
  with y show "y \<in> f ` {x \<in> A. f x \<in> S}" by simp
qed auto

section \<open>Ordering by two keys\<close>

text \<open>\<open>ORDER BY f, g\<close>: sorting by the minor key first and then, stably, by the major one.\<close>

lemma insort_two_keys:
  fixes f :: "'a \<Rightarrow> 'b :: linorder" and g :: "'a \<Rightarrow> 'c :: linorder"
  defines "le \<equiv> \<lambda>a b. f a < f b \<or> f a = f b \<and> g a \<le> g b"
  assumes "sorted_wrt le ys" and "\<forall>y \<in> set ys. g x \<le> g y"
  shows "sorted_wrt le (insort_key f x ys)"
  using assms(2,3)
proof (induction ys)
  case (Cons y ys)
  show ?case
  proof (cases "f x \<le> f y")
    case True
    have "le x z" if "z \<in> set (y # ys)" for z
    proof -
      from that Cons.prems(1) have "f y \<le> f z" by (auto simp: le_def)
      with True that Cons.prems(2) show ?thesis by (auto simp: le_def)
    qed
    with True Cons.prems show ?thesis by simp
  next
    case False
    then have "le y x" by (simp add: le_def not_le)
    with False Cons show ?thesis by (simp add: set_insort_key)
  qed
qed simp

lemma sorted_two_keys:
  "sorted_wrt (\<lambda>a b. f a < f b \<or> f a = f b \<and> g a \<le> g b) (sort_key f (sort_key g xs))"
proof -
  have "sorted_wrt (\<lambda>a b. f a < f b \<or> f a = f b \<and> g a \<le> g b) (sort_key f ys)"
    if "sorted (map g ys)" for ys
    using that by (induction ys) (simp_all add: insort_two_keys)
  then show ?thesis by simp
qed

section \<open>Normalising functions\<close>

text \<open>
  Many functions of the code bring a value into a canonical form (an id, a level, a bounded
  string, a week start). Their shared contract: the result is canonical, and a canonical value is
  left alone; so applying them twice is applying them once, which is what makes a resend land on
  the same row.
\<close>

locale normalizer =
  fixes f :: "'a \<Rightarrow> 'a" and canonical :: "'a \<Rightarrow> bool"
  assumes canonical_f: "canonical (f x)"
    and fixed: "canonical x \<Longrightarrow> f x = x"
begin

lemma idem: "f (f x) = f x"
  by (simp add: canonical_f fixed)

lemma canonical_iff: "canonical x \<longleftrightarrow> f x = x"
  using canonical_f fixed by metis

lemma range_f: "range f = {x. canonical x}"
  using canonical_f fixed by (auto simp: image_iff) metis

end

section \<open>Reachable states\<close>

inductive reach :: "('s \<Rightarrow> bool) \<Rightarrow> ('s \<Rightarrow> 's \<Rightarrow> bool) \<Rightarrow> 's \<Rightarrow> bool"
  for initial :: "'s \<Rightarrow> bool" and step :: "'s \<Rightarrow> 's \<Rightarrow> bool" where
  reach_init: "initial s \<Longrightarrow> reach initial step s"
| reach_step: "reach initial step s \<Longrightarrow> step s t \<Longrightarrow> reach initial step t"

text \<open>The contract of an inductive invariant: initially true, kept by every step.\<close>

locale invariant =
  fixes initial :: "'s \<Rightarrow> bool" and step :: "'s \<Rightarrow> 's \<Rightarrow> bool" and I :: "'s \<Rightarrow> bool"
  assumes initial_inv: "initial s \<Longrightarrow> I s"
    and step_keeps: "step s t \<Longrightarrow> I s \<Longrightarrow> I t"
begin

lemma reach_inv: "reach initial step s \<Longrightarrow> I s"
  by (induction rule: reach.induct) (auto intro: initial_inv step_keeps)

lemma star_keeps: "step\<^sup>*\<^sup>* s t \<Longrightarrow> I s \<Longrightarrow> I t"
  by (induction rule: rtranclp_induct) (auto intro: step_keeps)

end

end
