(* ===== verification/GoText.thy ===== *)
theory GoText
  imports Prelude "HOL-Library.Sublist"
begin

text \<open>
  Go strings and the string functions of the program. A Go string is a sequence of bytes, here a
  \<open>string\<close> (a character is a byte); \<open>len\<close> counts bytes and \<open>[]rune(s)\<close> decodes UTF-8, an invalid
  byte giving U+FFFD. On top of that: \<open>sentry.Truncate\<close>, \<open>sentry.clean\<close>, \<open>store.clip\<close>,
  \<open>store.escapeLike\<close>, \<open>jobs.truncate\<close>, and the parts of package \<open>strings\<close> and \<open>strconv\<close> the
  components use. \<open>ToLower\<close> has the ASCII, Latin-1, Greek and Cyrillic rows of the Unicode case
  table and the two runes outside ASCII that lower to an ASCII letter (U+0130, U+212A); the other
  rows do not reach an ASCII letter and are left out.
\<close>

type_synonym rune = nat

section \<open>UTF-8\<close>

definition bytes :: "string \<Rightarrow> nat list" where
  "bytes s = map of_char s"

definition of_bytes :: "nat list \<Rightarrow> string" where
  "of_bytes bs = map char_of bs"

lemma of_bytes_bytes [simp]: "of_bytes (bytes s) = s"
  by (simp add: of_bytes_def bytes_def comp_def)

lemma bytes_of_bytes: "(\<forall>b \<in> set bs. b < 256) \<Longrightarrow> bytes (of_bytes bs) = bs"
  by (induction bs) (auto simp: of_bytes_def bytes_def)

lemma bytes_append [simp]: "bytes (a @ b) = bytes a @ bytes b"
  by (simp add: bytes_def)

lemma of_bytes_append [simp]: "of_bytes (a @ b) = of_bytes a @ of_bytes b"
  by (simp add: of_bytes_def)

lemma length_bytes [simp]: "length (bytes s) = length s"
  by (simp add: bytes_def)

lemma length_of_bytes [simp]: "length (of_bytes s) = length s"
  by (simp add: of_bytes_def)

definition rune_error :: rune where "rune_error = 65533"

definition cont_byte :: "nat \<Rightarrow> bool" where
  "cont_byte b \<longleftrightarrow> 128 \<le> b \<and> b < 192"

text \<open>
  \<open>utf8.DecodeRune\<close>: the rune at the start of a non-empty byte sequence and its width; an
  overlong form, a surrogate, a value past U+10FFFF or a truncated sequence is U+FFFD of width 1.
\<close>

definition decode2 :: "nat \<Rightarrow> nat list \<Rightarrow> (rune \<times> nat) option" where
  "decode2 b0 bs = (case bs of
     b1 # _ \<Rightarrow> if 194 \<le> b0 \<and> b0 \<le> 223 \<and> cont_byte b1
               then Some ((b0 - 192) * 64 + (b1 - 128), 2) else None
   | _ \<Rightarrow> None)"

definition decode3 :: "nat \<Rightarrow> nat list \<Rightarrow> (rune \<times> nat) option" where
  "decode3 b0 bs = (case bs of
     b1 # b2 # _ \<Rightarrow>
       if 224 \<le> b0 \<and> b0 \<le> 239 \<and> cont_byte b1 \<and> cont_byte b2
          \<and> (b0 = 224 \<longrightarrow> 160 \<le> b1) \<and> (b0 = 237 \<longrightarrow> b1 \<le> 159)
       then Some ((b0 - 224) * 4096 + (b1 - 128) * 64 + (b2 - 128), 3) else None
   | _ \<Rightarrow> None)"

definition decode4 :: "nat \<Rightarrow> nat list \<Rightarrow> (rune \<times> nat) option" where
  "decode4 b0 bs = (case bs of
     b1 # b2 # b3 # _ \<Rightarrow>
       if 240 \<le> b0 \<and> b0 \<le> 244 \<and> cont_byte b1 \<and> cont_byte b2 \<and> cont_byte b3
          \<and> (b0 = 240 \<longrightarrow> 144 \<le> b1) \<and> (b0 = 244 \<longrightarrow> b1 \<le> 143)
       then Some ((b0 - 240) * 262144 + (b1 - 128) * 4096 + (b2 - 128) * 64 + (b3 - 128), 4)
       else None
   | _ \<Rightarrow> None)"

definition decode_rune :: "nat \<Rightarrow> nat list \<Rightarrow> rune \<times> nat" where
  "decode_rune b0 bs =
     (if b0 < 128 then (b0, 1)
      else case decode2 b0 bs of Some r \<Rightarrow> r
      | None \<Rightarrow> (case decode3 b0 bs of Some r \<Rightarrow> r
      | None \<Rightarrow> (case decode4 b0 bs of Some r \<Rightarrow> r
      | None \<Rightarrow> (rune_error, 1))))"

definition valid_rune :: "rune \<Rightarrow> bool" where
  "valid_rune r \<longleftrightarrow> r < 55296 \<or> 57344 \<le> r \<and> r \<le> 1114111"

text \<open>\<open>string(r)\<close> for a rune: UTF-8, U+FFFD for a value that is not one.\<close>

definition encode_rune :: "rune \<Rightarrow> nat list" where
  "encode_rune r =
     (if r < 128 then [r]
      else if r < 2048 then [192 + r div 64, 128 + r mod 64]
      else if \<not> valid_rune r then [239, 191, 189]
      else if r < 65536 then [224 + r div 4096, 128 + r div 64 mod 64, 128 + r mod 64]
      else [240 + r div 262144, 128 + r div 4096 mod 64, 128 + r div 64 mod 64, 128 + r mod 64])"

lemma decode_rune_width: "1 \<le> snd (decode_rune b bs) \<and> snd (decode_rune b bs) \<le> Suc (length bs)"
  by (auto simp: decode_rune_def decode2_def decode3_def decode4_def split: list.splits if_splits)

text \<open>The runes of a byte sequence, each with the bytes it was decoded from.\<close>

function rune_chunks :: "nat list \<Rightarrow> (rune \<times> nat list) list" where
  "rune_chunks [] = []"
| "rune_chunks (b # bs) =
     (let (r, w) = decode_rune b bs
      in (r, take w (b # bs)) # rune_chunks (drop w (b # bs)))"
  by pat_completeness auto
termination
proof (relation "measure length")
  fix b :: nat and bs :: "nat list" and x r w
  assume "x = decode_rune b bs" and "(r, w) = x"
  then have "1 \<le> w" using decode_rune_width [of b bs] by (metis snd_conv)
  then show "(drop w (b # bs), b # bs) \<in> measure length" by simp
qed simp

definition runes_of_bytes :: "nat list \<Rightarrow> rune list" where
  "runes_of_bytes bs = map fst (rune_chunks bs)"

definition runes :: "string \<Rightarrow> rune list" where
  "runes s = runes_of_bytes (bytes s)"

definition string_of_runes :: "rune list \<Rightarrow> string" where
  "string_of_runes rs = of_bytes (concat (map encode_rune rs))"

lemma concat_chunks: "concat (map snd (rune_chunks bs)) = bs"
  by (induction bs rule: rune_chunks.induct) (auto simp: Let_def split: prod.splits)

lemma length_runes_of_bytes: "length (runes_of_bytes bs) \<le> length bs"
proof (induction bs rule: rune_chunks.induct)
  case (2 b bs)
  obtain r w where rw: "decode_rune b bs = (r, w)" by fastforce
  with decode_rune_width [of b bs] have "1 \<le> w" by simp
  moreover from 2 rw have "length (runes_of_bytes (drop w (b # bs))) \<le> length (drop w (b # bs))"
    by simp
  ultimately show ?case using rw by (simp add: runes_of_bytes_def)
qed (simp add: runes_of_bytes_def)

lemma length_runes: "length (runes s) \<le> length s"
  using length_runes_of_bytes [of "bytes s"] by (simp add: runes_def)

lemma decode2_bound: "decode2 b bs = Some (r, w) \<Longrightarrow> 128 \<le> r \<and> r < 2048"
  by (auto simp: decode2_def cont_byte_def split: list.splits if_splits)

lemma decode3_bound:
  assumes "decode3 b bs = Some (r, w)"
  shows "128 \<le> r \<and> valid_rune r"
proof -
  from assms obtain b1 b2 where r: "r = (b - 224) * 4096 + (b1 - 128) * 64 + (b2 - 128)"
    and *: "224 \<le> b" "b \<le> 239" "cont_byte b1" "cont_byte b2"
      "b = 224 \<longrightarrow> 160 \<le> b1" "b = 237 \<longrightarrow> b1 \<le> 159"
    by (auto simp: decode3_def split: list.splits if_splits)
  consider "b = 224" | "225 \<le> b" "b \<le> 236" | "b = 237" | "238 \<le> b" using *(1,2) by linarith
  then show ?thesis using * unfolding r valid_rune_def cont_byte_def by cases auto
qed

lemma decode4_bound:
  assumes "decode4 b bs = Some (r, w)"
  shows "128 \<le> r \<and> valid_rune r"
proof -
  from assms obtain b1 b2 b3
    where r: "r = (b - 240) * 262144 + (b1 - 128) * 4096 + (b2 - 128) * 64 + (b3 - 128)"
    and *: "240 \<le> b" "b \<le> 244" "cont_byte b1" "cont_byte b2" "cont_byte b3"
      "b = 240 \<longrightarrow> 144 \<le> b1" "b = 244 \<longrightarrow> b1 \<le> 143"
    by (auto simp: decode4_def split: list.splits if_splits)
  consider "b = 240" | "241 \<le> b" "b \<le> 243" | "b = 244" using *(1,2) by linarith
  then show ?thesis using * unfolding r valid_rune_def cont_byte_def by cases auto
qed

lemma decode_rune_cases:
  assumes "decode_rune b bs = (r, w)"
  shows "b < 128 \<and> r = b \<or> 128 \<le> b \<and> 128 \<le> r \<and> valid_rune r"
proof -
  have "valid_rune rune_error" by (simp add: rune_error_def valid_rune_def)
  moreover have "128 \<le> rune_error" by (simp add: rune_error_def)
  moreover have "x < 2048 \<Longrightarrow> valid_rune x" for x by (simp add: valid_rune_def)
  ultimately show ?thesis using assms
    by (auto simp: decode_rune_def split: option.splits if_splits
        dest: decode2_bound decode3_bound decode4_bound)
qed

lemma decode_rune_valid: "decode_rune b bs = (r, w) \<Longrightarrow> valid_rune r"
  using decode_rune_cases [of b bs r w] by (auto simp: valid_rune_def)

lemma decode_rune_zero: "decode_rune b bs = (0, w) \<Longrightarrow> b = 0"
  using decode_rune_cases [of b bs 0 w] by auto

lemma runes_of_bytes_Cons:
  "decode_rune b bs = (r, w) \<Longrightarrow>
     runes_of_bytes (b # bs) = r # runes_of_bytes (drop w (b # bs))"
  by (simp add: runes_of_bytes_def)

lemma runes_valid: "r \<in> set (runes_of_bytes bs) \<Longrightarrow> valid_rune r"
proof (induction bs rule: rune_chunks.induct)
  case (2 b bs)
  obtain r' w where rw: "decode_rune b bs = (r', w)" by fastforce
  with "2.prems" consider "r = r'" | "r \<in> set (runes_of_bytes (drop w (b # bs)))"
    by (auto simp: runes_of_bytes_Cons)
  then show ?case
    using "2.IH" [OF rw [symmetric] refl] decode_rune_valid [OF rw] by cases auto
qed (simp add: runes_of_bytes_def)

lemma encode_rune_bytes: "valid_rune r \<Longrightarrow> \<forall>b \<in> set (encode_rune r). b < 256"
  by (auto simp: encode_rune_def valid_rune_def)

lemma base64_split:
  fixes r :: nat
  shows "r = r div 64 * 64 + r mod 64"
    and "r div 64 = r div 4096 * 64 + r div 64 mod 64"
    and "r div 4096 = r div 262144 * 64 + r div 4096 mod 64"
proof -
  have "r div 64 div 64 = r div 4096" and "r div 4096 div 64 = r div 262144"
    by (simp_all flip: div_mult2_eq)
  then show "r div 64 = r div 4096 * 64 + r div 64 mod 64"
    and "r div 4096 = r div 262144 * 64 + r div 4096 mod 64"
    using div_mult_mod_eq [of "r div 64" 64] div_mult_mod_eq [of "r div 4096" 64] by simp_all
qed simp

text \<open>Decoding an encoded rune gives it back, whatever follows.\<close>

lemma decode_encode:
  assumes "valid_rune r"
  shows "\<exists>b bs. encode_rune r = b # bs \<and> decode_rune b (bs @ rest) = (r, Suc (length bs))"
proof -
  consider "r < 128" | "128 \<le> r" "r < 2048" | "2048 \<le> r" "r < 65536" | "65536 \<le> r" by linarith
  then show ?thesis
  proof cases
    case 1
    then show ?thesis by (simp add: encode_rune_def decode_rune_def)
  next
    case 2
    define a where "a = r div 64"
    define c where "c = r mod 64"
    have r: "r = a * 64 + c" unfolding a_def c_def by presburger
    have bnd: "c < 64" by (simp add: c_def)
    from 2 r bnd have "2 \<le> a" "a \<le> 31" by linarith+
    with bnd have "decode_rune (192 + a) ([128 + c] @ rest) = (a * 64 + c, Suc (length [128 + c]))"
      by (simp add: decode_rune_def decode2_def cont_byte_def)
    moreover from 2 have "encode_rune r = [192 + a, 128 + c]"
      by (simp add: encode_rune_def a_def c_def)
    ultimately show ?thesis using r by blast
  next
    case 3
    define a where "a = r div 4096"
    define b where "b = r div 64 mod 64"
    define c where "c = r mod 64"
    have r: "r = a * 4096 + b * 64 + c"
      using base64_split [of r] unfolding a_def b_def c_def by linarith
    have bnd: "b < 64" "c < 64" "a < 16" using 3 by (auto simp: a_def b_def c_def)
    from 3 r bnd have lo: "a = 0 \<Longrightarrow> 32 \<le> b" by simp
    from assms 3 r bnd have su: "a = 13 \<longrightarrow> b \<le> 31" by (auto simp: valid_rune_def)
    show ?thesis using 3 assms bnd lo su
      by (simp add: encode_rune_def a_def [symmetric] b_def [symmetric] c_def [symmetric])
        (simp add: decode_rune_def decode2_def decode3_def cont_byte_def r)
  next
    case 4
    define a where "a = r div 262144"
    define b where "b = r div 4096 mod 64"
    define c where "c = r div 64 mod 64"
    define d where "d = r mod 64"
    have r: "r = a * 262144 + b * 4096 + c * 64 + d"
      using base64_split [of r] unfolding a_def b_def c_def d_def by linarith
    have bnd: "b < 64" "c < 64" "d < 64" by (auto simp: b_def c_def d_def)
    from 4 assms have "r \<le> 1114111" by (auto simp: valid_rune_def)
    then have a: "a \<le> 4" by (simp add: a_def)
    from 4 r bnd have lo: "a = 0 \<Longrightarrow> 16 \<le> b" by simp
    from \<open>r \<le> 1114111\<close> r have hi: "a = 4 \<longrightarrow> b \<le> 15" by simp
    show ?thesis using 4 assms bnd lo hi a
      by (simp add: encode_rune_def a_def [symmetric] b_def [symmetric] c_def [symmetric] d_def [symmetric])
        (simp add: decode_rune_def decode2_def decode3_def decode4_def cont_byte_def r)
  qed
qed

lemma chunks_encode:
  "valid_rune r \<Longrightarrow> rune_chunks (encode_rune r @ rest) = (r, encode_rune r) # rune_chunks rest"
  using decode_encode [of r rest] by auto

lemma runes_encode:
  "(\<forall>r \<in> set rs. valid_rune r) \<Longrightarrow> runes_of_bytes (concat (map encode_rune rs)) = rs"
  by (induction rs) (auto simp: runes_of_bytes_def chunks_encode)

lemma bytes_string_of_runes:
  "(\<forall>r \<in> set rs. valid_rune r) \<Longrightarrow> bytes (string_of_runes rs) = concat (map encode_rune rs)"
  using encode_rune_bytes by (force simp: string_of_runes_def intro!: bytes_of_bytes)

lemma runes_string_of_runes: "(\<forall>r \<in> set rs. valid_rune r) \<Longrightarrow> runes (string_of_runes rs) = rs"
  by (simp add: runes_def bytes_string_of_runes runes_encode)

lemma bytes_lt: "b \<in> set (bytes s) \<Longrightarrow> b < 256"
  by (auto simp: bytes_def)

lemma runes_all_valid: "r \<in> set (runes s) \<Longrightarrow> valid_rune r"
  unfolding runes_def by (rule runes_valid)

section \<open>Bounding and cleaning\<close>

definition Truncate :: "string \<Rightarrow> nat \<Rightarrow> string" where
  "Truncate s n =
     (if length s \<le> n then s
      else let r = runes s
           in if length r \<le> n then s else string_of_runes (take n r))"

definition clip :: "string \<Rightarrow> nat \<Rightarrow> string" where
  "clip s n =
     (if length s \<le> n then s
      else let r = runes s
           in if length r \<le> n then s else string_of_runes (take n r))"

definition drop_nul :: "string \<Rightarrow> string" where
  "drop_nul s = filter (\<lambda>c. c \<noteq> CHR 0x00) s"

definition clean :: "string \<Rightarrow> nat \<Rightarrow> string" where
  "clean s n = (let s' = (if CHR 0x00 \<in> set s then drop_nul s else s) in Truncate s' n)"

definition truncate_error :: "string \<Rightarrow> nat \<Rightarrow> string" where
  "truncate_error s n =
     (let s = drop_nul s
      in if length s \<le> n then s
         else let r = runes s
              in if length r \<le> n then s else string_of_runes (take n r))"

lemma runes_Truncate: "runes (Truncate s n) = take n (runes s)"
proof (cases "length (runes s) \<le> n")
  case True
  then show ?thesis by (simp add: Truncate_def Let_def)
next
  case False
  with length_runes [of s] have "\<not> length s \<le> n" by linarith
  moreover have "runes (string_of_runes (take n (runes s))) = take n (runes s)"
    by (rule runes_string_of_runes) (auto dest: in_set_takeD runes_all_valid)
  ultimately show ?thesis using False by (simp only: Truncate_def Let_def if_False)
qed

lemma Truncate_fixed: "length (runes s) \<le> n \<Longrightarrow> Truncate s n = s"
  by (simp add: Truncate_def Let_def)

lemma clip_Truncate: "clip s n = Truncate s n"
  by (simp add: clip_def Truncate_def)

lemma drop_nul_id: "CHR 0x00 \<notin> set s \<Longrightarrow> drop_nul s = s"
  by (induction s) (auto simp: drop_nul_def)

lemma drop_nul_free: "CHR 0x00 \<notin> set (drop_nul s)"
  by (simp add: drop_nul_def)

lemma clean_drop_nul: "clean s n = Truncate (drop_nul s) n"
  by (simp add: clean_def drop_nul_id)

lemma truncate_error_clean: "truncate_error s n = clean s n"
  by (simp only: truncate_error_def clean_drop_nul Truncate_def Let_def)

text \<open>A NUL byte decodes to, and is encoded from, the rune 0 only.\<close>

lemma zero_rune_byte: "0 \<in> set (runes_of_bytes bs) \<Longrightarrow> 0 \<in> set bs"
proof (induction bs rule: rune_chunks.induct)
  case (2 b bs)
  obtain r w where rw: "decode_rune b bs = (r, w)" by fastforce
  with "2.prems" consider "r = 0" | "0 \<in> set (runes_of_bytes (drop w (b # bs)))"
    by (auto simp: runes_of_bytes_Cons)
  then show ?case
  proof cases
    case 1
    with rw decode_rune_zero show ?thesis by auto
  next
    case 2
    then have "0 \<in> set (drop w (b # bs))" using "2.IH" [OF rw [symmetric] refl] by simp
    then show ?thesis by (rule in_set_dropD)
  qed
qed (simp add: runes_of_bytes_def)

lemma zero_byte_rune: "0 \<in> set (encode_rune r) \<Longrightarrow> r = 0"
  by (auto simp: encode_rune_def split: if_splits)

lemma nul_iff_bytes: "CHR 0x00 \<in> set s \<longleftrightarrow> 0 \<in> set (bytes s)"
proof -
  have "of_char (CHR 0x00) = (0 :: nat)" by simp
  then have "(of_char c = (0 :: nat)) = (c = CHR 0x00)" for c :: char
    by (metis of_char_eq_iff)
  then show ?thesis by (force simp: bytes_def)
qed

lemma Truncate_nul_free: "CHR 0x00 \<notin> set s \<Longrightarrow> CHR 0x00 \<notin> set (Truncate s n)"
proof -
  assume free: "CHR 0x00 \<notin> set s"
  let ?rs = "take n (runes s)"
  have v: "\<forall>r \<in> set ?rs. valid_rune r" by (auto dest: in_set_takeD runes_all_valid)
  have "0 \<notin> set (runes s)"
    using free zero_rune_byte by (auto simp: runes_def nul_iff_bytes)
  then have "0 \<notin> set (bytes (string_of_runes ?rs))"
    using zero_byte_rune by (auto simp: bytes_string_of_runes [OF v] dest: in_set_takeD)
  with free show ?thesis by (simp add: Truncate_def Let_def nul_iff_bytes)
qed

text \<open>What a cleaned string is: bounded in runes and free of NUL.\<close>

definition is_clean :: "nat \<Rightarrow> string \<Rightarrow> bool" where
  "is_clean n s \<longleftrightarrow> length (runes s) \<le> n \<and> CHR 0x00 \<notin> set s"

interpretation cleaned: normalizer "\<lambda>s. clean s n" "is_clean n" for n
proof unfold_locales
  show "is_clean n (clean s n)" for s
    by (simp add: is_clean_def clean_drop_nul runes_Truncate Truncate_nul_free drop_nul_free)
  show "is_clean n s \<Longrightarrow> clean s n = s" for s
    by (simp add: is_clean_def clean_drop_nul drop_nul_id Truncate_fixed)
qed

lemma is_clean_mono: "is_clean m s \<Longrightarrow> m \<le> n \<Longrightarrow> is_clean n s"
  by (simp add: is_clean_def)

lemma clean_is_clean [simp, intro]: "is_clean n (clean s n)"
  by (rule cleaned.canonical_f)

interpretation bounded: normalizer "\<lambda>s. Truncate s n" "\<lambda>s. length (runes s) \<le> n" for n
  by unfold_locales (simp_all add: runes_Truncate Truncate_fixed)

end
