(* ===== verification/GoStrings.thy ===== *)
theory GoStrings
  imports GoText
begin

text \<open>
  The functions of packages \<open>strings\<close>, \<open>bytes\<close>, \<open>strconv\<close> and \<open>encoding/hex\<close> the components call:
  prefix and substring tests, cutting, trimming and lower-casing over runes, positional numerals
  with their round trips.
\<close>

section \<open>Searching and cutting\<close>

definition has_prefix :: "string \<Rightarrow> string \<Rightarrow> bool" where
  "has_prefix s p = prefix p s"

definition has_suffix :: "string \<Rightarrow> string \<Rightarrow> bool" where
  "has_suffix s p = suffix p s"

fun contains :: "string \<Rightarrow> string \<Rightarrow> bool" where
  "contains [] sub = (sub = [])"
| "contains (c # s) sub = (prefix sub (c # s) \<or> contains s sub)"

lemma contains_sublist: "contains s sub \<longleftrightarrow> sublist sub s"
  by (induction s) (auto simp: sublist_Cons_right)

definition trim_prefix :: "string \<Rightarrow> string \<Rightarrow> string" where
  "trim_prefix s p = (if has_prefix s p then drop (length p) s else s)"

definition trim_suffix :: "string \<Rightarrow> string \<Rightarrow> string" where
  "trim_suffix s suf = (if has_suffix s suf then take (length s - length suf) s else s)"

text \<open>\<open>strings.Cut(s, sep)\<close> for a one-byte separator: before, after, found.\<close>

definition cut_byte :: "char \<Rightarrow> string \<Rightarrow> string \<times> string \<times> bool" where
  "cut_byte c s =
     (if c \<in> set s then (takeWhile (\<lambda>x. x \<noteq> c) s, tl (dropWhile (\<lambda>x. x \<noteq> c) s), True)
      else (s, [], False))"

lemma cut_byte_before: "fst (cut_byte c s) = takeWhile (\<lambda>x. x \<noteq> c) s"
proof -
  have "c \<notin> set s \<Longrightarrow> takeWhile (\<lambda>x. x \<noteq> c) s = s" by (induction s) auto
  then show ?thesis by (metis cut_byte_def fst_conv)
qed

lemma cut_byte_split: "c \<notin> set a \<Longrightarrow> cut_byte c (a @ c # b) = (a, b, True)"
proof -
  assume "c \<notin> set a"
  then have "takeWhile (\<lambda>x. x \<noteq> c) (a @ c # b) = a" and "dropWhile (\<lambda>x. x \<noteq> c) (a @ c # b) = c # b"
    by (induction a) auto
  then show ?thesis by (simp add: cut_byte_def)
qed

lemma cut_byte_none: "c \<notin> set s \<Longrightarrow> cut_byte c s = (s, [], False)"
  by (simp add: cut_byte_def)

lemma cut_byte_cases:
  "(\<exists>a b. s = a @ c # b \<and> c \<notin> set a \<and> cut_byte c s = (a, b, True))
   \<or> c \<notin> set s \<and> cut_byte c s = (s, [], False)"
  by (metis cut_byte_none cut_byte_split split_list_first)

text \<open>\<open>strings.LastIndexAny(p, cs)\<close> followed by slicing: what comes after the last of the bytes.\<close>

definition after_last_any :: "char list \<Rightarrow> string \<Rightarrow> string" where
  "after_last_any cs s = rev (takeWhile (\<lambda>c. c \<notin> set cs) (rev s))"

lemma after_last_any_free: "c \<in> set (after_last_any cs s) \<Longrightarrow> c \<notin> set cs"
  by (auto simp: after_last_any_def dest: set_takeWhileD)

lemma after_last_any_id: "set s \<inter> set cs = {} \<Longrightarrow> after_last_any cs s = s"
  by (subst after_last_any_def, subst takeWhile_eq_all_conv [THEN iffD2]) auto

lemma after_last_any_append:
  "c \<in> set cs \<Longrightarrow> after_last_any cs (a @ c # b) = after_last_any cs b"
  by (auto simp: after_last_any_def takeWhile_append takeWhile_tail takeWhile_eq_all_conv [THEN iffD2])

fun join :: "string \<Rightarrow> string list \<Rightarrow> string" where
  "join sep [] = []"
| "join sep [x] = x"
| "join sep (x # y # ys) = x @ sep @ join sep (y # ys)"

text \<open>\<open>strings.Split\<close> by one byte.\<close>

fun split_byte :: "char \<Rightarrow> string \<Rightarrow> string list" where
  "split_byte c [] = [[]]"
| "split_byte c (x # s) =
     (if x = c then [] # split_byte c s
      else (case split_byte c s of [] \<Rightarrow> [[x]] | p # ps \<Rightarrow> (x # p) # ps))"

lemma split_byte_free: "c \<notin> set s \<Longrightarrow> split_byte c s = [s]"
  by (induction s) auto

lemma split_byte_nonempty: "split_byte c s \<noteq> []"
  by (induction s) (auto split: list.split)

lemma split_byte_append: "c \<notin> set a \<Longrightarrow> split_byte c (a @ c # b) = a # split_byte c b"
  by (induction a) auto

section \<open>Trimming and case\<close>

definition is_space :: "rune \<Rightarrow> bool" where
  "is_space r \<longleftrightarrow> r \<in> {9, 10, 11, 12, 13, 32, 133, 160, 5760, 8232, 8233, 8239, 8287, 12288}
     \<or> 8192 \<le> r \<and> r \<le> 8202"

definition trim_chunks :: "(rune \<times> nat list) list \<Rightarrow> (rune \<times> nat list) list" where
  "trim_chunks cs =
     rev (dropWhile (\<lambda>c. is_space (fst c)) (rev (dropWhile (\<lambda>c. is_space (fst c)) cs)))"

definition trim_space :: "string \<Rightarrow> string" where
  "trim_space s = of_bytes (concat (map snd (trim_chunks (rune_chunks (bytes s)))))"

definition lower_rune :: "rune \<Rightarrow> rune" where
  "lower_rune r =
     (if 65 \<le> r \<and> r \<le> 90 then r + 32
      else if r < 128 then r
      else if 192 \<le> r \<and> r \<le> 222 \<and> r \<noteq> 215 then r + 32
      else if 913 \<le> r \<and> r \<le> 939 \<and> r \<noteq> 930 then r + 32
      else if 1024 \<le> r \<and> r \<le> 1039 then r + 80
      else if 1040 \<le> r \<and> r \<le> 1071 then r + 32
      else if r = 304 then 105
      else if r = 8490 then 107
      else r)"

definition to_lower :: "string \<Rightarrow> string" where
  "to_lower s = string_of_runes (map lower_rune (runes s))"

definition lower_char :: "char \<Rightarrow> char" where
  "lower_char c =
     (let n = of_char c :: nat in if 65 \<le> n \<and> n \<le> 90 then char_of (n + 32) else c)"

definition ascii :: "string \<Rightarrow> bool" where
  "ascii s \<longleftrightarrow> (\<forall>c \<in> set s. of_char c < (128 :: nat))"

lemma ascii_bytes: "ascii s \<longleftrightarrow> (\<forall>b \<in> set (bytes s). b < 128)"
  by (simp add: ascii_def bytes_def)

lemma ascii_chunks: "(\<forall>b \<in> set bs. b < 128) \<Longrightarrow> rune_chunks bs = map (\<lambda>b. (b, [b])) bs"
  by (induction bs) (simp_all add: decode_rune_def)

lemma ascii_runes: "ascii s \<Longrightarrow> runes s = bytes s"
  by (simp add: ascii_bytes runes_def runes_of_bytes_def ascii_chunks comp_def)

lemma string_of_runes_ascii: "(\<forall>r \<in> set rs. r < 128) \<Longrightarrow> string_of_runes rs = of_bytes rs"
proof -
  assume "\<forall>r \<in> set rs. r < 128"
  then have "concat (map encode_rune rs) = rs" by (induction rs) (auto simp: encode_rune_def)
  then show ?thesis by (simp add: string_of_runes_def)
qed

lemma to_lower_ascii: "ascii s \<Longrightarrow> to_lower s = map lower_char s"
proof -
  assume a: "ascii s"
  then have "\<forall>r \<in> set (map lower_rune (bytes s)). r < 128"
    by (auto simp: ascii_bytes lower_rune_def)
  then have "to_lower s = of_bytes (map lower_rune (bytes s))"
    using a by (simp add: to_lower_def ascii_runes string_of_runes_ascii)
  also have "\<dots> = map lower_char s"
    using a by (auto simp: of_bytes_def bytes_def lower_rune_def lower_char_def ascii_def Let_def)
  finally show ?thesis .
qed

definition space_char :: "char \<Rightarrow> bool" where
  "space_char c \<longleftrightarrow> is_space (of_char c)"

lemma trim_space_ascii:
  assumes "ascii s"
  shows "trim_space s = rev (dropWhile space_char (rev (dropWhile space_char s)))"
proof -
  let ?f = "\<lambda>c :: char. (of_char c :: nat, [of_char c :: nat])"
  have "rune_chunks (bytes s) = map ?f s"
    using assms by (simp add: ascii_bytes ascii_chunks) (simp add: bytes_def comp_def)
  then have "trim_chunks (rune_chunks (bytes s)) =
      map ?f (rev (dropWhile space_char (rev (dropWhile space_char s))))"
    by (simp add: trim_chunks_def dropWhile_map comp_def rev_map space_char_def [abs_def])
  then show ?thesis by (simp add: trim_space_def of_bytes_def comp_def concat_map_singleton)
qed

text \<open>Equations that evaluate: ASCII text needs no decoding.\<close>

lemma ascii_code [code]: "ascii s \<longleftrightarrow> list_all (\<lambda>c. \<not> digit7 c) s"
proof -
  have "(of_char c < (128 :: nat)) = (\<not> digit7 c)" for c
    by (cases c) (simp add: of_char_def)
  then show ?thesis by (simp add: ascii_def list_all_iff)
qed

lemma space_char_code [code]:
  "space_char c \<longleftrightarrow> c = CHR '' '' \<or> c = CHR 0x09 \<or> c = CHR 0x0A \<or> c = CHR 0x0B \<or> c = CHR 0x0C
     \<or> c = CHR 0x0D \<or> c = CHR 0x85 \<or> c = CHR 0xA0"
proof -
  have eq: "(of_char c = n) = (c = char_of n)" if "n < 256" for n :: nat
    using that char_of_eq_iff [of n c] by (auto simp: take_bit_eq_mod)
  have lt: "(of_char c :: nat) < 256" by simp
  have ne: "of_char c \<noteq> n" if "256 \<le> n" for n :: nat using lt that by linarith
  have "\<not> (8192 :: nat) \<le> of_char c" using lt by linarith
  then show ?thesis
    unfolding space_char_def is_space_def insert_iff empty_iff
    by (simp add: eq ne char_of_def bit_iff_odd del: One_nat_def) blast
qed

lemma trim_space_code [code]:
  "trim_space s =
     (if ascii s then rev (dropWhile space_char (rev (dropWhile space_char s)))
      else of_bytes (concat (map snd (trim_chunks (rune_chunks (bytes s))))))"
  by (simp add: trim_space_ascii) (simp add: trim_space_def)

lemma trim_space_fixed:
  assumes "ascii s" and "s = [] \<or> \<not> space_char (hd s) \<and> \<not> space_char (last s)"
  shows "trim_space s = s"
proof (cases "s = []")
  case True
  then show ?thesis by (simp add: trim_space_ascii ascii_def)
next
  case False
  with assms(2) have "dropWhile space_char s = s" by (cases s) auto
  moreover from False assms(2) have "dropWhile space_char (rev s) = rev s"
    by (cases s rule: rev_cases) auto
  ultimately show ?thesis using assms(1) by (simp add: trim_space_ascii)
qed

section \<open>Numerals\<close>

function nat_digits :: "nat \<Rightarrow> nat \<Rightarrow> nat list" where
  "nat_digits b n = (if b < 2 \<or> n < b then [n] else nat_digits b (n div b) @ [n mod b])"
  by pat_completeness auto
termination by (relation "measure snd") auto

declare nat_digits.simps [simp del]

definition nat_of_digits :: "nat \<Rightarrow> nat list \<Rightarrow> nat" where
  "nat_of_digits b ds = foldl (\<lambda>a d. a * b + d) 0 ds"

lemma nat_of_digits_snoc: "nat_of_digits b (ds @ [d]) = nat_of_digits b ds * b + d"
  by (simp add: nat_of_digits_def)

lemma nat_of_nat_digits: "nat_of_digits b (nat_digits b n) = n"
proof (induction b n rule: nat_digits.induct)
  case (1 b n)
  show ?case
  proof (cases "b < 2 \<or> n < b")
    case True
    then show ?thesis by (simp add: nat_digits.simps [of b n] nat_of_digits_def)
  next
    case False
    with 1 show ?thesis by (simp add: nat_digits.simps [of b n] nat_of_digits_snoc)
  qed
qed

lemma nat_digits_lt: "2 \<le> b \<Longrightarrow> d \<in> set (nat_digits b n) \<Longrightarrow> d < b"
proof (induction b n rule: nat_digits.induct)
  case (1 b n)
  then show ?case by (auto simp: nat_digits.simps [of b n] split: if_splits)
qed

lemma nat_digits_nonempty [simp]: "nat_digits b n \<noteq> []"
  by (simp add: nat_digits.simps [of b n])

definition digit_char :: "nat \<Rightarrow> char" where
  "digit_char d = (if d < 10 then char_of (48 + d) else char_of (87 + d))"

definition digit_val :: "char \<Rightarrow> nat option" where
  "digit_val c = (let n = of_char c :: nat in
     if 48 \<le> n \<and> n \<le> 57 then Some (n - 48)
     else if 97 \<le> n \<and> n \<le> 102 then Some (n - 87)
     else if 65 \<le> n \<and> n \<le> 70 then Some (n - 55)
     else None)"

definition is_hex :: "char \<Rightarrow> bool" where
  "is_hex c \<longleftrightarrow> digit_val c \<noteq> None"

definition lower_hex :: "char \<Rightarrow> bool" where
  "lower_hex c \<longleftrightarrow> is_hex c \<and> \<not> (65 \<le> (of_char c :: nat) \<and> (of_char c :: nat) \<le> 70)"

lemma digit_val_char: "d < 16 \<Longrightarrow> digit_val (digit_char d) = Some d"
  by (auto simp: digit_val_def digit_char_def Let_def)

lemma digit_val_lt: "digit_val c = Some d \<Longrightarrow> d < 16"
  by (auto simp: digit_val_def Let_def split: if_splits)

lemma lower_hex_digit_char: "d < 16 \<Longrightarrow> lower_hex (digit_char d)"
  by (auto simp: lower_hex_def is_hex_def digit_val_char) (auto simp: digit_char_def split: if_splits)

definition format_hex :: "nat \<Rightarrow> string" where
  "format_hex n = map digit_char (nat_digits 16 n)"

definition itoa :: "nat \<Rightarrow> string" where
  "itoa n = map digit_char (nat_digits 10 n)"

definition itoa_int :: "int \<Rightarrow> string" where
  "itoa_int i = (if i < 0 then CHR ''-'' # itoa (nat (- i)) else itoa (nat i))"

text \<open>The digits of a numeral, \<open>None\<close> when a character is not a digit of the base.\<close>

fun digit_vals :: "nat \<Rightarrow> string \<Rightarrow> nat list option" where
  "digit_vals b [] = Some []"
| "digit_vals b (c # s) = (case digit_val c of
     Some d \<Rightarrow> if d < b then map_option (Cons d) (digit_vals b s) else None
   | None \<Rightarrow> None)"

lemma digit_vals_map: "b \<le> 16 \<Longrightarrow> (\<forall>d \<in> set ds. d < b) \<Longrightarrow> digit_vals b (map digit_char ds) = Some ds"
  by (induction ds) (auto simp: digit_val_char)

text \<open>\<open>strconv.ParseUint(s, base, 64)\<close>: digits only, at least one, below \<open>2 ^ 64\<close>.\<close>

definition parse_uint :: "nat \<Rightarrow> string \<Rightarrow> nat option" where
  "parse_uint b s =
     (if s = [] then None
      else case digit_vals b s of None \<Rightarrow> None
      | Some ds \<Rightarrow> let n = nat_of_digits b ds in if n < 2 ^ 64 then Some n else None)"

text \<open>\<open>strconv.Atoi\<close>: an optional sign, digits, in the range of a 64-bit integer.\<close>

definition atoi :: "string \<Rightarrow> int option" where
  "atoi s =
     (let (neg, ds) = (case s of c # r \<Rightarrow> if c = CHR ''-'' then (True, r)
                                     else if c = CHR ''+'' then (False, r) else (False, s)
                      | [] \<Rightarrow> (False, s))
      in if ds = [] then None
         else case digit_vals 10 ds of None \<Rightarrow> None
         | Some vs \<Rightarrow>
             let n = int (nat_of_digits 10 vs); v = (if neg then - n else n)
             in if - (2 ^ 63) \<le> v \<and> v < 2 ^ 63 then Some v else None)"

lemma parse_uint_lt: "parse_uint b s = Some n \<Longrightarrow> n < 2 ^ 64"
  by (auto simp: parse_uint_def Let_def split: if_splits option.splits)

lemma parse_uint_format_hex: "n < 2 ^ 64 \<Longrightarrow> parse_uint 16 (format_hex n) = Some n"
proof -
  assume n: "n < 2 ^ 64"
  have "digit_vals 16 (format_hex n) = Some (nat_digits 16 n)"
    unfolding format_hex_def by (rule digit_vals_map) (auto dest: nat_digits_lt [rotated])
  with n show ?thesis by (simp add: parse_uint_def format_hex_def nat_of_nat_digits)
qed

lemma digit_vals_itoa: "digit_vals 10 (itoa n) = Some (nat_digits 10 n)"
  unfolding itoa_def by (rule digit_vals_map) (auto dest: nat_digits_lt [rotated])

lemma itoa_head: "\<exists>c s. itoa n = c # s \<and> c \<noteq> CHR ''-'' \<and> c \<noteq> CHR ''+''"
proof -
  obtain c s where cs: "itoa n = c # s" by (cases "itoa n") (auto simp: itoa_def)
  from digit_vals_itoa [of n] cs have "digit_val c \<noteq> None" by (auto split: option.splits)
  then have "c \<noteq> CHR ''-'' \<and> c \<noteq> CHR ''+''" by (auto simp: digit_val_def)
  with cs show ?thesis by blast
qed

lemma atoi_itoa: "- (2 ^ 63) \<le> i \<Longrightarrow> i < 2 ^ 63 \<Longrightarrow> atoi (itoa_int i) = Some i"
proof (cases "i < 0")
  case True
  assume "- (2 ^ 63) \<le> i" and "i < 2 ^ 63"
  with True show ?thesis
    by (simp add: atoi_def itoa_int_def digit_vals_itoa nat_of_nat_digits Let_def)
      (simp add: itoa_def)
next
  case False
  assume "- (2 ^ 63) \<le> i" and "i < 2 ^ 63"
  obtain c s where cs: "itoa (nat i) = c # s" "c \<noteq> CHR ''-''" "c \<noteq> CHR ''+''"
    using itoa_head by blast
  with False \<open>i < 2 ^ 63\<close> \<open>- (2 ^ 63) \<le> i\<close> digit_vals_itoa [of "nat i"] show ?thesis
    by (simp add: atoi_def itoa_int_def nat_of_nat_digits Let_def)
qed

section \<open>Hexadecimal text of bytes\<close>

definition hex_byte :: "nat \<Rightarrow> string" where
  "hex_byte b = [digit_char (b div 16), digit_char (b mod 16)]"

definition hex_encode :: "nat list \<Rightarrow> string" where
  "hex_encode bs = concat (map hex_byte bs)"

fun hex_decode :: "string \<Rightarrow> nat list option" where
  "hex_decode [] = Some []"
| "hex_decode [c] = None"
| "hex_decode (c # d # s) = (case (digit_val c, digit_val d, hex_decode s) of
     (Some h, Some l, Some bs) \<Rightarrow> Some ((16 * h + l) # bs)
   | _ \<Rightarrow> None)"

lemma hex_decode_encode: "(\<forall>b \<in> set bs. b < 256) \<Longrightarrow> hex_decode (hex_encode bs) = Some bs"
  by (induction bs) (auto simp: hex_encode_def hex_byte_def digit_val_char)

lemma length_hex_encode [simp]: "length (hex_encode bs) = 2 * length bs"
  by (induction bs) (auto simp: hex_encode_def hex_byte_def)

lemma hex_encode_lower: "(\<forall>b \<in> set bs. b < 256) \<Longrightarrow> \<forall>c \<in> set (hex_encode bs). lower_hex c"
  by (induction bs) (auto simp: hex_encode_def hex_byte_def lower_hex_digit_char)

lemma hex_decode_Some_iff: "(\<exists>bs. hex_decode s = Some bs) \<longleftrightarrow> even (length s) \<and> (\<forall>c \<in> set s. is_hex c)"
  by (induction s rule: hex_decode.induct) (auto simp: is_hex_def split: option.splits)

lemma hex_decode_length: "hex_decode s = Some bs \<Longrightarrow> length s = 2 * length bs"
  by (induction s arbitrary: bs rule: hex_decode.induct) (auto split: option.splits)

lemma hex_decode_bytes: "hex_decode s = Some bs \<Longrightarrow> b \<in> set bs \<Longrightarrow> b < 256"
  by (induction s arbitrary: bs rule: hex_decode.induct)
    (auto dest!: digit_val_lt split: option.splits)

lemma digit_char_val: "lower_hex c \<Longrightarrow> digit_val c = Some d \<Longrightarrow> digit_char d = c"
  by (auto simp: lower_hex_def digit_val_def digit_char_def Let_def split: if_splits)

lemma hex_encode_decode:
  "(\<forall>c \<in> set s. lower_hex c) \<Longrightarrow> hex_decode s = Some bs \<Longrightarrow> hex_encode bs = s"
proof (induction s arbitrary: bs rule: hex_decode.induct)
  case (3 c d s)
  then obtain h l cs where "digit_val c = Some h" "digit_val d = Some l" "hex_decode s = Some cs"
    and "bs = (16 * h + l) # cs" by (auto split: option.splits)
  moreover from this have "l < 16" by (simp add: digit_val_lt)
  ultimately show ?case using 3
    by (simp add: hex_encode_def hex_byte_def digit_char_val)
qed (auto simp: hex_encode_def)

lemma lower_hex_facts:
  assumes "lower_hex c"
  shows "lower_char c = c" and "of_char c < (128 :: nat)" and "\<not> space_char c" and "c \<noteq> CHR ''-''"
  using assms
  by (auto simp: lower_hex_def is_hex_def digit_val_def lower_char_def Let_def space_char_def is_space_def
      split: if_splits)

lemma is_hex_lower_char: "is_hex c \<Longrightarrow> lower_hex (lower_char c)"
  by (auto simp: is_hex_def lower_hex_def lower_char_def digit_val_def Let_def split: if_splits)

section \<open>LIKE patterns\<close>

text \<open>\<open>store.escapeLike\<close>: a backslash before each character that is special in a pattern.\<close>

definition backslash :: char where "backslash = char_of (92 :: nat)"

definition like_special :: "char \<Rightarrow> bool" where
  "like_special c \<longleftrightarrow> c = backslash \<or> c = CHR ''%'' \<or> c = CHR ''_''"

definition escapeLike :: "string \<Rightarrow> string" where
  "escapeLike s = concat (map (\<lambda>c. if like_special c then [backslash, c] else [c]) s)"

text \<open>Reading a pattern that has no live wildcard: \<open>None\<close> when there is one.\<close>

fun literal_pattern :: "string \<Rightarrow> string option" where
  "literal_pattern [] = Some []"
| "literal_pattern [c] = (if like_special c then None else Some [c])"
| "literal_pattern (c # d # s) =
     (if c = backslash then map_option (Cons d) (literal_pattern s)
      else if like_special c then None
      else map_option (Cons c) (literal_pattern (d # s)))"

lemma literal_pattern_Cons:
  "c \<noteq> backslash \<Longrightarrow> \<not> like_special c \<Longrightarrow> literal_pattern (c # s) = map_option (Cons c) (literal_pattern s)"
  by (cases s) auto

lemma literal_escapeLike: "literal_pattern (escapeLike s) = Some s"
proof (induction s)
  case (Cons c s)
  then show ?case
  proof (cases "like_special c")
    case False
    then have "c \<noteq> backslash" by (simp add: like_special_def)
    with False Cons show ?thesis by (simp add: escapeLike_def literal_pattern_Cons)
  qed (simp add: escapeLike_def)
qed (simp add: escapeLike_def)

end
