(* ===== verification/Ids.thy ===== *)
theory Ids
  imports Sha256
begin

text \<open>
  \<open>internal/sentry/id.go\<close> and \<open>internal/sentry/platform.go\<close>: the 128-bit identifiers events,
  issues and check-ins are keyed by, their parsing, derivation and conversion to a Postgres UUID;
  the platform families.
\<close>

section \<open>Identifiers\<close>

type_synonym id_text = string

definition ParseID :: "string \<Rightarrow> id_text option" where
  "ParseID s =
     (let s1 = to_lower (trim_space s);
          s2 = (if length s1 = 36 then filter (\<lambda>c. c \<noteq> CHR ''-'') s1 else s1)
      in if length s2 \<noteq> 32 then None
         else case hex_decode s2 of None \<Rightarrow> None | Some _ \<Rightarrow> Some s2)"

definition DerivedID :: "string \<Rightarrow> id_text" where
  "DerivedID seed = hex_encode (take 16 (sha256 (bytes seed)))"

datatype id_error = InvalidID string

definition UnmarshalText :: "string \<Rightarrow> id_error + id_text" where
  "UnmarshalText b =
     (if b = [] then Inr []
      else case ParseID b of None \<Rightarrow> Inl (InvalidID b) | Some v \<Rightarrow> Inr v)"

definition Ptr :: "id_text \<Rightarrow> id_text option" where
  "Ptr i = (if i = [] then None else Some i)"

record pg_uuid =
  uuid_bytes :: "nat list"
  uuid_valid :: bool

definition ScanUUID :: "pg_uuid \<Rightarrow> id_text" where
  "ScanUUID v = (if \<not> uuid_valid v then [] else hex_encode (uuid_bytes v))"

definition UUIDValue :: "id_text \<Rightarrow> id_error + pg_uuid" where
  "UUIDValue i =
     (if i = [] then Inr \<lparr>uuid_bytes = replicate 16 0, uuid_valid = False\<rparr>
      else case hex_decode i of
        None \<Rightarrow> Inl (InvalidID i)
      | Some b \<Rightarrow> if length b \<noteq> 16 then Inl (InvalidID i)
                  else Inr \<lparr>uuid_bytes = b, uuid_valid = True\<rparr>)"

text \<open>The canonical form: 32 lower-case hexadecimal characters.\<close>

definition valid_id :: "id_text \<Rightarrow> bool" where
  "valid_id i \<longleftrightarrow> length i = 32 \<and> (\<forall>c \<in> set i. lower_hex c)"

lemma lower_rune_not_upper: "\<not> (65 \<le> lower_rune r \<and> lower_rune r \<le> 90)"
  by (auto simp: lower_rune_def)

lemma encode_rune_ascii: "b \<in> set (encode_rune r) \<Longrightarrow> b < 128 \<Longrightarrow> b = r"
  by (auto simp: encode_rune_def split: if_splits)

lemma to_lower_not_upper:
  assumes "c \<in> set (to_lower s)"
  shows "\<not> (65 \<le> (of_char c :: nat) \<and> (of_char c :: nat) \<le> 90)"
proof
  assume up: "65 \<le> (of_char c :: nat) \<and> (of_char c :: nat) \<le> 90"
  from assms obtain r b where c: "c = char_of b" and b: "b \<in> set (encode_rune (lower_rune r))"
    and r: "r \<in> set (runes s)"
    by (auto simp: to_lower_def string_of_runes_def of_bytes_def)
  have "valid_rune (lower_rune r)"
    using runes_all_valid [OF r] by (auto simp: valid_rune_def lower_rune_def)
  then have "b < 256" using b encode_rune_bytes by blast
  with c up have "65 \<le> b \<and> b \<le> 90" by simp
  with encode_rune_ascii [OF b] lower_rune_not_upper [of r] show False by auto
qed

lemma ParseID_valid: "ParseID s = Some i \<Longrightarrow> valid_id i"
proof -
  assume p: "ParseID s = Some i"
  then obtain bs where i: "set i \<subseteq> set (to_lower (trim_space s))" "length i = 32" "hex_decode i = Some bs"
    by (auto simp: ParseID_def Let_def split: option.splits if_splits)
  then have "\<forall>c \<in> set i. is_hex c" using hex_decode_Some_iff by blast
  with i to_lower_not_upper show ?thesis by (fastforce simp: valid_id_def lower_hex_def)
qed

lemma hex_text_plain:
  assumes "\<forall>c \<in> set s. lower_hex c \<or> c = CHR ''-''"
  shows "to_lower (trim_space s) = s"
proof -
  have a: "ascii s" using assms lower_hex_facts(2) by (auto simp: ascii_def)
  have "\<not> space_char c" if "c \<in> set s" for c
    using assms that lower_hex_facts(3) by (auto simp: space_char_def is_space_def)
  then have "trim_space s = s" using a by (intro trim_space_fixed) (auto simp: neq_Nil_conv)
  moreover have "map lower_char s = s"
    using assms lower_hex_facts(1) by (intro map_idI) (auto simp: lower_char_def)
  ultimately show ?thesis using a by (simp add: to_lower_ascii)
qed

lemma valid_id_hex: "valid_id i \<Longrightarrow> \<exists>bs. hex_decode i = Some bs \<and> length bs = 16"
  using hex_decode_Some_iff [of i] hex_decode_length [of i]
  by (auto simp: valid_id_def lower_hex_def)

lemma ParseID_fixed: "valid_id i \<Longrightarrow> ParseID i = Some i"
  using hex_text_plain [of i] valid_id_hex [of i] by (auto simp: ParseID_def valid_id_def)

text \<open>
  The parser as a normaliser of the identifiers it accepts: the ids of the program are the fixed
  points of \<open>ParseID\<close>. (A text it refuses is replaced by an id derived from it, as for events.)
\<close>

definition id_or_derived :: "string \<Rightarrow> id_text" where
  "id_or_derived s = (case ParseID s of Some i \<Rightarrow> i | None \<Rightarrow> DerivedID s)"

lemma DerivedID_valid: "valid_id (DerivedID seed)"
proof -
  have "\<forall>b \<in> set (take 16 (sha256 (bytes seed))). b < 256"
    by (auto dest: in_set_takeD sha256_bytes)
  then show ?thesis
    by (auto simp: valid_id_def DerivedID_def length_sha256 dest: hex_encode_lower)
qed

interpretation ids: normalizer id_or_derived valid_id
  by unfold_locales (auto simp: id_or_derived_def DerivedID_valid ParseID_fixed split: option.splits dest: ParseID_valid)

text \<open>A UUID in its dashed form, as Postgres renders it.\<close>

definition dashed :: "id_text \<Rightarrow> string" where
  "dashed i = take 8 i @ ''-'' @ take 4 (drop 8 i) @ ''-'' @ take 4 (drop 12 i) @ ''-''
     @ take 4 (drop 16 i) @ ''-'' @ drop 20 i"

lemma filter_dash_id: "(\<forall>c \<in> set s. lower_hex c) \<Longrightarrow> filter (\<lambda>c. c \<noteq> CHR ''-'') s = s"
  by (intro filter_True) (auto dest: lower_hex_facts(4))

lemma ParseID_dashed: "valid_id i \<Longrightarrow> ParseID (dashed i) = Some i"
proof -
  assume v: "valid_id i"
  have hx: "\<forall>c \<in> set (take m (drop n i)). lower_hex c" "\<forall>c \<in> set (take m i). lower_hex c"
    "\<forall>c \<in> set (drop n i). lower_hex c" for m n
    using v by (auto simp: valid_id_def dest: in_set_takeD in_set_dropD)
  have "take 8 i @ take 4 (drop 8 i) @ take 4 (drop 12 i) @ take 4 (drop 16 i) @ drop 20 i = i"
    using append_take_drop_id [of 8 i] append_take_drop_id [of 4 "drop 8 i"]
      append_take_drop_id [of 4 "drop 12 i"] append_take_drop_id [of 4 "drop 16 i"] by simp
  then have f: "filter (\<lambda>c. c \<noteq> CHR ''-'') (dashed i) = i"
    by (simp add: dashed_def filter_dash_id hx)
  have l: "length (dashed i) = 36" using v by (simp add: dashed_def valid_id_def)
  have "to_lower (trim_space (dashed i)) = dashed i"
    using hx by (intro hex_text_plain) (auto simp: dashed_def)
  with f l v valid_id_hex [OF v] show ?thesis by (auto simp: ParseID_def valid_id_def)
qed

lemma UUIDValue_valid:
  assumes "valid_id i"
  shows "\<exists>u. UUIDValue i = Inr u \<and> uuid_valid u \<and> length (uuid_bytes u) = 16 \<and> ScanUUID u = i"
proof -
  obtain bs where bs: "hex_decode i = Some bs" "length bs = 16" using valid_id_hex [OF assms] by blast
  moreover have "hex_encode bs = i" using assms bs(1) hex_encode_decode by (simp add: valid_id_def)
  moreover have "i \<noteq> []" using assms by (auto simp: valid_id_def)
  ultimately show ?thesis by (simp add: UUIDValue_def ScanUUID_def)
qed

section \<open>Platform families\<close>

definition Families :: "string list" where
  "Families = [''ios'', ''android'', ''flutter'', ''react-native'', ''web'', ''backend'', ''other'']"

definition IsFamily :: "string \<Rightarrow> bool" where
  "IsFamily s \<longleftrightarrow> s \<in> set Families"

definition Family :: "string \<Rightarrow> string \<Rightarrow> string" where
  "Family platform sdkName =
     (let sdk = to_lower sdkName; pl = to_lower platform in
      if contains sdk ''flutter'' then ''flutter''
      else if contains sdk ''react-native'' \<or> contains sdk ''reactnative'' then ''react-native''
      else if contains sdk ''.android'' \<or> has_suffix sdk ''android'' then ''android''
      else if pl \<in> {''cocoa'', ''ios'', ''macos'', ''swift'', ''objc'', ''apple''} then ''ios''
      else if pl = ''android'' then ''android''
      else if pl = ''javascript'' then
        (if sdk = [] \<or> contains sdk ''browser'' \<or> contains sdk ''react'' \<or> contains sdk ''vue''
            \<or> contains sdk ''angular'' \<or> contains sdk ''svelte'' \<or> contains sdk ''nextjs''
            \<or> contains sdk ''astro''
         then ''web'' else ''backend'')
      else if pl = ''java'' then ''backend''
      else if pl \<in> {''node'', ''go'', ''python'', ''csharp'', ''ruby'', ''php'', ''elixir'', ''rust'',
                   ''perl'', ''native'', ''powershell'', ''dotnet''} then ''backend''
      else if pl = ''other'' \<and> contains sdk ''dart'' then ''backend''
      else ''other'')"

definition Accepts :: "string \<Rightarrow> string \<Rightarrow> bool" where
  "Accepts project event =
     (if project = [] \<or> project = ''other'' \<or> project = event then True
      else if project = ''flutter'' then event \<in> {''ios'', ''android'', ''other''}
      else if project = ''react-native'' then event \<in> {''ios'', ''android'', ''web''}
      else False)"

lemma Family_IsFamily: "IsFamily (Family p s)"
  by (simp add: Family_def Let_def IsFamily_def Families_def)

lemma Accepts_refl: "Accepts f f"
  by (simp add: Accepts_def)

end
