(* ===== verification/Events.thy ===== *)
theory Events
  imports Ids
begin

text \<open>
  The parsed data of \<open>internal/sentry/envelope.go\<close> (lines 17-150): breadcrumbs, frames,
  exceptions, debug images, the event itself, sessions and attachments, with their accessors, the
  choice of the main exception and of the thread whose stack stands in for it.
\<close>

section \<open>Records\<close>

record frame =
  fr_filename :: string
  fr_abs_path :: string
  fr_function :: string
  fr_module :: string
  fr_package :: string
  fr_lineno :: int
  fr_colno :: int
  fr_in_app :: "bool option"
  fr_instr_addr :: string
  fr_image_addr :: string
  fr_symbol_addr :: string

record sentry_exception =
  ex_type :: string
  ex_value :: string
  ex_frames :: "frame list"
  ex_handled :: "bool option"
  ex_mechanism :: string
  ex_id :: "int option"
  ex_parent :: "int option"

record debug_image =
  im_type :: string
  im_debug_id :: string
  im_uuid :: string
  im_code_file :: string
  im_image_addr :: string
  im_image_size :: int

record breadcrumb =
  bc_timestamp :: string
  bc_type :: string
  bc_category :: string
  bc_message :: string
  bc_level :: string
  bc_data :: string

text \<open>\<open>ev_tags\<close> lists the entries of the Go map, in the order an iteration would visit them.\<close>

record event =
  ev_id :: id_text
  ev_time :: time
  ev_level :: string
  ev_message :: string
  ev_platform :: string
  ev_environment :: string
  ev_release :: string
  ev_os_version :: string
  ev_device_model :: string
  ev_transaction :: string
  ev_error_type :: string
  ev_handled :: "bool option"
  ev_sdk_name :: string
  ev_user_id :: string
  ev_tags :: "(string \<times> string) list"
  ev_breadcrumbs :: "breadcrumb list"
  ev_exceptions :: "sentry_exception list"
  ev_images :: "debug_image list"
  ev_sdk_fingerprint :: "string list"
  ev_primary :: nat
  ev_thread_frames :: "frame list"
  ev_clamped :: bool
  ev_raw :: string

record session =
  se_sid :: string
  se_release :: string
  se_environment :: string
  se_status :: string
  se_started :: time
  se_count :: int

record attachment =
  at_filename :: string
  at_content_type :: string
  at_type :: string
  at_data :: string

text \<open>The zero values of the structs: what a field has that the SDK does not send.\<close>

definition frame0 :: frame where
  "frame0 = \<lparr>fr_filename = [], fr_abs_path = [], fr_function = [], fr_module = [], fr_package = [],
     fr_lineno = 0, fr_colno = 0, fr_in_app = None, fr_instr_addr = [], fr_image_addr = [],
     fr_symbol_addr = []\<rparr>"

definition image0 :: debug_image where
  "image0 = \<lparr>im_type = [], im_debug_id = [], im_uuid = [], im_code_file = [], im_image_addr = [],
     im_image_size = 0\<rparr>"

definition event0 :: event where
  "event0 = \<lparr>ev_id = [], ev_time = zero_time, ev_level = [], ev_message = [], ev_platform = [],
     ev_environment = [], ev_release = [], ev_os_version = [], ev_device_model = [],
     ev_transaction = [], ev_error_type = [], ev_handled = None, ev_sdk_name = [], ev_user_id = [],
     ev_tags = [], ev_breadcrumbs = [], ev_exceptions = [], ev_images = [], ev_sdk_fingerprint = [],
     ev_primary = 0, ev_thread_frames = [], ev_clamped = False, ev_raw = []\<rparr>"

section \<open>Accessors\<close>

definition IsInApp :: "frame \<Rightarrow> bool" where
  "IsInApp f \<longleftrightarrow> fr_in_app f = Some True"

text \<open>\<open>m[k]\<close> on a Go map of strings: the zero value when absent.\<close>

definition tag_value :: "(string \<times> string) list \<Rightarrow> string \<Rightarrow> string" where
  "tag_value m k = (case map_of m k of None \<Rightarrow> [] | Some v \<Rightarrow> v)"

definition DeviceID :: "event \<Rightarrow> string" where
  "DeviceID e = tag_value (ev_tags e) ''device_id''"

definition IsUnhandled :: "event \<Rightarrow> bool" where
  "IsUnhandled e \<longleftrightarrow> ev_handled e = Some False"

text \<open>
  \<open>e.Exceptions[e.Primary]\<close> panics when \<open>Primary\<close> is out of range; \<open>Frames\<close> is \<open>None\<close> then. For the
  events \<open>ParseEvent\<close> builds this does not happen (\<open>mainException_lt\<close>).
\<close>

definition Frames :: "event \<Rightarrow> frame list option" where
  "Frames e =
     (if ev_exceptions e = [] then Some (ev_thread_frames e)
      else if ev_primary e < length (ev_exceptions e)
           then Some (ex_frames (ev_exceptions e ! ev_primary e)) else None)"

text \<open>\<open>mainException\<close>: the loop over the values, with the index it has reached.\<close>

fun main_from :: "nat \<Rightarrow> nat \<Rightarrow> sentry_exception list \<Rightarrow> nat" where
  "main_from n i [] = n - 1"
| "main_from n i (x # xs) =
     (if ex_id x \<noteq> None then (if ex_parent x = None then i else main_from n (Suc i) xs)
      else if i = n - 1 then i
      else main_from n (Suc i) xs)"

definition mainException :: "sentry_exception list \<Rightarrow> nat" where
  "mainException xs = (if xs = [] then 0 else main_from (length xs) 0 xs)"

record raw_thread =
  rt_crashed :: bool
  rt_current :: bool
  rt_stack :: "frame list option"

text \<open>\<open>threadFrames\<close>: the crashed thread's stack, else the first current one's.\<close>

fun thread_frames_from :: "frame list option \<Rightarrow> raw_thread list \<Rightarrow> frame list" where
  "thread_frames_from current [] = (case current of None \<Rightarrow> [] | Some fs \<Rightarrow> fs)"
| "thread_frames_from current (t # ts) =
     (case rt_stack t of
        None \<Rightarrow> thread_frames_from current ts
      | Some fs \<Rightarrow>
          if fs = [] then thread_frames_from current ts
          else if rt_crashed t then fs
          else if rt_current t \<and> current = None then thread_frames_from (Some fs) ts
          else thread_frames_from current ts)"

definition threadFrames :: "raw_thread list \<Rightarrow> frame list" where
  "threadFrames ts = thread_frames_from None ts"

section \<open>The main exception\<close>

lemma main_from_bounds:
  "i + length xs = n \<Longrightarrow> 0 < n \<Longrightarrow> main_from n i xs < n"
  by (induction n i xs rule: main_from.induct) auto

lemma mainException_lt: "xs \<noteq> [] \<Longrightarrow> mainException xs < length xs"
  by (simp add: mainException_def main_from_bounds)

lemma main_from_unlinked:
  "i + length xs = n \<Longrightarrow> xs \<noteq> [] \<Longrightarrow> (\<forall>x \<in> set xs. ex_id x = None) \<Longrightarrow> main_from n i xs = n - 1"
proof (induction n i xs rule: main_from.induct)
  case (2 n i x xs)
  then show ?case by (cases xs) auto
qed simp

lemma main_from_root:
  assumes "i + length xs = n" and "k < length xs" and "ex_id (xs ! k) \<noteq> None"
    and "ex_parent (xs ! k) = None"
    and "\<forall>j < k. ex_id (xs ! j) \<noteq> None \<and> ex_parent (xs ! j) \<noteq> None"
  shows "main_from n i xs = i + k"
  using assms
proof (induction xs arbitrary: i k)
  case (Cons x xs)
  show ?case
  proof (cases k)
    case 0
    with Cons.prems show ?thesis by auto
  next
    case (Suc k')
    have "\<forall>j < k'. ex_id (xs ! j) \<noteq> None \<and> ex_parent (xs ! j) \<noteq> None"
      using Cons.prems(5) Suc by auto
    moreover have "ex_id x \<noteq> None" and "ex_parent x \<noteq> None"
      using Cons.prems(5) Suc by force+
    ultimately show ?thesis using Cons.IH [of "Suc i" k'] Cons.prems Suc by auto
  qed
qed simp

lemma threadFrames_from_stack:
  "thread_frames_from c ts = [] \<or> c = Some (thread_frames_from c ts)
     \<or> (\<exists>t \<in> set ts. rt_stack t = Some (thread_frames_from c ts) \<and> (rt_crashed t \<or> rt_current t))"
  by (induction c ts rule: thread_frames_from.induct) (auto split: option.splits)

lemma thread_frames_crashed:
  assumes "\<forall>t \<in> set as. rt_crashed t \<longrightarrow> rt_stack t = None \<or> rt_stack t = Some []"
    and "rt_crashed t" and "rt_stack t = Some fs" and "fs \<noteq> []"
  shows "thread_frames_from c (as @ t # bs) = fs"
  using assms
proof (induction as arbitrary: c)
  case (Cons a as)
  then show ?case by (cases "rt_stack a") auto
qed simp

end
