(* ===== verification/Analyze.thy ===== *)
theory Analyze
  imports Events "HOL-Library.Word"
begin

text \<open>
  \<open>internal/sentry/analyze.go\<close>: what decides which issue an event belongs to. Frames are
  classified (code, placeholder, SDK, runtime), the last five code frames become a signature in
  which line numbers and load addresses do not show, an SDK fingerprint may replace or refine it,
  and the digest of the result is the issue's fingerprint. Also the issue's title, its culprit and
  the test whether a symbol file could improve the frames. Addresses are 64-bit words, so that
  \<open>base + size\<close> and \<open>addr - base\<close> wrap as in Go.
\<close>

type_synonym address = "64 word"

section \<open>Frame classification\<close>

datatype Kind = KindCode | KindPlaceholder | KindSDK | KindRuntime

text \<open>\<open>strings.Split(v, sep)\<close> for a one-byte separator.\<close>

fun split_on :: "char \<Rightarrow> string \<Rightarrow> string list" where
  "split_on sep [] = [[]]"
| "split_on sep (c # s) =
     (if c = sep then [] # split_on sep s
      else case split_on sep s of [] \<Rightarrow> [[c]] | p # ps \<Rightarrow> (c # p) # ps)"

definition frame_path :: "frame \<Rightarrow> string" where
  "frame_path f = fr_filename f @ [CHR 0x00] @ fr_abs_path f @ [CHR 0x00] @ fr_module f"

record noise_row =
  no_kind :: Kind
  no_field :: "frame \<Rightarrow> string"
  no_prefix :: bool
  no_pat :: string

definition noise :: "Kind \<Rightarrow> (frame \<Rightarrow> string) \<Rightarrow> bool \<Rightarrow> string \<Rightarrow> noise_row" where
  "noise k f p s = \<lparr>no_kind = k, no_field = f, no_prefix = p, no_pat = s\<rparr>"

definition frameNoise :: "noise_row list" where
  "frameNoise =
    [noise KindSDK fr_package True ''sentry'',
     noise KindSDK fr_function True ''sentry_'',
     noise KindSDK fr_function True ''sentry::'',
     noise KindSDK fr_function True ''sentry.'',
     noise KindSDK fr_function True ''io.sentry.'',
     noise KindSDK frame_path True ''package:sentry'',
     noise KindSDK frame_path True ''io.sentry.'',
     noise KindSDK frame_path True ''Sentry.'',
     noise KindSDK frame_path True ''sentry_'',
     noise KindSDK frame_path False ''/sentry_sdk/'',
     noise KindSDK frame_path False ''/@sentry/'',
     noise KindSDK frame_path False ''/sentry-'',
     noise KindSDK frame_path False ''getsentry/sentry-go'',
     noise KindRuntime fr_package True ''__rustc'',
     noise KindRuntime fr_function True ''__rustc::'',
     noise KindRuntime fr_function True ''std::panicking::'',
     noise KindRuntime fr_function True ''core::panicking::'',
     noise KindRuntime fr_function True ''runtime.'']"

definition isPlaceholder :: "string \<Rightarrow> bool" where
  "isPlaceholder v \<longleftrightarrow> has_prefix v ''<'' \<and> has_suffix v ''>''"

text \<open>The loop over the rows: a prefix row must match at the start of one of the parts.\<close>

definition row_matches :: "frame \<Rightarrow> noise_row \<Rightarrow> bool" where
  "row_matches f n =
     (let v = no_field n f
      in if no_prefix n then \<exists>part \<in> set (split_on (CHR 0x00) v). has_prefix part (no_pat n)
         else contains v (no_pat n))"

definition FrameKind :: "frame \<Rightarrow> Kind" where
  "FrameKind f =
     (let hasFile = fr_filename f \<noteq> [] \<or> fr_abs_path f \<noteq> [] in
      if isPlaceholder (fr_function f) \<and> \<not> hasFile \<and> fr_lineno f = 0
         \<or> fr_function f = [] \<and> fr_lineno f = 0
            \<and> (isPlaceholder (fr_filename f) \<or> isPlaceholder (fr_abs_path f))
         \<or> fr_function f = [] \<and> \<not> hasFile \<and> fr_module f = [] \<and> fr_instr_addr f = []
      then KindPlaceholder
      else if fr_module f = ''java.lang.Thread'' \<and> fr_function f = ''getStackTrace''
         \<or> fr_function f = ''gopanic''
         \<or> fr_package f = ''std'' \<or> fr_package f = ''core'' \<or> fr_package f = ''alloc''
      then KindRuntime
      else case find (row_matches f) frameNoise of
             Some n \<Rightarrow> no_kind n
           | None \<Rightarrow> KindCode)"

definition baseName :: "string \<Rightarrow> string" where
  "baseName p =
     (if p = [] then ''?''
      else let q = after_last_any [CHR ''/'', char_of (92 :: nat)] p
           in if q = [] then ''?'' else q)"

section \<open>Addresses and debug images\<close>

definition ParseHex :: "string \<Rightarrow> address option" where
  "ParseHex s =
     (let t = trim_prefix (trim_prefix (trim_space s) ''0x'') ''0X''
      in if t = [] then None else map_option word_of_nat (parse_uint 16 t))"

record image_row =
  ir_base :: address
  ir_end :: address
  ir_id :: string

definition image_row_of :: "debug_image \<Rightarrow> image_row option" where
  "image_row_of im =
     (case ParseHex (im_image_addr im) of
        None \<Rightarrow> None
      | Some base \<Rightarrow>
          Some \<lparr>ir_base = base,
                ir_end = (if 0 < im_image_size im then base + word_of_int (im_image_size im)
                          else - 1),
                ir_id = (if im_debug_id im = [] then baseName (im_code_file im)
                         else im_debug_id im)\<rparr>)"

definition imageTable :: "event \<Rightarrow> image_row list" where
  "imageTable e = List.map_filter image_row_of (ev_images e)"

fun relative_at :: "image_row list \<Rightarrow> address \<Rightarrow> string" where
  "relative_at [] a = []"
| "relative_at (im # t) a =
     (if ir_base im \<le> a \<and> a < ir_end im
      then ir_id im @ ''+0x'' @ format_hex (unat (a - ir_base im))
      else relative_at t a)"

definition relative :: "image_row list \<Rightarrow> string \<Rightarrow> string" where
  "relative t addr = (case ParseHex addr of None \<Rightarrow> [] | Some a \<Rightarrow> relative_at t a)"

definition image_covers :: "address \<Rightarrow> debug_image \<Rightarrow> bool" where
  "image_covers a im =
     (case ParseHex (im_image_addr im) of
        None \<Rightarrow> False
      | Some base \<Rightarrow> base \<le> a \<and> (im_image_size im \<le> 0 \<or> a < base + word_of_int (im_image_size im)))"

text \<open>The index of the first image containing the address, \<open>None\<close> for \<open>-1\<close>.\<close>

fun image_for_from :: "nat \<Rightarrow> debug_image list \<Rightarrow> address \<Rightarrow> nat option" where
  "image_for_from i [] a = None"
| "image_for_from i (im # ims) a =
     (if image_covers a im then Some i else image_for_from (Suc i) ims a)"

definition ImageFor :: "event \<Rightarrow> address \<Rightarrow> nat option" where
  "ImageFor e a = image_for_from 0 (ev_images e) a"

section \<open>The frame signature\<close>

definition anonymous_name :: "string \<Rightarrow> bool" where
  "anonymous_name fn \<longleftrightarrow>
     \<not> (fn \<noteq> [] \<and> \<not> has_suffix fn ''<fn>'' \<and> \<not> has_suffix fn ''<anonymous>''
        \<and> \<not> has_prefix fn ''<'' \<and> \<not> contains fn ''{closure'')"

definition allAnonymous :: "frame list \<Rightarrow> bool" where
  "allAnonymous fs \<longleftrightarrow> (\<forall>f \<in> set fs. anonymous_name (fr_function f)) \<and> 0 < length fs"

definition code_frames :: "frame list \<Rightarrow> frame list" where
  "code_frames fs = filter (\<lambda>f. FrameKind f = KindCode) fs"

text \<open>The frames the signature is made of: the in-app ones if any, the last five of them.\<close>

definition selected_frames :: "frame list \<Rightarrow> frame list" where
  "selected_frames fs =
     (let all = code_frames fs;
          sel = filter IsInApp all;
          sel = (if sel = [] then all else sel)
      in if 5 < length sel then drop (length sel - 5) sel else sel)"

definition keep_line :: "frame list \<Rightarrow> bool" where
  "keep_line fs \<longleftrightarrow> length (code_frames fs) \<le> 1 \<or> allAnonymous (selected_frames fs)"

definition frame_part :: "image_row list \<Rightarrow> bool \<Rightarrow> frame \<Rightarrow> string" where
  "frame_part images keepLine f =
     (let file = fst (cut_byte (CHR ''?'') (fr_filename f));
          file = (if file = [] then fr_module f else file);
          fn = fr_function f;
          fn = (if fn = [] \<and> fr_instr_addr f \<noteq> []
                then (let r = relative images (fr_instr_addr f)
                      in if r = [] \<and> fr_package f \<noteq> [] then baseName (fr_package f) @ ''+?'' else r)
                else fn);
          fn = (if fn = [] then ''?'' else fn);
          fn = (if keepLine \<and> 0 < fr_lineno f then fn @ '':'' @ itoa_int (fr_lineno f) else fn)
      in baseName file @ '':'' @ fn)"

definition frameSignature :: "event \<Rightarrow> frame list \<Rightarrow> string list" where
  "frameSignature e fs = map (frame_part (imageTable e) (keep_line fs)) (selected_frames fs)"

section \<open>Messages\<close>

definition noMessage :: string where "noMessage = ''(no message)''"

definition hasMessage :: "event \<Rightarrow> bool" where
  "hasMessage e \<longleftrightarrow> ev_message e \<noteq> [] \<and> ev_message e \<noteq> noMessage"

definition groupableMessage :: "event \<Rightarrow> bool" where
  "groupableMessage e \<longleftrightarrow> (ev_level e = ''fatal'' \<or> ev_level e = ''error'') \<and> hasMessage e"

definition is_digit :: "char \<Rightarrow> bool" where
  "is_digit c \<longleftrightarrow> 48 \<le> (of_char c :: nat) \<and> (of_char c :: nat) \<le> 57"

text \<open>
  The match of \<open>0x[0-9a-fA-F]+|[0-9a-fA-F]{8,}|\d+\<close> at the start of a text: the first alternative
  that matches, each as long as it can be; its length.
\<close>

definition noise_match :: "string \<Rightarrow> nat option" where
  "noise_match s =
     (let x = length (takeWhile is_hex (drop 2 s));
          h = length (takeWhile is_hex s);
          d = length (takeWhile is_digit s)
      in if has_prefix s ''0x'' \<and> 0 < x then Some (2 + x)
         else if 8 \<le> h then Some h
         else if 0 < d then Some d
         else None)"

lemma noise_match_pos: "noise_match s = Some n \<Longrightarrow> 0 < n"
  by (auto simp: noise_match_def Let_def split: if_splits)

function normalizeMessage :: "string \<Rightarrow> string" where
  "normalizeMessage [] = []"
| "normalizeMessage (c # s) =
     (case noise_match (c # s) of
        Some n \<Rightarrow> CHR ''#'' # normalizeMessage (drop n (c # s))
      | None \<Rightarrow> c # normalizeMessage s)"
  by pat_completeness auto
termination
  by (relation "measure length") (auto dest: noise_match_pos)

section \<open>The fingerprint\<close>

definition chainTypes :: "event \<Rightarrow> string" where
  "chainTypes e =
     (if length (ev_exceptions e) \<le> 1 then ev_error_type e
      else join ''<'' (map ex_type (ev_exceptions e)))"

text \<open>
  \<open>strings.EqualFold(s, t)\<close> for an ASCII \<open>t\<close> without \<open>k\<close> and \<open>s\<close>, the letters with a fold outside
  ASCII.
\<close>

definition equal_fold :: "string \<Rightarrow> string \<Rightarrow> bool" where
  "equal_fold s t \<longleftrightarrow> map lower_char s = map lower_char t"

definition isDefaultToken :: "string \<Rightarrow> bool" where
  "isDefaultToken s0 =
     (let s = trim_space s0
      in has_prefix s ''{{'' \<and> has_suffix s ''}}''
         \<and> equal_fold (trim_space (take (length s - 4) (drop 2 s))) ''default'')"

definition defaultSignature :: "event \<Rightarrow> frame list \<Rightarrow> string" where
  "defaultSignature e fs =
     (if ev_error_type e \<noteq> [] then
        ev_platform e @ '':'' @ chainTypes e @ '':'' @ join ''|'' (frameSignature e fs)
      else if groupableMessage e then
        ''msg:'' @ ev_platform e @ '':'' @ normalizeMessage (ev_message e) @ '':''
          @ join ''|'' (frameSignature e fs)
      else [])"

definition fingerprint_part :: "string \<Rightarrow> string \<Rightarrow> string" where
  "fingerprint_part sig p = (if isDefaultToken p then ''{{default}}='' @ sig else p)"

definition fingerprint_signature :: "event \<Rightarrow> frame list \<Rightarrow> string" where
  "fingerprint_signature e fs =
     (let sig = defaultSignature e fs; sdk = ev_sdk_fingerprint e in
      if 0 < length sdk then
        (let parts = map (fingerprint_part sig) sdk;
             hasDefault = list_ex isDefaultToken sdk
         in if \<not> (hasDefault \<and> length parts = 1) then ''sdk:'' @ join ''|'' parts else sig)
      else sig)"

definition Fingerprint :: "event \<Rightarrow> frame list \<Rightarrow> id_text" where
  "Fingerprint e fs =
     (let sig = fingerprint_signature e fs in if sig = [] then [] else DerivedID sig)"

section \<open>Title, culprit, symbolication\<close>

definition IssueTitle :: "event \<Rightarrow> string" where
  "IssueTitle e =
     (if ev_error_type e = [] \<and> hasMessage e
      then Truncate (fst (cut_byte (CHR 0x0A) (trim_space (ev_message e)))) 100
      else let t = (if ev_error_type e = [] then ''<unknown>'' else ev_error_type e)
           in if ev_primary e < length (ev_exceptions e) then
                (let v = fst (cut_byte (CHR 0x0A)
                           (trim_space (ex_value (ev_exceptions e ! ev_primary e))))
                 in if v \<noteq> [] then t @ '': '' @ Truncate v 80 else t)
              else t)"

definition culprit_rank :: "frame \<Rightarrow> nat" where
  "culprit_rank f =
     (if fr_module f \<noteq> [] \<or> fr_filename f \<noteq> [] \<or> fr_abs_path f \<noteq> [] then 1 else 0)
     + (if IsInApp f then 2 else 0)"

text \<open>The loop: the best frame so far and its rank (\<open>None\<close> for rank -1).\<close>

fun best_from :: "frame option \<Rightarrow> frame list \<Rightarrow> frame option" where
  "best_from best [] = best"
| "best_from best (f # fs) =
     (if FrameKind f \<noteq> KindCode then best_from best fs
      else case best of
             None \<Rightarrow> best_from (Some f) fs
           | Some b \<Rightarrow> if culprit_rank b \<le> culprit_rank f then best_from (Some f) fs
                       else best_from best fs)"

definition best_frame :: "frame list \<Rightarrow> frame option" where
  "best_frame fs = best_from None fs"

definition Culprit :: "frame list \<Rightarrow> string" where
  "Culprit fs =
     (case best_frame fs of
        None \<Rightarrow> []
      | Some b \<Rightarrow>
          if fr_function b = [] \<and> fr_filename b = [] \<and> fr_abs_path b = [] \<and> fr_module b = [] then []
          else let loc = fr_module b;
                   loc = (if loc = [] then fr_filename b else loc);
                   loc = (if loc = [] then baseName (fr_abs_path b) else loc)
               in if fr_function b = [] then loc
                  else if loc = [] then fr_function b
                  else loc @ '' in '' @ fr_function b)"

definition NeedsSymbolication :: "event \<Rightarrow> bool option" where
  "NeedsSymbolication e =
     (case Frames e of
        None \<Rightarrow> None
      | Some fs \<Rightarrow> Some
          (if list_ex (\<lambda>f. fr_instr_addr f \<noteq> [] \<and> fr_function f = []) fs then True
           else if ev_platform e = ''android'' \<or> ev_platform e = ''java'' \<or> ev_platform e = ''kotlin''
                then 0 < length fs
           else if ev_platform e = ''javascript'' \<or> ev_platform e = ''node''
                   \<or> ev_platform e = ''react-native''
                then list_ex (\<lambda>f. 0 < fr_colno f) fs
           else False))"

section \<open>Addresses as text\<close>

lemma format_hex_chars: "c \<in> set (format_hex n) \<Longrightarrow> lower_hex c"
  by (auto simp: format_hex_def intro!: lower_hex_digit_char dest: nat_digits_lt [rotated])

lemma ParseHex_format: "n < 2 ^ 64 \<Longrightarrow> ParseHex (''0x'' @ format_hex n) = Some (word_of_nat n)"
proof -
  assume n: "n < 2 ^ 64"
  let ?s = "''0x'' @ format_hex n"
  have chars: "of_char c < (128 :: nat) \<and> \<not> space_char c" if "c \<in> set ?s" for c
    using that format_hex_chars [of c n] lower_hex_facts [of c] by (auto simp: space_char_def is_space_def)
  then have "trim_space ?s = ?s"
    by (intro trim_space_fixed disjI2) (auto simp: ascii_def)
  moreover have "trim_prefix ?s ''0x'' = format_hex n"
    by (simp add: trim_prefix_def has_prefix_def)
  moreover have "trim_prefix (format_hex n) ''0X'' = format_hex n"
  proof -
    have "CHR ''X'' \<notin> set (format_hex n)"
      using format_hex_chars [of "CHR ''X''" n] by (auto simp: lower_hex_def is_hex_def digit_val_def)
    then show ?thesis by (auto simp: trim_prefix_def has_prefix_def prefix_def)
  qed
  moreover have "format_hex n \<noteq> []" by (simp add: format_hex_def)
  ultimately show ?thesis using n by (simp add: ParseHex_def Let_def parse_uint_format_hex)
qed

section \<open>Normalised messages\<close>

lemma is_digit_is_hex: "is_digit c \<Longrightarrow> is_hex c"
  by (auto simp: is_digit_def is_hex_def digit_val_def Let_def)

lemma hash_not_hex: "\<not> is_hex (CHR ''#'')" "\<not> is_digit (CHR ''#'')"
  by (simp_all add: is_hex_def digit_val_def is_digit_def)

lemma noise_match_None:
  "noise_match s = None \<Longrightarrow> length (takeWhile is_hex s) < 8 \<and> (s = [] \<or> \<not> is_digit (hd s))"
  by (cases s) (auto simp: noise_match_def Let_def split: if_splits)

lemma noise_match_plain:
  "\<not> is_digit c \<Longrightarrow> length (takeWhile is_hex (c # s)) < 8 \<Longrightarrow> noise_match (c # s) = None"
  by (auto simp: noise_match_def Let_def has_prefix_def is_digit_def)

text \<open>No digit, and no run of eight hexadecimal letters: nothing left to replace.\<close>

definition is_normal_message :: "string \<Rightarrow> bool" where
  "is_normal_message m \<longleftrightarrow>
     (\<forall>c \<in> set m. \<not> is_digit c) \<and> (\<forall>k \<le> length m. length (takeWhile is_hex (drop k m)) < 8)"

lemma normal_message_Nil: "is_normal_message []"
  by (simp add: is_normal_message_def)

lemma normal_message_Cons:
  "is_normal_message (c # m) \<longleftrightarrow>
     \<not> is_digit c \<and> length (takeWhile is_hex (c # m)) < 8 \<and> is_normal_message m"
proof -
  have "(\<forall>k \<le> Suc n. P k) \<longleftrightarrow> P 0 \<and> (\<forall>k \<le> n. P (Suc k))" for n :: nat and P
    by (metis Suc_le_mono less_Suc_eq_0_disj not_less0 nat.exhaust le0)
  then show ?thesis by (auto simp: is_normal_message_def)
qed

lemma normalize_hex_run:
  "length (takeWhile is_hex (normalizeMessage s)) \<le> length (takeWhile is_hex s)"
proof (induction s rule: normalizeMessage.induct)
  case (2 c s)
  show ?case
  proof (cases "noise_match (c # s)")
    case None
    with 2 show ?thesis by simp
  qed (simp add: hash_not_hex)
qed simp

lemma normalizeMessage_normal: "is_normal_message (normalizeMessage s)"
proof (induction s rule: normalizeMessage.induct)
  case (2 c s)
  show ?case
  proof (cases "noise_match (c # s)")
    case None
    from noise_match_None [OF this]
    have "length (takeWhile is_hex (c # s)) < 8" and "\<not> is_digit c" by simp_all
    moreover have "length (takeWhile is_hex (c # normalizeMessage s))
        \<le> length (takeWhile is_hex (c # s))"
      using normalize_hex_run [of s] by simp
    ultimately show ?thesis using None 2 by (simp only: normalizeMessage.simps option.case normal_message_Cons) simp
  next
    case (Some n)
    with 2 show ?thesis by (simp add: normal_message_Cons hash_not_hex)
  qed
qed (simp add: normal_message_Nil)

lemma normalizeMessage_fixed: "is_normal_message s \<Longrightarrow> normalizeMessage s = s"
  by (induction s rule: normalizeMessage.induct) (simp_all add: normal_message_Cons noise_match_plain del: takeWhile.simps)

interpretation messages: normalizer normalizeMessage is_normal_message
  by unfold_locales (simp_all add: normalizeMessage_normal normalizeMessage_fixed)

section \<open>The signature does not depend on where the program was loaded\<close>

text \<open>
  The same image, or the same frame, in a process where the loader added \<open>d\<close> to every address.
\<close>

definition same_image_at :: "address \<Rightarrow> debug_image \<Rightarrow> debug_image \<Rightarrow> bool" where
  "same_image_at d im im' \<longleftrightarrow>
     im' = im\<lparr>im_image_addr := im_image_addr im'\<rparr> \<and>
     (case ParseHex (im_image_addr im) of
        None \<Rightarrow> ParseHex (im_image_addr im') = None
      | Some b \<Rightarrow> ParseHex (im_image_addr im') = Some (b + d)
                  \<and> unat b + unat d + nat (im_image_size im) < 2 ^ 64)"

definition same_frame_at :: "address \<Rightarrow> frame \<Rightarrow> frame \<Rightarrow> bool" where
  "same_frame_at d f f' \<longleftrightarrow>
     f' = f\<lparr>fr_instr_addr := fr_instr_addr f'\<rparr> \<and>
     (fr_instr_addr f = [] \<longleftrightarrow> fr_instr_addr f' = []) \<and>
     (case ParseHex (fr_instr_addr f) of
        None \<Rightarrow> ParseHex (fr_instr_addr f') = None
      | Some a \<Rightarrow> ParseHex (fr_instr_addr f') = Some (a + d) \<and> unat a + unat d < 2 ^ 64 - 1)"

lemma unat_shift:
  fixes a d :: address
  assumes "unat a + unat d < 2 ^ 64"
  shows "unat (a + d) = unat a + unat d"
  using assms by (simp add: unat_add_lem [symmetric])

lemma unat_base_size:
  fixes b :: address
  assumes "0 < n" and "unat b + nat n < 2 ^ 64"
  shows "unat (b + word_of_int n) = unat b + nat n"
proof -
  from assms have n: "nat n < 2 ^ LENGTH(64)" by simp
  from assms(1) have "(word_of_int n :: address) = word_of_nat (nat n)" by (simp add: of_nat_nat)
  with n have "unat (word_of_int n :: address) = nat n" by (simp add: unsigned_of_nat take_bit_eq_mod)
  with assms(2) show ?thesis by (simp add: unat_shift)
qed

lemma same_row_covers:
  fixes a b d :: address
  assumes "unat b + unat d + nat n < 2 ^ 64" and "unat a + unat d < 2 ^ 64 - 1"
  shows "(b + d \<le> a + d \<and> a + d < (if 0 < n then b + d + word_of_int n else - 1)) =
         (b \<le> a \<and> a < (if 0 < n then b + word_of_int n else - 1))"
proof -
  have s: "unat (a + d) = unat a + unat d" "unat (b + d) = unat b + unat d"
    using assms by (simp_all add: unat_shift)
  then have "b + d \<le> a + d \<longleftrightarrow> b \<le> a" by (simp add: word_le_nat_alt)
  moreover have "a + d < b + d + word_of_int n \<longleftrightarrow> a < b + word_of_int n" if "0 < n"
    using that assms s by (simp add: word_less_nat_alt unat_base_size)
  moreover have "a + d < - 1" and "a < - 1"
    using assms(2) s by (simp_all add: word_less_nat_alt unsigned_minus_1_eq_mask mask_eq_exp_minus_1)
  ultimately show ?thesis by simp
qed

lemma image_row_rebased:
  assumes "same_image_at d im im'"
  shows "image_row_of im = None \<and> image_row_of im' = None
    \<or> (\<exists>r r'. image_row_of im = Some r \<and> image_row_of im' = Some r' \<and> ir_id r' = ir_id r
         \<and> ir_base r' = ir_base r + d
         \<and> (\<forall>a. unat a + unat d < 2 ^ 64 - 1 \<longrightarrow>
              (ir_base r' \<le> a + d \<and> a + d < ir_end r') = (ir_base r \<le> a \<and> a < ir_end r)))"
proof -
  from assms have im': "im' = im\<lparr>im_image_addr := im_image_addr im'\<rparr>"
    by (simp add: same_image_at_def)
  then have same: "im_image_size im' = im_image_size im" "im_debug_id im' = im_debug_id im"
    "im_code_file im' = im_code_file im" by (metis debug_image.select_convs debug_image.surjective
      debug_image.update_convs(5))+
  show ?thesis
  proof (cases "ParseHex (im_image_addr im)")
    case None
    with assms show ?thesis by (simp add: same_image_at_def image_row_of_def)
  next
    case (Some b)
    with assms have b': "ParseHex (im_image_addr im') = Some (b + d)"
      and bnd: "unat b + unat d + nat (im_image_size im) < 2 ^ 64"
      by (simp_all add: same_image_at_def)
    show ?thesis
    proof (cases "0 < im_image_size im")
      case True
      with same_row_covers [OF bnd] Some b' same show ?thesis by (simp add: image_row_of_def)
    next
      case False
      with same_row_covers [OF bnd] Some b' same show ?thesis by (simp add: image_row_of_def)
    qed
  qed
qed

lemma relative_at_rebased:
  assumes "list_all2 (same_image_at d) ims ims'" and "unat a + unat d < 2 ^ 64 - 1"
  shows "relative_at (List.map_filter image_row_of ims') (a + d) =
         relative_at (List.map_filter image_row_of ims) a"
  using assms(1)
proof (induction rule: list_all2_induct)
  case (Cons im ims im' ims')
  from image_row_rebased [OF Cons.hyps(1)] show ?case
  proof (elim disjE exE conjE)
    assume "image_row_of im = None" and "image_row_of im' = None"
    with Cons.IH show ?thesis by (simp add: map_filter_simps)
  next
    fix r r'
    assume "image_row_of im = Some r" "image_row_of im' = Some r'" "ir_id r' = ir_id r"
      and b: "ir_base r' = ir_base r + d"
      and "\<forall>a. unat a + unat d < 2 ^ 64 - 1 \<longrightarrow>
        (ir_base r' \<le> a + d \<and> a + d < ir_end r') = (ir_base r \<le> a \<and> a < ir_end r)"
    then show ?thesis using Cons.IH assms(2) by (simp add: map_filter_simps)
  qed
qed simp

lemma relative_rebased:
  assumes "list_all2 (same_image_at d) ims ims'" and "same_frame_at d f f'"
  shows "relative (List.map_filter image_row_of ims') (fr_instr_addr f') =
         relative (List.map_filter image_row_of ims) (fr_instr_addr f)"
  using assms relative_at_rebased [OF assms(1)]
  by (auto simp: same_frame_at_def relative_def split: option.splits)

text \<open>What the classification of a frame and the choice of the signature's frames look at.\<close>

definition same_shape :: "frame \<Rightarrow> frame \<Rightarrow> bool" where
  "same_shape f f' \<longleftrightarrow>
     fr_filename f' = fr_filename f \<and> fr_abs_path f' = fr_abs_path f
     \<and> fr_function f' = fr_function f \<and> fr_module f' = fr_module f \<and> fr_package f' = fr_package f
     \<and> fr_in_app f' = fr_in_app f \<and> (fr_lineno f' = 0 \<longleftrightarrow> fr_lineno f = 0)
     \<and> (fr_instr_addr f' = [] \<longleftrightarrow> fr_instr_addr f = [])"

lemma same_shape_find:
  assumes "same_shape f f'"
  shows "find (row_matches f') frameNoise = find (row_matches f) frameNoise"
proof (rule find_cong)
  have "map (\<lambda>n. no_field n f') frameNoise = map (\<lambda>n. no_field n f) frameNoise"
    using assms by (simp add: frameNoise_def noise_def same_shape_def frame_path_def)
  then show "n \<in> set frameNoise \<Longrightarrow> row_matches f' n = row_matches f n" for n
    by (simp add: row_matches_def)
qed simp

lemma same_shape_kind: "same_shape f f' \<Longrightarrow> FrameKind f' = FrameKind f"
proof -
  assume s: "same_shape f f'"
  then have "fr_filename f' = fr_filename f" "fr_abs_path f' = fr_abs_path f"
    "fr_function f' = fr_function f" "fr_module f' = fr_module f" "fr_package f' = fr_package f"
    "fr_lineno f' = 0 \<longleftrightarrow> fr_lineno f = 0" "fr_instr_addr f' = [] \<longleftrightarrow> fr_instr_addr f = []"
    by (simp_all add: same_shape_def)
  then show ?thesis by (simp only: FrameKind_def Let_def same_shape_find [OF s])
qed

lemma same_shape_selected:
  assumes rel: "list_all2 R fs fs'" and shape: "\<And>f f'. R f f' \<Longrightarrow> same_shape f f'"
  shows "list_all2 R (selected_frames fs) (selected_frames fs')"
    and "length (code_frames fs') = length (code_frames fs)"
    and "keep_line fs' = keep_line fs"
proof -
  have c: "list_all2 R (code_frames fs) (code_frames fs')"
    unfolding code_frames_def
    by (rule list_all2_filter_cong [OF rel]) (use shape same_shape_kind in fastforce)
  have i: "list_all2 R (filter IsInApp (code_frames fs)) (filter IsInApp (code_frames fs'))"
    by (rule list_all2_filter_cong [OF c]) (auto simp: IsInApp_def same_shape_def dest: shape)
  show sel: "list_all2 R (selected_frames fs) (selected_frames fs')"
  proof (cases "filter IsInApp (code_frames fs) = []")
    case True
    with i have "filter IsInApp (code_frames fs') = []" by auto
    with True c show ?thesis
      using list_all2_lengthD [OF c] by (simp add: selected_frames_def Let_def)
  next
    case False
    with i have "filter IsInApp (code_frames fs') \<noteq> []" by auto
    with False i show ?thesis
      using list_all2_lengthD [OF i] by (simp add: selected_frames_def Let_def)
  qed
  show len: "length (code_frames fs') = length (code_frames fs)"
    using list_all2_lengthD [OF c] by simp
  have "(\<forall>f \<in> set (selected_frames fs). anonymous_name (fr_function f)) =
        (\<forall>f \<in> set (selected_frames fs'). anonymous_name (fr_function f))"
    by (rule list_all2_ball_cong [OF sel]) (auto simp: same_shape_def dest: shape)
  with len list_all2_lengthD [OF sel] show "keep_line fs' = keep_line fs"
    by (simp add: keep_line_def allAnonymous_def)
qed

lemma same_frame_shape:
  assumes "same_frame_at d f f'"
  shows "same_shape f f'" and "fr_lineno f' = fr_lineno f"
proof -
  from assms have *: "f' = f\<lparr>fr_instr_addr := fr_instr_addr f'\<rparr>" by (simp add: same_frame_at_def)
  then show "fr_lineno f' = fr_lineno f"
    by (metis frame.select_convs(6) frame.surjective frame.update_convs(9))
  from * have "fr_filename f' = fr_filename f" "fr_abs_path f' = fr_abs_path f"
    "fr_function f' = fr_function f" "fr_module f' = fr_module f" "fr_package f' = fr_package f"
    "fr_lineno f' = fr_lineno f" "fr_in_app f' = fr_in_app f"
    by (metis frame.select_convs frame.surjective frame.update_convs(9))+
  with assms show "same_shape f f'" by (auto simp: same_shape_def same_frame_at_def)
qed

lemma frame_part_rebased:
  assumes "list_all2 (same_image_at d) ims ims'" and "same_frame_at d f f'"
  shows "frame_part (List.map_filter image_row_of ims') k f' =
         frame_part (List.map_filter image_row_of ims) k f"
  using same_frame_shape [OF assms(2)] relative_rebased [OF assms]
  by (simp add: frame_part_def same_shape_def Let_def)

lemma frameSignature_rebased:
  assumes "list_all2 (same_image_at d) (ev_images e) (ev_images e')"
    and "list_all2 (same_frame_at d) fs fs'"
  shows "frameSignature e' fs' = frameSignature e fs"
proof -
  note sel = same_shape_selected [OF assms(2) same_frame_shape(1)]
  have "map (frame_part (imageTable e) (keep_line fs)) (selected_frames fs) =
        map (frame_part (imageTable e') (keep_line fs)) (selected_frames fs')"
    unfolding imageTable_def
    by (rule list_all2_map_cong [OF sel(1)]) (simp_all add: frame_part_rebased [OF assms(1)])
  then show ?thesis by (simp add: frameSignature_def sel(3))
qed

section \<open>Nor on line numbers\<close>

definition same_but_line :: "frame \<Rightarrow> frame \<Rightarrow> bool" where
  "same_but_line f f' \<longleftrightarrow>
     f' = f\<lparr>fr_lineno := fr_lineno f', fr_colno := fr_colno f'\<rparr>
     \<and> (fr_lineno f' = 0 \<longleftrightarrow> fr_lineno f = 0)"

lemma same_but_line_shape:
  assumes "same_but_line f f'"
  shows "same_shape f f'" and "frame_part t False f' = frame_part t False f"
proof -
  from assms have *: "f' = f\<lparr>fr_lineno := fr_lineno f', fr_colno := fr_colno f'\<rparr>"
    by (simp add: same_but_line_def)
  have eqs: "fr_filename f' = fr_filename f" "fr_abs_path f' = fr_abs_path f"
    "fr_function f' = fr_function f" "fr_module f' = fr_module f" "fr_package f' = fr_package f"
    "fr_in_app f' = fr_in_app f" "fr_instr_addr f' = fr_instr_addr f"
    by (subst *, simp)+
  with assms show "same_shape f f'" by (auto simp: same_shape_def same_but_line_def)
  from eqs show "frame_part t False f' = frame_part t False f" by (simp add: frame_part_def Let_def)
qed

lemma frameSignature_lines:
  assumes "list_all2 same_but_line fs fs'" and "\<not> keep_line fs"
  shows "frameSignature e fs' = frameSignature e fs"
proof -
  note sel = same_shape_selected [OF assms(1) same_but_line_shape(1)]
  have "map (frame_part (imageTable e) False) (selected_frames fs) =
        map (frame_part (imageTable e) False) (selected_frames fs')"
    by (rule list_all2_map_cong [OF sel(1)]) (simp_all add: same_but_line_shape(2))
  then show ?thesis using sel(3) assms(2) by (simp add: frameSignature_def)
qed

section \<open>Fingerprints\<close>

lemma Fingerprint_cong:
  assumes "frameSignature e' fs' = frameSignature e fs"
    and "ev_error_type e' = ev_error_type e" and "ev_platform e' = ev_platform e"
    and "ev_level e' = ev_level e" and "ev_message e' = ev_message e"
    and "map ex_type (ev_exceptions e') = map ex_type (ev_exceptions e)"
    and "ev_sdk_fingerprint e' = ev_sdk_fingerprint e"
  shows "Fingerprint e' fs' = Fingerprint e fs"
proof -
  have "length (ev_exceptions e') = length (ev_exceptions e)"
    using assms(6) by (metis length_map)
  then show ?thesis using assms
    by (simp add: Fingerprint_def fingerprint_signature_def defaultSignature_def chainTypes_def
        groupableMessage_def hasMessage_def)
qed

lemma fingerprint_signature_default:
  "ev_sdk_fingerprint e = [] \<Longrightarrow> fingerprint_signature e fs = defaultSignature e fs"
  "ev_sdk_fingerprint e = [p] \<Longrightarrow> isDefaultToken p \<Longrightarrow>
     fingerprint_signature e fs = defaultSignature e fs"
  by (simp_all add: fingerprint_signature_def)

lemma defaultSignature_empty:
  "defaultSignature e fs = [] \<longleftrightarrow> ev_error_type e = [] \<and> \<not> groupableMessage e"
  by (simp add: defaultSignature_def)

lemma DerivedID_nonempty: "DerivedID s \<noteq> []"
  using DerivedID_valid [of s] by (auto simp: valid_id_def)

section \<open>The culprit\<close>

text \<open>The innermost frame of the highest rank: no frame outranks it, none after it equals it.\<close>

definition innermost :: "frame \<Rightarrow> frame list \<Rightarrow> bool" where
  "innermost r fs \<longleftrightarrow>
     (\<exists>as bs. fs = as @ r # bs \<and> (\<forall>f \<in> set as. culprit_rank f \<le> culprit_rank r)
        \<and> (\<forall>f \<in> set bs. culprit_rank f < culprit_rank r))"

lemma innermost_rank: "innermost r fs \<Longrightarrow> f \<in> set fs \<Longrightarrow> culprit_rank f \<le> culprit_rank r"
  by (auto simp: innermost_def less_imp_le)

lemma innermost_skip:
  "innermost r (f # fs) \<Longrightarrow> culprit_rank b \<le> culprit_rank f \<Longrightarrow> innermost r (b # f # fs)"
proof -
  assume i: "innermost r (f # fs)" and "culprit_rank b \<le> culprit_rank f"
  then have "culprit_rank b \<le> culprit_rank r" using innermost_rank [OF i, of f] by simp
  moreover from i obtain as bs where "f # fs = as @ r # bs"
    and "\<forall>f \<in> set as. culprit_rank f \<le> culprit_rank r" "\<forall>f \<in> set bs. culprit_rank f < culprit_rank r"
    by (auto simp: innermost_def)
  ultimately show ?thesis unfolding innermost_def by (intro exI [of _ "b # as"] exI [of _ bs]) simp
qed

lemma innermost_insert:
  assumes "innermost r (b # fs)" and "culprit_rank f < culprit_rank b"
  shows "innermost r (b # f # fs)"
proof -
  from assms(1) obtain as bs where l: "b # fs = as @ r # bs"
    and a: "\<forall>f \<in> set as. culprit_rank f \<le> culprit_rank r"
    and bs: "\<forall>f \<in> set bs. culprit_rank f < culprit_rank r" by (auto simp: innermost_def)
  show ?thesis
  proof (cases as)
    case Nil
    with l bs assms(2) show ?thesis unfolding innermost_def
      by (intro exI [of _ "[]"] exI [of _ "f # bs"]) simp
  next
    case (Cons c cs)
    with l a bs assms(2) show ?thesis unfolding innermost_def
      by (intro exI [of _ "b # f # cs"] exI [of _ bs]) force
  qed
qed

lemma best_from_innermost:
  "best_from (Some b) fs = Some r \<Longrightarrow> innermost r (b # code_frames fs)"
proof (induction fs arbitrary: b)
  case Nil
  then show ?case by (auto simp: innermost_def code_frames_def intro: exI [of _ "[]"])
next
  case (Cons f fs)
  show ?case
  proof (cases "FrameKind f = KindCode")
    case False
    with Cons show ?thesis by (simp add: code_frames_def)
  next
    case True
    then have cf: "code_frames (f # fs) = f # code_frames fs" by (simp add: code_frames_def)
    from True Cons show ?thesis unfolding cf
      by (cases "culprit_rank b \<le> culprit_rank f") (simp_all add: innermost_skip innermost_insert)
  qed
qed

lemma best_from_total: "\<exists>r. best_from (Some b) fs = Some r"
  by (induction fs arbitrary: b) auto

lemma best_frame_innermost: "best_frame fs = Some r \<Longrightarrow> innermost r (code_frames fs)"
  unfolding best_frame_def
proof (induction fs)
  case (Cons f fs)
  then show ?case
    using best_from_innermost [of f fs r] by (cases "FrameKind f = KindCode") (simp_all add: code_frames_def)
qed simp

lemma best_frame_None: "best_frame fs = None \<longleftrightarrow> code_frames fs = []"
  unfolding best_frame_def
proof (induction fs)
  case (Cons f fs)
  then show ?case
    using best_from_total [of f fs] by (cases "FrameKind f = KindCode") (auto simp: code_frames_def)
qed (simp add: code_frames_def)

section \<open>Properties\<close>

text \<open>
  C18. The fingerprint of an event does not depend on where the loader put the program: when the
  images and the frame addresses move by the same offset (and nothing passes the end of the
  address space), the issue stays the same. The rest of the event may change freely where grouping
  does not look.
\<close>

theorem Fingerprint_load_address:
  assumes "list_all2 (same_image_at d) (ev_images e) (ev_images e')"
    and "list_all2 (same_frame_at d) fs fs'"
    and "e' = e\<lparr>ev_images := ev_images e', ev_time := ev_time e', ev_id := ev_id e',
                 ev_user_id := ev_user_id e', ev_tags := ev_tags e', ev_raw := ev_raw e'\<rparr>"
  shows "Fingerprint e' fs' = Fingerprint e fs"
proof -
  have "ev_error_type e' = ev_error_type e" "ev_platform e' = ev_platform e"
    "ev_level e' = ev_level e" "ev_message e' = ev_message e"
    "ev_exceptions e' = ev_exceptions e" "ev_sdk_fingerprint e' = ev_sdk_fingerprint e"
    by (subst assms(3), simp)+
  with frameSignature_rebased [OF assms(1,2)] show ?thesis by (intro Fingerprint_cong) simp_all
qed

lemma Fingerprint_load_address_witness:
  "Fingerprint (event0\<lparr>ev_error_type := ''E'',
       ev_images := [image0\<lparr>im_debug_id := ''ab'', im_image_addr := ''0x'' @ format_hex 12288, im_image_size := 4096\<rparr>]\<rparr>)
     [frame0\<lparr>fr_instr_addr := ''0x'' @ format_hex 12352\<rparr>]
   = Fingerprint (event0\<lparr>ev_error_type := ''E'',
       ev_images := [image0\<lparr>im_debug_id := ''ab'', im_image_addr := ''0x'' @ format_hex 4096, im_image_size := 4096\<rparr>]\<rparr>)
     [frame0\<lparr>fr_instr_addr := ''0x'' @ format_hex 4160\<rparr>]"
proof (rule Fingerprint_load_address [where d = 8192])
  have "ParseHex (''0x'' @ format_hex 4096) = Some 4096" "ParseHex (''0x'' @ format_hex 12288) = Some 12288"
    "ParseHex (''0x'' @ format_hex 4160) = Some 4160" "ParseHex (''0x'' @ format_hex 12352) = Some 12352"
    using ParseHex_format [of 4096] ParseHex_format [of 12288] ParseHex_format [of 4160]
      ParseHex_format [of 12352] by simp_all
  then show "list_all2 (same_image_at 8192)
     (ev_images (event0\<lparr>ev_error_type := ''E'', ev_images := [image0\<lparr>im_debug_id := ''ab'',
        im_image_addr := ''0x'' @ format_hex 4096, im_image_size := 4096\<rparr>]\<rparr>))
     (ev_images (event0\<lparr>ev_error_type := ''E'', ev_images := [image0\<lparr>im_debug_id := ''ab'',
        im_image_addr := ''0x'' @ format_hex 12288, im_image_size := 4096\<rparr>]\<rparr>))"
   and "list_all2 (same_frame_at 8192) [frame0\<lparr>fr_instr_addr := ''0x'' @ format_hex 4160\<rparr>]
     [frame0\<lparr>fr_instr_addr := ''0x'' @ format_hex 12352\<rparr>]"
    by (simp_all add: same_image_at_def same_frame_at_def image0_def)
qed (simp add: event0_def)



text \<open>
  An event has a fingerprint, and then a well-formed id, exactly when there is something to
  group by: an error type, a message at error level, or an SDK fingerprint other than the lone
  default token.
\<close>

theorem Fingerprint_groups:
  "(Fingerprint e fs = [] \<longleftrightarrow>
      ev_error_type e = [] \<and> \<not> groupableMessage e
      \<and> (ev_sdk_fingerprint e = [] \<or> (\<exists>p. ev_sdk_fingerprint e = [p] \<and> isDefaultToken p)))
   \<and> (valid_id (Fingerprint e fs) \<longleftrightarrow> Fingerprint e fs \<noteq> [])"
proof
  have sdk: "fingerprint_signature e fs = [] \<longleftrightarrow> defaultSignature e fs = []
      \<and> (ev_sdk_fingerprint e = [] \<or> (\<exists>p. ev_sdk_fingerprint e = [p] \<and> isDefaultToken p))"
    by (cases "ev_sdk_fingerprint e" rule: remdups_adj.cases)
      (auto simp: fingerprint_signature_def Let_def list_ex_iff)
  show "Fingerprint e fs = [] \<longleftrightarrow>
      ev_error_type e = [] \<and> \<not> groupableMessage e
      \<and> (ev_sdk_fingerprint e = [] \<or> (\<exists>p. ev_sdk_fingerprint e = [p] \<and> isDefaultToken p))"
    using sdk DerivedID_nonempty by (simp add: Fingerprint_def Let_def defaultSignature_empty)
  show "valid_id (Fingerprint e fs) \<longleftrightarrow> Fingerprint e fs \<noteq> []"
    using DerivedID_valid [of "fingerprint_signature e fs"] DerivedID_nonempty
    by (simp add: Fingerprint_def Let_def) (simp add: valid_id_def)
qed

text \<open>
  The message of a grouped event has no digit and no run of eight hexadecimal letters left,
  and normalising is idempotent: exactly the messages without such parts are left alone.
\<close>

theorem normalizeMessage_canonical:
  "is_normal_message (normalizeMessage m)
   \<and> normalizeMessage (normalizeMessage m) = normalizeMessage m
   \<and> (normalizeMessage m = m \<longleftrightarrow> is_normal_message m)"
  using messages.canonical_f messages.idem messages.canonical_iff by blast

text \<open>
  The culprit is read off one code frame: the innermost of those with the highest rank (in-app
  before others, located before unlocated); without code frames it is empty.
\<close>

theorem Culprit_innermost:
  "code_frames fs = [] \<and> Culprit fs = [] \<or>
   (\<exists>r. innermost r (code_frames fs) \<and> Culprit fs = Culprit [r])"
proof (cases "best_frame fs")
  case None
  then have "Culprit fs = []" by (simp add: Culprit_def)
  with None show ?thesis by (simp add: best_frame_None)
next
  case (Some r)
  then have i: "innermost r (code_frames fs)" by (rule best_frame_innermost)
  then have "FrameKind r = KindCode" proof -
    from i have "r \<in> set (code_frames fs)" by (auto simp: innermost_def)
    then show ?thesis by (simp add: code_frames_def)
  qed
  then have "best_frame [r] = Some r" by (simp add: best_frame_def)
  with Some i show ?thesis by (auto simp: Culprit_def)
qed

lemma Fingerprint_default_token:
  "isDefaultToken p \<Longrightarrow>
     Fingerprint (e\<lparr>ev_sdk_fingerprint := [p]\<rparr>) fs = Fingerprint (e\<lparr>ev_sdk_fingerprint := []\<rparr>) fs"
  by (simp add: Fingerprint_def fingerprint_signature_def defaultSignature_def frameSignature_def
      imageTable_def chainTypes_def groupableMessage_def hasMessage_def)

text \<open>
  A frame with a name only: its location reads \<open>?\<close>, since \<open>baseName\<close> of an empty path is not
  empty, so the branch of \<open>Culprit\<close> for an empty location is never taken.
\<close>

lemma baseName_nonempty: "baseName p \<noteq> []"
  by (simp add: baseName_def Let_def)

lemma Culprit_name_only:
  "Culprit [\<lparr>fr_filename = [], fr_abs_path = [], fr_function = ''main'', fr_module = [],
     fr_package = [], fr_lineno = 0, fr_colno = 0, fr_in_app = None, fr_instr_addr = [],
     fr_image_addr = [], fr_symbol_addr = []\<rparr>] = ''? in main''"
  by code_simp

end
