(* ===== verification/Enums.thy ===== *)
theory Enums
  imports Prelude
begin

text \<open>
  \<open>internal/store/enums.go\<close>: the Postgres enums as datatypes. In Go they are string
    types; \<open>text_of\<close>
  functions give the string, which is what the database and the JSON show. Each has the list of
  its values and the partial inverse, so that a text outside the enum (an error in Postgres) is
  \<open>None\<close>. \<open>enum_text\<close> is the contract all of them share.
\<close>

text \<open>
  An enum and its text: the listed values are all there are and have different texts. Reading the
  text back is then total on the texts of the enum and gives the value.
\<close>

locale enum_text =
  fixes vals :: "'a list" and text_of :: "'a \<Rightarrow> string"
  assumes complete: "x \<in> set vals"
    and texts_distinct: "distinct (map text_of vals)"
begin

lemma text_inj: "text_of x = text_of y \<Longrightarrow> x = y"
  using texts_distinct complete by (simp add: distinct_map inj_on_def)

lemma find_text: "find (\<lambda>x. text_of x = text_of y) vals = Some y"
proof -
  have "\<exists>x. find (\<lambda>x. text_of x = text_of y) vals = Some x"
    using complete [of y] by (cases "find (\<lambda>x. text_of x = text_of y) vals") (auto simp:
    find_None_iff)
  then show ?thesis by (auto simp: find_Some_iff dest: text_inj)
qed

lemma find_text_iff: "find (\<lambda>x. text_of x = s) vals = Some y \<longleftrightarrow>
    text_of y = s"
  using find_text [of y] by (auto simp: find_Some_iff)

end

section \<open>AlertType\<close>

datatype AlertType = AlertTypeNewIssue | AlertTypeRegression | AlertTypeUnhandledSpike |
    AlertTypeEscalating | AlertTypeMonitorFailed | AlertTypeMonitorRecovered

fun alert_type_text :: "AlertType \<Rightarrow> string" where
  "alert_type_text AlertTypeNewIssue = ''new_issue''"
| "alert_type_text AlertTypeRegression = ''regression''"
| "alert_type_text AlertTypeUnhandledSpike = ''unhandled_spike''"
| "alert_type_text AlertTypeEscalating = ''escalating''"
| "alert_type_text AlertTypeMonitorFailed = ''monitor_failed''"
| "alert_type_text AlertTypeMonitorRecovered = ''monitor_recovered''"

definition alert_type_values :: "AlertType list" where
  "alert_type_values = [AlertTypeNewIssue, AlertTypeRegression, AlertTypeUnhandledSpike,
    AlertTypeEscalating, AlertTypeMonitorFailed, AlertTypeMonitorRecovered]"

definition alert_type_of_text :: "string \<Rightarrow> AlertType option" where
  "alert_type_of_text s = find (\<lambda>x. alert_type_text x = s) alert_type_values"

interpretation alert_type: enum_text alert_type_values alert_type_text
proof unfold_locales
  show "x \<in> set alert_type_values" for x by (cases x) (simp_all add: alert_type_values_def)
qed (simp add: alert_type_values_def)

lemma alert_type_of_text_text [simp]: "alert_type_of_text (alert_type_text x) = Some x"
  unfolding alert_type_of_text_def by (rule alert_type.find_text)

section \<open>ChannelKind\<close>

datatype ChannelKind = ChannelKindWebhook | ChannelKindSlack | ChannelKindTelegram

fun channel_kind_text :: "ChannelKind \<Rightarrow> string" where
  "channel_kind_text ChannelKindWebhook = ''webhook''"
| "channel_kind_text ChannelKindSlack = ''slack''"
| "channel_kind_text ChannelKindTelegram = ''telegram''"

definition channel_kind_values :: "ChannelKind list" where
  "channel_kind_values = [ChannelKindWebhook, ChannelKindSlack, ChannelKindTelegram]"

definition channel_kind_of_text :: "string \<Rightarrow> ChannelKind option" where
  "channel_kind_of_text s = find (\<lambda>x. channel_kind_text x = s) channel_kind_values"

interpretation channel_kind: enum_text channel_kind_values channel_kind_text
proof unfold_locales
  show "x \<in> set channel_kind_values" for x by (cases x) (simp_all add: channel_kind_values_def)
qed (simp add: channel_kind_values_def)

lemma channel_kind_of_text_text [simp]: "channel_kind_of_text (channel_kind_text x) = Some x"
  unfolding channel_kind_of_text_def by (rule channel_kind.find_text)

section \<open>CheckinStatus\<close>

datatype CheckinStatus = CheckinStatusInProgress | CheckinStatusOk | CheckinStatusError |
    CheckinStatusMissed | CheckinStatusTimeout

fun checkin_status_text :: "CheckinStatus \<Rightarrow> string" where
  "checkin_status_text CheckinStatusInProgress = ''in_progress''"
| "checkin_status_text CheckinStatusOk = ''ok''"
| "checkin_status_text CheckinStatusError = ''error''"
| "checkin_status_text CheckinStatusMissed = ''missed''"
| "checkin_status_text CheckinStatusTimeout = ''timeout''"

definition checkin_status_values :: "CheckinStatus list" where
  "checkin_status_values = [CheckinStatusInProgress, CheckinStatusOk, CheckinStatusError,
    CheckinStatusMissed, CheckinStatusTimeout]"

definition checkin_status_of_text :: "string \<Rightarrow> CheckinStatus option" where
  "checkin_status_of_text s = find (\<lambda>x. checkin_status_text x = s) checkin_status_values"

interpretation checkin_status: enum_text checkin_status_values checkin_status_text
proof unfold_locales
  show "x \<in> set checkin_status_values" for x by (cases x) (simp_all add:
    checkin_status_values_def)
qed (simp add: checkin_status_values_def)

lemma checkin_status_of_text_text [simp]: "checkin_status_of_text (checkin_status_text x) = Some x"
  unfolding checkin_status_of_text_def by (rule checkin_status.find_text)

section \<open>EventLevel\<close>

datatype EventLevel = EventLevelFatal | EventLevelError | EventLevelWarning | EventLevelInfo |
    EventLevelDebug

fun event_level_text :: "EventLevel \<Rightarrow> string" where
  "event_level_text EventLevelFatal = ''fatal''"
| "event_level_text EventLevelError = ''error''"
| "event_level_text EventLevelWarning = ''warning''"
| "event_level_text EventLevelInfo = ''info''"
| "event_level_text EventLevelDebug = ''debug''"

definition event_level_values :: "EventLevel list" where
  "event_level_values = [EventLevelFatal, EventLevelError, EventLevelWarning, EventLevelInfo,
    EventLevelDebug]"

definition event_level_of_text :: "string \<Rightarrow> EventLevel option" where
  "event_level_of_text s = find (\<lambda>x. event_level_text x = s) event_level_values"

interpretation event_level: enum_text event_level_values event_level_text
proof unfold_locales
  show "x \<in> set event_level_values" for x by (cases x) (simp_all add: event_level_values_def)
qed (simp add: event_level_values_def)

lemma event_level_of_text_text [simp]: "event_level_of_text (event_level_text x) = Some x"
  unfolding event_level_of_text_def by (rule event_level.find_text)

section \<open>IssueStatus\<close>

datatype IssueStatus = IssueStatusUnresolved | IssueStatusResolved | IssueStatusIgnored |
    IssueStatusRegression

fun issue_status_text :: "IssueStatus \<Rightarrow> string" where
  "issue_status_text IssueStatusUnresolved = ''unresolved''"
| "issue_status_text IssueStatusResolved = ''resolved''"
| "issue_status_text IssueStatusIgnored = ''ignored''"
| "issue_status_text IssueStatusRegression = ''regression''"

definition issue_status_values :: "IssueStatus list" where
  "issue_status_values = [IssueStatusUnresolved, IssueStatusResolved, IssueStatusIgnored,
    IssueStatusRegression]"

definition issue_status_of_text :: "string \<Rightarrow> IssueStatus option" where
  "issue_status_of_text s = find (\<lambda>x. issue_status_text x = s) issue_status_values"

interpretation issue_status: enum_text issue_status_values issue_status_text
proof unfold_locales
  show "x \<in> set issue_status_values" for x by (cases x) (simp_all add: issue_status_values_def)
qed (simp add: issue_status_values_def)

lemma issue_status_of_text_text [simp]: "issue_status_of_text (issue_status_text x) = Some x"
  unfolding issue_status_of_text_def by (rule issue_status.find_text)

section \<open>JobKind\<close>

datatype JobKind = JobKindSymbolicate | JobKindResymbolicate | JobKindAlert

fun job_kind_text :: "JobKind \<Rightarrow> string" where
  "job_kind_text JobKindSymbolicate = ''symbolicate''"
| "job_kind_text JobKindResymbolicate = ''resymbolicate''"
| "job_kind_text JobKindAlert = ''alert''"

definition job_kind_values :: "JobKind list" where
  "job_kind_values = [JobKindSymbolicate, JobKindResymbolicate, JobKindAlert]"

definition job_kind_of_text :: "string \<Rightarrow> JobKind option" where
  "job_kind_of_text s = find (\<lambda>x. job_kind_text x = s) job_kind_values"

interpretation job_kind: enum_text job_kind_values job_kind_text
proof unfold_locales
  show "x \<in> set job_kind_values" for x by (cases x) (simp_all add: job_kind_values_def)
qed (simp add: job_kind_values_def)

lemma job_kind_of_text_text [simp]: "job_kind_of_text (job_kind_text x) = Some x"
  unfolding job_kind_of_text_def by (rule job_kind.find_text)

section \<open>SessionStatus\<close>

datatype SessionStatus = SessionStatusOk | SessionStatusExited | SessionStatusCrashed |
    SessionStatusErrored | SessionStatusAbnormal

fun session_status_text :: "SessionStatus \<Rightarrow> string" where
  "session_status_text SessionStatusOk = ''ok''"
| "session_status_text SessionStatusExited = ''exited''"
| "session_status_text SessionStatusCrashed = ''crashed''"
| "session_status_text SessionStatusErrored = ''errored''"
| "session_status_text SessionStatusAbnormal = ''abnormal''"

definition session_status_values :: "SessionStatus list" where
  "session_status_values = [SessionStatusOk, SessionStatusExited, SessionStatusCrashed,
    SessionStatusErrored, SessionStatusAbnormal]"

definition session_status_of_text :: "string \<Rightarrow> SessionStatus option" where
  "session_status_of_text s = find (\<lambda>x. session_status_text x = s) session_status_values"

interpretation session_status: enum_text session_status_values session_status_text
proof unfold_locales
  show "x \<in> set session_status_values" for x by (cases x) (simp_all add:
    session_status_values_def)
qed (simp add: session_status_values_def)

lemma session_status_of_text_text [simp]: "session_status_of_text (session_status_text x) = Some x"
  unfolding session_status_of_text_def by (rule session_status.find_text)

section \<open>SymbolKind\<close>

datatype SymbolKind = SymbolKindProguard | SymbolKindSourcemap | SymbolKindDsym

fun symbol_kind_text :: "SymbolKind \<Rightarrow> string" where
  "symbol_kind_text SymbolKindProguard = ''proguard''"
| "symbol_kind_text SymbolKindSourcemap = ''sourcemap''"
| "symbol_kind_text SymbolKindDsym = ''dsym''"

definition symbol_kind_values :: "SymbolKind list" where
  "symbol_kind_values = [SymbolKindProguard, SymbolKindSourcemap, SymbolKindDsym]"

definition symbol_kind_of_text :: "string \<Rightarrow> SymbolKind option" where
  "symbol_kind_of_text s = find (\<lambda>x. symbol_kind_text x = s) symbol_kind_values"

interpretation symbol_kind: enum_text symbol_kind_values symbol_kind_text
proof unfold_locales
  show "x \<in> set symbol_kind_values" for x by (cases x) (simp_all add: symbol_kind_values_def)
qed (simp add: symbol_kind_values_def)

lemma symbol_kind_of_text_text [simp]: "symbol_kind_of_text (symbol_kind_text x) = Some x"
  unfolding symbol_kind_of_text_def by (rule symbol_kind.find_text)

end
