(* ===== verification/Issues.thy ===== *)
theory Issues
  imports Enums Ids
begin

text \<open>
  \<open>internal/store/issues.go\<close>: the issues table, one row per (project, fingerprint), and the
  statements that change it: the upsert of ingest, the status changes of a user (one issue or many
  at once), the conditional un-ignoring, the adjustments of symbolication and the clean-up of empty
  issues; the page query of the issue list. Counts are \<open>BIGINT\<close> columns, here \<open>int\<close> (a count
  past \<open>2 ^ 63\<close> is an error in Postgres). Texts sort by bytes.
\<close>

section \<open>Rows\<close>

record issue =
  is_project :: project_id
  is_fingerprint :: id_text
  is_title :: string
  is_level :: EventLevel
  is_error_type :: "string option"
  is_transaction :: "string option"
  is_platform :: "string option"
  is_status :: IssueStatus
  is_status_by :: "string option"
  is_event_count :: int
  is_stored_count :: int
  is_first_seen :: time
  is_last_seen :: time
  is_first_release :: "string option"
  is_last_release :: "string option"
  is_releases :: "string list"
  is_resolved_releases :: "string list option"
  is_ignore_until :: "time option"
  is_ignore_until_count :: "int option"
  is_ignore_until_escalating :: bool
  is_ignore_baseline :: "int option"
  is_created_at :: time
  is_updated_at :: time

abbreviation issue_key :: "issue \<Rightarrow> project_id \<times> id_text" where
  "issue_key i \<equiv> (is_project i, is_fingerprint i)"

type_synonym issues = "issue list"

definition GetIssue :: "issues \<Rightarrow> project_id \<Rightarrow> id_text \<Rightarrow> issue option" where
  "GetIssue t pid fp = lookup_by issue_key (pid, fp) t"

text \<open>A row of \<open>issue_stats_hourly\<close>: an issue's stored events in one hour.\<close>

record issue_hour =
  ih_project :: project_id
  ih_fingerprint :: id_text
  ih_bucket :: time
  ih_events :: int

section \<open>UpsertIssue\<close>

record upsert_issue_params =
  ui_project :: project_id
  ui_fingerprint :: id_text
  ui_title :: string
  ui_level :: EventLevel
  ui_error_type :: "string option"
  ui_transaction :: "string option"
  ui_platform :: "string option"
  ui_event_count :: int
  ui_stored_count :: int
  ui_first_seen :: time
  ui_last_seen :: time
  ui_first_release :: "string option"
  ui_releases :: "string list option"
  ui_regress :: bool

text \<open>The row the statement proposes (\<open>EXCLUDED\<close>).\<close>

definition excluded_issue :: "time \<Rightarrow> upsert_issue_params \<Rightarrow> issue" where
  "excluded_issue now p =
     \<lparr>is_project = ui_project p, is_fingerprint = ui_fingerprint p, is_title = ui_title p,
      is_level = ui_level p, is_error_type = ui_error_type p, is_transaction = ui_transaction p,
      is_platform = ui_platform p, is_status = IssueStatusUnresolved, is_status_by = None,
      is_event_count = ui_event_count p, is_stored_count = ui_stored_count p,
      is_first_seen = ui_first_seen p, is_last_seen = ui_last_seen p,
      is_first_release = ui_first_release p, is_last_release = ui_first_release p,
      is_releases = (case ui_releases p of None \<Rightarrow> [] | Some rs \<Rightarrow> rs),
      is_resolved_releases = None, is_ignore_until = None, is_ignore_until_count = None,
      is_ignore_until_escalating = False, is_ignore_baseline = None, is_created_at = now,
      is_updated_at = now\<rparr>"

definition coalesce :: "'a option \<Rightarrow> 'a option \<Rightarrow> 'a option" where
  "coalesce a b = (case a of None \<Rightarrow> b | Some _ \<Rightarrow> a)"

text \<open>\<open>array_agg(DISTINCT r ORDER BY r)\<close> and \<open>@>\<close> on arrays of text.\<close>

definition sorted_distinct :: "string list \<Rightarrow> string list" where
  "sorted_distinct rs = sort (remdups rs)"

definition array_contains :: "string list \<Rightarrow> string list \<Rightarrow> bool" where
  "array_contains a b = list_all (\<lambda>x. x \<in> set a) b"

definition merge_issue :: "bool \<Rightarrow> time \<Rightarrow> issue \<Rightarrow> issue \<Rightarrow> issue" where
  "merge_issue regress now i x = i\<lparr>
     is_event_count := is_event_count i + is_event_count x,
     is_stored_count := is_stored_count i + is_stored_count x,
     is_last_seen := max (is_last_seen i) (is_last_seen x),
     is_first_seen := min (is_first_seen i) (is_first_seen x),
     is_last_release := (if is_last_seen i \<le> is_last_seen x
                         then coalesce (is_last_release x) (is_last_release i) else is_last_release i),
     is_level := (if is_last_seen i \<le> is_last_seen x then is_level x else is_level i),
     is_releases := (if array_contains (is_releases i) (is_releases x) then is_releases i
                     else sorted_distinct (is_releases i @ is_releases x)),
     is_status := (if regress \<and> is_status i = IssueStatusResolved
                      \<and> \<not> array_contains (case is_resolved_releases i of None \<Rightarrow> [] | Some rs \<Rightarrow> rs)
                                         (is_releases x)
                   then IssueStatusRegression else is_status i),
     is_updated_at := now\<rparr>"

record upsert_issue_row =
  ur_issue :: issue
  ur_created :: bool
  ur_regressed :: bool

definition upsert_issue_table :: "time \<Rightarrow> upsert_issue_params \<Rightarrow> issues \<Rightarrow> issues" where
  "upsert_issue_table now p t =
     upsert issue_key (merge_issue (ui_regress p) now) (excluded_issue now p) t"

definition UpsertIssue :: "time \<Rightarrow> upsert_issue_params \<Rightarrow> issues \<Rightarrow> upsert_issue_row \<times> issues" where
  "UpsertIssue now p t =
     (let prev = GetIssue t (ui_project p) (ui_fingerprint p);
          row = (case prev of None \<Rightarrow> excluded_issue now p
                 | Some i \<Rightarrow> merge_issue (ui_regress p) now i (excluded_issue now p))
      in (\<lparr>ur_issue = row, ur_created = (prev = None),
           ur_regressed = (is_status row = IssueStatusRegression
                           \<and> map_option is_status prev = Some IssueStatusResolved)\<rparr>,
          upsert_issue_table now p t))"

section \<open>Status changes\<close>

record set_status_params =
  sp_status :: IssueStatus
  sp_status_by :: "string option"
  sp_ignore_until :: "time option"
  sp_ignore_events :: "int option"
  sp_ignore_escalating :: bool

text \<open>The stored events of an issue over the 24 full hours before now.\<close>

definition ignore_baseline_of :: "issue_hour list \<Rightarrow> time \<Rightarrow> issue \<Rightarrow> int" where
  "ignore_baseline_of hours now i =
     (let h0 = truncate_time now hour
      in sum_list (map ih_events (filter (\<lambda>h. ih_project h = is_project i
           \<and> ih_fingerprint h = is_fingerprint i \<and> h0 - 24 * hour \<le> ih_bucket h \<and> ih_bucket h < h0) hours)))"

definition set_status_row :: "issue_hour list \<Rightarrow> time \<Rightarrow> set_status_params \<Rightarrow> issue \<Rightarrow> issue" where
  "set_status_row hours now p i =
     (let ignored = (sp_status p = IssueStatusIgnored) in i\<lparr>
       is_status := sp_status p,
       is_status_by := sp_status_by p,
       is_resolved_releases := (if sp_status p = IssueStatusResolved then Some (is_releases i)
                                else is_resolved_releases i),
       is_ignore_until := (if ignored then sp_ignore_until p else None),
       is_ignore_until_count := (if ignored
                                 then map_option (\<lambda>n. is_event_count i + n) (sp_ignore_events p)
                                 else None),
       is_ignore_until_escalating := (ignored \<and> sp_ignore_escalating p),
       is_ignore_baseline := (if ignored \<and> sp_ignore_escalating p
                              then Some (ignore_baseline_of hours now i) else None),
       is_updated_at := now\<rparr>)"

definition SetIssueStatus ::
  "issue_hour list \<Rightarrow> time \<Rightarrow> project_id \<Rightarrow> id_text \<Rightarrow> set_status_params \<Rightarrow> issues
     \<Rightarrow> issue option \<times> issues" where
  "SetIssueStatus hours now pid fp p t =
     (let t' = update_where (\<lambda>i. issue_key i = (pid, fp)) (set_status_row hours now p) t
      in (GetIssue t' pid fp, t'))"

definition SetIssuesStatus ::
  "issue_hour list \<Rightarrow> time \<Rightarrow> project_id \<Rightarrow> id_text list \<Rightarrow> set_status_params \<Rightarrow> issues
     \<Rightarrow> nat \<times> issues" where
  "SetIssuesStatus hours now pid fps p t =
     (let hit = (\<lambda>i. is_project i = pid \<and> is_fingerprint i \<in> set fps)
      in (length (filter hit t), update_where hit (set_status_row hours now p) t))"

definition clear_ignore :: "time \<Rightarrow> issue \<Rightarrow> issue" where
  "clear_ignore now i = i\<lparr>
     is_status := IssueStatusUnresolved, is_ignore_until := None, is_ignore_until_count := None,
     is_ignore_until_escalating := False, is_ignore_baseline := None, is_updated_at := now\<rparr>"

definition due_by_time :: "time \<Rightarrow> issue \<Rightarrow> bool" where
  "due_by_time now i = (case is_ignore_until i of None \<Rightarrow> False | Some u \<Rightarrow> u \<le> now)"

definition due_by_count :: "issue \<Rightarrow> bool" where
  "due_by_count i = (case is_ignore_until_count i of None \<Rightarrow> False | Some n \<Rightarrow> n \<le> is_event_count i)"

definition unignore_due :: "time \<Rightarrow> issue \<Rightarrow> bool" where
  "unignore_due now i \<longleftrightarrow> is_status i = IssueStatusIgnored \<and> (due_by_time now i \<or> due_by_count i)"

record unignore_row =
  un_project :: project_id
  un_fingerprint :: id_text
  un_reason :: string

definition UnignoreDue :: "time \<Rightarrow> issues \<Rightarrow> unignore_row list \<times> issues" where
  "UnignoreDue now t =
     (map (\<lambda>i. \<lparr>un_project = is_project i, un_fingerprint = is_fingerprint i,
               un_reason = (if due_by_time now i then ''time'' else ''count'')\<rparr>)
        (filter (unignore_due now) t),
      update_where (unignore_due now) (clear_ignore now) t)"

definition escalating_ignored :: "issue \<Rightarrow> bool" where
  "escalating_ignored i \<longleftrightarrow> is_status i = IssueStatusIgnored \<and> is_ignore_until_escalating i"

definition EscalateIssue :: "time \<Rightarrow> project_id \<Rightarrow> id_text \<Rightarrow> issues \<Rightarrow> issue option \<times> issues" where
  "EscalateIssue now pid fp t =
     (let hit = (\<lambda>i. issue_key i = (pid, fp) \<and> escalating_ignored i)
      in (map_option (clear_ignore now) (find hit t), update_where hit (clear_ignore now) t))"

section \<open>Symbolication's adjustments\<close>

definition adjust_row :: "time \<Rightarrow> int \<Rightarrow> issue \<Rightarrow> issue" where
  "adjust_row now n i = i\<lparr>
     is_stored_count := max 0 (is_stored_count i + n),
     is_event_count := max 0 (is_event_count i + n),
     is_updated_at := now\<rparr>"

definition AdjustIssueStoredCount :: "time \<Rightarrow> project_id \<Rightarrow> id_text \<Rightarrow> int \<Rightarrow> issues \<Rightarrow> issues" where
  "AdjustIssueStoredCount now pid fp n t = update_where (\<lambda>i. issue_key i = (pid, fp)) (adjust_row now n) t"

definition DeleteEmptyIssue :: "project_id \<Rightarrow> id_text \<Rightarrow> issues \<Rightarrow> issues" where
  "DeleteEmptyIssue pid fp t =
     delete_where (\<lambda>i. issue_key i = (pid, fp) \<and> is_event_count i \<le> 0
                       \<and> is_status i = IssueStatusUnresolved) t"

section \<open>The issue list\<close>

text \<open>
  \<open>ListIssues\<close>: a page of the issues that match and how many match without paging. The pattern
  match \<open>text ILIKE pattern\<close> is Postgres's, a parameter. A status or level text outside its enum is
  an error (\<open>None\<close>). Rows that tie in the order keep their table order, one of the orders Postgres
  may give.
\<close>

record issue_filter =
  fi_project :: project_id
  fi_status :: string
  fi_level :: string
  fi_release :: string
  fi_query :: string
  fi_from :: time
  fi_to :: time
  fi_sort :: string
  fi_limit :: int
  fi_offset :: int

definition MaxOffset :: int where "MaxOffset = 10000"
definition MaxFilterLen :: nat where "MaxFilterLen = 200"

definition enums_ok :: "issue_filter \<Rightarrow> bool" where
  "enums_ok f \<longleftrightarrow> (fi_status f = [] \<or> issue_status_of_text (fi_status f) \<noteq> None)
     \<and> (fi_level f = [] \<or> event_level_of_text (fi_level f) \<noteq> None)"

definition issue_where :: "(string \<Rightarrow> string \<Rightarrow> bool) \<Rightarrow> issue_filter \<Rightarrow> issue \<Rightarrow> bool" where
  "issue_where ilike f i \<longleftrightarrow>
     (let q = clip (fi_query f) MaxFilterLen; pat = ''%'' @ escapeLike q @ ''%'' in
      is_project i = fi_project f
      \<and> (fi_status f \<noteq> [] \<longrightarrow> issue_status_text (is_status i) = fi_status f)
      \<and> (fi_level f \<noteq> [] \<longrightarrow> event_level_text (is_level i) = fi_level f)
      \<and> (fi_release f \<noteq> [] \<longrightarrow> is_first_release i = Some (fi_release f)
                              \<or> is_last_release i = Some (fi_release f))
      \<and> (q \<noteq> [] \<longrightarrow> ilike (is_title i) pat
                   \<or> (case is_error_type i of None \<Rightarrow> False | Some t \<Rightarrow> ilike t pat))
      \<and> (fi_from f \<noteq> zero_time \<longrightarrow> fi_from f \<le> is_last_seen i)
      \<and> (fi_to f \<noteq> zero_time \<longrightarrow> is_last_seen i < fi_to f))"

definition issue_sort :: "string \<Rightarrow> issues \<Rightarrow> issues" where
  "issue_sort s t =
     (if s = ''first_seen'' then sort_key (\<lambda>i. - is_first_seen i) t
      else if s = ''events'' then sort_key (\<lambda>i. - is_event_count i) (sort_key (\<lambda>i. - is_last_seen i) t)
      else sort_key (\<lambda>i. - is_last_seen i) t)"

definition page_limit :: "int \<Rightarrow> nat" where
  "page_limit n =
     (let l = (if n \<le> 0 then 50 else n); l = (if 500 < l then 500 else l) in nat l)"

definition page_offset :: "int \<Rightarrow> nat" where
  "page_offset n = nat (min (max n 0) MaxOffset)"

definition ListIssues :: "(string \<Rightarrow> string \<Rightarrow> bool) \<Rightarrow> issue_filter \<Rightarrow> issues \<Rightarrow> (issues \<times> nat) option" where
  "ListIssues ilike f t =
     (if \<not> enums_ok f then None
      else let hits = filter (issue_where ilike f) t;
               page = take (page_limit (fi_limit f)) (drop (page_offset (fi_offset f))
                        (issue_sort (fi_sort f) hits));
               total = (if page = [] then 0 else length hits);
               total = (if page = [] \<and> 0 < page_offset (fi_offset f) then length hits else total)
           in Some (page, total))"

definition CountIssuesByStatus :: "issues \<Rightarrow> project_id \<Rightarrow> (IssueStatus \<times> nat) list" where
  "CountIssuesByStatus t pid =
     filter (\<lambda>(s, n). n \<noteq> 0)
       (map (\<lambda>s. (s, length (filter (\<lambda>i. is_project i = pid \<and> is_status i = s) t)))
         issue_status_values)"

definition CountNewIssues :: "issues \<Rightarrow> project_id \<Rightarrow> time \<Rightarrow> nat" where
  "CountNewIssues t pid since = length (filter (\<lambda>i. is_project i = pid \<and> since \<le> is_first_seen i) t)"

definition CountNewIssuesIn :: "issues \<Rightarrow> project_id \<Rightarrow> time \<Rightarrow> time \<Rightarrow> nat" where
  "CountNewIssuesIn t pid since before =
     length (filter (\<lambda>i. is_project i = pid \<and> since \<le> is_first_seen i \<and> is_first_seen i < before) t)"

definition CountRegressions :: "issues \<Rightarrow> project_id \<Rightarrow> time \<Rightarrow> nat" where
  "CountRegressions t pid since =
     length (filter (\<lambda>i. is_project i = pid \<and> is_status i = IssueStatusRegression
                       \<and> since \<le> is_last_seen i) t)"

definition CountRegressionsIn :: "issues \<Rightarrow> project_id \<Rightarrow> time \<Rightarrow> time \<Rightarrow> nat" where
  "CountRegressionsIn t pid since before =
     length (filter (\<lambda>i. is_project i = pid \<and> is_status i = IssueStatusRegression
                       \<and> since \<le> is_last_seen i \<and> is_last_seen i < before) t)"

definition ListRegressions :: "issues \<Rightarrow> project_id \<Rightarrow> nat \<Rightarrow> issues" where
  "ListRegressions t pid n =
     take n (sort_key (\<lambda>i. - is_last_seen i)
       (filter (\<lambda>i. is_project i = pid \<and> is_status i = IssueStatusRegression) t))"

definition ListNewIssues :: "issues \<Rightarrow> project_id \<Rightarrow> time \<Rightarrow> nat \<Rightarrow> issues" where
  "ListNewIssues t pid since n =
     take n (sort_key (\<lambda>i. - is_first_seen i)
       (filter (\<lambda>i. is_project i = pid \<and> since \<le> is_first_seen i) t))"

definition ListIssuesByRelease :: "issues \<Rightarrow> project_id \<Rightarrow> string \<Rightarrow> nat \<Rightarrow> issues" where
  "ListIssuesByRelease t pid rel n =
     take n (sort_key (\<lambda>i. - is_event_count i)
       (filter (\<lambda>i. is_project i = pid
          \<and> (is_first_release i = Some rel \<or> is_last_release i = Some rel)) t))"

section \<open>The table's contract\<close>

lemma array_contains_iff: "array_contains a b \<longleftrightarrow> set b \<subseteq> set a"
  by (auto simp: array_contains_def list_all_iff)

lemma set_sorted_distinct [simp]: "set (sorted_distinct rs) = set rs"
  by (simp add: sorted_distinct_def)

lemma merge_issue_key [simp]: "issue_key (merge_issue r now i x) = issue_key i"
  by (simp add: merge_issue_def)

interpretation issue_table: keyed_table issue_key "merge_issue reg tm" for reg tm
  by unfold_locales simp

lemma UpsertIssue_row:
  assumes "unique_by issue_key t"
  shows "GetIssue (snd (UpsertIssue now p t)) (ui_project p) (ui_fingerprint p) =
         Some (ur_issue (fst (UpsertIssue now p t)))"
proof -
  have k: "issue_key (excluded_issue now p) = (ui_project p, ui_fingerprint p)"
    by (simp add: excluded_issue_def)
  show ?thesis
    using issue_table.lookup_upsert_same [where r = "excluded_issue now p" and t = t and reg = "ui_regress p" and tm = now]
    by (simp add: UpsertIssue_def upsert_issue_table_def GetIssue_def Let_def k split: option.split)
qed

lemma merge_issue_releases [simp]: "set (is_releases (merge_issue r now i x)) = set (is_releases i) \<union> set (is_releases x)"
  by (auto simp: merge_issue_def array_contains_iff)

section \<open>The invariant of the table\<close>

text \<open>
  What holds of every row: counts are ordered, the first sighting is not after the last, the
  conditions of an ignore are there only while it is ignored, the baseline exactly when it waits for
  escalation, and the releases recorded when it was resolved are among those it was seen on.
\<close>

definition wf_issue :: "issue \<Rightarrow> bool" where
  "wf_issue i \<longleftrightarrow>
     0 \<le> is_stored_count i \<and> is_stored_count i \<le> is_event_count i
     \<and> is_first_seen i \<le> is_last_seen i
     \<and> (is_status i \<noteq> IssueStatusIgnored \<longrightarrow>
          is_ignore_until i = None \<and> is_ignore_until_count i = None \<and> \<not> is_ignore_until_escalating i)
     \<and> (is_ignore_until_escalating i \<longleftrightarrow> is_ignore_baseline i \<noteq> None)
     \<and> (is_status i \<in> {IssueStatusResolved, IssueStatusRegression} \<longrightarrow> is_resolved_releases i \<noteq> None)
     \<and> (case is_resolved_releases i of None \<Rightarrow> True | Some rs \<Rightarrow> set rs \<subseteq> set (is_releases i))"

datatype issue_op =
    OpUpsert time upsert_issue_params
  | OpSetStatus "issue_hour list" time project_id id_text set_status_params
  | OpSetStatuses "issue_hour list" time project_id "id_text list" set_status_params
  | OpUnignore time
  | OpEscalate time project_id id_text
  | OpAdjust time project_id id_text int
  | OpDeleteEmpty project_id id_text

fun apply_issue_op :: "issue_op \<Rightarrow> issues \<Rightarrow> issues" where
  "apply_issue_op (OpUpsert now p) t = snd (UpsertIssue now p t)"
| "apply_issue_op (OpSetStatus hs now pid fp p) t = snd (SetIssueStatus hs now pid fp p t)"
| "apply_issue_op (OpSetStatuses hs now pid fps p) t = snd (SetIssuesStatus hs now pid fps p t)"
| "apply_issue_op (OpUnignore now) t = snd (UnignoreDue now t)"
| "apply_issue_op (OpEscalate now pid fp) t = snd (EscalateIssue now pid fp t)"
| "apply_issue_op (OpAdjust now pid fp n) t = AdjustIssueStoredCount now pid fp n t"
| "apply_issue_op (OpDeleteEmpty pid fp) t = DeleteEmptyIssue pid fp t"

text \<open>
  What the callers pass: \<open>UpsertIssue\<close> folds at least the stored events, and the API and the
  viewer write the statuses \<open>unresolved\<close>, \<open>resolved\<close> and \<open>ignored\<close> only (\<open>writableStatuses\<close>).
\<close>

definition upsert_ok :: "upsert_issue_params \<Rightarrow> bool" where
  "upsert_ok p \<longleftrightarrow> 0 \<le> ui_stored_count p \<and> ui_stored_count p \<le> ui_event_count p
     \<and> ui_first_seen p \<le> ui_last_seen p"

fun issue_op_ok :: "issue_op \<Rightarrow> bool" where
  "issue_op_ok (OpUpsert now p) = upsert_ok p"
| "issue_op_ok (OpSetStatus hs now pid fp p) = (sp_status p \<noteq> IssueStatusRegression)"
| "issue_op_ok (OpSetStatuses hs now pid fps p) = (sp_status p \<noteq> IssueStatusRegression)"
| "issue_op_ok _ = True"

inductive issues_step :: "issues \<Rightarrow> issues \<Rightarrow> bool" where
  issue_op_step: "issue_op_ok act \<Longrightarrow> issues_step t (apply_issue_op act t)"

definition issues_inv :: "issues \<Rightarrow> bool" where
  "issues_inv t \<longleftrightarrow> unique_by issue_key t \<and> (\<forall>i \<in> set t. wf_issue i)"

lemma issues_inv_update:
  assumes "issues_inv t" and "\<And>i. hit i \<Longrightarrow> wf_issue i \<Longrightarrow> wf_issue (f i) \<and> issue_key (f i) = issue_key i"
  shows "issues_inv (update_where hit f t)"
proof -
  have "map issue_key (update_where hit f t) = map issue_key t"
    using assms by (auto simp: update_where_def issues_inv_def)
  then show ?thesis using assms by (auto simp: issues_inv_def unique_by_def)
qed

lemma wf_excluded: "upsert_ok p \<Longrightarrow> wf_issue (excluded_issue now p)"
  by (simp add: wf_issue_def upsert_ok_def excluded_issue_def)

lemma wf_merge:
  assumes "wf_issue i" and "0 \<le> is_stored_count x" and "is_stored_count x \<le> is_event_count x"
    and "is_first_seen x \<le> is_last_seen x"
  shows "wf_issue (merge_issue r now i x)"
proof -
  have "set (is_releases i) \<subseteq> set (is_releases (merge_issue r now i x))" by simp
  then show ?thesis using assms unfolding wf_issue_def
    by (auto simp: merge_issue_def split: option.splits)
qed

lemma wf_set_status:
  "sp_status p \<noteq> IssueStatusRegression \<Longrightarrow> wf_issue i \<Longrightarrow> wf_issue (set_status_row hs now p i)"
  by (cases "sp_status p") (auto simp: wf_issue_def set_status_row_def Let_def split: option.splits)

lemma wf_clear: "wf_issue i \<Longrightarrow> wf_issue (clear_ignore now i)"
  by (auto simp: wf_issue_def clear_ignore_def split: option.splits)

lemma wf_adjust: "wf_issue i \<Longrightarrow> wf_issue (adjust_row now n i)"
  by (auto simp: wf_issue_def adjust_row_def split: option.splits)

lemma issue_rows_key [simp]:
  "is_project (set_status_row hs now p i) = is_project i"
  "is_fingerprint (set_status_row hs now p i) = is_fingerprint i"
  "is_project (clear_ignore now i) = is_project i"
  "is_fingerprint (clear_ignore now i) = is_fingerprint i"
  "is_project (adjust_row now n i) = is_project i"
  "is_fingerprint (adjust_row now n i) = is_fingerprint i"
  by (simp_all add: set_status_row_def clear_ignore_def adjust_row_def Let_def)

lemma upsert_keeps_inv:
  assumes "issues_inv t" and "upsert_ok p"
  shows "issues_inv (upsert_issue_table now p t)"
proof -
  let ?x = "excluded_issue now p"
  have x: "0 \<le> is_stored_count ?x" "is_stored_count ?x \<le> is_event_count ?x"
    "is_first_seen ?x \<le> is_last_seen ?x"
    using assms(2) by (simp_all add: excluded_issue_def upsert_ok_def)
  have "unique_by issue_key (upsert_issue_table now p t)"
    using assms(1) unfolding upsert_issue_table_def issues_inv_def by (blast intro: issue_table.unique_upsert)
  moreover have "wf_issue i" if "i \<in> set (upsert_issue_table now p t)" for i
    using issue_table.set_upsert_cases [OF that [unfolded upsert_issue_table_def]]
      assms wf_excluded wf_merge [OF _ x] by (auto simp: issues_inv_def)
  ultimately show ?thesis by (simp add: issues_inv_def)
qed

interpretation issues_machine: invariant "\<lambda>t. t = []" issues_step issues_inv
proof unfold_locales
  show "t = [] \<Longrightarrow> issues_inv t" for t by (simp add: issues_inv_def unique_by_def)
next
  fix s t assume "issues_step s t" and inv: "issues_inv s"
  then obtain act where "issue_op_ok act" and t: "t = apply_issue_op act s"
    by (auto elim: issues_step.cases)
  then show "issues_inv t"
  proof (cases act)
    case (OpUpsert now p)
    then show ?thesis using upsert_keeps_inv [OF inv] \<open>issue_op_ok act\<close> t
      by (simp add: UpsertIssue_def Let_def)
  next
    case (OpDeleteEmpty pid fp)
    then show ?thesis using inv t unique_delete_where
      by (auto simp: DeleteEmptyIssue_def issues_inv_def)
  next
    case OpSetStatus
    then show ?thesis using t \<open>issue_op_ok act\<close>
      by (auto simp: SetIssueStatus_def Let_def intro!: issues_inv_update [OF inv] wf_set_status)
  next
    case OpSetStatuses
    then show ?thesis using t \<open>issue_op_ok act\<close>
      by (auto simp: SetIssuesStatus_def Let_def intro!: issues_inv_update [OF inv] wf_set_status)
  qed (use t in \<open>auto simp: UnignoreDue_def EscalateIssue_def AdjustIssueStoredCount_def Let_def
      wf_clear wf_adjust intro!: issues_inv_update [OF inv]\<close>)
qed

section \<open>Folding upserts\<close>

definition count_at :: "issues \<Rightarrow> project_id \<times> id_text \<Rightarrow> int \<times> int" where
  "count_at t k = (case lookup_by issue_key k t of None \<Rightarrow> (0, 0)
                   | Some i \<Rightarrow> (is_event_count i, is_stored_count i))"

definition releases_at :: "issues \<Rightarrow> project_id \<times> id_text \<Rightarrow> string set" where
  "releases_at t k = (case lookup_by issue_key k t of None \<Rightarrow> {} | Some i \<Rightarrow> set (is_releases i))"

definition param_key :: "upsert_issue_params \<Rightarrow> project_id \<times> id_text" where
  "param_key p = (ui_project p, ui_fingerprint p)"

definition param_releases :: "upsert_issue_params \<Rightarrow> string set" where
  "param_releases p = set (case ui_releases p of None \<Rightarrow> [] | Some rs \<Rightarrow> rs)"

definition upsert_all :: "(time \<times> upsert_issue_params) list \<Rightarrow> issues \<Rightarrow> issues" where
  "upsert_all ps t = fold (\<lambda>(now, p). upsert_issue_table now p) ps t"

lemma upsert_at:
  "count_at (upsert_issue_table now p t) k =
     (if k = param_key p then (fst (count_at t k) + ui_event_count p, snd (count_at t k) + ui_stored_count p)
      else count_at t k)"
  "releases_at (upsert_issue_table now p t) k =
     (if k = param_key p then releases_at t k \<union> param_releases p else releases_at t k)"
proof -
  have k: "issue_key (excluded_issue now p) = param_key p"
    by (simp add: excluded_issue_def param_key_def)
  show "count_at (upsert_issue_table now p t) k =
     (if k = param_key p then (fst (count_at t k) + ui_event_count p, snd (count_at t k) + ui_stored_count p)
      else count_at t k)"
    unfolding count_at_def upsert_issue_table_def issue_table.lookup_upsert k
    by (simp add: merge_issue_def excluded_issue_def split: option.split)
  show "releases_at (upsert_issue_table now p t) k =
     (if k = param_key p then releases_at t k \<union> param_releases p else releases_at t k)"
    unfolding releases_at_def upsert_issue_table_def issue_table.lookup_upsert k
    by (simp add: excluded_issue_def param_releases_def split: option.split)
qed

lemma bulk_status_step:
  "update_where (\<lambda>i. is_project i = pid \<and> is_fingerprint i \<in> set (fp # fps)) (set_status_row hs now p) t =
   update_where (\<lambda>i. is_project i = pid \<and> is_fingerprint i \<in> set fps) (set_status_row hs now p)
     (update_where (\<lambda>i. issue_key i = (pid, fp)) (set_status_row hs now p) t)"
proof -
  have idem: "set_status_row hs now p (set_status_row hs now p i) = set_status_row hs now p i" for i
    by (simp add: set_status_row_def Let_def ignore_baseline_of_def cong: option.map_cong)
  show ?thesis by (induction t) (auto simp: update_where_def idem)
qed

section \<open>Properties\<close>

text \<open>
  C22. The issues table stays well formed whatever happens to it: starting empty, after any
  sequence of upserts, status changes (one or many), un-ignoring, escalation, adjustments and
  clean-up, there is one row per fingerprint and every row is well formed.
\<close>

theorem issues_stay_well_formed:
  assumes "reach (\<lambda>t. t = []) issues_step t"
  shows "unique_by issue_key t \<and> list_all wf_issue t"
  using issues_machine.reach_inv [OF assms] by (simp add: issues_inv_def list_all_iff)

definition example_upsert :: upsert_issue_params where
  "example_upsert = \<lparr>ui_project = 1, ui_fingerprint = ''ab'', ui_title = ''Boom'',
     ui_level = EventLevelError, ui_error_type = Some ''E'', ui_transaction = None,
     ui_platform = Some ''go'', ui_event_count = 3, ui_stored_count = 2, ui_first_seen = 10,
     ui_last_seen = 20, ui_first_release = Some ''1.0'', ui_releases = Some [''1.0''],
     ui_regress = True\<rparr>"

lemma issues_stay_well_formed_witness:
  "unique_by issue_key (snd (UpsertIssue 30 example_upsert []))
   \<and> list_all wf_issue (snd (UpsertIssue 30 example_upsert []))"
proof (rule issues_stay_well_formed)
  have "issues_step [] (apply_issue_op (OpUpsert 30 example_upsert) [])"
    by (rule issue_op_step) (simp add: upsert_ok_def example_upsert_def)
  then show "reach (\<lambda>t. t = []) issues_step (snd (UpsertIssue 30 example_upsert []))"
    by (auto intro: reach_step reach_init)
qed

text \<open>
  C23. When an issue comes back: \<open>UpsertIssue\<close> reports a regression exactly when the row was
  resolved, the caller asked for it, and one of the event's releases is not among those recorded
  at resolve time; it reports a creation exactly when there was no row. The row it returns is the one the
  table then has, and no other row changes.
\<close>

theorem UpsertIssue_regression:
  "(ur_regressed (fst (UpsertIssue now p t)) \<longleftrightarrow>
      (\<exists>i. GetIssue t (ui_project p) (ui_fingerprint p) = Some i
         \<and> is_status i = IssueStatusResolved \<and> ui_regress p
         \<and> \<not> set (case ui_releases p of None \<Rightarrow> [] | Some rs \<Rightarrow> rs)
             \<subseteq> set (case is_resolved_releases i of None \<Rightarrow> [] | Some rs \<Rightarrow> rs)))
   \<and> (ur_created (fst (UpsertIssue now p t)) \<longleftrightarrow>
      GetIssue t (ui_project p) (ui_fingerprint p) = None)
   \<and> lookup_by issue_key k (snd (UpsertIssue now p t)) =
        (if k = (ui_project p, ui_fingerprint p) then Some (ur_issue (fst (UpsertIssue now p t)))
         else lookup_by issue_key k t)"
proof (intro conjI)
  have "issue_key (excluded_issue now p) = (ui_project p, ui_fingerprint p)"
    by (simp add: excluded_issue_def)
  then show "lookup_by issue_key k (snd (UpsertIssue now p t)) =
      (if k = (ui_project p, ui_fingerprint p) then Some (ur_issue (fst (UpsertIssue now p t)))
       else lookup_by issue_key k t)"
    by (simp add: UpsertIssue_def upsert_issue_table_def Let_def GetIssue_def
        issue_table.lookup_upsert split: option.split)
qed (auto simp: UpsertIssue_def Let_def merge_issue_def excluded_issue_def array_contains_iff
    split: option.splits)


text \<open>
  The bulk status change of the issue list is the single one repeated: the same rows result,
  whatever the order and even when a fingerprint is named twice.
\<close>

theorem SetIssuesStatus_is_repeated:
  "snd (SetIssuesStatus hs now pid fps p t) =
   fold (\<lambda>fp t. snd (SetIssueStatus hs now pid fp p t)) fps t"
proof (induction fps arbitrary: t)
  case Nil
  then show ?case by (simp add: SetIssuesStatus_def update_where_def)
next
  case (Cons fp fps)
  show ?case
    using Cons.IH [of "update_where (\<lambda>i. issue_key i = (pid, fp)) (set_status_row hs now p) t"]
    by (simp only: SetIssuesStatus_def SetIssueStatus_def Let_def snd_conv fold_Cons comp_def
        bulk_status_step)
qed


text \<open>
  The issue list reports the true number of matches on every page, empty ones included, a page
  has at most 500 rows, and the rows are matches in the requested order.
\<close>

theorem ListIssues_page:
  assumes "ListIssues ilike f t = Some (page, n)"
  shows "n = length (filter (issue_where ilike f) t) \<and> length page \<le> 500
    \<and> subseq page (issue_sort (fi_sort f) (filter (issue_where ilike f) t))"
proof (intro conjI)
  let ?hits = "filter (issue_where ilike f) t"
  have len: "length (issue_sort (fi_sort f) ?hits) = length ?hits" by (simp add: issue_sort_def)
  have pos: "0 < page_limit l" "page_limit l \<le> 500" for l by (auto simp: page_limit_def Let_def)
  have page: "page = take (page_limit (fi_limit f)) (drop (page_offset (fi_offset f))
      (issue_sort (fi_sort f) ?hits))"
    and n: "n = (if page = [] \<and> 0 < page_offset (fi_offset f) then length ?hits
      else if page = [] then 0 else length ?hits)"
    using assms by (auto simp: ListIssues_def Let_def split: if_splits)
  from page pos(2) show "length page \<le> 500" by (simp add: min.coboundedI2)
  have "page = [] \<Longrightarrow> page_offset (fi_offset f) = 0 \<Longrightarrow> ?hits = []"
    using page pos(1) [of "fi_limit f"] len by (metis drop0 length_0_conv neq0_conv take_eq_Nil)
  then show "n = length ?hits" using n by (cases "page = []") (auto simp del: filter_empty_conv)
  show "subseq page (issue_sort (fi_sort f) ?hits)"
    unfolding page
    by (meson prefix_imp_subseq subseq_order.order_trans suffix_drop suffix_imp_subseq take_is_prefix)
qed

definition example_filter :: issue_filter where
  "example_filter = \<lparr>fi_project = 1, fi_status = ''unresolved'', fi_level = [], fi_release = ''1.0'',
     fi_query = [], fi_from = zero_time, fi_to = zero_time, fi_sort = ''events'', fi_limit = 20,
     fi_offset = 0\<rparr>"

lemma ListIssues_page_witness:
  "1 = length (filter (issue_where (\<lambda>s p. False) example_filter) [excluded_issue 30 example_upsert])
   \<and> length [excluded_issue 30 example_upsert] \<le> 500
   \<and> subseq [excluded_issue 30 example_upsert]
       (issue_sort (fi_sort example_filter) (filter (issue_where (\<lambda>s p. False) example_filter) [excluded_issue 30 example_upsert]))"
proof (rule ListIssues_page)
  have "issue_where (\<lambda>s p. False) example_filter (excluded_issue 30 example_upsert)"
    by (simp add: issue_where_def example_filter_def excluded_issue_def example_upsert_def clip_def)
  then show "ListIssues (\<lambda>s p. False) example_filter [excluded_issue 30 example_upsert]
      = Some ([excluded_issue 30 example_upsert], 1)"
    by (simp add: ListIssues_def enums_ok_def issue_sort_def)
      (simp add: example_filter_def page_limit_def page_offset_def MaxOffset_def
        issue_status_of_text_def issue_status_values_def)
qed

end
