(* ===== verification/Weeks.thy ===== *)
theory Weeks
  imports Prelude
begin

text \<open>
  Monday-aligned UTC weeks, the width of a partition and of a payload pack's range: \<open>weekStart\<close> of
  \<open>internal/retention/retention.go\<close> (and \<open>date_trunc('week', ...)\<close> in \<open>internal/store/spool.go\<close>) as a
  normaliser onto week starts.
\<close>

definition PartitionWidth :: duration where "PartitionWidth = week"

text \<open>\<open>Weekday\<close>: Sunday is 0; the epoch was a Thursday.\<close>

definition Weekday :: "time \<Rightarrow> int" where
  "Weekday t = (t div day + 4) mod 7"

text \<open>The unary minus binds tighter than \<open>%\<close>, and Go's remainder truncates towards zero.\<close>

definition weekStart :: "time \<Rightarrow> time" where
  "weekStart t = (let d = truncate_time t day in d + - ((Weekday d + 6) mod 7) * day)"

definition week_start :: "time \<Rightarrow> bool" where
  "week_start t \<longleftrightarrow> t mod day = 0 \<and> Weekday t = 1"

lemma truncate_day: "truncate_time t day = t div day * day"
  by (subst truncate_time_epoch) (simp_all only: minus_mod_eq_div_mult dvd_refl zero_less_mult_iff zero_less_numeral simp_thms)

lemma day_split:
  obtains q r where "t = q * day + r" "0 \<le> r" "r < day" "t div day = q" "t mod day = r"
proof -
  have "t = (t div day) * day + t mod day" by (rule div_mult_mod_eq [symmetric])
  moreover have "0 \<le> t mod day" "t mod day < day"
    by (rule pos_mod_sign, simp) (rule pos_mod_bound, simp)
  ultimately show ?thesis using that by blast
qed

lemma days_of: "(q * day) div day = q" "(q * day) mod day = 0"
  by (rule nonzero_mult_div_cancel_right, simp) (rule mod_mult_self2_is_0)

lemma weekStart_days: "weekStart t = (t div day - (t div day + 3) mod 7) * day"
proof -
  have "((q + 4) mod 7 + 6) mod 7 = (q + 3) mod 7" for q :: int
    using mod_add_left_eq [of "q + 4" 7 6] mod_add_self2 [of "q + 3" 7] by (simp add: add.assoc)
  then show ?thesis
    by (simp only: weekStart_def Let_def truncate_day Weekday_def days_of left_diff_distrib minus_mult_left [symmetric]
        add_uminus_conv_diff)
qed

lemma week_start_days: "week_start (n * day) \<longleftrightarrow> (n + 3) mod 7 = 0"
proof -
  have "(n + 4) mod 7 = 1 \<longleftrightarrow> (n + 3) mod 7 = 0" by presburger
  then show ?thesis by (simp only: week_start_def Weekday_def days_of simp_thms)
qed

lemma week_startE:
  assumes "week_start s"
  obtains n where "s = n * day" "(n + 3) mod 7 = 0"
proof -
  obtain q r where "s = q * day + r" "s mod day = r" by (rule day_split)
  with assms have s: "s = q * day" by (simp only: week_start_def add_0_right)
  with assms week_start_days that show ?thesis by metis
qed

interpretation weeks: normalizer weekStart week_start
proof
  fix t
  have "((q - (q + 3) mod 7) + 3) mod 7 = 0" for q :: int
    using mod_diff_right_eq [of "q + 3" "q + 3" 7] by (simp add: algebra_simps)
  then show "week_start (weekStart t)" by (simp only: weekStart_days week_start_days)
next
  fix t assume "week_start t"
  then obtain n where "t = n * day" "(n + 3) mod 7 = 0" by (rule week_startE)
  then show "weekStart t = t" by (simp only: weekStart_days days_of diff_zero)
qed

lemma weekStart_le: "weekStart t \<le> t"
proof -
  obtain q r where t: "t = q * day + r" "0 \<le> r" "t div day = q" by (rule day_split)
  have "0 \<le> (q + 3) mod 7" by simp
  then show ?thesis using t(2) unfolding weekStart_days t(3) by (subst t(1)) (simp add: left_diff_distrib)
qed

lemma weekStart_near: "t < weekStart t + week"
proof -
  obtain q r where t: "t = q * day + r" "r < day" "t div day = q" by (rule day_split)
  have "(q + 3) mod 7 < 7" by simp
  then have "(q + 3) mod 7 \<le> 6" by linarith
  then show ?thesis using t(2) unfolding weekStart_days t(3) by (subst t(1)) (simp add: left_diff_distrib)
qed

lemma week_start_add [simp]: "week_start s \<Longrightarrow> week_start (s + week)"
proof (erule week_startE)
  fix n assume n: "s = n * day" "(n + 3) mod 7 = 0"
  have "(n + 7 + 3) mod 7 = 0" using n(2) by presburger
  moreover have "s + week = (n + 7) * day" using n(1) by simp
  ultimately show ?thesis by (simp only: week_start_days)
qed

text \<open>Two week starts less than a week apart are the same; a week is where its times are.\<close>

lemma week_starts_apart: "week_start s \<Longrightarrow> week_start u \<Longrightarrow> s < u + week \<Longrightarrow> u < s + week \<Longrightarrow> s = u"
proof (elim week_startE)
  fix n m assume n: "s = n * day" "(n + 3) mod 7 = 0" and m: "u = m * day" "(m + 3) mod 7 = 0"
    and "s < u + week" "u < s + week"
  then have "n < m + 7" "m < n + 7" by simp_all
  with n(2) m(2) have "n = m" by presburger
  with n m show ?thesis by simp
qed

lemma week_of: "week_start s \<Longrightarrow> s \<le> t \<Longrightarrow> t < s + week \<Longrightarrow> weekStart t = s"
  using week_starts_apart [OF weeks.canonical_f, of s t] weekStart_le [of t] weekStart_near [of t] by linarith

end
