(* ===== verification/EventStore.thy ===== *)
theory EventStore
  imports Issues
begin

text \<open>
  \<open>internal/store/events.go\<close>: the events and sessions tables with the statements that write them
  (\<open>InsertEvents\<close>, \<open>InsertSessions\<close>, \<open>SetEventSymbols\<close>), the dirty marks every writer leaves, and the
  newest-first event list with its keyset cursor (\<open>internal/store/cursor.go\<close>). A batch is one
  transaction. With a blob store the payload goes to the spool (\<open>payload_spool\<close>) instead of the row.
\<close>

section \<open>Rows\<close>

record event_row =
  er_occurred_at :: time
  er_project :: project_id
  er_event_id :: id_text
  er_level :: EventLevel
  er_message :: string
  er_platform :: "string option"
  er_environment :: "string option"
  er_release :: "string option"
  er_device_id :: "string option"
  er_device_model :: "string option"
  er_os_version :: "string option"
  er_transaction :: "string option"
  er_error_type :: "string option"
  er_culprit :: "string option"
  er_handled :: "bool option"
  er_sdk_name :: "string option"
  er_user_id :: "string option"
  er_fingerprint :: "id_text option"
  er_symbolicated :: bool
  er_tags :: "(string \<times> string) list"
  er_symbols :: "string option"
  er_payload :: "string option"

type_synonym event_key = "project_id \<times> id_text \<times> time"

abbreviation event_key_of :: "event_row \<Rightarrow> event_key" where
  "event_key_of r \<equiv> (er_project r, er_event_id r, er_occurred_at r)"

record spool_row =
  sl_project :: project_id
  sl_event_id :: id_text
  sl_occurred_at :: time
  sl_data :: string

abbreviation spool_key :: "spool_row \<Rightarrow> event_key" where
  "spool_key s \<equiv> (sl_project s, sl_event_id s, sl_occurred_at s)"

record session_row =
  ss_started_at :: time
  ss_project :: project_id
  ss_sid :: string
  ss_release :: string
  ss_environment :: "string option"
  ss_status :: SessionStatus
  ss_count :: int

abbreviation session_key :: "session_row \<Rightarrow> project_id \<times> string \<times> time" where
  "session_key s \<equiv> (ss_project s, ss_sid s, ss_started_at s)"

section \<open>Dirty hours\<close>

record dirty_key =
  dk_project :: project_id
  dk_bucket :: time
  dk_gen :: int

abbreviation dirty_hour :: "dirty_key \<Rightarrow> project_id \<times> time" where
  "dirty_hour d \<equiv> (dk_project d, dk_bucket d)"

definition mark_hour :: "project_id \<times> time \<Rightarrow> dirty_key list \<Rightarrow> dirty_key list" where
  "mark_hour h = upsert dirty_hour (\<lambda>d x. d\<lparr>dk_gen := dk_gen d + 1\<rparr>)
     \<lparr>dk_project = fst h, dk_bucket = snd h, dk_gen = 1\<rparr>"

definition mark_hours :: "(project_id \<times> time) list \<Rightarrow> dirty_key list \<Rightarrow> dirty_key list" where
  "mark_hours hs d = fold mark_hour hs d"

text \<open>\<open>addHour\<close>, over the whole batch: each (project, hour) once, in the order they appear.\<close>

definition addHour :: "(project_id \<times> time) list \<Rightarrow> project_id \<Rightarrow> time \<Rightarrow> (project_id \<times> time) list" where
  "addHour hs pid t =
     (let h = truncate_time t hour in if (pid, h) \<in> set hs then hs else hs @ [(pid, h)])"

definition batch_hours :: "(project_id \<times> time) list \<Rightarrow> (project_id \<times> time) list" where
  "batch_hours ts = fold (\<lambda>(pid, t) hs. addHour hs pid t) ts []"

section \<open>Writing\<close>

record event_tables =
  et_events :: "event_row list"
  et_spool :: "spool_row list"
  et_dirty :: "dirty_key list"

definition insert_event_row :: "bool \<Rightarrow> event_row \<Rightarrow> event_tables \<Rightarrow> event_tables" where
  "insert_event_row blobs r db =
     (if event_key_of r \<in> event_key_of ` set (et_events db) then db
      else if \<not> blobs then db\<lparr>et_events := et_events db @ [r]\<rparr>
      else db\<lparr>et_events := et_events db @ [r\<lparr>er_payload := None\<rparr>],
              et_spool := (case er_payload r of
                             None \<Rightarrow> et_spool db
                           | Some p \<Rightarrow> et_spool db @ [\<lparr>sl_project = er_project r, sl_event_id = er_event_id r,
                                         sl_occurred_at = er_occurred_at r, sl_data = p\<rparr>])\<rparr>)"

definition InsertEvents :: "bool \<Rightarrow> event_row list \<Rightarrow> event_tables \<Rightarrow> event_tables" where
  "InsertEvents blobs rows db =
     (let db1 = fold (insert_event_row blobs) rows db;
          hours = batch_hours (map (\<lambda>r. (er_project r, er_occurred_at r)) rows)
      in db1\<lparr>et_dirty := mark_hours hours (et_dirty db1)\<rparr>)"

definition SetEventSymbols ::
  "project_id \<Rightarrow> id_text \<Rightarrow> string \<Rightarrow> id_text option \<Rightarrow> string option \<Rightarrow> time \<Rightarrow> event_row list \<Rightarrow> event_row list" where
  "SetEventSymbols pid eid symbols fp culprit at rows =
     update_where (\<lambda>r. event_key_of r = (pid, eid, at))
       (\<lambda>r. r\<lparr>er_symbols := Some symbols, er_symbolicated := True, er_fingerprint := fp, er_culprit := culprit\<rparr>) rows"

text \<open>A later status of the same session replaces the row's, unless it would take back a terminal one.\<close>

definition merge_session :: "session_row \<Rightarrow> session_row \<Rightarrow> session_row" where
  "merge_session s x = s\<lparr>ss_status :=
     (if ss_status s = SessionStatusOk \<or> ss_status x \<noteq> SessionStatusOk then ss_status x else ss_status s)\<rparr>"

record session_tables =
  st_sessions :: "session_row list"
  st_dirty :: "dirty_key list"

definition InsertSessions :: "session_row list \<Rightarrow> session_tables \<Rightarrow> session_tables" where
  "InsertSessions rows db =
     (let hours = batch_hours (map (\<lambda>r. (ss_project r, ss_started_at r)) rows)
      in \<lparr>st_sessions = fold (upsert session_key merge_session) rows (st_sessions db),
          st_dirty = mark_hours hours (st_dirty db)\<rparr>)"

section \<open>Reading\<close>

definition GetEventAt :: "event_row list \<Rightarrow> project_id \<Rightarrow> id_text \<Rightarrow> time \<Rightarrow> event_row option" where
  "GetEventAt t pid eid at = lookup_by event_key_of (pid, eid, at) t"

definition GetEvent :: "event_row list \<Rightarrow> project_id \<Rightarrow> id_text \<Rightarrow> event_row option" where
  "GetEvent t pid eid =
     (case sort_key (\<lambda>r. - er_occurred_at r) (filter (\<lambda>r. er_project r = pid \<and> er_event_id r = eid) t) of
        [] \<Rightarrow> None | r # _ \<Rightarrow> Some r)"

definition ExistingEventIDs :: "event_row list \<Rightarrow> project_id \<Rightarrow> id_text list \<Rightarrow> time \<Rightarrow> time \<Rightarrow> id_text list" where
  "ExistingEventIDs t pid ids since before =
     map er_event_id (filter (\<lambda>r. er_project r = pid \<and> er_event_id r \<in> set ids
       \<and> since \<le> er_occurred_at r \<and> er_occurred_at r < before) t)"

definition ExistingEventIDsAnyTime :: "event_row list \<Rightarrow> project_id \<Rightarrow> id_text list \<Rightarrow> id_text list" where
  "ExistingEventIDsAnyTime t pid ids =
     map er_event_id (filter (\<lambda>r. er_project r = pid \<and> er_event_id r \<in> set ids) t)"

definition IssueUsers :: "event_row list \<Rightarrow> project_id \<Rightarrow> id_text \<Rightarrow> time \<Rightarrow> time \<Rightarrow> nat" where
  "IssueUsers t pid fp since before =
     length (remdups (List.map_filter er_user_id (filter (\<lambda>r. er_project r = pid \<and> er_fingerprint r = Some fp
       \<and> since \<le> er_occurred_at r \<and> er_occurred_at r < before) t)))"

text \<open>The escalation check of \<open>issues.go\<close>: the stored events since a time, next to the baseline.\<close>

definition EscalationInputs :: "issues \<Rightarrow> event_row list \<Rightarrow> time \<Rightarrow> (project_id \<times> id_text \<times> int \<times> int) list" where
  "EscalationInputs is es since =
     map (\<lambda>i. (is_project i, is_fingerprint i,
               (case is_ignore_baseline i of None \<Rightarrow> 0 | Some n \<Rightarrow> n),
               int (length (filter (\<lambda>e. er_project e = is_project i \<and> er_fingerprint e = Some (is_fingerprint i)
                                      \<and> since \<le> er_occurred_at e) es))))
       (filter escalating_ignored is)"

section \<open>The event list\<close>

record cursor =
  cu_at :: time
  cu_event_id :: id_text

definition cursor_is_zero :: "cursor \<Rightarrow> bool" where
  "cursor_is_zero c \<longleftrightarrow> cu_at c = zero_time"

definition CursorOf :: "event_row \<Rightarrow> cursor" where
  "CursorOf r = \<lparr>cu_at = er_occurred_at r, cu_event_id = er_event_id r\<rparr>"

text \<open>
  The cursor in a URL: \<open>fmt\<close> and \<open>parse\<close> stand for the RFC 3339 rendering of \<open>time.Time\<close>.
\<close>

definition cursor_string :: "(time \<Rightarrow> string) \<Rightarrow> cursor \<Rightarrow> string" where
  "cursor_string fmt c = (if cursor_is_zero c then [] else fmt (cu_at c) @ ''_'' @ cu_event_id c)"

definition ParseCursor :: "(string \<Rightarrow> time option) \<Rightarrow> string \<Rightarrow> cursor option" where
  "ParseCursor parse s =
     (if s = [] then Some \<lparr>cu_at = zero_time, cu_event_id = []\<rparr>
      else let (ts, i, ok) = cut_byte (CHR ''_'') s
           in if \<not> ok \<or> i = [] then None
              else case parse ts of
                     None \<Rightarrow> None
                   | Some t \<Rightarrow> (case ParseID i of None \<Rightarrow> None | Some e \<Rightarrow> Some \<lparr>cu_at = t, cu_event_id = e\<rparr>))"

record event_filter =
  ef_project :: project_id
  ef_from :: time
  ef_to :: time
  ef_level :: string
  ef_release :: string
  ef_environment :: string
  ef_platform :: string
  ef_error_type :: string
  ef_user_id :: string
  ef_device_id :: string
  ef_device_model :: string
  ef_os_version :: string
  ef_transaction :: string
  ef_fingerprint :: id_text
  ef_location :: string
  ef_query :: string
  ef_tags :: "(string \<times> string) list"
  ef_handled :: string
  ef_before :: cursor
  ef_limit :: int

definition col_matches :: "string \<Rightarrow> string option \<Rightarrow> bool" where
  "col_matches v col \<longleftrightarrow> v = [] \<or> col = Some v"

text \<open>\<open>where\<close>: the predicate the built SQL stands for; \<open>ilike\<close> is Postgres's pattern match.\<close>

definition event_where :: "(string \<Rightarrow> string \<Rightarrow> bool) \<Rightarrow> event_filter \<Rightarrow> event_row \<Rightarrow> bool" where
  "event_where ilike f r \<longleftrightarrow>
     (let q = clip (ef_query f) MaxFilterLen in
      er_project r = ef_project f
      \<and> (ef_from f \<noteq> zero_time \<longrightarrow> ef_from f \<le> er_occurred_at r)
      \<and> (ef_to f \<noteq> zero_time \<longrightarrow> er_occurred_at r < ef_to f)
      \<and> (\<not> cursor_is_zero (ef_before f) \<longrightarrow>
           er_occurred_at r < cu_at (ef_before f)
           \<or> er_occurred_at r = cu_at (ef_before f) \<and> er_event_id r < cu_event_id (ef_before f))
      \<and> col_matches (ef_level f) (Some (event_level_text (er_level r)))
      \<and> col_matches (ef_release f) (er_release r)
      \<and> col_matches (ef_environment f) (er_environment r)
      \<and> col_matches (ef_platform f) (er_platform r)
      \<and> col_matches (ef_error_type f) (er_error_type r)
      \<and> col_matches (ef_user_id f) (er_user_id r)
      \<and> col_matches (ef_device_id f) (er_device_id r)
      \<and> col_matches (ef_device_model f) (er_device_model r)
      \<and> col_matches (ef_os_version f) (er_os_version r)
      \<and> col_matches (ef_transaction f) (er_transaction r)
      \<and> col_matches (ef_location f) (er_culprit r)
      \<and> col_matches (ef_fingerprint f) (er_fingerprint r)
      \<and> (q \<noteq> [] \<longrightarrow> ilike (er_message r) (''%'' @ escapeLike q @ ''%''))
      \<and> (ef_handled f = ''false'' \<longrightarrow> er_handled r = Some False)
      \<and> (ef_handled f = ''true'' \<longrightarrow> er_handled r = Some True)
      \<and> list_all (\<lambda>(k, v). map_of (er_tags r) k = Some v) (ef_tags f))"

text \<open>\<open>ORDER BY occurred_at DESC, event_id DESC\<close>.\<close>

definition newest_first :: "event_row list \<Rightarrow> event_row list" where
  "newest_first rows = rev (sort_key er_occurred_at (sort_key er_event_id rows))"

definition matching_events :: "(string \<Rightarrow> string \<Rightarrow> bool) \<Rightarrow> event_filter \<Rightarrow> event_row list \<Rightarrow> event_row list" where
  "matching_events ilike f t = newest_first (filter (event_where ilike f) t)"

definition ListEvents :: "(string \<Rightarrow> string \<Rightarrow> bool) \<Rightarrow> event_filter \<Rightarrow> event_row list \<Rightarrow> event_row list \<times> bool" where
  "ListEvents ilike f t =
     (let limit = page_limit (ef_limit f);
          rows = take (limit + 1) (matching_events ilike f t)
      in if limit < length rows then (take limit rows, True) else (rows, False))"

definition CountEvents :: "(string \<Rightarrow> string \<Rightarrow> bool) \<Rightarrow> event_filter \<Rightarrow> event_row list \<Rightarrow> nat" where
  "CountEvents ilike f t = length (filter (event_where ilike f) t)"

section \<open>Writing again changes nothing\<close>

lemma insert_event_row_keys:
  "event_key_of ` set (et_events (insert_event_row b r db)) = insert (event_key_of r) (event_key_of ` set (et_events db))"
  by (auto simp: insert_event_row_def split: option.split)

lemma insert_events_keys:
  "event_key_of ` set (et_events (fold (insert_event_row b) rows db)) =
     event_key_of ` set rows \<union> event_key_of ` set (et_events db)"
proof (induction rows arbitrary: db)
  case (Cons r rows)
  then show ?case by (simp only: fold_Cons comp_def insert_event_row_keys list.set image_insert) blast
qed simp

lemma insert_events_known:
  "event_key_of ` set rows \<subseteq> event_key_of ` set (et_events db) \<Longrightarrow> fold (insert_event_row b) rows db = db"
  by (induction rows) (auto simp: insert_event_row_def)

lemma insert_events_dirty [simp]: "et_dirty (fold (insert_event_row b) rows db) = et_dirty db"
proof (induction rows arbitrary: db)
  case (Cons r rows)
  have "et_dirty (insert_event_row b r db) = et_dirty db"
    by (simp add: insert_event_row_def split: option.split)
  with Cons show ?case by simp
qed simp

lemma insert_events_ignore_dirty:
  "et_events (fold (insert_event_row b) rows (db\<lparr>et_dirty := d\<rparr>)) = et_events (fold (insert_event_row b) rows db)
   \<and> et_spool (fold (insert_event_row b) rows (db\<lparr>et_dirty := d\<rparr>)) = et_spool (fold (insert_event_row b) rows db)"
proof (induction rows arbitrary: db)
  case (Cons r rows)
  have "insert_event_row b r (db\<lparr>et_dirty := d\<rparr>) = (insert_event_row b r db)\<lparr>et_dirty := d\<rparr>"
    by (simp add: insert_event_row_def split: option.split)
  with Cons show ?case by simp
qed simp

lemma insert_event_row_unique:
  "unique_by event_key_of (et_events db) \<Longrightarrow> unique_by event_key_of (et_events (insert_event_row b r db))"
  by (auto simp: insert_event_row_def unique_by_def split: option.split)

lemma InsertEvents_unique [step_inv]:
  "unique_by event_key_of (et_events db) \<Longrightarrow> unique_by event_key_of (et_events (InsertEvents b rows db))"
proof -
  have "unique_by event_key_of (et_events db) \<Longrightarrow> unique_by event_key_of (et_events (fold (insert_event_row b) rows db))" for db
    by (induction rows arbitrary: db) (auto intro: insert_event_row_unique)
  then show "unique_by event_key_of (et_events db) \<Longrightarrow> ?thesis" by (simp add: InsertEvents_def Let_def)
qed

interpretation session_table: keyed_table session_key merge_session
  by unfold_locales (simp add: merge_session_def)

lemma merge_session_absorb:
  "merge_session (merge_session s x) x = merge_session s x"
  by (simp add: merge_session_def)

text \<open>The status a session has after a sequence of updates: the last one that is not \<open>ok\<close>, if any.\<close>

definition settle :: "SessionStatus \<Rightarrow> SessionStatus list \<Rightarrow> SessionStatus" where
  "settle s xs = (case filter (\<lambda>x. x \<noteq> SessionStatusOk) xs of [] \<Rightarrow> s | ys \<Rightarrow> last ys)"

lemma settle_Nil [simp]: "settle s [] = s"
  by (simp add: settle_def)

lemma settle_Cons:
  "settle s (x # xs) = settle (if s = SessionStatusOk \<or> x \<noteq> SessionStatusOk then x else s) xs"
  by (auto simp: settle_def split: list.splits)

lemma settle_twice: "settle (settle s xs) xs = settle s xs"
  by (auto simp: settle_def split: list.splits)

lemma sessions_fold_lookup:
  "lookup_by session_key k (fold (upsert session_key merge_session) rows t) =
     (let xs = filter (\<lambda>r. session_key r = k) rows in
      case lookup_by session_key k t of
        Some s \<Rightarrow> Some (s\<lparr>ss_status := settle (ss_status s) (map ss_status xs)\<rparr>)
      | None \<Rightarrow> (case xs of [] \<Rightarrow> None
                 | x # ys \<Rightarrow> Some (x\<lparr>ss_status := settle (ss_status x) (map ss_status ys)\<rparr>)))"
proof (induction rows arbitrary: t)
  case Nil
  then show ?case by (simp split: option.split)
next
  case (Cons r rows)
  let ?t = "upsert session_key merge_session r t"
  have "fold (upsert session_key merge_session) (r # rows) t = fold (upsert session_key merge_session) rows ?t"
    by simp
  then show ?case
    unfolding Let_def
    by (simp only: Cons.IH Let_def session_table.lookup_upsert)
      (auto simp: merge_session_def settle_Cons split: option.split)
qed

section \<open>Pages\<close>

definition newer :: "event_row \<Rightarrow> event_row \<Rightarrow> bool" where
  "newer a b \<longleftrightarrow> er_occurred_at b < er_occurred_at a
     \<or> er_occurred_at b = er_occurred_at a \<and> er_event_id b < er_event_id a"

lemma set_newest_first [simp]: "set (newest_first rows) = set rows"
  by (simp add: newest_first_def)

lemma length_newest_first [simp]: "length (newest_first rows) = length rows"
  by (simp add: newest_first_def)

lemma newest_first_sorted:
  assumes "distinct (map (\<lambda>r. (er_occurred_at r, er_event_id r)) rows)"
  shows "sorted_wrt newer (newest_first rows)"
proof -
  let ?k = "\<lambda>r. (er_occurred_at r, er_event_id r)"
  let ?l = "sort_key er_occurred_at (sort_key er_event_id rows)"
  have "sorted_wrt (\<lambda>a b. er_occurred_at a < er_occurred_at b
      \<or> er_occurred_at a = er_occurred_at b \<and> er_event_id a \<le> er_event_id b) ?l"
    by (rule sorted_two_keys)
  moreover have "distinct (map ?k ?l)"
    using assms by (metis distinct_map distinct_sort set_sort)
  then have "sorted_wrt (\<lambda>a b. ?k a \<noteq> ?k b) ?l"
    by (induction "?l" rule: rev_induct) (auto simp: distinct_conv_nth sorted_wrt_iff_nth_less)
  ultimately have "sorted_wrt (\<lambda>a b. newer b a) ?l"
    unfolding sorted_wrt_iff_nth_less newer_def by (fastforce simp: less_le)
  then show ?thesis by (simp add: newest_first_def sorted_wrt_rev)
qed

definition no_cursor :: cursor where
  "no_cursor = \<lparr>cu_at = zero_time, cu_event_id = []\<rparr>"

definition after_cursor :: "cursor \<Rightarrow> event_row \<Rightarrow> bool" where
  "after_cursor c r \<longleftrightarrow> cursor_is_zero c \<or> er_occurred_at r < cu_at c
     \<or> er_occurred_at r = cu_at c \<and> er_event_id r < cu_event_id c"

lemma event_where_cursor:
  "event_where ilike (f\<lparr>ef_before := c\<rparr>) r \<longleftrightarrow>
     event_where ilike (f\<lparr>ef_before := no_cursor\<rparr>) r \<and> after_cursor c r"
  unfolding event_where_def Let_def
  by (auto simp: after_cursor_def no_cursor_def cursor_is_zero_def)

lemma matching_filter:
  assumes "\<And>r. event_where ilike g r \<longleftrightarrow> event_where ilike f r \<and> P r"
  shows "matching_events ilike g t = filter P (matching_events ilike f t)"
proof -
  have "filter (event_where ilike g) t = filter P (filter (event_where ilike f) t)"
    using assms by (induction t) auto
  then show ?thesis by (simp add: matching_events_def newest_first_def filter_sort rev_filter [symmetric])
qed

lemma matching_sorted:
  assumes "unique_by event_key_of t"
  shows "sorted_wrt newer (matching_events ilike f t)"
  unfolding matching_events_def
proof (rule newest_first_sorted)
  let ?l = "filter (event_where ilike f) t"
  have "distinct (map event_key_of ?l)" using assms by (simp add: unique_by_def distinct_map_filter)
  moreover have "\<forall>r \<in> set ?l. er_project r = ef_project f" by (simp add: event_where_def Let_def)
  ultimately show "distinct (map (\<lambda>r. (er_occurred_at r, er_event_id r)) ?l)"
    by (auto simp: distinct_map inj_on_def)
qed

lemma after_last_of_page:
  assumes "event_where ilike f l" and "er_occurred_at l \<noteq> zero_time"
  shows "event_where ilike (f\<lparr>ef_before := CursorOf l\<rparr>) r \<longleftrightarrow> event_where ilike f r \<and> newer l r"
proof -
  have f: "f = f\<lparr>ef_before := ef_before f\<rparr>" by simp
  have "event_where ilike f r \<longleftrightarrow> event_where ilike (f\<lparr>ef_before := no_cursor\<rparr>) r \<and> after_cursor (ef_before f) r" for r
    by (subst f) (rule event_where_cursor)
  moreover have "after_cursor (CursorOf l) r \<longleftrightarrow> newer l r"
    using assms(2) by (auto simp: after_cursor_def newer_def CursorOf_def cursor_is_zero_def)
  moreover have "after_cursor (ef_before f) l \<Longrightarrow> newer l r \<Longrightarrow> after_cursor (ef_before f) r"
    by (auto simp: after_cursor_def newer_def)
  ultimately show ?thesis using assms(1) event_where_cursor by metis
qed

lemma filter_after_prefix:
  assumes "sorted_wrt newer (xs @ l # ys)"
  shows "filter (newer l) (xs @ l # ys) = ys"
proof -
  have irr: "newer a b \<Longrightarrow> \<not> newer b a" and self: "\<not> newer a a" for a b
    by (auto simp: newer_def)
  from assms have "\<forall>x \<in> set xs. newer x l" and "\<forall>y \<in> set ys. newer l y"
    by (auto simp: sorted_wrt_append)
  then have "filter (newer l) xs = []" and "filter (newer l) ys = ys"
    using irr by (auto simp: filter_empty_conv)
  then show ?thesis by (simp add: self)
qed

section \<open>Properties\<close>

text \<open>
  C26. The event list can be walked with its cursor: a page followed by everything the next cursor
  selects is everything the filter matches, newest first, nothing twice and nothing left out; and
  \<open>more\<close> says exactly whether the next page has a row.
\<close>

theorem ListEvents_pages:
  assumes "unique_by event_key_of t" and "ListEvents ilike f t = (rows, rest)" and "rows \<noteq> []"
    and "er_occurred_at (last rows) \<noteq> zero_time"
  shows "matching_events ilike f t =
           rows @ matching_events ilike (f\<lparr>ef_before := CursorOf (last rows)\<rparr>) t
    \<and> (rest \<longleftrightarrow> matching_events ilike (f\<lparr>ef_before := CursorOf (last rows)\<rparr>) t \<noteq> [])
    \<and> length rows \<le> 500"
proof -
  let ?n = "page_limit (ef_limit f)" and ?l = "matching_events ilike f t"
  have rows: "rows = take ?n ?l" and rest: "rest \<longleftrightarrow> ?n < length ?l"
    using assms(2) by (auto simp: ListEvents_def Let_def min_def split: if_splits)
  have n: "?n \<le> 500" by (auto simp: page_limit_def Let_def)
  have split: "?l = butlast rows @ last rows # drop ?n ?l"
    using assms(3) rows append_take_drop_id [of ?n ?l] by (metis append.assoc append_Cons append_Nil append_butlast_last_id)
  have "last rows \<in> set ?l" using assms(3) rows by (metis in_set_takeD last_in_set)
  then have w: "event_where ilike f (last rows)" by (simp add: matching_events_def)
  have "matching_events ilike (f\<lparr>ef_before := CursorOf (last rows)\<rparr>) t = filter (newer (last rows)) ?l"
    by (rule matching_filter) (rule after_last_of_page [OF w assms(4)])
  also have "\<dots> = drop ?n ?l"
    using matching_sorted [OF assms(1), of ilike f] filter_after_prefix split by metis
  finally show ?thesis using rows rest n by (auto simp: min_le_iff_disj)
qed

definition example_event :: "id_text \<Rightarrow> event_row" where
  "example_event i = \<lparr>er_occurred_at = 7, er_project = 1, er_event_id = i, er_level = EventLevelError,
     er_message = [], er_platform = None, er_environment = None, er_release = None, er_device_id = None,
     er_device_model = None, er_os_version = None, er_transaction = None, er_error_type = None,
     er_culprit = None, er_handled = None, er_sdk_name = None, er_user_id = None, er_fingerprint = None,
     er_symbolicated = False, er_tags = [], er_symbols = None, er_payload = None\<rparr>"

definition example_event_filter :: event_filter where
  "example_event_filter = \<lparr>ef_project = 1, ef_from = zero_time, ef_to = zero_time, ef_level = [], ef_release = [],
     ef_environment = [], ef_platform = [], ef_error_type = [], ef_user_id = [], ef_device_id = [],
     ef_device_model = [], ef_os_version = [], ef_transaction = [], ef_fingerprint = [], ef_location = [],
     ef_query = [], ef_tags = [], ef_handled = [], ef_before = no_cursor, ef_limit = 1\<rparr>"

lemma ListEvents_pages_witness:
  "matching_events (\<lambda>s p. False) example_event_filter [example_event ''a'', example_event ''b''] =
     [example_event ''b''] @ matching_events (\<lambda>s p. False)
       (example_event_filter\<lparr>ef_before := CursorOf (last [example_event ''b''])\<rparr>) [example_event ''a'', example_event ''b'']"
proof -
  have "ListEvents (\<lambda>s p. False) example_event_filter [example_event ''a'', example_event ''b'']
      = ([example_event ''b''], True)" by code_simp
  from ListEvents_pages [OF _ this] show ?thesis
    by (simp add: unique_by_def example_event_def zero_time_def)
qed

text \<open>
  Delivering a batch of events again stores nothing: the rows and the spooled payloads are what
  they were after the first time (only the hours are marked once more).
\<close>

theorem InsertEvents_again:
  "et_events (InsertEvents b rows (InsertEvents b rows db)) = et_events (InsertEvents b rows db)
   \<and> et_spool (InsertEvents b rows (InsertEvents b rows db)) = et_spool (InsertEvents b rows db)"
proof -
  let ?db1 = "fold (insert_event_row b) rows db"
  have "fold (insert_event_row b) rows ?db1 = ?db1"
    by (rule insert_events_known) (simp add: insert_events_keys)
  then show ?thesis
    using insert_events_ignore_dirty [where b = b and rows = rows and db = ?db1]
    by (simp add: InsertEvents_def Let_def)
qed

text \<open>
  C30. Session updates settle: after any sequence of updates a session has the last status that was
  not \<open>ok\<close> (or the first one), so a terminal status is never taken back, and delivering the same
  updates again changes no session.
\<close>

theorem InsertSessions_settle:
  "lookup_by session_key k (st_sessions (InsertSessions (rows @ rows) db)) =
   lookup_by session_key k (st_sessions (InsertSessions rows db))
   \<and> map_option ss_status (lookup_by session_key k (st_sessions (InsertSessions rows db))) =
     (case map_option ss_status (lookup_by session_key k (st_sessions db)) of
        Some s \<Rightarrow> Some (settle s (map ss_status (filter (\<lambda>r. session_key r = k) rows)))
      | None \<Rightarrow> (case map ss_status (filter (\<lambda>r. session_key r = k) rows) of
                   [] \<Rightarrow> None | s # ss \<Rightarrow> Some (settle s ss)))"
proof
  let ?f = "\<lambda>rows t. lookup_by session_key k (fold (upsert session_key merge_session) rows t)"
  have "?f rows (fold (upsert session_key merge_session) rows t) = ?f rows t" for t
    by (subst sessions_fold_lookup)
      (auto simp: sessions_fold_lookup Let_def settle_twice settle_Cons split: option.split list.split)
  then show "lookup_by session_key k (st_sessions (InsertSessions (rows @ rows) db)) =
      lookup_by session_key k (st_sessions (InsertSessions rows db))"
    by (simp add: InsertSessions_def Let_def)
qed (auto simp: InsertSessions_def Let_def sessions_fold_lookup split: option.split list.split)

end
