(* ===== verification/Rollup.thy ===== *)
theory Rollup
  imports EventStore
begin

text \<open>
  The statistics of \<open>internal/retention/retention.go\<close> (\<open>Rollup\<close>, \<open>rollup\<close>, \<open>rollupEvents\<close>,
  \<open>rollupSessions\<close>) with the views of the schema that read them: hourly rows recomputed from the raw
  rows for the hours marked dirty. The three phases of \<open>rollup\<close> (read the keys with their generation,
  recompute in one transaction, clear the keys whose generation did not move) are separate steps,
  so that writes and expiry may come in between. One aggregation stands for one rolled table.
\<close>

section \<open>Aggregations\<close>

record ('r, 'g) aggregation =
  ag_project :: "'r \<Rightarrow> project_id"
  ag_time :: "'r \<Rightarrow> time"
  ag_key :: "'g \<Rightarrow> project_id \<times> time"
  ag_rows :: "project_id \<Rightarrow> time \<Rightarrow> 'r list \<Rightarrow> 'g list"

definition in_hour :: "('r, 'g) aggregation \<Rightarrow> project_id \<Rightarrow> time \<Rightarrow> 'r \<Rightarrow> bool" where
  "in_hour a p b r \<longleftrightarrow> ag_project a r = p \<and> b \<le> ag_time a r \<and> ag_time a r < b + hour"

text \<open>The rows of one hour, aggregated: what the rolled table should hold for it.\<close>

definition aggregate :: "('r, 'g) aggregation \<Rightarrow> project_id \<Rightarrow> time \<Rightarrow> 'r list \<Rightarrow> 'g list" where
  "aggregate a p b raw = ag_rows a p b (filter (in_hour a p b) raw)"

record event_stat =
  es_bucket :: time
  es_project :: project_id
  es_release :: string
  es_platform :: string
  es_level :: EventLevel
  es_events :: nat
  es_unhandled :: nat
  es_errors :: nat

definition text_or_empty :: "string option \<Rightarrow> string" where
  "text_or_empty s = (case s of None \<Rightarrow> [] | Some v \<Rightarrow> v)"

definition event_group :: "event_row \<Rightarrow> string \<times> string \<times> EventLevel" where
  "event_group e = (text_or_empty (er_release e), text_or_empty (er_platform e), er_level e)"

definition event_stats_of :: "project_id \<Rightarrow> time \<Rightarrow> event_row list \<Rightarrow> event_stat list" where
  "event_stats_of p b es =
     map (\<lambda>g. let ms = filter (\<lambda>e. event_group e = g) es in
            \<lparr>es_bucket = b, es_project = p, es_release = fst g, es_platform = fst (snd g),
             es_level = snd (snd g), es_events = length ms,
             es_unhandled = length (filter (\<lambda>e. er_handled e = Some False) ms),
             es_errors = length (filter (\<lambda>e. er_level e = EventLevelError \<and> er_handled e \<noteq> Some False) ms)\<rparr>)
       (remdups (map event_group es))"

definition event_aggregation :: "(event_row, event_stat) aggregation" where
  "event_aggregation = \<lparr>ag_project = er_project, ag_time = er_occurred_at,
     ag_key = (\<lambda>g. (es_project g, es_bucket g)), ag_rows = event_stats_of\<rparr>"

definition issue_stats_of :: "project_id \<Rightarrow> time \<Rightarrow> event_row list \<Rightarrow> issue_hour list" where
  "issue_stats_of p b es =
     map (\<lambda>fp. \<lparr>ih_project = p, ih_fingerprint = fp, ih_bucket = b,
                ih_events = int (length (filter (\<lambda>e. er_fingerprint e = Some fp) es))\<rparr>)
       (remdups (List.map_filter er_fingerprint es))"

definition issue_aggregation :: "(event_row, issue_hour) aggregation" where
  "issue_aggregation = \<lparr>ag_project = er_project, ag_time = er_occurred_at,
     ag_key = (\<lambda>g. (ih_project g, ih_bucket g)), ag_rows = issue_stats_of\<rparr>"

record health_stat =
  hs_bucket :: time
  hs_project :: project_id
  hs_release :: string
  hs_total :: int
  hs_crashed :: int
  hs_errored :: int

definition session_sum :: "(session_row \<Rightarrow> bool) \<Rightarrow> session_row list \<Rightarrow> int" where
  "session_sum p ss = sum_list (map ss_count (filter p ss))"

definition health_stats_of :: "project_id \<Rightarrow> time \<Rightarrow> session_row list \<Rightarrow> health_stat list" where
  "health_stats_of p b ss =
     map (\<lambda>rel. let ms = filter (\<lambda>s. ss_release s = rel) ss in
            \<lparr>hs_bucket = b, hs_project = p, hs_release = rel, hs_total = session_sum (\<lambda>s. True) ms,
             hs_crashed = session_sum (\<lambda>s. ss_status s = SessionStatusCrashed) ms,
             hs_errored = session_sum (\<lambda>s. ss_status s = SessionStatusErrored
                                         \<or> ss_status s = SessionStatusAbnormal) ms\<rparr>)
       (remdups (map ss_release ss))"

definition health_aggregation :: "(session_row, health_stat) aggregation" where
  "health_aggregation = \<lparr>ag_project = ss_project, ag_time = ss_started_at,
     ag_key = (\<lambda>g. (hs_project g, hs_bucket g)), ag_rows = health_stats_of\<rparr>"

section \<open>The tables and the view\<close>

record ('r, 'g) stats_db =
  sd_raw :: "'r list"
  sd_dirty :: "dirty_key list"
  sd_rolled :: "'g list"

definition is_dirty :: "project_id \<Rightarrow> time \<Rightarrow> dirty_key list \<Rightarrow> bool" where
  "is_dirty p b d \<longleftrightarrow> (p, b) \<in> dirty_hour ` set d"

definition rolled_at :: "('r, 'g) aggregation \<Rightarrow> project_id \<Rightarrow> time \<Rightarrow> 'g list \<Rightarrow> 'g list" where
  "rolled_at a p b g = filter (\<lambda>x. ag_key a x = (p, b)) g"

text \<open>The rows of the view for an hour: live for a dirty one, rolled for a clean one.\<close>

definition stats_view :: "('r, 'g) aggregation \<Rightarrow> project_id \<Rightarrow> time \<Rightarrow> ('r, 'g) stats_db \<Rightarrow> 'g list" where
  "stats_view a p b db =
     (if is_dirty p b (sd_dirty db) then aggregate a p b (sd_raw db)
      else rolled_at a p b (sd_rolled db))"

section \<open>The phases of a rollup\<close>

definition RollupBatch :: nat where "RollupBatch = 500"

definition read_keys :: "time \<Rightarrow> dirty_key list \<Rightarrow> dirty_key list" where
  "read_keys now d =
     take RollupBatch (sort_key (\<lambda>k. - dk_bucket k) (filter (\<lambda>k. dk_bucket k < truncate_time now hour) d))"

definition keys_to_recompute :: "time \<Rightarrow> dirty_key list \<Rightarrow> dirty_key list" where
  "keys_to_recompute cutoff ks = filter (\<lambda>k. cutoff \<le> dk_bucket k) ks"

text \<open>\<open>lo\<close> and \<open>hi\<close>: the time range of the batch, a redundant condition for the planner.\<close>

definition recompute_rows :: "('r, 'g) aggregation \<Rightarrow> dirty_key list \<Rightarrow> 'r list \<Rightarrow> 'g list" where
  "recompute_rows a ks raw =
     (if ks = [] then []
      else let lo = Min (dk_bucket ` set ks); hi = Max (dk_bucket ` set ks) + hour
           in concat (map (\<lambda>k. ag_rows a (dk_project k) (dk_bucket k)
                (filter (\<lambda>r. in_hour a (dk_project k) (dk_bucket k) r \<and> lo \<le> ag_time a r \<and> ag_time a r < hi) raw)) ks))"

definition replace_rolled :: "('r, 'g) aggregation \<Rightarrow> dirty_key list \<Rightarrow> 'g list \<Rightarrow> 'g list \<Rightarrow> 'g list" where
  "replace_rolled a ks rows rolled = filter (\<lambda>g. ag_key a g \<notin> dirty_hour ` set ks) rolled @ rows"

definition clear_keys :: "dirty_key list \<Rightarrow> dirty_key list \<Rightarrow> dirty_key list" where
  "clear_keys ks d =
     delete_where (\<lambda>x. list_ex (\<lambda>k. dirty_hour k = dirty_hour x \<and> dk_gen k = dk_gen x) ks) d"

text \<open>All of it with nothing in between: \<open>rollup\<close> returns how many keys it processed.\<close>

definition rollup :: "('r, 'g) aggregation \<Rightarrow> time \<Rightarrow> time \<Rightarrow> ('r, 'g) stats_db \<Rightarrow> nat \<times> ('r, 'g) stats_db" where
  "rollup a now cutoff db =
     (let ks = read_keys now (sd_dirty db); rk = keys_to_recompute cutoff ks in
      if ks = [] then (0, db)
      else (length ks,
            db\<lparr>sd_rolled := replace_rolled a rk (recompute_rows a rk (sd_raw db)) (sd_rolled db),
               sd_dirty := clear_keys ks (sd_dirty db)\<rparr>))"

section \<open>Interleaving\<close>

datatype 'g rollup_phase =
    Idle
  | HasRead "dirty_key list" "dirty_key list"
  | Computed "dirty_key list" "dirty_key list" "'g list"
  | Committed "dirty_key list"

record ('r, 'g) rollup_state =
  ro_db :: "('r, 'g) stats_db"
  ro_phase :: "'g rollup_phase"
  ro_horizon :: time

definition hour_start :: "time \<Rightarrow> bool" where
  "hour_start b \<longleftrightarrow> truncate_time b hour = b"

text \<open>A write of the raw rows marks every hour it touches, in the same transaction.\<close>

definition marked_write ::
  "('r, 'g) aggregation \<Rightarrow> (project_id \<times> time) list \<Rightarrow> ('r, 'g) stats_db \<Rightarrow> ('r, 'g) stats_db \<Rightarrow> bool" where
  "marked_write a hs db db' \<longleftrightarrow>
     sd_rolled db' = sd_rolled db \<and> sd_dirty db' = mark_hours hs (sd_dirty db)
     \<and> (\<forall>p b. hour_start b \<longrightarrow> (p, b) \<notin> set hs \<longrightarrow>
          filter (in_hour a p b) (sd_raw db') = filter (in_hour a p b) (sd_raw db))"

text \<open>
  The steps: writes; retention, which raises the horizon and drops raw rows before it; and the four
  transitions of the one rollup that runs, whose cutoff is never past the horizon.
\<close>

inductive rollup_step :: "('r, 'g) aggregation \<Rightarrow> ('r, 'g) rollup_state \<Rightarrow> ('r, 'g) rollup_state \<Rightarrow> bool"
  for a :: "('r, 'g) aggregation" where
  write_step: "marked_write a hs (ro_db s) db' \<Longrightarrow> rollup_step a s (s\<lparr>ro_db := db'\<rparr>)"
| expire_step: "ro_horizon s \<le> h \<Longrightarrow> (\<And>r. h \<le> ag_time a r \<Longrightarrow> keep r) \<Longrightarrow>
    rollup_step a s (s\<lparr>ro_db := (ro_db s)\<lparr>sd_raw := filter keep (sd_raw (ro_db s))\<rparr>, ro_horizon := h\<rparr>)"
| read_step: "ro_phase s = Idle \<Longrightarrow> ro_horizon s \<le> h \<Longrightarrow> cutoff \<le> h \<Longrightarrow> ks = read_keys now (sd_dirty (ro_db s)) \<Longrightarrow>
    rollup_step a s (s\<lparr>ro_phase := HasRead ks (keys_to_recompute cutoff ks), ro_horizon := h\<rparr>)"
| compute_step: "ro_phase s = HasRead ks rk \<Longrightarrow>
    rollup_step a s (s\<lparr>ro_phase := Computed ks rk (recompute_rows a rk (sd_raw (ro_db s)))\<rparr>)"
| commit_step: "ro_phase s = Computed ks rk rows \<Longrightarrow>
    rollup_step a s (s\<lparr>ro_db := (ro_db s)\<lparr>sd_rolled := replace_rolled a rk rows (sd_rolled (ro_db s))\<rparr>,
                       ro_phase := Committed ks\<rparr>)"
| clear_step: "ro_phase s = Committed ks \<Longrightarrow>
    rollup_step a s (s\<lparr>ro_db := (ro_db s)\<lparr>sd_dirty := clear_keys ks (sd_dirty (ro_db s))\<rparr>, ro_phase := Idle\<rparr>)"
| abort_step: "rollup_step a s (s\<lparr>ro_phase := Idle\<rparr>)"

inductive_cases rollup_stepE: "rollup_step a s t"

definition rollup_initial :: "('r, 'g) rollup_state \<Rightarrow> bool" where
  "rollup_initial s \<longleftrightarrow> sd_raw (ro_db s) = [] \<and> sd_dirty (ro_db s) = [] \<and> sd_rolled (ro_db s) = []
     \<and> ro_phase s = Idle"

section \<open>Marks\<close>

interpretation dirty_table: keyed_table dirty_hour "\<lambda>d x. d\<lparr>dk_gen := dk_gen d + 1\<rparr>"
  by unfold_locales simp

definition gen_of :: "dirty_key list \<Rightarrow> project_id \<times> time \<Rightarrow> int option" where
  "gen_of d h = map_option dk_gen (lookup_by dirty_hour h d)"

lemma gen_of_None: "gen_of d (p, b) = None \<longleftrightarrow> \<not> is_dirty p b d"
  by (simp add: gen_of_def is_dirty_def lookup_by_None)

lemma gen_of_mark:
  "gen_of (mark_hour h d) k =
     (if k = h then Some (case gen_of d h of None \<Rightarrow> 1 | Some g \<Rightarrow> g + 1) else gen_of d k)"
  unfolding gen_of_def mark_hour_def dirty_table.lookup_upsert
  by (cases h) (simp split: option.split)

lemma gen_of_marks_other: "k \<notin> set hs \<Longrightarrow> gen_of (mark_hours hs d) k = gen_of d k"
  unfolding mark_hours_def by (induction hs arbitrary: d) (auto simp: gen_of_mark)

lemma gen_of_marks_mono: "gen_of d k = Some g \<Longrightarrow> \<exists>g'. gen_of (mark_hours hs d) k = Some g' \<and> g \<le> g'"
  unfolding mark_hours_def
proof (induction hs arbitrary: d g)
  case (Cons h hs)
  have "\<exists>g1. gen_of (mark_hour h d) k = Some g1 \<and> g \<le> g1"
    using Cons.prems by (cases "k = h") (simp_all add: gen_of_mark)
  with Cons.IH show ?case by fastforce
qed simp

lemma gen_of_marks_more:
  "k \<in> set hs \<Longrightarrow> gen_of d k = Some g \<Longrightarrow> \<exists>g'. gen_of (mark_hours hs d) k = Some g' \<and> g < g'"
  unfolding mark_hours_def
proof (induction hs arbitrary: d g)
  case (Cons h hs)
  show ?case
  proof (cases "k = h")
    case True
    with Cons.prems have "gen_of (mark_hour h d) k = Some (g + 1)" by (simp add: gen_of_mark)
    from gen_of_marks_mono [OF this, of hs] show ?thesis by (auto simp: mark_hours_def)
  next
    case False
    with Cons show ?thesis by (simp add: gen_of_mark)
  qed
qed simp

lemma gen_of_marks_set: "k \<in> set hs \<Longrightarrow> gen_of (mark_hours hs d) k \<noteq> None"
proof (induction hs arbitrary: d)
  case (Cons h hs)
  show ?case
  proof (cases "k = h")
    case True
    then obtain g where "gen_of (mark_hour h d) k = Some g" by (auto simp: gen_of_mark)
    from gen_of_marks_mono [OF this, of hs] show ?thesis by (auto simp: mark_hours_def)
  next
    case False
    with Cons show ?thesis by (simp add: mark_hours_def)
  qed
qed simp

lemma mark_hours_unique: "unique_by dirty_hour d \<Longrightarrow> unique_by dirty_hour (mark_hours hs d)"
  unfolding mark_hours_def mark_hour_def
  by (induction hs arbitrary: d) (auto intro: dirty_table.unique_upsert)

lemma gen_of_clear:
  assumes "unique_by dirty_hour d"
  shows "gen_of (clear_keys ks d) h =
    (case gen_of d h of None \<Rightarrow> None
     | Some g \<Rightarrow> if \<exists>k \<in> set ks. dirty_hour k = h \<and> dk_gen k = g then None else Some g)"
proof -
  let ?p = "\<lambda>x. list_ex (\<lambda>k. dirty_hour k = dirty_hour x \<and> dk_gen k = dk_gen x) ks"
  have u': "unique_by dirty_hour (clear_keys ks d)"
    unfolding clear_keys_def by (rule unique_delete_where [OF assms])
  show ?thesis
  proof (cases "lookup_by dirty_hour h d")
    case None
    then have "lookup_by dirty_hour h (clear_keys ks d) = None"
      by (auto simp: lookup_by_None clear_keys_def)
    with None show ?thesis by (simp add: gen_of_def)
  next
    case (Some x)
    then have x: "x \<in> set d" "dirty_hour x = h" using lookup_by_Some [OF Some] by auto
    show ?thesis
    proof (cases "?p x")
      case True
      have "h \<notin> dirty_hour ` set (clear_keys ks d)"
      proof
        assume "h \<in> dirty_hour ` set (clear_keys ks d)"
        then obtain y where "y \<in> set d" "dirty_hour y = h" "\<not> ?p y" by (auto simp: clear_keys_def)
        with x unique_by_same [OF assms] True show False by metis
      qed
      then have "lookup_by dirty_hour h (clear_keys ks d) = None" by (simp add: lookup_by_None)
      with True Some x show ?thesis by (auto simp: gen_of_def list_ex_iff)
    next
      case False
      then have "x \<in> set (clear_keys ks d)"
        using x(1) by (simp add: clear_keys_def del: prod.inject)
      with u' x have "lookup_by dirty_hour h (clear_keys ks d) = Some x" by (simp add: lookup_by_iff)
      with False Some x show ?thesis by (auto simp: gen_of_def list_ex_iff)
    qed
  qed
qed

section \<open>What a rolled table needs of its aggregation\<close>

text \<open>The rows aggregated for an hour carry that hour as their key; no rows give none.\<close>

locale hourly_aggregation =
  fixes a :: "('r, 'g) aggregation"
  assumes rows_key: "g \<in> set (ag_rows a p b rs) \<Longrightarrow> ag_key a g = (p, b)"
    and rows_none: "ag_rows a p b [] = []"
begin

lemma recompute_is_aggregate:
  "recompute_rows a ks raw = concat (map (\<lambda>k. aggregate a (dk_project k) (dk_bucket k) raw) ks)"
proof (cases "ks = []")
  case False
  let ?lo = "Min (dk_bucket ` set ks)" and ?hi = "Max (dk_bucket ` set ks) + hour"
  have "filter (\<lambda>r. in_hour a (dk_project k) (dk_bucket k) r \<and> ?lo \<le> ag_time a r \<and> ag_time a r < ?hi) raw
      = filter (in_hour a (dk_project k) (dk_bucket k)) raw" if "k \<in> set ks" for k
  proof (rule filter_cong [OF refl])
    fix r
    have "?lo \<le> dk_bucket k" and "dk_bucket k + hour \<le> ?hi" using that by simp_all
    then show "(in_hour a (dk_project k) (dk_bucket k) r \<and> ?lo \<le> ag_time a r \<and> ag_time a r < ?hi)
        = in_hour a (dk_project k) (dk_bucket k) r"
      by (auto simp: in_hour_def)
  qed
  then have "map (\<lambda>k. ag_rows a (dk_project k) (dk_bucket k)
      (filter (\<lambda>r. in_hour a (dk_project k) (dk_bucket k) r \<and> ?lo \<le> ag_time a r \<and> ag_time a r < ?hi) raw)) ks
      = map (\<lambda>k. aggregate a (dk_project k) (dk_bucket k) raw) ks"
    by (intro map_cong) (simp_all add: aggregate_def)
  with False show ?thesis by (simp only: recompute_rows_def Let_def if_False)
qed (simp add: recompute_rows_def)

lemma rolled_at_aggregate:
  "rolled_at a p b (aggregate a p' b' raw) = (if (p, b) = (p', b') then aggregate a p b raw else [])"
proof -
  have "ag_key a g = (p', b')" if "g \<in> set (aggregate a p' b' raw)" for g
    using that rows_key by (simp add: aggregate_def)
  then show ?thesis unfolding rolled_at_def by (auto simp: filter_id_conv filter_empty_conv)
qed

lemma recompute_keys: "g \<in> set (recompute_rows a ks raw) \<Longrightarrow> ag_key a g \<in> dirty_hour ` set ks"
  using rows_key by (force simp: recompute_is_aggregate aggregate_def)

lemma rolled_at_recompute:
  "distinct (map dirty_hour ks) \<Longrightarrow> k \<in> set ks \<Longrightarrow>
     rolled_at a (dk_project k) (dk_bucket k) (recompute_rows a ks raw)
       = aggregate a (dk_project k) (dk_bucket k) raw"
  unfolding recompute_is_aggregate
proof (induction ks)
  case (Cons x ks)
  have cat: "rolled_at a p b (xs @ ys) = rolled_at a p b xs @ rolled_at a p b ys" for p b xs ys
    by (simp add: rolled_at_def)
  have none: "rolled_at a p b (concat (map (\<lambda>k. aggregate a (dk_project k) (dk_bucket k) raw) zs)) = []"
    if "(p, b) \<notin> dirty_hour ` set zs" for p b zs
    using that by (induction zs) (auto simp: cat rolled_at_aggregate rolled_at_def [of a p b "[]"])
  show ?case
  proof (cases "k = x")
    case True
    with Cons.prems have "dirty_hour k \<notin> dirty_hour ` set ks" by (simp del: prod.inject)
    with True show ?thesis by (simp add: cat none rolled_at_aggregate)
  next
    case False
    with Cons.prems have k: "k \<in> set ks" by simp
    from Cons.prems(1) have nx: "dirty_hour x \<notin> dirty_hour ` set ks" by (simp del: prod.inject)
    have ne: "dirty_hour k \<noteq> dirty_hour x"
    proof
      assume "dirty_hour k = dirty_hour x"
      with imageI [OF k, of dirty_hour] nx show False by (simp only: not_True_eq_False)
    qed
    from Cons.prems(1) have "distinct (map dirty_hour ks)" by simp
    from Cons.IH [OF this k] ne show ?thesis by (simp add: cat rolled_at_aggregate del: prod.inject)
  qed
qed simp

lemma rolled_at_replace:
  assumes "\<forall>g \<in> set rows. ag_key a g \<in> dirty_hour ` set ks"
  shows "rolled_at a p b (replace_rolled a ks rows rolled) =
    (if (p, b) \<in> dirty_hour ` set ks then rolled_at a p b rows else rolled_at a p b rolled)"
proof -
  have "rolled_at a p b (replace_rolled a ks rows rolled) =
      filter (\<lambda>g. ag_key a g = (p, b) \<and> (p, b) \<notin> dirty_hour ` set ks) rolled @ rolled_at a p b rows"
    by (auto simp: rolled_at_def replace_rolled_def intro!: filter_cong)
  moreover have "(p, b) \<notin> dirty_hour ` set ks \<Longrightarrow> rolled_at a p b rows = []"
    unfolding rolled_at_def filter_empty_conv using assms by metis
  ultimately show ?thesis by (auto simp: rolled_at_def)
qed

end

interpretation event_stats: hourly_aggregation event_aggregation
  by unfold_locales (auto simp: event_aggregation_def event_stats_of_def Let_def)

interpretation issue_stats: hourly_aggregation issue_aggregation
  by unfold_locales (auto simp: issue_aggregation_def issue_stats_of_def List.map_filter_def)

interpretation health_stats: hourly_aggregation health_aggregation
  by unfold_locales (auto simp: health_aggregation_def health_stats_of_def Let_def)

section \<open>The invariant\<close>

text \<open>The hour of a key is exact in a list of rolled rows.\<close>

definition exact_at :: "('r, 'g) aggregation \<Rightarrow> 'r list \<Rightarrow> 'g list \<Rightarrow> project_id \<Rightarrow> time \<Rightarrow> bool" where
  "exact_at a raw rows p b \<longleftrightarrow> rolled_at a p b rows = aggregate a p b raw"

text \<open>The keys a rollup has read are still dirty, at the generation read or a later one.\<close>

definition keys_live :: "dirty_key list \<Rightarrow> dirty_key list \<Rightarrow> bool" where
  "keys_live ks d \<longleftrightarrow> (\<forall>k \<in> set ks. \<exists>g. gen_of d (dirty_hour k) = Some g \<and> dk_gen k \<le> g)"

definition keys_split :: "time \<Rightarrow> dirty_key list \<Rightarrow> dirty_key list \<Rightarrow> bool" where
  "keys_split h ks rk \<longleftrightarrow> set rk \<subseteq> set ks \<and> distinct (map dirty_hour rk)
     \<and> (\<forall>k \<in> set ks. h \<le> dk_bucket k \<longrightarrow> k \<in> set rk)"

text \<open>Rows computed for the keys are exact for those whose generation has not moved.\<close>

definition rows_exact :: "('r, 'g) aggregation \<Rightarrow> ('r, 'g) rollup_state \<Rightarrow> dirty_key list \<Rightarrow> 'g list \<Rightarrow> bool" where
  "rows_exact a s ks rows \<longleftrightarrow>
     (\<forall>k \<in> set ks. hour_start (dk_bucket k) \<and> ro_horizon s \<le> dk_bucket k
        \<and> gen_of (sd_dirty (ro_db s)) (dirty_hour k) = Some (dk_gen k) \<longrightarrow>
        exact_at a (sd_raw (ro_db s)) rows (dk_project k) (dk_bucket k))"

fun phase_inv :: "('r, 'g) aggregation \<Rightarrow> ('r, 'g) rollup_state \<Rightarrow> 'g rollup_phase \<Rightarrow> bool" where
  "phase_inv a s Idle = True"
| "phase_inv a s (HasRead ks rk) = (keys_live ks (sd_dirty (ro_db s)) \<and> keys_split (ro_horizon s) ks rk)"
| "phase_inv a s (Computed ks rk rows) =
     (keys_live ks (sd_dirty (ro_db s)) \<and> keys_split (ro_horizon s) ks rk
      \<and> (\<forall>g \<in> set rows. ag_key a g \<in> dirty_hour ` set rk) \<and> rows_exact a s rk rows)"
| "phase_inv a s (Committed ks) =
     (keys_live ks (sd_dirty (ro_db s)) \<and> rows_exact a s ks (sd_rolled (ro_db s)))"

definition clean_exact :: "('r, 'g) aggregation \<Rightarrow> ('r, 'g) rollup_state \<Rightarrow> bool" where
  "clean_exact a s \<longleftrightarrow>
     (\<forall>p b. hour_start b \<longrightarrow> ro_horizon s \<le> b \<longrightarrow> gen_of (sd_dirty (ro_db s)) (p, b) = None \<longrightarrow>
        exact_at a (sd_raw (ro_db s)) (sd_rolled (ro_db s)) p b)"

definition rollup_inv :: "('r, 'g) aggregation \<Rightarrow> ('r, 'g) rollup_state \<Rightarrow> bool" where
  "rollup_inv a s \<longleftrightarrow> unique_by dirty_hour (sd_dirty (ro_db s)) \<and> clean_exact a s \<and> phase_inv a s (ro_phase s)"

lemma keys_live_marks: "keys_live ks d \<Longrightarrow> keys_live ks (mark_hours hs d)"
  unfolding keys_live_def using gen_of_marks_mono by (metis order_trans)

lemma write_raw_same:
  assumes "marked_write a hs db db'" and "hour_start b" and "(p, b) \<notin> set hs"
  shows "aggregate a p b (sd_raw db') = aggregate a p b (sd_raw db)"
  using assms by (simp add: marked_write_def aggregate_def)

lemma write_unmoved:
  assumes "marked_write a hs db db'" and "keys_live ks (sd_dirty db)" and "k \<in> set ks"
    and "gen_of (sd_dirty db') (dirty_hour k) = Some (dk_gen k)"
  shows "dirty_hour k \<notin> set hs \<and> gen_of (sd_dirty db) (dirty_hour k) = Some (dk_gen k)"
proof -
  from assms(2,3) obtain g where g: "gen_of (sd_dirty db) (dirty_hour k) = Some g" "dk_gen k \<le> g"
    by (auto simp: keys_live_def)
  have d': "sd_dirty db' = mark_hours hs (sd_dirty db)" using assms(1) by (simp add: marked_write_def)
  have "dirty_hour k \<notin> set hs"
    using gen_of_marks_more [OF _ g(1), of hs] assms(4) g(2) d' by fastforce
  with assms(4) d' show ?thesis by (simp add: gen_of_marks_other)
qed

lemma write_rows_exact:
  assumes w: "marked_write a hs (ro_db s) db'" and "keys_live ks (sd_dirty (ro_db s))" and "set rk \<subseteq> set ks"
    and "rows_exact a s rk rows"
  shows "rows_exact a (s\<lparr>ro_db := db'\<rparr>) rk rows"
  unfolding rows_exact_def
proof (intro ballI impI)
  fix k assume k: "k \<in> set rk" and c: "hour_start (dk_bucket k) \<and> ro_horizon (s\<lparr>ro_db := db'\<rparr>) \<le> dk_bucket k
    \<and> gen_of (sd_dirty (ro_db (s\<lparr>ro_db := db'\<rparr>))) (dirty_hour k) = Some (dk_gen k)"
  then have "dirty_hour k \<notin> set hs \<and> gen_of (sd_dirty (ro_db s)) (dirty_hour k) = Some (dk_gen k)"
    using assms(3) by (intro write_unmoved [OF w assms(2)]) auto
  with k c assms(4) write_raw_same [OF w, of "dk_bucket k" "dk_project k"]
  show "exact_at a (sd_raw (ro_db (s\<lparr>ro_db := db'\<rparr>))) rows (dk_project k) (dk_bucket k)"
    by (simp add: rows_exact_def exact_at_def)
qed

lemma write_keeps_inv:
  assumes w: "marked_write a hs (ro_db s) db'" and inv: "rollup_inv a s"
  shows "rollup_inv a (s\<lparr>ro_db := db'\<rparr>)"
proof -
  have d': "sd_dirty db' = mark_hours hs (sd_dirty (ro_db s))" and r': "sd_rolled db' = sd_rolled (ro_db s)"
    using w by (simp_all add: marked_write_def)
  have "exact_at a (sd_raw db') (sd_rolled db') p b"
    if "hour_start b" "ro_horizon s \<le> b" "gen_of (sd_dirty db') (p, b) = None" for p b
  proof -
    have "(p, b) \<notin> set hs" using that(3) gen_of_marks_set d' by metis
    moreover from this have "gen_of (sd_dirty (ro_db s)) (p, b) = None"
      using that(3) by (simp add: d' gen_of_marks_other)
    ultimately show ?thesis
      using inv that write_raw_same [OF w, of b p] r' by (simp add: rollup_inv_def clean_exact_def exact_at_def)
  qed
  moreover have "phase_inv a (s\<lparr>ro_db := db'\<rparr>) (ro_phase s)"
    using inv write_rows_exact [OF w] keys_live_marks [of _ "sd_dirty (ro_db s)" hs]
    by (cases "ro_phase s") (auto simp: rollup_inv_def d' r' keys_split_def)
  ultimately show ?thesis
    using inv mark_hours_unique by (simp add: rollup_inv_def clean_exact_def d')
qed

lemma expire_same:
  assumes "\<And>r. h \<le> ag_time a r \<Longrightarrow> keep r" and "h \<le> b"
  shows "aggregate a p b (filter keep raw) = aggregate a p b raw"
proof -
  have "filter (in_hour a p b) (filter keep raw) = filter (in_hour a p b) raw"
    using assms by (induction raw) (auto simp: in_hour_def)
  then show ?thesis by (simp add: aggregate_def)
qed

lemma retire_keeps_inv:
  assumes "ro_horizon s \<le> h" and keep: "\<And>r. h \<le> ag_time a r \<Longrightarrow> keep r" and inv: "rollup_inv a s"
  shows "rollup_inv a (s\<lparr>ro_db := (ro_db s)\<lparr>sd_raw := filter keep (sd_raw (ro_db s))\<rparr>, ro_horizon := h\<rparr>)"
    (is "rollup_inv a ?s")
proof -
  have agg: "h \<le> b \<Longrightarrow> aggregate a p b (filter keep (sd_raw (ro_db s))) = aggregate a p b (sd_raw (ro_db s))" for p b
    by (rule expire_same [OF keep]) auto
  have rows: "rows_exact a s ks rows \<Longrightarrow> rows_exact a ?s ks rows" for ks rows
    using assms(1) agg by (auto simp: rows_exact_def exact_at_def)
  have split: "keys_split (ro_horizon s) ks rk \<Longrightarrow> keys_split h ks rk" for ks rk
    using assms(1) by (auto simp: keys_split_def)
  have "clean_exact a ?s"
    using inv assms(1) agg by (auto simp: rollup_inv_def clean_exact_def exact_at_def)
  moreover have "phase_inv a ?s (ro_phase s)"
    using inv rows split by (cases "ro_phase s") (auto simp: rollup_inv_def)
  ultimately show ?thesis using inv by (simp add: rollup_inv_def)
qed

lemma read_keys_set: "set (read_keys now d) \<subseteq> set d"
  by (auto simp: read_keys_def dest: in_set_takeD)

lemma read_keys_distinct: "unique_by dirty_hour d \<Longrightarrow> distinct (map dirty_hour (read_keys now d))"
proof -
  assume u: "unique_by dirty_hour d"
  have "distinct (map dirty_hour (sort_key (\<lambda>k. - dk_bucket k) (filter P d)))" for P
    using u by (simp add: unique_by_def distinct_map inj_on_def)
  then show ?thesis unfolding read_keys_def take_map [symmetric] by (rule distinct_take)
qed

lemma gen_of_member: "unique_by dirty_hour d \<Longrightarrow> k \<in> set d \<Longrightarrow> gen_of d (dirty_hour k) = Some (dk_gen k)"
  by (simp add: gen_of_def lookup_by_iff [THEN iffD2])

lemma read_keeps_inv:
  assumes inv: "rollup_inv a s" and "ro_horizon s \<le> h" and "cutoff \<le> h"
    and ks: "ks = read_keys now (sd_dirty (ro_db s))"
  shows "rollup_inv a (s\<lparr>ro_phase := HasRead ks (keys_to_recompute cutoff ks), ro_horizon := h\<rparr>)"
proof -
  have u: "unique_by dirty_hour (sd_dirty (ro_db s))" using inv by (simp add: rollup_inv_def)
  have "keys_live ks (sd_dirty (ro_db s))"
    using read_keys_set [of now "sd_dirty (ro_db s)"] gen_of_member [OF u] unfolding keys_live_def ks by blast
  moreover have "distinct (map dirty_hour (keys_to_recompute cutoff ks))"
    using read_keys_distinct [OF u, of now] by (simp add: keys_to_recompute_def ks distinct_map_filter)
  then have "keys_split h ks (keys_to_recompute cutoff ks)"
    using assms(3) by (auto simp: keys_split_def keys_to_recompute_def)
  ultimately show ?thesis using inv assms(2) by (auto simp: rollup_inv_def clean_exact_def)
qed

context hourly_aggregation begin

lemma compute_keeps_inv:
  assumes inv: "rollup_inv a s" and ph: "ro_phase s = HasRead ks rk"
  shows "rollup_inv a (s\<lparr>ro_phase := Computed ks rk (recompute_rows a rk (sd_raw (ro_db s)))\<rparr>)"
proof -
  have "keys_split (ro_horizon s) ks rk" using inv ph by (simp add: rollup_inv_def)
  then have "distinct (map dirty_hour rk)" by (simp add: keys_split_def)
  then have "rows_exact a s rk (recompute_rows a rk (sd_raw (ro_db s)))"
    by (simp add: rows_exact_def exact_at_def rolled_at_recompute)
  with inv ph recompute_keys [of _ rk "sd_raw (ro_db s)"] show ?thesis
    by (auto simp: rollup_inv_def clean_exact_def rows_exact_def)
qed

lemma commit_keeps_inv:
  assumes inv: "rollup_inv a s" and ph: "ro_phase s = Computed ks rk rows"
  shows "rollup_inv a (s\<lparr>ro_db := (ro_db s)\<lparr>sd_rolled := replace_rolled a rk rows (sd_rolled (ro_db s))\<rparr>,
                          ro_phase := Committed ks\<rparr>)" (is "rollup_inv a ?s")
proof -
  have live: "keys_live ks (sd_dirty (ro_db s))" and split: "keys_split (ro_horizon s) ks rk"
    and keys: "\<forall>g \<in> set rows. ag_key a g \<in> dirty_hour ` set rk" and exact: "rows_exact a s rk rows"
    using inv ph by (simp_all add: rollup_inv_def)
  note at = rolled_at_replace [OF keys]
  have dirty: "gen_of (sd_dirty (ro_db s)) h \<noteq> None" if "h \<in> dirty_hour ` set rk" for h
    using that live split by (fastforce simp: keys_live_def keys_split_def)
  have "clean_exact a ?s"
    unfolding clean_exact_def
  proof (intro allI impI)
    fix p b assume c: "hour_start b" "ro_horizon ?s \<le> b" "gen_of (sd_dirty (ro_db ?s)) (p, b) = None"
    then have "(p, b) \<notin> dirty_hour ` set rk" using dirty [of "(p, b)"] by auto
    with c inv show "exact_at a (sd_raw (ro_db ?s)) (sd_rolled (ro_db ?s)) p b"
      by (simp add: rollup_inv_def clean_exact_def exact_at_def at)
  qed
  moreover have "rows_exact a ?s ks (sd_rolled (ro_db ?s))"
    unfolding rows_exact_def
  proof (intro ballI impI)
    fix k assume k: "k \<in> set ks" and c: "hour_start (dk_bucket k) \<and> ro_horizon ?s \<le> dk_bucket k
      \<and> gen_of (sd_dirty (ro_db ?s)) (dirty_hour k) = Some (dk_gen k)"
    then have "k \<in> set rk" using split by (simp add: keys_split_def)
    then have "dirty_hour k \<in> dirty_hour ` set rk" by (rule imageI)
    with \<open>k \<in> set rk\<close> c exact show "exact_at a (sd_raw (ro_db ?s)) (sd_rolled (ro_db ?s)) (dk_project k) (dk_bucket k)"
      by (simp add: rows_exact_def exact_at_def at)
  qed
  ultimately show ?thesis using inv live by (simp add: rollup_inv_def)
qed

lemma clear_keeps_inv:
  assumes inv: "rollup_inv a s" and ph: "ro_phase s = Committed ks"
  shows "rollup_inv a (s\<lparr>ro_db := (ro_db s)\<lparr>sd_dirty := clear_keys ks (sd_dirty (ro_db s))\<rparr>, ro_phase := Idle\<rparr>)"
    (is "rollup_inv a ?s")
proof -
  have u: "unique_by dirty_hour (sd_dirty (ro_db s))" and exact: "rows_exact a s ks (sd_rolled (ro_db s))"
    using inv ph by (simp_all add: rollup_inv_def)
  have "clean_exact a ?s"
    unfolding clean_exact_def
  proof (intro allI impI)
    fix p b assume b: "hour_start b" "ro_horizon ?s \<le> b" and g: "gen_of (sd_dirty (ro_db ?s)) (p, b) = None"
    show "exact_at a (sd_raw (ro_db ?s)) (sd_rolled (ro_db ?s)) p b"
    proof (cases "gen_of (sd_dirty (ro_db s)) (p, b)")
      case None
      with b inv show ?thesis by (simp add: rollup_inv_def clean_exact_def)
    next
      case (Some gen)
      with g obtain k where "k \<in> set ks" "dirty_hour k = (p, b)" "dk_gen k = gen"
        by (auto simp: gen_of_clear [OF u] split: if_splits)
      with Some b exact show ?thesis by (auto simp: rows_exact_def)
    qed
  qed
  moreover have "unique_by dirty_hour (clear_keys ks (sd_dirty (ro_db s)))"
    unfolding clear_keys_def by (rule unique_delete_where [OF u])
  ultimately show ?thesis by (simp add: rollup_inv_def)
qed

lemma step_keeps_inv: "rollup_step a s t \<Longrightarrow> rollup_inv a s \<Longrightarrow> rollup_inv a t"
proof (induction rule: rollup_step.induct)
  case (write_step hs s db')
  then show ?case by (rule write_keeps_inv)
next
  case (expire_step s h keep)
  then show ?case by (intro retire_keeps_inv)
next
  case (read_step s h cutoff ks now)
  then show ?case by (intro read_keeps_inv)
next
  case (compute_step s ks rk)
  then show ?case by (intro compute_keeps_inv)
next
  case (commit_step s ks rk rows)
  then show ?case by (intro commit_keeps_inv)
next
  case (clear_step s ks)
  then show ?case by (intro clear_keeps_inv)
next
  case (abort_step s)
  then show ?case by (simp add: rollup_inv_def clean_exact_def)
qed

lemma initial_inv_rollup: "rollup_initial s \<Longrightarrow> rollup_inv a s"
  using rows_none
  by (auto simp: rollup_initial_def rollup_inv_def clean_exact_def exact_at_def aggregate_def rolled_at_def
      unique_by_def)

text \<open>At every reachable state the view of an hour still kept is what its raw rows aggregate to.\<close>

lemma view_exact:
  assumes "reach rollup_initial (rollup_step a) s" and "hour_start b" and "ro_horizon s \<le> b"
  shows "stats_view a p b (ro_db s) = aggregate a p b (sd_raw (ro_db s))"
proof -
  from assms(1) have "rollup_inv a s"
    by (induction rule: reach.induct) (auto intro: initial_inv_rollup step_keeps_inv)
  then have "gen_of (sd_dirty (ro_db s)) (p, b) = None \<Longrightarrow>
      rolled_at a p b (sd_rolled (ro_db s)) = aggregate a p b (sd_raw (ro_db s))"
    using assms(2,3) by (simp add: rollup_inv_def clean_exact_def exact_at_def)
  then show ?thesis by (simp add: stats_view_def gen_of_None)
qed

end

end
