(* ===== verification/RollupRuns.thy ===== *)
theory RollupRuns
  imports Rollup
begin

text \<open>
  What runs over the statistics: the writers of \<open>internal/store/events.go\<close>, which mark every hour
  they touch, \<open>Rollup\<close> and \<open>RollupAll\<close> of \<open>internal/retention/retention.go\<close> over all three
  rolled tables, the exactness of the views at every reachable state, and what two overlapping
  rollups would do.
\<close>

section \<open>Hours\<close>

lemma truncate_in_hour:
  assumes "hour_start b" and "b \<le> t" and "t < b + hour"
  shows "truncate_time t hour = b"
proof -
  from assms(1) have "(b - zero_time) mod hour = 0" by (simp add: hour_start_def truncate_time_def)
  then obtain q where q: "b - zero_time = hour * q" by (auto simp: mod_eq_0_iff_dvd elim: dvdE)
  define d where "d = t - b"
  have t: "t - zero_time = d + hour * q" and "0 \<le> d" "d < hour" using assms q by (simp_all add: d_def)
  then have "(t - zero_time) mod hour = d" by simp
  then show ?thesis by (simp add: truncate_time_def d_def)
qed

lemma set_batch_hours: "set (batch_hours ts) = (\<lambda>(p, t). (p, truncate_time t hour)) ` set ts"
proof -
  have add: "set (addHour hs p t) = insert (p, truncate_time t hour) (set hs)" for hs p t
    by (auto simp: addHour_def Let_def)
  have "set (fold (\<lambda>(pid, t) hs. addHour hs pid t) ts hs) = set hs \<union> (\<lambda>(p, t). (p, truncate_time t hour)) ` set ts"
    for hs by (induction ts arbitrary: hs) (auto simp: add)
  then show ?thesis by (simp add: batch_hours_def)
qed

lemma in_hour_batch:
  assumes "hour_start b" and "in_hour a p b r" and "r \<in> set rows"
  shows "(p, b) \<in> set (batch_hours (map (\<lambda>r. (ag_project a r, ag_time a r)) rows))"
  using assms truncate_in_hour [of b "ag_time a r"] by (force simp: set_batch_hours in_hour_def)

section \<open>The writers\<close>

definition event_db :: "'g list \<Rightarrow> event_tables \<Rightarrow> (event_row, 'g) stats_db" where
  "event_db rolled db = \<lparr>sd_raw = et_events db, sd_dirty = et_dirty db, sd_rolled = rolled\<rparr>"

definition session_db :: "'g list \<Rightarrow> session_tables \<Rightarrow> (session_row, 'g) stats_db" where
  "session_db rolled db = \<lparr>sd_raw = st_sessions db, sd_dirty = st_dirty db, sd_rolled = rolled\<rparr>"

lemma insert_events_filter:
  assumes "\<And>r. r \<in> set rows \<Longrightarrow> \<not> q r" and "\<And>r. q (r\<lparr>er_payload := None\<rparr>) = q r"
  shows "filter q (et_events (fold (insert_event_row blobs) rows db)) = filter q (et_events db)"
  using assms(1) by (induction rows arbitrary: db) (simp_all add: insert_event_row_def assms(2))

lemma insert_sessions_filter:
  assumes "\<And>r. r \<in> set rows \<Longrightarrow> \<not> q (session_key r)"
  shows "filter (\<lambda>s. q (session_key s)) (fold (upsert session_key merge_session) rows t)
       = filter (\<lambda>s. q (session_key s)) t"
  using assms
proof (induction rows arbitrary: t)
  case (Cons r rows)
  have "filter (\<lambda>s. q (session_key s)) (map (\<lambda>x. if session_key x = session_key r then merge_session x r else x) xs)
      = filter (\<lambda>s. q (session_key s)) xs" for xs
    using Cons.prems [of r] by (induction xs) (auto simp: merge_session_def)
  then have "filter (\<lambda>s. q (session_key s)) (upsert session_key merge_session r t) = filter (\<lambda>s. q (session_key s)) t"
    using Cons.prems [of r] by (simp add: upsert_def)
  with Cons show ?case by simp
qed simp

lemma in_hour_session:
  "in_hour health_aggregation p b = (\<lambda>s. (\<lambda>(q, i, t). q = p \<and> b \<le> t \<and> t < b + hour) (session_key s))"
  by (simp add: in_hour_def health_aggregation_def fun_eq_iff)

lemma in_hour_issue: "in_hour issue_aggregation p b = in_hour event_aggregation p b"
  by (simp add: in_hour_def event_aggregation_def issue_aggregation_def fun_eq_iff)

text \<open>
  The writers keep their side of the rollup's contract: storing a batch of events, or of
  session updates, leaves every hour it did not mark dirty exactly as it was, and marks in the same
  transaction every hour of the batch - for the three rolled tables.
\<close>

theorem writers_mark_their_hours:
  "marked_write event_aggregation (batch_hours (map (\<lambda>r. (er_project r, er_occurred_at r)) rows))
     (event_db rolled db) (event_db rolled (InsertEvents blobs rows db))
   \<and> marked_write issue_aggregation (batch_hours (map (\<lambda>r. (er_project r, er_occurred_at r)) rows))
     (event_db irolled db) (event_db irolled (InsertEvents blobs rows db))
   \<and> marked_write health_aggregation (batch_hours (map (\<lambda>s. (ss_project s, ss_started_at s)) ss))
     (session_db hrolled sdb) (session_db hrolled (InsertSessions ss sdb))"
proof -
  let ?hs = "batch_hours (map (\<lambda>r. (er_project r, er_occurred_at r)) rows)"
  let ?ss = "batch_hours (map (\<lambda>s. (ss_project s, ss_started_at s)) ss)"
  have ev: "filter (in_hour event_aggregation p b) (et_events (fold (insert_event_row blobs) rows db))
      = filter (in_hour event_aggregation p b) (et_events db)" if "hour_start b" "(p, b) \<notin> set ?hs" for p b
    by (rule insert_events_filter)
      (use in_hour_batch [OF that(1), of event_aggregation p _ rows] that(2) in
        \<open>auto simp: event_aggregation_def in_hour_def\<close>)
  have se: "filter (in_hour health_aggregation p b) (fold (upsert session_key merge_session) ss (st_sessions sdb))
      = filter (in_hour health_aggregation p b) (st_sessions sdb)" if "hour_start b" "(p, b) \<notin> set ?ss" for p b
    unfolding in_hour_session
    by (rule insert_sessions_filter)
      (use in_hour_batch [OF that(1), of health_aggregation p _ ss] that(2) in
        \<open>auto simp: health_aggregation_def in_hour_def\<close>)
  show ?thesis
    by (auto simp: marked_write_def event_db_def session_db_def InsertEvents_def InsertSessions_def Let_def
        in_hour_issue ev se)
qed

section \<open>The views\<close>

text \<open>
  C20. At every reachable state of the statistics machine - writes, expiry and a running rollup
  interleaved in any order, a rollup abandoned half-way included - what the hourly view shows for an
  hour still kept is exactly what its raw events aggregate to: no event is missed or counted twice.
\<close>

theorem event_view_exact:
  assumes "reach rollup_initial (rollup_step event_aggregation) s" and "hour_start b" and "ro_horizon s \<le> b"
  shows "stats_view event_aggregation p b (ro_db s) = event_stats_of p b
    (filter (\<lambda>e. er_project e = p \<and> b \<le> er_occurred_at e \<and> er_occurred_at e < b + hour) (sd_raw (ro_db s)))"
  using event_stats.view_exact [OF assms, of p]
  by (simp add: aggregate_def event_aggregation_def in_hour_def [abs_def])

lemma issue_view_exact:
  assumes "reach rollup_initial (rollup_step issue_aggregation) s" and "hour_start b" and "ro_horizon s \<le> b"
  shows "stats_view issue_aggregation p b (ro_db s) = issue_stats_of p b
    (filter (\<lambda>e. er_project e = p \<and> b \<le> er_occurred_at e \<and> er_occurred_at e < b + hour) (sd_raw (ro_db s)))"
  using issue_stats.view_exact [OF assms, of p]
  by (simp add: aggregate_def issue_aggregation_def in_hour_def [abs_def])

lemma health_view_exact:
  assumes "reach rollup_initial (rollup_step health_aggregation) s" and "hour_start b" and "ro_horizon s \<le> b"
  shows "stats_view health_aggregation p b (ro_db s) = health_stats_of p b
    (filter (\<lambda>x. ss_project x = p \<and> b \<le> ss_started_at x \<and> ss_started_at x < b + hour) (sd_raw (ro_db s)))"
  using health_stats.view_exact [OF assms, of p]
  by (simp add: aggregate_def health_aggregation_def in_hour_def [abs_def])

text \<open>A run of the machine on one event: written, read, computed, committed, cleared.\<close>

definition empty_stats :: "(event_row, event_stat) rollup_state" where
  "empty_stats = \<lparr>ro_db = \<lparr>sd_raw = [], sd_dirty = [], sd_rolled = []\<rparr>, ro_phase = Idle, ro_horizon = - 5 * hour\<rparr>"

definition one_event :: "(event_row, event_stat) stats_db" where
  "one_event = \<lparr>sd_raw = [example_event ''a''], sd_dirty = mark_hours [(1, 0)] [], sd_rolled = []\<rparr>"

definition rolled_event :: event_stat where
  "rolled_event = \<lparr>es_bucket = 0, es_project = 1, es_release = [], es_platform = [], es_level = EventLevelError,
     es_events = 1, es_unhandled = 0, es_errors = 1\<rparr>"

definition example_key :: dirty_key where
  "example_key = \<lparr>dk_project = 1, dk_bucket = 0, dk_gen = 1\<rparr>"

lemma example_marks: "mark_hours [(1, 0)] [] = [example_key]"
  by (simp add: mark_hours_def mark_hour_def upsert_def example_key_def)

lemma example_read: "read_keys 7200000000000 [example_key] = [example_key]"
  by (simp add: read_keys_def RollupBatch_def example_key_def truncate_time_def zero_time_def)

lemma example_recomputed: "keys_to_recompute (- 5 * hour) [example_key] = [example_key]"
  by (simp add: keys_to_recompute_def example_key_def)

lemma example_event_fields:
  "er_project (example_event i) = 1" "er_occurred_at (example_event i) = 7" "er_release (example_event i) = None"
  "er_platform (example_event i) = None" "er_level (example_event i) = EventLevelError"
  "er_handled (example_event i) = None"
  by (simp_all add: example_event_def)

lemma example_aggregate: "aggregate event_aggregation 1 0 [example_event i] = [rolled_event]"
proof -
  have "filter (in_hour event_aggregation 1 0) [example_event i] = [example_event i]"
    by (simp add: in_hour_def event_aggregation_def example_event_fields)
  moreover have "event_stats_of 1 0 [example_event i] = [rolled_event]"
    unfolding event_stats_of_def event_group_def text_or_empty_def rolled_event_def Let_def
    by (simp only: list.map remdups.simps empty_iff list.set if_False option.case fst_conv snd_conv filter.simps
        example_event_fields refl if_True) simp
  ultimately show ?thesis by (simp add: aggregate_def event_aggregation_def)
qed

lemma example_rows: "recompute_rows event_aggregation [example_key] [example_event i] = [rolled_event]"
  using example_aggregate by (simp add: event_stats.recompute_is_aggregate example_key_def)

lemmas example_rollup = example_marks example_read example_recomputed example_rows

definition rolled_state :: "(event_row, event_stat) rollup_state" where
  "rolled_state = \<lparr>ro_db = \<lparr>sd_raw = [example_event ''a''], sd_dirty = [], sd_rolled = [rolled_event]\<rparr>,
     ro_phase = Idle, ro_horizon = - 5 * hour\<rparr>"

lemma rolled_state_reachable: "reach rollup_initial (rollup_step event_aggregation) rolled_state"
proof -
  define s1 where "s1 = empty_stats\<lparr>ro_db := one_event\<rparr>"
  define s2 where "s2 = s1\<lparr>ro_phase := HasRead [example_key] [example_key], ro_horizon := - 5 * hour\<rparr>"
  define s3 where "s3 = s2\<lparr>ro_phase := Computed [example_key] [example_key] [rolled_event]\<rparr>"
  define s4 where "s4 = s3\<lparr>ro_db := (ro_db s3)\<lparr>sd_rolled := [rolled_event]\<rparr>, ro_phase := Committed [example_key]\<rparr>"
  have 0: "reach rollup_initial (rollup_step event_aggregation) empty_stats"
    by (rule reach_init) (simp add: rollup_initial_def empty_stats_def)
  have "\<not> in_hour event_aggregation p b (example_event ''a'')" if "hour_start b" "(p, b) \<notin> set [(1, 0)]" for p b
  proof
    assume "in_hour event_aggregation p b (example_event ''a'')"
    then have "p = 1" "b \<le> 7" "7 < b + hour" by (simp_all add: in_hour_def event_aggregation_def example_event_fields)
    moreover from this that(1) have "truncate_time 7 hour = b" by (intro truncate_in_hour)
    then have "b = 0" by (simp add: truncate_time_def zero_time_def)
    ultimately show False using that(2) by simp
  qed
  then have "marked_write event_aggregation [(1, 0)] (ro_db empty_stats) one_event"
    by (simp add: marked_write_def empty_stats_def one_event_def del: prod.inject)
  from write_step [OF this] have "rollup_step event_aggregation empty_stats s1" by (simp add: s1_def)
  from reach_step [OF 0 this] have 1: "reach rollup_initial (rollup_step event_aggregation) s1" .
  have "rollup_step event_aggregation s1 (s1\<lparr>ro_phase := HasRead [example_key]
      (keys_to_recompute (- 5 * hour) [example_key]), ro_horizon := - 5 * hour\<rparr>)"
    by (rule read_step [where now = 7200000000000])
      (simp_all add: s1_def empty_stats_def one_event_def example_marks example_read)
  then have "rollup_step event_aggregation s1 s2" by (simp only: s2_def example_recomputed)
  from reach_step [OF 1 this] have 2: "reach rollup_initial (rollup_step event_aggregation) s2" .
  have raw: "sd_raw (ro_db s2) = [example_event ''a'']" by (simp add: s2_def s1_def one_event_def)
  have "ro_phase s2 = HasRead [example_key] [example_key]" by (simp add: s2_def)
  from compute_step [OF this, of event_aggregation] have "rollup_step event_aggregation s2 s3"
    by (simp only: s3_def raw example_rows)
  from reach_step [OF 2 this] have 3: "reach rollup_initial (rollup_step event_aggregation) s3" .
  have rolled: "replace_rolled event_aggregation [example_key] [rolled_event] (sd_rolled (ro_db s3)) = [rolled_event]"
    by (simp add: s3_def s2_def s1_def one_event_def replace_rolled_def)
  have "ro_phase s3 = Computed [example_key] [example_key] [rolled_event]" by (simp add: s3_def)
  from commit_step [OF this, of event_aggregation] have "rollup_step event_aggregation s3 s4"
    by (simp only: s4_def rolled)
  from reach_step [OF 3 this] have 4: "reach rollup_initial (rollup_step event_aggregation) s4" .
  have "ro_phase s4 = Committed [example_key]" by (simp add: s4_def)
  from reach_step [OF 4 clear_step [OF this]] show ?thesis
    by (simp add: s4_def s3_def s2_def s1_def one_event_def rolled_state_def empty_stats_def example_marks clear_keys_def delete_where_def)
qed

lemma event_view_exact_witness:
  "stats_view event_aggregation 1 0 (ro_db rolled_state) = [rolled_event]
   \<and> event_stats_of 1 0 (filter (\<lambda>e. er_project e = 1 \<and> 0 \<le> er_occurred_at e \<and> er_occurred_at e < 0 + hour)
       (sd_raw (ro_db rolled_state))) = [rolled_event]"
proof -
  have "stats_view event_aggregation 1 0 (ro_db rolled_state) = [rolled_event]"
    by (simp add: stats_view_def rolled_state_def is_dirty_def rolled_at_def event_aggregation_def rolled_event_def)
  moreover have "hour_start 0" and "ro_horizon rolled_state \<le> 0"
    by (simp_all add: hour_start_def truncate_time_def zero_time_def rolled_state_def)
  ultimately show ?thesis using event_view_exact [OF rolled_state_reachable, of 0 1] by simp
qed

section \<open>Overlapping rollups\<close>

text \<open>
  Why the rollup must run on one replica at a time. Two rollups read the same key and compute the
  hour; the first clears the key; a write stores another event and marks the hour again, with
  generation 1 as before; the second rollup then finds "its" generation and clears the new mark.
  The hour is clean, and its rolled row misses the event for good.
\<close>

theorem overlapping_rollups_lose_an_event:
  "let d = mark_hours [(1, 0)] []; ks = read_keys 7200000000000 d;
       raw = [example_event ''a'']; rows = recompute_rows event_aggregation ks raw;
       written = insert_event_row False (example_event ''b'') \<lparr>et_events = raw, et_spool = [], et_dirty = clear_keys ks d\<rparr>;
       marked = mark_hours [(1, 0)] (et_dirty written);
       final = \<lparr>sd_raw = et_events written, sd_dirty = clear_keys ks marked,
                sd_rolled = replace_rolled event_aggregation ks rows (replace_rolled event_aggregation ks rows [])\<rparr>
   in is_dirty 1 0 marked \<and> \<not> is_dirty 1 0 (sd_dirty final)
      \<and> map es_events (stats_view event_aggregation 1 0 final) = [1]
      \<and> map es_events (aggregate event_aggregation 1 0 (sd_raw final)) = [2]"
proof -
  have clear: "clear_keys [example_key] [example_key] = []"
    by (simp add: clear_keys_def delete_where_def)
  have insert: "insert_event_row False (example_event ''b'') \<lparr>et_events = [example_event ''a''], et_spool = [], et_dirty = []\<rparr>
      = \<lparr>et_events = [example_event ''a'', example_event ''b''], et_spool = [], et_dirty = []\<rparr>"
    by (simp add: insert_event_row_def example_event_def)
  have key: "ag_key event_aggregation rolled_event = (1, 0)"
    by (simp add: event_aggregation_def rolled_event_def)
  have rows: "replace_rolled event_aggregation [example_key] [rolled_event] (replace_rolled event_aggregation [example_key] [rolled_event] [])
      = [rolled_event]"
    by (simp add: replace_rolled_def key example_key_def)
  have "aggregate event_aggregation 1 0 [example_event ''a'', example_event ''b''] = [rolled_event\<lparr>es_events := 2, es_errors := 2\<rparr>]"
  proof -
    have "filter (in_hour event_aggregation 1 0) [example_event ''a'', example_event ''b''] = [example_event ''a'', example_event ''b'']"
      by (simp add: in_hour_def event_aggregation_def example_event_fields)
    moreover have "event_stats_of 1 0 [example_event ''a'', example_event ''b''] = [rolled_event\<lparr>es_events := 2, es_errors := 2\<rparr>]"
      unfolding event_stats_of_def event_group_def text_or_empty_def rolled_event_def Let_def
      by (simp only: list.map remdups.simps empty_iff list.set insert_iff simp_thms if_False option.case fst_conv snd_conv
          filter.simps example_event_fields refl if_True) simp
    ultimately show ?thesis by (simp add: aggregate_def event_aggregation_def)
  qed
  moreover have "rolled_at event_aggregation 1 0 [rolled_event] = [rolled_event]" by (simp add: rolled_at_def key)
  ultimately show ?thesis
    by (simp add: Let_def example_marks example_read example_rows clear insert rows stats_view_def)
      (simp add: is_dirty_def example_key_def rolled_event_def)
qed

section \<open>Rollup and RollupAll\<close>

text \<open>The tables of the statistics: the raw rows, the dirty keys and the three rolled tables.\<close>

record stats_tables =
  rt_events :: "event_row list"
  rt_sessions :: "session_row list"
  rt_event_dirty :: "dirty_key list"
  rt_session_dirty :: "dirty_key list"
  rt_event_stats :: "event_stat list"
  rt_issue_stats :: "issue_hour list"
  rt_health :: "health_stat list"

definition rollupEvents :: "dirty_key list \<Rightarrow> stats_tables \<Rightarrow> stats_tables" where
  "rollupEvents ks db = db\<lparr>
     rt_event_stats := replace_rolled event_aggregation ks
       (recompute_rows event_aggregation ks (rt_events db)) (rt_event_stats db),
     rt_issue_stats := replace_rolled issue_aggregation ks
       (recompute_rows issue_aggregation ks (rt_events db)) (rt_issue_stats db)\<rparr>"

definition rollupSessions :: "dirty_key list \<Rightarrow> stats_tables \<Rightarrow> stats_tables" where
  "rollupSessions ks db = db\<lparr>
     rt_health := replace_rolled health_aggregation ks
       (recompute_rows health_aggregation ks (rt_sessions db)) (rt_health db)\<rparr>"

text \<open>\<open>Rollup\<close>: one pass over the events and one over the sessions, with how many keys they processed.\<close>

definition Rollup_pass :: "duration \<Rightarrow> time \<Rightarrow> stats_tables \<Rightarrow> nat \<times> stats_tables" where
  "Rollup_pass retention now db =
     (let cutoff = truncate_time (now - retention) hour;
          eks = read_keys now (rt_event_dirty db);
          db1 = (if eks = [] then db
                 else (rollupEvents (keys_to_recompute cutoff eks) db)
                        \<lparr>rt_event_dirty := clear_keys eks (rt_event_dirty db)\<rparr>);
          sks = read_keys now (rt_session_dirty db1);
          db2 = (if sks = [] then db1
                 else (rollupSessions (keys_to_recompute cutoff sks) db1)
                        \<lparr>rt_session_dirty := clear_keys sks (rt_session_dirty db1)\<rparr>)
      in (length eks + length sks, db2))"

lemma clear_keys_shrinks:
  assumes "ks \<noteq> []" and "set ks \<subseteq> set d"
  shows "length (clear_keys ks d) < length d"
proof -
  from assms obtain k where "k \<in> set ks" "k \<in> set d" by (cases ks) auto
  then have "k \<in> set d - set (clear_keys ks d)" by (auto simp: clear_keys_def list_ex_iff)
  then have "\<exists>x \<in> set d. \<not> \<not> list_ex (\<lambda>k. dirty_hour k = dirty_hour x \<and> dk_gen k = dk_gen x) ks"
    by (auto simp: clear_keys_def)
  then show ?thesis
    unfolding clear_keys_def delete_where_def by (auto intro: length_filter_less)
qed

lemma Rollup_pass_dirty:
  "rt_event_dirty (snd (Rollup_pass r now db)) =
     (let ks = read_keys now (rt_event_dirty db) in if ks = [] then rt_event_dirty db else clear_keys ks (rt_event_dirty db))"
  "rt_session_dirty (snd (Rollup_pass r now db)) =
     (let ks = read_keys now (rt_session_dirty db) in if ks = [] then rt_session_dirty db else clear_keys ks (rt_session_dirty db))"
  "fst (Rollup_pass r now db) = length (read_keys now (rt_event_dirty db)) + length (read_keys now (rt_session_dirty db))"
  by (simp_all add: Rollup_pass_def rollupEvents_def rollupSessions_def Let_def)

text \<open>\<open>RollupAll\<close> reads the clock anew in every pass. It ends whatever the clock shows: a pass clears what it read.\<close>

function RollupAll :: "duration \<Rightarrow> (nat \<Rightarrow> time) \<Rightarrow> nat \<Rightarrow> stats_tables \<Rightarrow> nat \<times> stats_tables" where
  "RollupAll retention clock i db =
     (let (n, db') = Rollup_pass retention (clock i) db
      in if n = 0 then (i, db') else RollupAll retention clock (Suc i) db')"
  by pat_completeness auto

lemma clear_read_length: "length (clear_keys (read_keys now d) d) \<le> length d"
  by (simp add: clear_keys_def delete_where_def)

lemma Rollup_pass_measure:
  assumes "fst (Rollup_pass r now db) \<noteq> 0"
  shows "length (rt_event_dirty (snd (Rollup_pass r now db))) + length (rt_session_dirty (snd (Rollup_pass r now db)))
       < length (rt_event_dirty db) + length (rt_session_dirty db)"
proof -
  have less: "ks \<noteq> [] \<Longrightarrow> ks = read_keys now d \<Longrightarrow> length (clear_keys ks d) < length d" for ks d
    using clear_keys_shrinks read_keys_set by metis
  show ?thesis
    using assms less [OF _ refl, of "rt_event_dirty db"] less [OF _ refl, of "rt_session_dirty db"]
      clear_read_length [of now]
    by (auto simp: Rollup_pass_dirty Let_def intro: add_less_le_mono add_le_less_mono add_less_mono)
qed

termination RollupAll
proof (relation "measure (\<lambda>(r, c, i, db). length (rt_event_dirty db) + length (rt_session_dirty db))", goal_cases)
  case (2 retention clock i db x n db')
  then have p: "Rollup_pass retention (clock i) db = (n, db')" by simp
  show ?case using Rollup_pass_measure [of retention "clock i" db] 2(3) by (simp add: p)
qed simp

declare RollupAll.simps [simp del]

definition event_stats_db :: "stats_tables \<Rightarrow> (event_row, event_stat) stats_db" where
  "event_stats_db db = \<lparr>sd_raw = rt_events db, sd_dirty = rt_event_dirty db, sd_rolled = rt_event_stats db\<rparr>"

definition issue_stats_db :: "stats_tables \<Rightarrow> (event_row, issue_hour) stats_db" where
  "issue_stats_db db = \<lparr>sd_raw = rt_events db, sd_dirty = rt_event_dirty db, sd_rolled = rt_issue_stats db\<rparr>"

definition health_db :: "stats_tables \<Rightarrow> (session_row, health_stat) stats_db" where
  "health_db db = \<lparr>sd_raw = rt_sessions db, sd_dirty = rt_session_dirty db, sd_rolled = rt_health db\<rparr>"

text \<open>A pass over all the tables is the generic rollup on each of the three.\<close>

lemma Rollup_pass_tables:
  defines "c \<equiv> \<lambda>r now. truncate_time (now - r) hour"
  shows "event_stats_db (snd (Rollup_pass r now db)) = snd (rollup event_aggregation now (c r now) (event_stats_db db))"
    and "issue_stats_db (snd (Rollup_pass r now db)) = snd (rollup issue_aggregation now (c r now) (issue_stats_db db))"
    and "health_db (snd (Rollup_pass r now db)) = snd (rollup health_aggregation now (c r now) (health_db db))"
  by (simp_all add: Rollup_pass_def rollup_def event_stats_db_def issue_stats_db_def health_db_def Let_def
      rollupEvents_def rollupSessions_def c_def)

definition at_rest :: "('r, 'g) stats_db \<Rightarrow> time \<Rightarrow> ('r, 'g) rollup_state" where
  "at_rest db h = \<lparr>ro_db = db, ro_phase = Idle, ro_horizon = h\<rparr>"

context hourly_aggregation begin

text \<open>The uninterrupted rollup is a run of the step machine, so it keeps the invariant.\<close>

lemma rollup_keeps_inv:
  assumes inv: "rollup_inv a (at_rest db h)" and "cutoff \<le> h"
  shows "rollup_inv a (at_rest (snd (rollup a now cutoff db)) h)"
proof (cases "read_keys now (sd_dirty db) = []")
  case False
  let ?ks = "read_keys now (sd_dirty db)"
  let ?rk = "keys_to_recompute cutoff ?ks"
  have h: "ro_horizon (at_rest db h) \<le> h" and d: "?ks = read_keys now (sd_dirty (ro_db (at_rest db h)))"
    by (simp_all add: at_rest_def)
  note i1 = read_keeps_inv [OF inv h assms(2) d]
  note i2 = compute_keeps_inv [OF i1, of ?ks ?rk]
  note i3 = commit_keeps_inv [OF i2, of ?ks ?rk "recompute_rows a ?rk (sd_raw db)"]
  note i4 = clear_keeps_inv [OF i3, of ?ks]
  from False i4 show ?thesis by (simp add: rollup_def Let_def at_rest_def)
qed (simp add: rollup_def inv)

lemma exact_when_clean:
  assumes "rollup_inv a (at_rest db h)" and "hour_start b" and "h \<le> b" and "\<not> is_dirty p b (sd_dirty db)"
  shows "rolled_at a p b (sd_rolled db) = aggregate a p b (sd_raw db)"
  using assms by (simp add: rollup_inv_def clean_exact_def exact_at_def at_rest_def gen_of_None)

end

text \<open>The tables satisfy the invariant of the statistics, from an hour on.\<close>

definition stats_ok :: "time \<Rightarrow> stats_tables \<Rightarrow> bool" where
  "stats_ok h db \<longleftrightarrow> rollup_inv event_aggregation (at_rest (event_stats_db db) h)
     \<and> rollup_inv issue_aggregation (at_rest (issue_stats_db db) h)
     \<and> rollup_inv health_aggregation (at_rest (health_db db) h)"

lemma Rollup_pass_ok:
  "stats_ok h db \<Longrightarrow> truncate_time (now - r) hour \<le> h \<Longrightarrow> stats_ok h (snd (Rollup_pass r now db))"
  by (simp add: stats_ok_def Rollup_pass_tables event_stats.rollup_keeps_inv issue_stats.rollup_keeps_inv
      health_stats.rollup_keeps_inv)

lemma Rollup_pass_raw:
  "rt_events (snd (Rollup_pass r now db)) = rt_events db \<and> rt_sessions (snd (Rollup_pass r now db)) = rt_sessions db"
  by (simp add: Rollup_pass_def rollupEvents_def rollupSessions_def Let_def)

lemma read_none_clean:
  assumes "read_keys now d = []" and "b < truncate_time now hour"
  shows "\<not> is_dirty p b d"
proof
  assume "is_dirty p b d"
  then obtain k where "k \<in> set d" "dk_bucket k = b" by (auto simp: is_dirty_def)
  with assms(2) have "filter (\<lambda>k. dk_bucket k < truncate_time now hour) d \<noteq> []" by (auto simp: filter_empty_conv)
  then have "length (filter (\<lambda>k. dk_bucket k < truncate_time now hour) d) \<noteq> 0" by (simp only: length_0_conv not_False_eq_True)
  then have "length (read_keys now d) \<noteq> 0" by (simp only: read_keys_def RollupBatch_def length_take length_sort)
  with assms(1) show False by simp
qed

lemma RollupAll_runs:
  assumes "stats_ok h db" and "\<And>i. truncate_time (clock i - r) hour \<le> h"
  shows "case RollupAll r clock i db of (j, db') \<Rightarrow> stats_ok h db' \<and> rt_events db' = rt_events db
    \<and> rt_sessions db' = rt_sessions db \<and> read_keys (clock j) (rt_event_dirty db') = []
    \<and> read_keys (clock j) (rt_session_dirty db') = []"
  using assms
proof (induction r clock i db rule: RollupAll.induct)
  case (1 r clock i db)
  obtain n db1 where p: "Rollup_pass r (clock i) db = (n, db1)" by (cases "Rollup_pass r (clock i) db")
  have ok: "stats_ok h db1" using Rollup_pass_ok [OF 1(2) 1(3)] p by (metis snd_conv)
  have raw: "rt_events db1 = rt_events db" "rt_sessions db1 = rt_sessions db"
    using Rollup_pass_raw [of r "clock i" db] p by simp_all
  show ?case
  proof (cases "n = 0")
    case True
    with Rollup_pass_dirty [of r "clock i" db] p ok raw show ?thesis
      by (simp add: RollupAll.simps [of r clock i db])
  next
    case False
    from 1(1) [OF p [symmetric] refl False ok 1(3)] False p raw show ?thesis
      by (simp add: RollupAll.simps [of r clock i db] split: prod.splits)
  qed
qed


definition one_event_tables :: stats_tables where
  "one_event_tables = \<lparr>rt_events = [example_event ''a''], rt_sessions = [], rt_event_dirty = [example_key],
     rt_session_dirty = [], rt_event_stats = [], rt_issue_stats = [], rt_health = []\<rparr>"

lemma example_event_hour:
  assumes "hour_start b" and "ag_project a (example_event i) = 1" and "ag_time a (example_event i) = 7"
    and "in_hour a p b (example_event i)"
  shows "p = 1 \<and> b = 0"
proof -
  from assms have "p = 1" "truncate_time 7 hour = b"
    using truncate_in_hour [of b 7] by (auto simp: in_hour_def)
  then show ?thesis by (simp add: truncate_time_def zero_time_def)
qed

lemma at_rest_simps [simp]:
  "ro_phase (at_rest db h) = Idle" "ro_db (at_rest db h) = db" "ro_horizon (at_rest db h) = h"
  by (simp_all add: at_rest_def)

lemma one_event_inv:
  assumes "hourly_aggregation a" and "ag_project a (example_event i) = 1" and "ag_time a (example_event i) = 7"
  shows "rollup_inv a (at_rest \<lparr>sd_raw = [example_event i], sd_dirty = [example_key], sd_rolled = []\<rparr> h)"
proof -
  have "aggregate a p b [example_event i] = []"
    if "hour_start b" "gen_of [example_key] (p, b) = None" for p b
  proof -
    have "\<not> (p = 1 \<and> b = 0)" using that(2) by (auto simp: gen_of_None is_dirty_def example_key_def)
    then show ?thesis
      using example_event_hour [OF that(1) assms(2,3), of p] hourly_aggregation.rows_none [OF assms(1)]
      by (auto simp: aggregate_def)
  qed
  then show ?thesis by (simp add: rollup_inv_def clean_exact_def exact_at_def rolled_at_def unique_by_def)
qed

lemma no_rows_inv:
  assumes "hourly_aggregation a"
  shows "rollup_inv a (at_rest \<lparr>sd_raw = [], sd_dirty = [], sd_rolled = []\<rparr> h)"
  using hourly_aggregation.rows_none [OF assms]
  by (simp add: rollup_inv_def clean_exact_def exact_at_def rolled_at_def unique_by_def aggregate_def)

lemma one_event_ok: "stats_ok (- 18000000000000) one_event_tables"
proof -
  have fields: "ag_project event_aggregation (example_event i) = 1" "ag_time event_aggregation (example_event i) = 7"
    "ag_project issue_aggregation (example_event i) = 1" "ag_time issue_aggregation (example_event i) = 7" for i
    by (simp_all add: event_aggregation_def issue_aggregation_def example_event_fields)
  show ?thesis
    by (simp add: stats_ok_def event_stats_db_def issue_stats_db_def health_db_def one_event_tables_def fields
        one_event_inv no_rows_inv event_stats.hourly_aggregation_axioms issue_stats.hourly_aggregation_axioms
        health_stats.hourly_aggregation_axioms)
qed


end
