(* ===== verification/Jobs.thy ===== *)
theory Jobs
  imports Enums
begin

text \<open>
  \<open>internal/store/jobs.go\<close>: the job queue as a Postgres table, with its partial unique index
  \<open>jobs_pending\<close> on (kind, project, args) where \<open>attempts < 8\<close>. A statement is one step; \<open>now()\<close> is its
  argument. \<open>args\<close> is a \<open>jsonb\<close> value, here its canonical text. The identity column takes a fresh
  value for every proposed row, whether it is inserted or not.
\<close>

record job =
  jb_id :: int
  jb_kind :: JobKind
  jb_project :: project_id
  jb_args :: string
  jb_run_after :: time
  jb_attempts :: int
  jb_locked_until :: "time option"
  jb_last_error :: "string option"
  jb_created_at :: time

record jobs_table =
  jt_rows :: "job list"
  jt_next :: int

abbreviation job_key :: "job \<Rightarrow> JobKind \<times> project_id \<times> string" where
  "job_key j \<equiv> (jb_kind j, jb_project j, jb_args j)"

definition live_job :: "job \<Rightarrow> bool" where
  "live_job j \<longleftrightarrow> jb_attempts j < 8"

record enqueue_params =
  eq_kind :: JobKind
  eq_project :: project_id
  eq_args :: string
  eq_run_after :: time

abbreviation enqueue_key :: "enqueue_params \<Rightarrow> JobKind \<times> project_id \<times> string" where
  "enqueue_key p \<equiv> (eq_kind p, eq_project p, eq_args p)"

definition EnqueueJob :: "time \<Rightarrow> enqueue_params \<Rightarrow> jobs_table \<Rightarrow> jobs_table" where
  "EnqueueJob now p q =
     (let hit = (\<lambda>j. live_job j \<and> job_key j = enqueue_key p);
          new = \<lparr>jb_id = jt_next q, jb_kind = eq_kind p, jb_project = eq_project p, jb_args = eq_args p,
                 jb_run_after = eq_run_after p, jb_attempts = 0, jb_locked_until = None,
                 jb_last_error = None, jb_created_at = now\<rparr>
      in q\<lparr>jt_rows := (if list_ex hit (jt_rows q)
                       then update_where hit (\<lambda>j. j\<lparr>jb_run_after := min (jb_run_after j) (eq_run_after p)\<rparr>) (jt_rows q)
                       else jt_rows q @ [new]),
           jt_next := jt_next q + 1\<rparr>)"

text \<open>
  The multi-row form. A second proposed row with the same key is an error of the whole statement
  (\<open>ON CONFLICT DO UPDATE\<close> cannot affect a row twice): \<open>None\<close>.
\<close>

definition EnqueueJobs :: "time \<Rightarrow> enqueue_params list \<Rightarrow> jobs_table \<Rightarrow> jobs_table option" where
  "EnqueueJobs now ps q =
     (if distinct (map enqueue_key ps) then Some (fold (EnqueueJob now) ps q) else None)"

definition claimable :: "time \<Rightarrow> job \<Rightarrow> bool" where
  "claimable now j \<longleftrightarrow>
     jb_run_after j \<le> now
     \<and> (case jb_locked_until j of None \<Rightarrow> True | Some u \<Rightarrow> u < now)
     \<and> jb_attempts j < 8"

definition due_order :: "time \<Rightarrow> job list \<Rightarrow> job list" where
  "due_order now rows = sort_key (\<lambda>j. jb_run_after j) (sort_key jb_id (filter (claimable now) rows))"

definition claim_row :: "time \<Rightarrow> job \<Rightarrow> job" where
  "claim_row locked_until j = j\<lparr>jb_locked_until := Some locked_until, jb_attempts := jb_attempts j + 1\<rparr>"

definition claim_ids :: "time \<Rightarrow> nat \<Rightarrow> jobs_table \<Rightarrow> int list" where
  "claim_ids now limit q = map jb_id (take limit (due_order now (jt_rows q)))"

definition ClaimJobs :: "time \<Rightarrow> time \<Rightarrow> nat \<Rightarrow> jobs_table \<Rightarrow> job list \<times> jobs_table" where
  "ClaimJobs now locked_until limit q =
     (let ids = claim_ids now limit q; hit = (\<lambda>j. jb_id j \<in> set ids)
      in (map (claim_row locked_until) (filter hit (jt_rows q)),
          q\<lparr>jt_rows := update_where hit (claim_row locked_until) (jt_rows q)\<rparr>))"

definition DeleteJob :: "int \<Rightarrow> jobs_table \<Rightarrow> jobs_table" where
  "DeleteJob i q = q\<lparr>jt_rows := delete_where (\<lambda>j. jb_id j = i) (jt_rows q)\<rparr>"

definition RetryJob :: "int \<Rightarrow> string option \<Rightarrow> time \<Rightarrow> jobs_table \<Rightarrow> jobs_table" where
  "RetryJob i err run_after q =
     q\<lparr>jt_rows := update_where (\<lambda>j. jb_id j = i)
        (\<lambda>j. j\<lparr>jb_last_error := err, jb_run_after := run_after, jb_locked_until := None\<rparr>) (jt_rows q)\<rparr>"

definition leased :: "time \<Rightarrow> job \<Rightarrow> bool" where
  "leased now j = (case jb_locked_until j of None \<Rightarrow> False | Some u \<Rightarrow> now \<le> u)"

text \<open>The two halves of the statement see the same rows.\<close>

definition releasable :: "time \<Rightarrow> int \<Rightarrow> job list \<Rightarrow> job \<Rightarrow> bool" where
  "releasable now i rows j \<longleftrightarrow>
     jb_id j = i \<and> leased now j
     \<and> \<not> list_ex (\<lambda>k. job_key k = job_key j \<and> jb_id k \<noteq> jb_id j \<and> jb_attempts k < 8) rows"

definition ReleaseJob :: "time \<Rightarrow> int \<Rightarrow> jobs_table \<Rightarrow> jobs_table" where
  "ReleaseJob now i q =
     (let rows = jt_rows q
      in q\<lparr>jt_rows :=
        (if list_ex (releasable now i rows) rows
         then update_where (releasable now i rows)
                (\<lambda>j. j\<lparr>jb_locked_until := None, jb_attempts := max 0 (jb_attempts j - 1)\<rparr>) rows
         else delete_where (\<lambda>j. jb_id j = i \<and> leased now j) rows)\<rparr>)"

definition CountJobs :: "jobs_table \<Rightarrow> nat" where
  "CountJobs q = length (jt_rows q)"

definition ExpireJobs :: "time \<Rightarrow> jobs_table \<Rightarrow> nat \<times> jobs_table" where
  "ExpireJobs now q =
     (let dead = (\<lambda>j. 8 \<le> jb_attempts j \<and> jb_created_at j < now - 7 * day)
      in (length (filter dead (jt_rows q)), q\<lparr>jt_rows := delete_where dead (jt_rows q)\<rparr>))"

definition DeadJobs :: "jobs_table \<Rightarrow> project_id \<Rightarrow> job list" where
  "DeadJobs q pid =
     take 100 (sort_key (\<lambda>j. - jb_id j)
       (filter (\<lambda>j. jb_project j = pid \<and> 8 \<le> jb_attempts j) (jt_rows q)))"

section \<open>The invariant\<close>

text \<open>What the table and its indexes enforce: fresh ids, one live job per key, bounded attempts.\<close>

definition jobs_inv :: "jobs_table \<Rightarrow> bool" where
  "jobs_inv q \<longleftrightarrow>
     distinct (map jb_id (jt_rows q)) \<and> (\<forall>j \<in> set (jt_rows q). jb_id j < jt_next q)
     \<and> distinct (map job_key (filter live_job (jt_rows q)))
     \<and> (\<forall>j \<in> set (jt_rows q). 0 \<le> jb_attempts j \<and> jb_attempts j \<le> 8)"

lemma jobs_inv_update:
  assumes "jobs_inv q" and "\<And>j. p j \<Longrightarrow> j \<in> set (jt_rows q) \<Longrightarrow> jb_id (f j) = jb_id j \<and> job_key (f j) = job_key j
      \<and> (live_job (f j) \<longrightarrow> live_job j) \<and> 0 \<le> jb_attempts (f j) \<and> jb_attempts (f j) \<le> 8"
  shows "jobs_inv (q\<lparr>jt_rows := update_where p f (jt_rows q)\<rparr>)"
proof -
  let ?g = "\<lambda>j. if p j then f j else j"
  have "map jb_id (update_where p f (jt_rows q)) = map jb_id (jt_rows q)"
    using assms(2) by (auto simp: update_where_def)
  moreover have "distinct (map job_key (filter live_job (update_where p f (jt_rows q))))"
    unfolding update_where_def
    by (rule distinct_filter_update) (use assms in \<open>auto simp: jobs_inv_def\<close>)
  ultimately show ?thesis using assms by (auto simp: jobs_inv_def)
qed

lemma jobs_inv_delete: "jobs_inv q \<Longrightarrow> jobs_inv (q\<lparr>jt_rows := delete_where p (jt_rows q)\<rparr>)"
proof -
  assume inv: "jobs_inv q"
  then have "distinct (map jb_id (delete_where p (jt_rows q)))"
    unfolding jobs_inv_def delete_where_def by (simp add: distinct_map_filter)
  moreover have "distinct (map job_key (filter live_job (delete_where p (jt_rows q))))"
    using inv distinct_map_filter [of job_key "filter live_job (jt_rows q)" "\<lambda>x. \<not> p x"]
    unfolding jobs_inv_def delete_where_def by (simp add: conj_commute filter_filter)
  ultimately show ?thesis using inv by (simp add: jobs_inv_def)
qed

lemma jobs_inv_next: "jobs_inv q \<Longrightarrow> jobs_inv (q\<lparr>jt_next := jt_next q + 1\<rparr>)"
  by (fastforce simp: jobs_inv_def)

lemma enqueue_keeps_inv [step_inv]:
  assumes "jobs_inv q"
  shows "jobs_inv (EnqueueJob now p q)"
proof (cases "list_ex (\<lambda>j. live_job j \<and> job_key j = enqueue_key p) (jt_rows q)")
  case True
  have "jobs_inv (q\<lparr>jt_rows := update_where (\<lambda>j. live_job j \<and> job_key j = enqueue_key p)
      (\<lambda>j. j\<lparr>jb_run_after := min (jb_run_after j) (eq_run_after p)\<rparr>) (jt_rows q)\<rparr>)"
    by (rule jobs_inv_update [OF assms]) (use assms in \<open>auto simp: jobs_inv_def live_job_def\<close>)
  from jobs_inv_next [OF this] True show ?thesis by (simp add: EnqueueJob_def Let_def)
next
  case False
  then have "enqueue_key p \<notin> set (map job_key (filter live_job (jt_rows q)))"
    by (auto simp: list_ex_iff)
  moreover have "jt_next q \<notin> jb_id ` set (jt_rows q)"
    using assms by (auto simp: jobs_inv_def)
  ultimately show ?thesis using False assms
    unfolding EnqueueJob_def Let_def jobs_inv_def
    by (auto simp: live_job_def list_ex_iff dest: less_imp_le)
qed

lemma claim_keeps_inv [step_inv]:
  assumes "jobs_inv q"
  shows "jobs_inv (snd (ClaimJobs now l n q))"
proof -
  have sub: "jb_attempts j < 8" if "jb_id j \<in> set (claim_ids now n q)" and "j \<in> set (jt_rows q)" for j
  proof -
    from that obtain k where "k \<in> set (due_order now (jt_rows q))" and "jb_id k = jb_id j"
      by (auto simp: claim_ids_def dest: in_set_takeD)
    then have "k \<in> set (jt_rows q)" "claimable now k" "jb_id k = jb_id j" by (auto simp: due_order_def)
    with that(2) assms have "k = j" by (auto simp: jobs_inv_def distinct_map inj_on_def)
    with \<open>claimable now k\<close> show ?thesis by (simp add: claimable_def)
  qed
  show ?thesis unfolding ClaimJobs_def Let_def snd_conv
    by (rule jobs_inv_update [OF assms])
      (use sub assms in \<open>fastforce simp: claim_row_def live_job_def jobs_inv_def\<close>)
qed

lemma delete_keeps_inv [step_inv]: "jobs_inv q \<Longrightarrow> jobs_inv (DeleteJob i q)"
  unfolding DeleteJob_def by (rule jobs_inv_delete)

lemma expire_keeps_inv [step_inv]: "jobs_inv q \<Longrightarrow> jobs_inv (snd (ExpireJobs now q))"
  unfolding ExpireJobs_def Let_def snd_conv by (rule jobs_inv_delete)

lemma retry_keeps_inv [step_inv]: "jobs_inv q \<Longrightarrow> jobs_inv (RetryJob i err at q)"
  unfolding RetryJob_def by (rule jobs_inv_update) (auto simp: live_job_def jobs_inv_def)

text \<open>Giving an attempt back may revive a row; the guard is what keeps the index unique then.\<close>

lemma release_keeps_inv [step_inv]:
  assumes inv: "jobs_inv q"
  shows "jobs_inv (ReleaseJob now i q)"
proof (cases "list_ex (releasable now i (jt_rows q)) (jt_rows q)")
  case False
  then show ?thesis unfolding ReleaseJob_def Let_def
    using jobs_inv_delete [OF inv] by simp
next
  case True
  then obtain j where j: "j \<in> set (jt_rows q)" "releasable now i (jt_rows q) j"
    by (auto simp: list_ex_iff)
  let ?f = "\<lambda>j. j\<lparr>jb_locked_until := None, jb_attempts := max 0 (jb_attempts j - 1)\<rparr>"
  let ?g = "\<lambda>k. if releasable now i (jt_rows q) k then ?f k else k"
  have only: "k = j" if "k \<in> set (jt_rows q)" "releasable now i (jt_rows q) k" for k
    using that j inv by (auto simp: jobs_inv_def distinct_map inj_on_def releasable_def)
  have alone: "k = j \<or> job_key k \<noteq> job_key j" if "k \<in> set (jt_rows q)" "live_job k" for k
    using that j inv by (auto simp: releasable_def list_ex_iff live_job_def jobs_inv_def distinct_map inj_on_def)
  obtain as bs where split: "jt_rows q = as @ j # bs" using j(1) by (meson split_list)
  have dist: "distinct (map jb_id (as @ j # bs))" using inv split by (simp add: jobs_inv_def)
  have "\<not> releasable now i (jt_rows q) k" if "k \<in> set as \<union> set bs" for k
  proof
    assume "releasable now i (jt_rows q) k"
    with only [of k] that split have "k = j" by auto
    with that dist show False by (auto simp: image_iff)
  qed
  then have others: "map ?g as = as" "map ?g bs = bs" by (auto intro!: map_idI)
  have keys: "job_key j \<notin> set (map job_key (filter live_job (as @ bs)))"
  proof
    assume "job_key j \<in> set (map job_key (filter live_job (as @ bs)))"
    then obtain k where k: "k \<in> set (as @ bs)" "live_job k" "job_key k = job_key j"
      unfolding set_map set_filter by (elim imageE) fastforce
    with split have "k \<in> set (jt_rows q)" by auto
    with alone k have "k = j" by blast
    with k(1) dist show False by auto
  qed
  have "distinct (map job_key (filter live_job (as @ bs)))"
    using inv split by (auto simp: jobs_inv_def split: if_splits)
  with keys have "distinct (map job_key (filter live_job (as @ ?f j # bs)))" by auto
  moreover have upd: "update_where (releasable now i (jt_rows q)) ?f (jt_rows q) = as @ ?f j # bs"
  proof -
    have "update_where (releasable now i (jt_rows q)) ?f (jt_rows q) = map ?g as @ ?g j # map ?g bs"
      unfolding update_where_def by (subst (2) split) simp
    with others j(2) show ?thesis by simp
  qed
  moreover have "distinct (map jb_id (as @ ?f j # bs))" using dist by simp
  moreover have "\<forall>k \<in> set (as @ ?f j # bs). jb_id k < jt_next q \<and> 0 \<le> jb_attempts k \<and> jb_attempts k \<le> 8"
    using inv split by (auto simp: jobs_inv_def)
  ultimately show ?thesis using True by (auto simp: ReleaseJob_def Let_def jobs_inv_def)
qed

section \<open>The queue as a machine\<close>

datatype job_op =
    JobEnqueue time enqueue_params
  | JobClaim time time nat
  | JobDelete int
  | JobRetry int "string option" time
  | JobRelease time int
  | JobExpire time

fun apply_job_op :: "job_op \<Rightarrow> jobs_table \<Rightarrow> jobs_table" where
  "apply_job_op (JobEnqueue now p) q = EnqueueJob now p q"
| "apply_job_op (JobClaim now l n) q = snd (ClaimJobs now l n q)"
| "apply_job_op (JobDelete i) q = DeleteJob i q"
| "apply_job_op (JobRetry i err at) q = RetryJob i err at q"
| "apply_job_op (JobRelease now i) q = ReleaseJob now i q"
| "apply_job_op (JobExpire now) q = snd (ExpireJobs now q)"

inductive jobs_step :: "jobs_table \<Rightarrow> jobs_table \<Rightarrow> bool" where
  "jobs_step q (apply_job_op act q)"

inductive_simps jobs_step_simp: "jobs_step q q'"

lemma apply_job_op_inv: "jobs_inv q \<Longrightarrow> jobs_inv (apply_job_op act q)"
  by (cases act) (simp_all add: step_inv)

interpretation queue_machine: invariant "\<lambda>q. jt_rows q = []" jobs_step jobs_inv
proof unfold_locales
  show "jobs_step s t \<Longrightarrow> jobs_inv s \<Longrightarrow> jobs_inv t" for s t
    by (auto simp: jobs_step_simp apply_job_op_inv)
qed (simp add: jobs_inv_def)

lemma fold_job_ops_inv: "jobs_inv q \<Longrightarrow> jobs_inv (fold apply_job_op acts q)"
  by (induction acts arbitrary: q) (simp_all add: apply_job_op_inv)

lemma enqueue_jobs_inv: "jobs_inv q \<Longrightarrow> EnqueueJobs now ps q = Some q' \<Longrightarrow> jobs_inv q'"
proof -
  have "jobs_inv q \<Longrightarrow> jobs_inv (fold (EnqueueJob now) ps q)" for q
    by (induction ps arbitrary: q) (simp_all add: step_inv)
  then show "jobs_inv q \<Longrightarrow> EnqueueJobs now ps q = Some q' \<Longrightarrow> jobs_inv q'"
    by (auto simp: EnqueueJobs_def split: if_splits)
qed

section \<open>Leases\<close>

text \<open>Row \<open>i\<close> is leased until \<open>l\<close>, or gone.\<close>

definition held :: "int \<Rightarrow> time \<Rightarrow> jobs_table \<Rightarrow> bool" where
  "held i l q \<longleftrightarrow> (\<forall>j \<in> set (jt_rows q). jb_id j = i \<longrightarrow> jb_locked_until j = Some l) \<and> i < jt_next q"

text \<open>What other clients do meanwhile: anything but ending this lease, and claims until \<open>l\<close> at most.\<close>

fun bystander :: "int \<Rightarrow> time \<Rightarrow> job_op \<Rightarrow> bool" where
  "bystander i l (JobClaim now _ _) = (now \<le> l)"
| "bystander i l (JobDelete k) = (k \<noteq> i)"
| "bystander i l (JobRetry k _ _) = (k \<noteq> i)"
| "bystander i l (JobRelease _ k) = (k \<noteq> i)"
| "bystander i l _ = True"

lemma held_not_claimed: "held i l q \<Longrightarrow> now \<le> l \<Longrightarrow> i \<notin> set (claim_ids now n q)"
  by (auto simp: held_def claim_ids_def due_order_def claimable_def dest!: in_set_takeD)

lemma bystander_keeps: "held i l q \<Longrightarrow> bystander i l act \<Longrightarrow> held i l (apply_job_op act q)"
proof (cases act)
  case (JobClaim now l' n)
  assume h: "held i l q" and "bystander i l act"
  then have "i \<notin> set (claim_ids now n q)" using JobClaim held_not_claimed by simp
  with h show ?thesis by (auto simp: JobClaim ClaimJobs_def Let_def held_def claim_row_def)
next
  case (JobRelease now k)
  then show "held i l q \<Longrightarrow> bystander i l act \<Longrightarrow> ?thesis"
    by (auto simp: ReleaseJob_def Let_def held_def releasable_def)
qed (auto simp: held_def EnqueueJob_def Let_def DeleteJob_def RetryJob_def ExpireJobs_def)

lemma bystanders_keep: "held i l q \<Longrightarrow> list_all (bystander i l) acts \<Longrightarrow> held i l (fold apply_job_op acts q)"
  by (induction acts arbitrary: q) (simp_all add: bystander_keeps)

lemma claim_held:
  assumes "jobs_inv q" and "i \<in> set (claim_ids now n q)"
  shows "held i l (snd (ClaimJobs now l n q))"
proof -
  from assms(2) have "i \<in> jb_id ` set (jt_rows q)"
    by (auto simp: claim_ids_def due_order_def dest!: in_set_takeD)
  with assms show ?thesis
    by (auto simp: ClaimJobs_def Let_def held_def claim_row_def jobs_inv_def)
qed

section \<open>Claims\<close>

text \<open>The order jobs are taken in.\<close>

definition before_job :: "job \<Rightarrow> job \<Rightarrow> bool" where
  "before_job j k \<longleftrightarrow> jb_run_after j < jb_run_after k \<or> jb_run_after j = jb_run_after k \<and> jb_id j \<le> jb_id k"

lemma set_due_order [simp]: "set (due_order now rows) = {j \<in> set rows. claimable now j}"
  by (auto simp: due_order_def)

lemma sorted_wrt_due: "sorted_wrt before_job (due_order now rows)"
  using sorted_two_keys [of jb_run_after jb_id] unfolding due_order_def before_job_def [abs_def] .

lemma claim_ids_split:
  assumes "jobs_inv q" and "j \<in> set (jt_rows q)"
  shows "jb_id j \<in> set (claim_ids now n q) \<longleftrightarrow> j \<in> set (take n (due_order now (jt_rows q)))"
proof
  assume "jb_id j \<in> set (claim_ids now n q)"
  then obtain k where k: "k \<in> set (take n (due_order now (jt_rows q)))" "jb_id k = jb_id j"
    by (auto simp: claim_ids_def)
  then have "k \<in> set (jt_rows q)" by (auto dest: in_set_takeD)
  with k assms show "j \<in> set (take n (due_order now (jt_rows q)))"
    by (auto simp: jobs_inv_def distinct_map inj_on_def)
qed (auto simp: claim_ids_def)

lemma distinct_due: "jobs_inv q \<Longrightarrow> distinct (due_order now (jt_rows q))"
  by (auto simp: due_order_def jobs_inv_def distinct_map)

section \<open>Properties\<close>

text \<open>
  C27. Whatever enqueues, claims, deletes, retries, releases and expirations happen, in any order and
  at any times, the queue keeps one live job per (kind, project, args), ids are unique and the
  attempts of a job stay between 0 and 8: no statement ever violates \<open>jobs_pending\<close>.
\<close>

theorem queue_stays_consistent:
  assumes "reach (\<lambda>q. jt_rows q = []) jobs_step q"
  shows "distinct (map jb_id (jt_rows q)) \<and> distinct (map job_key (filter live_job (jt_rows q)))
    \<and> list_all (\<lambda>j. 0 \<le> jb_attempts j \<and> jb_attempts j \<le> 8) (jt_rows q)"
  using queue_machine.reach_inv [OF assms] by (auto simp: jobs_inv_def list_all_iff)

definition example_job :: enqueue_params where
  "example_job = \<lparr>eq_kind = JobKindAlert, eq_project = 1, eq_args = ''{}'', eq_run_after = 5\<rparr>"

lemma queue_stays_consistent_witness:
  "distinct (map jb_id (jt_rows (EnqueueJob 7 example_job \<lparr>jt_rows = [], jt_next = 1\<rparr>)))
    \<and> distinct (map job_key (filter live_job (jt_rows (EnqueueJob 7 example_job \<lparr>jt_rows = [], jt_next = 1\<rparr>))))
    \<and> list_all (\<lambda>j. 0 \<le> jb_attempts j \<and> jb_attempts j \<le> 8)
        (jt_rows (EnqueueJob 7 example_job \<lparr>jt_rows = [], jt_next = 1\<rparr>))"
proof (rule queue_stays_consistent)
  have "jobs_step \<lparr>jt_rows = [], jt_next = 1\<rparr>
      (apply_job_op (JobEnqueue 7 example_job) \<lparr>jt_rows = [], jt_next = 1\<rparr>)"
    by (rule jobs_step.intros)
  then have "jobs_step \<lparr>jt_rows = [], jt_next = 1\<rparr> (EnqueueJob 7 example_job \<lparr>jt_rows = [], jt_next = 1\<rparr>)"
    by simp
  then show "reach (\<lambda>q. jt_rows q = []) jobs_step (EnqueueJob 7 example_job \<lparr>jt_rows = [], jt_next = 1\<rparr>)"
    by (rule reach_step [OF reach_init, rotated]) simp
qed


definition example_queue :: jobs_table where
  "example_queue = \<lparr>jt_rows = [\<lparr>jb_id = 1, jb_kind = JobKindAlert, jb_project = 1, jb_args = ''{}'',
     jb_run_after = 5, jb_attempts = 0, jb_locked_until = None, jb_last_error = None,
     jb_created_at = 5\<rparr>], jt_next = 2\<rparr>"


text \<open>
  A claim takes the jobs that are due, oldest first: as many as the batch allows, each of them
  claimable, and no claimable job it leaves is before one it takes.
\<close>

theorem ClaimJobs_order:
  assumes "jobs_inv q"
  shows "length (fst (ClaimJobs now l n q)) = min n (length (filter (claimable now) (jt_rows q)))
    \<and> (\<forall>j \<in> set (jt_rows q). jb_id j \<in> set (claim_ids now n q) \<longrightarrow> claimable now j
        \<and> (\<forall>k \<in> set (jt_rows q). claimable now k \<and> jb_id k \<notin> set (claim_ids now n q) \<longrightarrow> before_job j k))"
proof (intro conjI ballI impI)
  let ?due = "due_order now (jt_rows q)"
  have split: "filter (\<lambda>j. jb_id j \<in> set (claim_ids now n q)) (jt_rows q) =
      filter (\<lambda>j. j \<in> set (take n ?due)) (jt_rows q)"
    using claim_ids_split [OF assms] by (intro filter_cong) auto
  have "set (filter (\<lambda>j. j \<in> set (take n ?due)) (jt_rows q)) = set (take n ?due)"
    by (auto dest: in_set_takeD)
  moreover have "distinct (filter (\<lambda>j. j \<in> set (take n ?due)) (jt_rows q))"
    using assms by (simp add: jobs_inv_def distinct_map)
  ultimately have "length (filter (\<lambda>j. j \<in> set (take n ?due)) (jt_rows q)) = length (take n ?due)"
    using distinct_due [OF assms] by (metis distinct_card distinct_take)
  moreover have "length ?due = length (filter (claimable now) (jt_rows q))" by (simp add: due_order_def)
  ultimately show "length (fst (ClaimJobs now l n q)) = min n (length (filter (claimable now) (jt_rows q)))"
    by (simp add: ClaimJobs_def Let_def split min.commute)
  fix j assume j: "j \<in> set (jt_rows q)" "jb_id j \<in> set (claim_ids now n q)"
  then have jt: "j \<in> set (take n ?due)" using claim_ids_split [OF assms] by blast
  then have "j \<in> set ?due" by (rule in_set_takeD)
  then show "claimable now j" by simp
  fix k assume k: "k \<in> set (jt_rows q)" "claimable now k \<and> jb_id k \<notin> set (claim_ids now n q)"
  then have "k \<in> set ?due" "k \<notin> set (take n ?due)" using claim_ids_split [OF assms k(1)] by auto
  then have "k \<in> set (drop n ?due)" by (metis Un_iff append_take_drop_id set_append)
  with jt sorted_wrt_due [of now "jt_rows q"] show "before_job j k"
    by (metis append_take_drop_id sorted_wrt_append)
qed

lemma ClaimJobs_order_witness:
  "length (fst (ClaimJobs 10 60 25 example_queue)) = 1"
  using ClaimJobs_order [of example_queue 10 60 25]
  by (simp add: example_queue_def jobs_inv_def live_job_def claimable_def)

end
