(* ===== verification/Worker.thy ===== *)
theory Worker
  imports Jobs GoStrings "HOL-Library.Word"
begin

text \<open>
  \<open>internal/jobs/worker.go\<close>: what a worker does with the jobs it claims. The handlers, the clock,
  whether the process is shutting down and whether a statement reaches the database are the
  environment, given per job; everything the worker decides and writes is here. The sleep between
  batches in \<open>Run\<close> is not modelled.
\<close>

section \<open>Backoff\<close>

definition maxAttempts :: int where "maxAttempts = 8"
definition defaultBatch :: int where "defaultBatch = 25"
definition defaultLease :: duration where "defaultLease = 10 * minute"
definition baseBackoff :: duration where "baseBackoff = 5 * second"
definition maxBackoff :: duration where "maxBackoff = 10 * minute"
definition maxErrorChars :: nat where "maxErrorChars = 500"

text \<open>\<open>baseBackoff << uint(attempts)\<close> shifts a signed 64-bit integer.\<close>

definition Backoff :: "int \<Rightarrow> duration" where
  "Backoff attempts0 =
     (let attempts = (if attempts0 < 0 then 0 else attempts0) in
      if 10 < attempts then maxBackoff
      else let d = sint (push_bit (nat attempts) (word_of_int baseBackoff :: 64 word))
           in if maxBackoff < d then maxBackoff else d)"

section \<open>One job\<close>

datatype handler_result =
    HandlerOk
  | HandlerError string
  | HandlerCanceled string   \<comment> \<open>the error wraps \<open>context.Canceled\<close>\<close>
  | HandlerPanic string

text \<open>\<open>run\<close>: a panic becomes an error.\<close>

fun run_handler :: "handler_result \<Rightarrow> handler_result" where
  "run_handler (HandlerPanic v) = HandlerError (''panic: '' @ v)"
| "run_handler r = r"

text \<open>
  One job's environment: the context is done before it starts (\<open>jr_stopped\<close>) or when the handler has
  returned (\<open>jr_stopping\<close>), what the handler does, the clock then, whether the outcome is recorded.
\<close>

record job_run =
  jr_stopped :: bool
  jr_stopping :: bool
  jr_result :: handler_result
  jr_now :: time
  jr_recorded :: bool

definition record_failed :: "job \<Rightarrow> string \<Rightarrow> time \<Rightarrow> jobs_table \<Rightarrow> jobs_table" where
  "record_failed j err now q =
     RetryJob (jb_id j) (Some (truncate_error err maxErrorChars)) (now + Backoff (jb_attempts j - 1)) q"

definition dispatch :: "JobKind set \<Rightarrow> job_run \<Rightarrow> job \<Rightarrow> jobs_table \<Rightarrow> jobs_table" where
  "dispatch handlers r j q =
     (if \<not> jr_recorded r then q
      else if jb_kind j \<notin> handlers then DeleteJob (jb_id j) q
      else case run_handler (jr_result r) of
             HandlerOk \<Rightarrow> DeleteJob (jb_id j) q
           | HandlerCanceled err \<Rightarrow>
               if jr_stopping r then ReleaseJob (jr_now r) (jb_id j) q
               else record_failed j err (jr_now r) q
           | HandlerError err \<Rightarrow> record_failed j err (jr_now r) q
           | HandlerPanic err \<Rightarrow> record_failed j err (jr_now r) q)"

section \<open>A batch\<close>

definition process_job :: "JobKind set \<Rightarrow> (int \<Rightarrow> job_run) \<Rightarrow> job \<Rightarrow> bool \<times> jobs_table \<Rightarrow> bool \<times> jobs_table" where
  "process_job handlers env j st =
     (let (failed, q) = st; r = env (jb_id j)
      in (failed \<or> \<not> jr_recorded r,
          if jr_stopped r
          then (if jr_recorded r then ReleaseJob (jr_now r) (jb_id j) q else q)
          else dispatch handlers r j q))"

text \<open>\<open>RunOnce\<close>: jobs claimed, whether an error is returned, the table. \<open>None\<close>: the claim failed.\<close>

definition RunOnce ::
  "JobKind set \<Rightarrow> int \<Rightarrow> duration \<Rightarrow> time \<Rightarrow> bool \<Rightarrow> (int \<Rightarrow> job_run) \<Rightarrow> bool \<Rightarrow> jobs_table
     \<Rightarrow> (nat \<times> bool \<times> jobs_table) option" where
  "RunOnce handlers batch0 lease0 now claim_ok env ctx_done q =
     (let batch = (if batch0 \<le> 0 then defaultBatch else batch0);
          lease = (if lease0 \<le> 0 then defaultLease else lease0)
      in if \<not> claim_ok then None
         else let (jobs, q1) = ClaimJobs now (now + lease) (nat batch) q;
                  (failed, q2) = fold (process_job handlers env) jobs (False, q1)
              in Some (length jobs, failed \<or> ctx_done, q2))"

section \<open>Backoff bounds\<close>

lemma Backoff_values:
  "map Backoff [0, 1, 2, 3, 4, 5, 6, 7, 8, 9, 10] =
     map ((*) second) [5, 10, 20, 40, 80, 160, 320, 600, 600, 600, 600]"
  by code_simp

lemma Backoff_step: "0 \<le> n \<Longrightarrow> n \<le> 6 \<Longrightarrow> Backoff n = 5 * second * 2 ^ nat n"
proof -
  assume "0 \<le> n" and "n \<le> 6"
  then consider "n = 0" | "n = 1" | "n = 2" | "n = 3" | "n = 4" | "n = 5" | "n = 6" by linarith
  then show ?thesis using Backoff_values by cases simp_all
qed

lemma Backoff_cap: "7 \<le> n \<Longrightarrow> Backoff n = maxBackoff"
proof -
  assume "7 \<le> n"
  then consider "n = 7" | "n = 8" | "n = 9" | "n = 10" | "10 < n" by linarith
  then show ?thesis using Backoff_values by cases (simp_all add: maxBackoff_def, simp add: Backoff_def maxBackoff_def)
qed

lemma Backoff_neg: "n \<le> 0 \<Longrightarrow> Backoff n = 5 * second"
proof -
  assume "n \<le> 0"
  then have "Backoff n = Backoff 0" by (auto simp: Backoff_def)
  then show ?thesis using Backoff_values by simp
qed

lemma Backoff_min: "Backoff n = min (10 * minute) (5 * second * 2 ^ nat n)"
proof -
  consider "n < 0" | "0 \<le> n" "n \<le> 6" | "7 \<le> n" by linarith
  then show ?thesis
  proof cases
    case 2
    have "(2 :: int) ^ nat n \<le> 2 ^ 6" using 2 by (intro power_increasing) auto
    then show ?thesis using 2 by (simp add: Backoff_step)
  next
    case 3
    have "(2 :: int) ^ 7 \<le> 2 ^ nat n" using 3 by (intro power_increasing) auto
    then show ?thesis using 3 by (simp add: Backoff_cap maxBackoff_def)
  qed (simp add: Backoff_neg)
qed

section \<open>Outcomes\<close>

definition with_id :: "int \<Rightarrow> jobs_table \<Rightarrow> job list" where
  "with_id i q = filter (\<lambda>j. jb_id j = i) (jt_rows q)"

definition unlocked :: "job \<Rightarrow> bool" where "unlocked j \<longleftrightarrow> jb_locked_until j = None"

lemma with_id_other:
  "k \<noteq> i \<Longrightarrow> with_id k (DeleteJob i q) = with_id k q"
  "k \<noteq> i \<Longrightarrow> with_id k (RetryJob i err at q) = with_id k q"
  "k \<noteq> i \<Longrightarrow> with_id k (ReleaseJob now i q) = with_id k q"
proof -
  have upd: "filter (\<lambda>j. jb_id j = k) (update_where p f rows) = filter (\<lambda>j. jb_id j = k) rows"
    if "\<forall>j. p j \<longrightarrow> jb_id j = i \<and> jb_id (f j) = i" and "k \<noteq> i" for p f rows
    using that by (induction rows) (auto simp: update_where_def)
  have del: "filter (\<lambda>j. jb_id j = k) (delete_where p rows) = filter (\<lambda>j. jb_id j = k) rows"
    if "\<forall>j. p j \<longrightarrow> jb_id j = i" and "k \<noteq> i" for p rows
    using that by (induction rows) (auto simp: delete_where_def)
  show "k \<noteq> i \<Longrightarrow> with_id k (DeleteJob i q) = with_id k q" by (simp add: with_id_def DeleteJob_def del)
  show "k \<noteq> i \<Longrightarrow> with_id k (RetryJob i err at q) = with_id k q" by (simp add: with_id_def RetryJob_def upd)
  show "k \<noteq> i \<Longrightarrow> with_id k (ReleaseJob now i q) = with_id k q"
    by (simp add: with_id_def ReleaseJob_def Let_def upd del releasable_def)
qed

lemma delete_unlocks: "list_all unlocked (with_id i (DeleteJob i q))"
  by (auto simp: with_id_def DeleteJob_def list_all_iff)

lemma retry_unlocks: "list_all unlocked (with_id i (RetryJob i err at q))"
proof -
  have "list_all unlocked (filter (\<lambda>j. jb_id j = i) (update_where (\<lambda>j. jb_id j = i)
      (\<lambda>j. j\<lparr>jb_last_error := err, jb_run_after := at, jb_locked_until := None\<rparr>) rows))" for rows
    by (induction rows) (simp_all add: update_where_def unlocked_def)
  then show ?thesis by (simp add: with_id_def RetryJob_def)
qed

lemma release_unlocks:
  assumes "jobs_inv q" and "list_all (leased now) (with_id i q)"
  shows "list_all unlocked (with_id i (ReleaseJob now i q))"
proof (cases "list_ex (releasable now i (jt_rows q)) (jt_rows q)")
  case False
  then show ?thesis using assms(2)
    by (auto simp: with_id_def ReleaseJob_def Let_def list_all_iff)
next
  case True
  then obtain j where j: "j \<in> set (jt_rows q)" "releasable now i (jt_rows q) j" by (auto simp: list_ex_iff)
  have "k = j" if "k \<in> set (jt_rows q)" "jb_id k = i" for k
    using that j assms(1) by (auto simp: jobs_inv_def distinct_map inj_on_def releasable_def)
  with True j show ?thesis
    by (auto simp: with_id_def ReleaseJob_def Let_def list_all_iff unlocked_def)
qed

lemma process_other: "jb_id j \<noteq> k \<Longrightarrow> with_id k (snd (process_job handlers env j st)) = with_id k (snd st)"
  by (cases st) (auto simp: process_job_def Let_def dispatch_def record_failed_def with_id_other split: handler_result.split)

lemma process_inv: "jobs_inv (snd st) \<Longrightarrow> jobs_inv (snd (process_job handlers env j st))"
  by (cases st)
    (auto simp: process_job_def Let_def dispatch_def record_failed_def step_inv split: handler_result.split)

lemma process_unlocks:
  assumes "jobs_inv (snd st)" and "jr_recorded (env (jb_id j))"
    and "list_all (leased (jr_now (env (jb_id j)))) (with_id (jb_id j) (snd st))"
  shows "list_all unlocked (with_id (jb_id j) (snd (process_job handlers env j st)))"
  using assms by (cases st)
    (auto simp: process_job_def Let_def dispatch_def record_failed_def delete_unlocks retry_unlocks
      release_unlocks split: handler_result.split)

lemma batch_unlocks:
  assumes "jobs_inv (snd st)" and "distinct (map jb_id jobs)" and "\<forall>i. jr_recorded (env i)"
    and "\<forall>j \<in> set jobs. list_all (leased (jr_now (env (jb_id j)))) (with_id (jb_id j) (snd st))"
    and "i \<in> jb_id ` set jobs"
  shows "list_all unlocked (with_id i (snd (fold (process_job handlers env) jobs st)))"
  using assms
proof (induction jobs arbitrary: st)
  case (Cons j jobs)
  let ?st = "process_job handlers env j st"
  have rest: "with_id k (snd ?st) = with_id k (snd st)" if "k \<in> jb_id ` set jobs" for k
    using that Cons.prems(2) by (intro process_other) auto
  show ?case
  proof (cases "i \<in> jb_id ` set jobs")
    case True
    have "list_all unlocked (with_id i (snd (fold (process_job handlers env) jobs ?st)))"
      using Cons.prems rest True by (intro Cons.IH process_inv) auto
    then show ?thesis by simp
  next
    case False
    then have i: "i = jb_id j" using Cons.prems(5) by auto
    have "with_id i (snd (fold (process_job handlers env) js st')) = with_id i (snd st')"
      if "i \<notin> jb_id ` set js" for js st'
      using that by (induction js arbitrary: st') (auto simp: process_other)
    with False i Cons.prems show ?thesis by (simp add: process_unlocks)
  qed
qed simp

section \<open>Properties\<close>

text \<open>
  The retry delay: 5 seconds doubled for every failed attempt before the last, at most ten
  minutes; the 64-bit shift never overflows, whatever the counter holds.
\<close>

theorem Backoff_doubles: "Backoff n = min (10 * minute) (5 * second * 2 ^ nat n)"
  by (rule Backoff_min)

text \<open>
  C30. A failing job is retried later or dead: its row stays, unlocked, with the error cut to 500
  runes and no NUL, and it can be claimed again exactly from the backoff on, if it has attempts left.
\<close>

theorem failed_job_is_retried:
  assumes "jobs_inv q" and "j \<in> set (jt_rows q)" and "jb_kind j \<in> handlers" and "jr_recorded r"
    and "run_handler (jr_result r) = HandlerError err"
  shows "\<exists>j'. lookup_by jb_id (jb_id j) (jt_rows (dispatch handlers r j q)) = Some j'
    \<and> jb_locked_until j' = None \<and> jb_attempts j' = jb_attempts j
    \<and> (\<exists>e. jb_last_error j' = Some e \<and> is_clean 500 e)
    \<and> (\<forall>t. claimable t j' \<longleftrightarrow>
          jb_attempts j < 8 \<and> jr_now r + min (10 * minute) (5 * second * 2 ^ nat (jb_attempts j - 1)) \<le> t)"
proof -
  let ?j = "j\<lparr>jb_last_error := Some (truncate_error err maxErrorChars),
     jb_run_after := jr_now r + Backoff (jb_attempts j - 1), jb_locked_until := None\<rparr>"
  have d: "dispatch handlers r j q = record_failed j err (jr_now r) q"
    using assms(3-5) by (simp add: dispatch_def)
  have "jobs_inv (dispatch handlers r j q)"
    unfolding d record_failed_def by (intro retry_keeps_inv assms(1))
  then have "unique_by jb_id (jt_rows (dispatch handlers r j q))"
    by (simp add: jobs_inv_def unique_by_def)
  moreover have "?j \<in> set (jt_rows (dispatch handlers r j q))"
    unfolding d record_failed_def RetryJob_def using assms(2) by (auto intro!: image_eqI [of _ _ j])
  ultimately have "lookup_by jb_id (jb_id j) (jt_rows (dispatch handlers r j q)) = Some ?j"
    by (simp add: lookup_by_iff)
  moreover have "Backoff (jb_attempts j - 1) = min (10 * minute) (5 * second * 2 ^ nat (jb_attempts j - 1))"
    by (rule Backoff_min)
  ultimately show ?thesis
    by (intro exI [of _ ?j]) (auto simp: claimable_def truncate_error_clean maxErrorChars_def)
qed

lemma failed_job_is_retried_witness:
  "\<exists>j'. lookup_by jb_id 1 (jt_rows (dispatch {JobKindAlert}
       \<lparr>jr_stopped = False, jr_stopping = False, jr_result = HandlerPanic ''boom'', jr_now = 70, jr_recorded = True\<rparr>
       (hd (jt_rows example_queue)) example_queue)) = Some j'
    \<and> (\<exists>e. jb_last_error j' = Some e \<and> is_clean 500 e)"
  using failed_job_is_retried [of example_queue "hd (jt_rows example_queue)" "{JobKindAlert}"
     "\<lparr>jr_stopped = False, jr_stopping = False, jr_result = HandlerPanic ''boom'', jr_now = 70, jr_recorded = True\<rparr>"
     "''panic: boom''"]
  by (auto simp: example_queue_def jobs_inv_def live_job_def)

text \<open>
  C31. A batch strands no job: when its outcomes are recorded and shutdown hands jobs back before the
  lease ends, every claimed job is afterwards gone or free of the lease.
\<close>

theorem RunOnce_strands_nothing:
  assumes "jobs_inv q" and "RunOnce handlers batch lease now True env stop q = Some (n, failed, q')"
    and "\<forall>i. jr_recorded (env i) \<and> jr_now (env i) \<le> now + (if lease \<le> 0 then 10 * minute else lease)"
    and "i \<in> set (claim_ids now (nat (if batch \<le> 0 then 25 else batch)) q)"
  shows "list_all (\<lambda>j. jb_id j = i \<longrightarrow> jb_locked_until j = None) (jt_rows q')"
proof -
  let ?l = "now + (if lease \<le> 0 then 10 * minute else lease)"
  let ?b = "nat (if batch \<le> 0 then 25 else batch)"
  obtain jobs q1 where c: "ClaimJobs now ?l ?b q = (jobs, q1)" by fastforce
  with assms(2) have q': "q' = snd (fold (process_job handlers env) jobs (False, q1))"
    by (auto simp: RunOnce_def Let_def defaultBatch_def defaultLease_def split: prod.splits if_splits)
  have ids: "jb_id ` set jobs = set (claim_ids now ?b q)" and dist: "distinct (map jb_id jobs)"
  proof -
    have jobs: "jobs = map (claim_row ?l) (filter (\<lambda>j. jb_id j \<in> set (claim_ids now ?b q)) (jt_rows q))"
      using c by (simp add: ClaimJobs_def Let_def)
    have "set (claim_ids now ?b q) \<subseteq> jb_id ` set (jt_rows q)"
      unfolding claim_ids_def set_map
      by (intro image_mono order.trans [OF set_take_subset]) auto
    moreover have "jb_id ` set jobs = jb_id ` {j \<in> set (jt_rows q). jb_id j \<in> set (claim_ids now ?b q)}"
      unfolding jobs by (simp add: claim_row_def image_image)
    ultimately show "jb_id ` set jobs = set (claim_ids now ?b q)" by (simp only: image_where)
    have "map jb_id jobs = map jb_id (filter (\<lambda>j. jb_id j \<in> set (claim_ids now ?b q)) (jt_rows q))"
      unfolding jobs by (simp add: claim_row_def)
    then show "distinct (map jb_id jobs)"
      using assms(1) by (simp add: jobs_inv_def distinct_map_filter)
  qed
  have "jobs_inv q1" using claim_keeps_inv [OF assms(1), of now ?l ?b] c by simp
  moreover have "list_all (leased (jr_now (env (jb_id j)))) (with_id (jb_id j) q1)" if "j \<in> set jobs" for j
  proof -
    have "jb_id j \<in> set (claim_ids now ?b q)" using ids that by blast
    from claim_held [OF assms(1) this, of ?l] c have "held (jb_id j) ?l q1" by simp
    with assms(3) show ?thesis by (auto simp: held_def with_id_def list_all_iff leased_def)
  qed
  ultimately have "list_all unlocked (with_id i q')"
    unfolding q' using dist ids assms(3,4) by (intro batch_unlocks) auto
  then show ?thesis by (auto simp: with_id_def list_all_iff unlocked_def)
qed

lemma RunOnce_strands_nothing_witness:
  "list_all (\<lambda>j. jb_id j = 1 \<longrightarrow> jb_locked_until j = None)
     (jt_rows (snd (snd (the (RunOnce {} 0 0 10 True (\<lambda>i. \<lparr>jr_stopped = True, jr_stopping = True,
        jr_result = HandlerOk, jr_now = 12, jr_recorded = True\<rparr>) True example_queue)))))"
proof (rule RunOnce_strands_nothing)
  let ?env = "\<lambda>i :: int. \<lparr>jr_stopped = True, jr_stopping = True, jr_result = HandlerOk, jr_now = 12,
    jr_recorded = True\<rparr>"
  show "jobs_inv example_queue" by (simp add: example_queue_def jobs_inv_def live_job_def)
  show "RunOnce {} 0 0 10 True ?env True example_queue =
      Some (fst (the (RunOnce {} 0 0 10 True ?env True example_queue)),
            fst (snd (the (RunOnce {} 0 0 10 True ?env True example_queue))),
            snd (snd (the (RunOnce {} 0 0 10 True ?env True example_queue))))"
    by (simp add: RunOnce_def Let_def split: prod.split)
  show "\<forall>i. jr_recorded (?env i) \<and> jr_now (?env i) \<le> 10 + (if 0 \<le> (0 :: int) then 10 * minute else 0)" by simp
  show "1 \<in> set (claim_ids 10 (nat (if (0 :: int) \<le> 0 then 25 else 0)) example_queue)"
    by (simp add: example_queue_def claim_ids_def due_order_def claimable_def)
qed

end
