(* ===== verification/Monitors.thy ===== *)
theory Monitors
  imports Enums Ids
begin

text \<open>
  Cron monitoring: \<open>internal/monitors/schedule.go\<close> and \<open>state.go\<close> (the schedule and the counters),
  \<open>internal/store/monitors.go\<close> (the monitors and their check-ins), the part of
  \<open>internal/alerts/monitors.go\<close> that notices missed and overlong runs, and the check-in step of
  \<open>internal/ingest/ingest.go\<close>. The crontab library (robfig/cron) and the time zone database are
  parameters.
\<close>

section \<open>Schedules\<close>

text \<open>
  \<open>cron_parse\<close> parses a five-field expression; \<open>cron_next s tz t\<close> is the first time after \<open>t\<close> the
  expression names in the zone, or the zero time when there is none. \<open>tz_known\<close>: the zone resolves.
\<close>

record 'c cron_lib =
  cron_parse :: "string \<Rightarrow> 'c option"
  cron_next :: "'c \<Rightarrow> string \<Rightarrow> time \<Rightarrow> time"
  tz_known :: "string \<Rightarrow> bool"

datatype 'c schedule = CronSchedule 'c | IntervalSchedule duration

definition IntervalUnits :: "string \<Rightarrow> duration option" where
  "IntervalUnits = map_of [(''minute'', minute), (''hour'', hour), (''day'', day), (''week'', week)]"

datatype schedule_error = BadCrontab | BadIntervalValue | BadIntervalUnit | BadScheduleType

text \<open>The interval is an \<open>int64\<close> product of nanoseconds.\<close>

definition ParseSchedule ::
  "'c cron_lib \<Rightarrow> string \<Rightarrow> string \<Rightarrow> string \<Rightarrow> schedule_error + 'c schedule" where
  "ParseSchedule lib typ val unit =
     (if typ = ''crontab'' then
        (case cron_parse lib val of None \<Rightarrow> Inl BadCrontab | Some s \<Rightarrow> Inr (CronSchedule s))
      else if typ = ''interval'' then
        (case atoi val of
           None \<Rightarrow> Inl BadIntervalValue
         | Some n \<Rightarrow>
             if n \<le> 0 then Inl BadIntervalValue
             else (case IntervalUnits unit of
                     None \<Rightarrow> Inl BadIntervalUnit
                   | Some d \<Rightarrow> Inr (IntervalSchedule (wrap64 (d * n)))))
      else Inl BadScheduleType)"

fun next_time :: "'c cron_lib \<Rightarrow> string \<Rightarrow> 'c schedule \<Rightarrow> time \<Rightarrow> time" where
  "next_time lib tz (CronSchedule s) t = cron_next lib s tz t"
| "next_time lib tz (IntervalSchedule d) t = t + d"

section \<open>Counting outcomes\<close>

record transition =
  tr_failures :: int
  tr_successes :: int
  tr_alerting :: bool
  tr_failed :: bool
  tr_recovered :: bool

definition Record :: "int \<Rightarrow> int \<Rightarrow> bool \<Rightarrow> int \<Rightarrow> int \<Rightarrow> bool \<Rightarrow> transition" where
  "Record failures successes alerting failureThreshold recoveryThreshold ok =
     (let f = (if ok then 0 else wrap32 (failures + 1));
          s = (if ok then wrap32 (successes + 1) else 0)
      in if \<not> alerting \<and> failureThreshold \<le> f then
           \<lparr>tr_failures = f, tr_successes = s, tr_alerting = True, tr_failed = True, tr_recovered = False\<rparr>
         else if alerting \<and> recoveryThreshold \<le> s then
           \<lparr>tr_failures = f, tr_successes = s, tr_alerting = False, tr_failed = False, tr_recovered = True\<rparr>
         else
           \<lparr>tr_failures = f, tr_successes = s, tr_alerting = alerting, tr_failed = False, tr_recovered = False\<rparr>)"

section \<open>The monitors table\<close>

record monitor =
  mo_project :: project_id
  mo_slug :: string
  mo_schedule_type :: string
  mo_schedule_value :: string
  mo_schedule_unit :: "string option"
  mo_timezone :: string
  mo_checkin_margin_min :: int
  mo_max_runtime_min :: int
  mo_failure_threshold :: int
  mo_recovery_threshold :: int
  mo_last_status :: "CheckinStatus option"
  mo_failures :: int
  mo_successes :: int
  mo_alerting :: bool
  mo_next_expected_at :: "time option"
  mo_last_checkin_at :: "time option"
  mo_created_at :: time

abbreviation monitor_key :: "monitor \<Rightarrow> project_id \<times> string" where
  "monitor_key m \<equiv> (mo_project m, mo_slug m)"

type_synonym monitors = "monitor list"

record upsert_monitor_params =
  um_project :: project_id
  um_slug :: string
  um_schedule_type :: string
  um_schedule_value :: string
  um_schedule_unit :: "string option"
  um_timezone :: string
  um_checkin_margin_min :: int
  um_max_runtime_min :: int
  um_failure_threshold :: int
  um_recovery_threshold :: int

definition excluded_monitor :: "time \<Rightarrow> upsert_monitor_params \<Rightarrow> monitor" where
  "excluded_monitor now p =
     \<lparr>mo_project = um_project p, mo_slug = um_slug p, mo_schedule_type = um_schedule_type p,
      mo_schedule_value = um_schedule_value p, mo_schedule_unit = um_schedule_unit p,
      mo_timezone = um_timezone p, mo_checkin_margin_min = um_checkin_margin_min p,
      mo_max_runtime_min = um_max_runtime_min p, mo_failure_threshold = um_failure_threshold p,
      mo_recovery_threshold = um_recovery_threshold p, mo_last_status = None, mo_failures = 0,
      mo_successes = 0, mo_alerting = False, mo_next_expected_at = None, mo_last_checkin_at = None,
      mo_created_at = now\<rparr>"

definition merge_monitor :: "monitor \<Rightarrow> monitor \<Rightarrow> monitor" where
  "merge_monitor m x = m\<lparr>
     mo_schedule_type := mo_schedule_type x, mo_schedule_value := mo_schedule_value x,
     mo_schedule_unit := mo_schedule_unit x, mo_timezone := mo_timezone x,
     mo_checkin_margin_min := mo_checkin_margin_min x, mo_max_runtime_min := mo_max_runtime_min x,
     mo_failure_threshold := mo_failure_threshold x, mo_recovery_threshold := mo_recovery_threshold x\<rparr>"

definition GetMonitor :: "monitors \<Rightarrow> project_id \<Rightarrow> string \<Rightarrow> monitor option" where
  "GetMonitor t pid slug = lookup_by monitor_key (pid, slug) t"

definition UpsertMonitor :: "time \<Rightarrow> upsert_monitor_params \<Rightarrow> monitors \<Rightarrow> monitor \<times> monitors" where
  "UpsertMonitor now p t =
     ((case GetMonitor t (um_project p) (um_slug p) of
         None \<Rightarrow> excluded_monitor now p
       | Some m \<Rightarrow> merge_monitor m (excluded_monitor now p)),
      upsert monitor_key merge_monitor (excluded_monitor now p) t)"

definition ListMonitors :: "monitors \<Rightarrow> project_id \<Rightarrow> monitors" where
  "ListMonitors t pid = sort_key mo_slug (filter (\<lambda>m. mo_project m = pid) t)"

definition DeleteMonitor :: "project_id \<Rightarrow> string \<Rightarrow> monitors \<Rightarrow> nat \<times> monitors" where
  "DeleteMonitor pid slug t =
     (let hit = (\<lambda>m. monitor_key m = (pid, slug))
      in (length (filter hit t), delete_where hit t))"

record monitor_result =
  mr_project :: project_id
  mr_slug :: string
  mr_last_status :: CheckinStatus
  mr_failures :: int
  mr_successes :: int
  mr_alerting :: bool
  mr_next_expected_at :: time
  mr_last_checkin_at :: time

definition RecordMonitorResult :: "monitor_result \<Rightarrow> monitors \<Rightarrow> monitors" where
  "RecordMonitorResult p t =
     update_where (\<lambda>m. monitor_key m = (mr_project p, mr_slug p))
       (\<lambda>m. m\<lparr>mo_last_status := Some (mr_last_status p), mo_failures := mr_failures p,
              mo_successes := mr_successes p, mo_alerting := mr_alerting p,
              mo_next_expected_at := Some (mr_next_expected_at p),
              mo_last_checkin_at := Some (mr_last_checkin_at p)\<rparr>) t"

definition DueMonitors :: "time \<Rightarrow> monitors \<Rightarrow> monitors" where
  "DueMonitors now t =
     filter (\<lambda>m. case mo_next_expected_at m of None \<Rightarrow> False | Some n \<Rightarrow> n < now) t"

section \<open>Check-ins\<close>

text \<open>A duration is kept as the bits of the \<open>float32\<close>: nothing computes with it.\<close>

type_synonym float_bits = int

record checkin =
  ck_started_at :: time
  ck_project :: project_id
  ck_slug :: string
  ck_id :: id_text
  ck_status :: CheckinStatus
  ck_duration :: "float_bits option"
  ck_release :: "string option"
  ck_environment :: "string option"

abbreviation checkin_key :: "checkin \<Rightarrow> project_id \<times> string \<times> id_text \<times> time" where
  "checkin_key c \<equiv> (ck_project c, ck_slug c, ck_id c, ck_started_at c)"

type_synonym checkins = "checkin list"

definition TimedOutCheckIns :: "time \<Rightarrow> monitors \<Rightarrow> checkins \<Rightarrow> checkins" where
  "TimedOutCheckIns before ms cs =
     filter (\<lambda>c. ck_status c = CheckinStatusInProgress
       \<and> (case GetMonitor ms (ck_project c) (ck_slug c) of
            None \<Rightarrow> False
          | Some m \<Rightarrow> ck_started_at c + mo_max_runtime_min m * minute < before)) cs"

text \<open>\<open>ORDER BY started_at DESC LIMIT 1\<close>: the first of the latest in table order.\<close>

definition FindOpenCheckIn :: "checkins \<Rightarrow> project_id \<Rightarrow> string \<Rightarrow> bool \<Rightarrow> id_text \<Rightarrow> checkin option" where
  "FindOpenCheckIn t pid slug zero cid =
     (case sort_key (\<lambda>c. - ck_started_at c)
        (filter (\<lambda>c. ck_project c = pid \<and> ck_slug c = slug
           \<and> (zero \<and> ck_status c = CheckinStatusInProgress \<or> \<not> zero \<and> ck_id c = cid)) t) of
        [] \<Rightarrow> None | c # _ \<Rightarrow> Some c)"

text \<open>An insert of an existing key is an error: \<open>None\<close>.\<close>

definition InsertCheckIn :: "checkin \<Rightarrow> checkins \<Rightarrow> checkins option" where
  "InsertCheckIn c t = (if checkin_key c \<in> checkin_key ` set t then None else Some (t @ [c]))"

definition UpdateCheckIn :: "checkin \<Rightarrow> checkins \<Rightarrow> checkins" where
  "UpdateCheckIn p t =
     update_where (\<lambda>c. checkin_key c = checkin_key p)
       (\<lambda>c. c\<lparr>ck_status := ck_status p,
              ck_duration := (case ck_duration p of None \<Rightarrow> ck_duration c | Some d \<Rightarrow> Some d),
              ck_release := (case ck_release p of None \<Rightarrow> ck_release c | Some r \<Rightarrow> Some r),
              ck_environment := (case ck_environment p of None \<Rightarrow> ck_environment c | Some e \<Rightarrow> Some e)\<rparr>) t"

definition ListCheckIns :: "checkins \<Rightarrow> project_id \<Rightarrow> string \<Rightarrow> nat \<Rightarrow> checkins" where
  "ListCheckIns t pid slug n =
     take n (sort_key (\<lambda>c. - ck_started_at c) (rev (sort_key ck_id
       (filter (\<lambda>c. ck_project c = pid \<and> ck_slug c = slug) t))))"

section \<open>Check-ins arriving in an envelope\<close>

record monitor_config =
  mc_schedule_type :: string
  mc_schedule_value :: string
  mc_schedule_unit :: string
  mc_timezone :: string
  mc_checkin_margin_min :: int
  mc_max_runtime_min :: int
  mc_failure_threshold :: int
  mc_recovery_threshold :: int

record check_in =
  ci_id :: id_text
  ci_slug :: string
  ci_status :: string
  ci_duration :: "float_bits option"
  ci_release :: string
  ci_environment :: string
  ci_config :: "monitor_config option"

definition ZeroCheckInID :: id_text where "ZeroCheckInID = replicate 32 (CHR ''0'')"

definition nilIfEmpty :: "string \<Rightarrow> string option" where
  "nilIfEmpty s = (if trim_space s = [] then None else Some s)"

definition deref :: "string option \<Rightarrow> string" where
  "deref s = (case s of None \<Rightarrow> [] | Some v \<Rightarrow> v)"

record cron_state =
  cs_monitors :: monitors
  cs_checkins :: checkins

datatype monitor_error =
    StoredSchedule schedule_error
  | DuplicateCheckIn
  | BadStatus string
  | NoNextExpected

type_synonym monitor_alert = "AlertType \<times> project_id \<times> string"

definition monitor_zone :: "'c cron_lib \<Rightarrow> monitor \<Rightarrow> string" where
  "monitor_zone lib m = (if tz_known lib (mo_timezone m) then mo_timezone m else ''UTC'')"

definition margin_of :: "monitor \<Rightarrow> duration" where
  "margin_of m = wrap64 (mo_checkin_margin_min m * minute)"

definition monitor_schedule :: "'c cron_lib \<Rightarrow> monitor \<Rightarrow> schedule_error + 'c schedule" where
  "monitor_schedule lib m =
     ParseSchedule lib (mo_schedule_type m) (mo_schedule_value m) (deref (mo_schedule_unit m))"

definition next_expected :: "'c cron_lib \<Rightarrow> monitor \<Rightarrow> 'c schedule \<Rightarrow> time \<Rightarrow> time" where
  "next_expected lib m s t = next_time lib (monitor_zone lib m) s t + margin_of m"

definition transition_alerts :: "transition \<Rightarrow> monitor \<Rightarrow> monitor_alert list" where
  "transition_alerts tr m =
     (if tr_failed tr then [(AlertTypeMonitorFailed, mo_project m, mo_slug m)]
      else if tr_recovered tr then [(AlertTypeMonitorRecovered, mo_project m, mo_slug m)]
      else [])"

text \<open>The outcome of a run: the counters advance, the result is written, a crossing alerts.\<close>

definition record_outcome ::
  "monitor \<Rightarrow> CheckinStatus \<Rightarrow> time \<Rightarrow> time \<Rightarrow> monitors \<Rightarrow> monitors \<times> monitor_alert list" where
  "record_outcome m status next_at now t =
     (let tr = Record (mo_failures m) (mo_successes m) (mo_alerting m) (mo_failure_threshold m)
                 (mo_recovery_threshold m) (status = CheckinStatusOk)
      in (RecordMonitorResult \<lparr>mr_project = mo_project m, mr_slug = mo_slug m, mr_last_status = status,
            mr_failures = tr_failures tr, mr_successes = tr_successes tr, mr_alerting = tr_alerting tr,
            mr_next_expected_at = next_at, mr_last_checkin_at = now\<rparr> t,
          transition_alerts tr m))"

definition config_params :: "project_id \<Rightarrow> string \<Rightarrow> monitor_config \<Rightarrow> upsert_monitor_params" where
  "config_params pid slug c =
     \<lparr>um_project = pid, um_slug = slug, um_schedule_type = mc_schedule_type c,
      um_schedule_value = mc_schedule_value c, um_schedule_unit = nilIfEmpty (mc_schedule_unit c),
      um_timezone = mc_timezone c, um_checkin_margin_min = mc_checkin_margin_min c,
      um_max_runtime_min = mc_max_runtime_min c, um_failure_threshold = mc_failure_threshold c,
      um_recovery_threshold = mc_recovery_threshold c\<rparr>"

text \<open>The run's row: a later check-in of a known run advances it, a fresh one inserts it.\<close>

definition store_check_in ::
  "time \<Rightarrow> project_id \<Rightarrow> check_in \<Rightarrow> CheckinStatus \<Rightarrow> checkins \<Rightarrow> (checkins \<times> nat) option" where
  "store_check_in now pid ci st t =
     (let zero = (ci_id ci = ZeroCheckInID);
          row = (\<lambda>i at. \<lparr>ck_started_at = at, ck_project = pid, ck_slug = ci_slug ci, ck_id = i, ck_status = st,
                   ck_duration = ci_duration ci, ck_release = nilIfEmpty (ci_release ci),
                   ck_environment = nilIfEmpty (ci_environment ci)\<rparr>)
      in case FindOpenCheckIn t pid (ci_slug ci) zero (ci_id ci) of
           Some c \<Rightarrow> Some (UpdateCheckIn (row (ck_id c) (ck_started_at c)) t, 1)
         | None \<Rightarrow> if zero then Some (t, 0)
                   else map_option (\<lambda>t'. (t', 1)) (InsertCheckIn (row (ci_id ci) now) t))"

text \<open>
  The whole step, inside the envelope's transaction: an error undoes it. The result counts the
  monitors upserted and the check-ins stored.
\<close>

definition ingest_check_in ::
  "'c cron_lib \<Rightarrow> time \<Rightarrow> project_id \<Rightarrow> check_in \<Rightarrow> cron_state
     \<Rightarrow> monitor_error + cron_state \<times> monitor_alert list \<times> nat \<times> nat" where
  "ingest_check_in lib now pid ci cs =
     (let (mon, ms, upserted) =
        (case ci_config ci of
           Some c \<Rightarrow> (let (m, t) = UpsertMonitor now (config_params pid (ci_slug ci) c) (cs_monitors cs)
                      in (Some m, t, 1))
         | None \<Rightarrow> (GetMonitor (cs_monitors cs) pid (ci_slug ci), cs_monitors cs, 0))
      in case mon of
           None \<Rightarrow> Inr (cs, [], 0, 0)
         | Some m \<Rightarrow>
           (case checkin_status_of_text (ci_status ci) of
              None \<Rightarrow> Inl (BadStatus (ci_status ci))
            | Some st \<Rightarrow>
              (case store_check_in now pid ci st (cs_checkins cs) of
                 None \<Rightarrow> Inl DuplicateCheckIn
               | Some (t, n) \<Rightarrow>
                 if ci_status ci = ''ok'' \<or> ci_status ci = ''error'' then
                   (case monitor_schedule lib m of
                      Inl e \<Rightarrow> Inl (StoredSchedule e)
                    | Inr s \<Rightarrow>
                        (let (ms', alerts) = record_outcome m st (next_expected lib m s now) now ms
                         in Inr (\<lparr>cs_monitors = ms', cs_checkins = t\<rparr>, alerts, upserted, n)))
                 else Inr (\<lparr>cs_monitors = ms, cs_checkins = t\<rparr>, [], upserted, n))))"

section \<open>Missed and overlong runs\<close>

text \<open>The loop of \<open>monitorMissed\<close>: at most \<open>n\<close> occurrences forward, until one is after now.\<close>

fun advance :: "(time \<Rightarrow> time) \<Rightarrow> nat \<Rightarrow> time \<Rightarrow> time \<Rightarrow> time" where
  "advance step 0 now t = t"
| "advance step (Suc n) now t = (if now < t then t else advance step n now (step t))"

definition monitorMissed ::
  "'c cron_lib \<Rightarrow> id_text \<Rightarrow> time \<Rightarrow> monitor \<Rightarrow> cron_state
     \<Rightarrow> (monitor_error + monitor_alert list) \<times> cron_state" where
  "monitorMissed lib rid now m cs =
     (case monitor_schedule lib m of
        Inl e \<Rightarrow> (Inl (StoredSchedule e), cs)
      | Inr s \<Rightarrow>
        (case mo_next_expected_at m of
           None \<Rightarrow> (Inl NoNextExpected, cs)
         | Some t0 \<Rightarrow>
           (let next_at = advance (next_expected lib m s) 10000 now t0;
                row = \<lparr>ck_started_at = now, ck_project = mo_project m, ck_slug = mo_slug m, ck_id = rid,
                       ck_status = CheckinStatusMissed, ck_duration = None, ck_release = None,
                       ck_environment = None\<rparr>
            in case InsertCheckIn row (cs_checkins cs) of
                 None \<Rightarrow> (Inl DuplicateCheckIn, cs)
               | Some t \<Rightarrow>
                   (let (ms, alerts) = record_outcome m CheckinStatusMissed next_at now (cs_monitors cs)
                    in (Inr alerts, \<lparr>cs_monitors = ms, cs_checkins = t\<rparr>)))))"

definition monitorTimeout ::
  "time \<Rightarrow> checkin \<Rightarrow> cron_state \<Rightarrow> monitor_alert list \<times> cron_state" where
  "monitorTimeout now c cs =
     (let t = UpdateCheckIn (c\<lparr>ck_status := CheckinStatusTimeout, ck_duration := None,
                ck_release := None, ck_environment := None\<rparr>) (cs_checkins cs)
      in case GetMonitor (cs_monitors cs) (ck_project c) (ck_slug c) of
           None \<Rightarrow> ([], cs\<lparr>cs_checkins := t\<rparr>)
         | Some m \<Rightarrow>
             (let next_at = (case mo_next_expected_at m of None \<Rightarrow> now | Some n \<Rightarrow> n);
                  (ms, alerts) = record_outcome m CheckinStatusTimeout next_at now (cs_monitors cs)
              in (alerts, \<lparr>cs_monitors = ms, cs_checkins = t\<rparr>)))"

text \<open>\<open>CheckMonitors\<close>: every due monitor, then every overlong run; one failing does not stop the rest.\<close>

definition missed_step ::
  "'c cron_lib \<Rightarrow> (monitor \<Rightarrow> id_text) \<Rightarrow> time \<Rightarrow> monitor
     \<Rightarrow> monitor_error list \<times> monitor_alert list \<times> cron_state
     \<Rightarrow> monitor_error list \<times> monitor_alert list \<times> cron_state" where
  "missed_step lib rid now m acc =
     (let (errs, alerts, cs) = acc
      in case monitorMissed lib (rid m) now m cs of
           (Inl e, cs') \<Rightarrow> (errs @ [e], alerts, cs')
         | (Inr al, cs') \<Rightarrow> (errs, alerts @ al, cs'))"

definition CheckMonitors ::
  "'c cron_lib \<Rightarrow> (monitor \<Rightarrow> id_text) \<Rightarrow> time \<Rightarrow> cron_state
     \<Rightarrow> monitor_error list \<times> monitor_alert list \<times> cron_state" where
  "CheckMonitors lib rid now cs =
     (let (errs, alerts, cs1) = fold (missed_step lib rid now) (DueMonitors now (cs_monitors cs)) ([], [], cs)
      in fold (\<lambda>c (errs, alerts, cs). let (al, cs') = monitorTimeout now c cs in (errs, alerts @ al, cs'))
           (TimedOutCheckIns now (cs_monitors cs1) (cs_checkins cs1)) (errs, alerts, cs1))"

section \<open>Sequences of outcomes\<close>

text \<open>
  The outcomes of a monitor over time, each with the thresholds in force then (a re-upload may change
  them), and the crossings they cause: \<open>True\<close> for failed, \<open>False\<close> for recovered.
\<close>

type_synonym outcome = "int \<times> int \<times> bool"

fun outcomes :: "int \<Rightarrow> int \<Rightarrow> bool \<Rightarrow> outcome list \<Rightarrow> transition list" where
  "outcomes f s a [] = []"
| "outcomes f s a ((ft, rt, ok) # os) =
     (let tr = Record f s a ft rt ok
      in tr # outcomes (tr_failures tr) (tr_successes tr) (tr_alerting tr) os)"

definition crossings :: "transition list \<Rightarrow> bool list" where
  "crossings trs = concat (map (\<lambda>tr. if tr_failed tr then [True] else if tr_recovered tr then [False] else []) trs)"

fun alternates :: "bool \<Rightarrow> bool list \<Rightarrow> bool" where
  "alternates a [] = True"
| "alternates a (x # xs) = (x = (\<not> a) \<and> alternates x xs)"

lemma Record_cases:
  "tr_alerting (Record f s a ft rt ok) = (if tr_failed (Record f s a ft rt ok) then True
     else if tr_recovered (Record f s a ft rt ok) then False else a)"
  "tr_failed (Record f s a ft rt ok) \<Longrightarrow> \<not> a"
  "tr_recovered (Record f s a ft rt ok) \<Longrightarrow> a"
  by (auto simp: Record_def Let_def split: if_splits)

lemma outcomes_alternate: "alternates a (crossings (outcomes f s a os))"
proof (induction f s a os rule: outcomes.induct)
  case (2 f s a ft rt ok os)
  let ?tr = "Record f s a ft rt ok"
  have IH: "alternates (tr_alerting ?tr)
      (crossings (outcomes (tr_failures ?tr) (tr_successes ?tr) (tr_alerting ?tr) os))"
    by (rule 2 [OF refl])
  have step: "crossings (outcomes f s a ((ft, rt, ok) # os)) =
      (if tr_failed ?tr then [True] else if tr_recovered ?tr then [False] else [])
        @ crossings (outcomes (tr_failures ?tr) (tr_successes ?tr) (tr_alerting ?tr) os)"
    by (simp add: crossings_def Let_def)
  show ?case using IH Record_cases [of f s a ft rt ok] unfolding step by auto
qed (simp add: crossings_def)

text \<open>For a fresh monitor: the last transition, and whether it is alerting.\<close>

definition last_transition :: "outcome list \<Rightarrow> transition" where
  "last_transition os = last (outcomes 0 0 False os)"

definition alerting_after :: "outcome list \<Rightarrow> bool" where
  "alerting_after os \<longleftrightarrow> os \<noteq> [] \<and> tr_alerting (last_transition os)"

text \<open>The length of the run of equal results a history ends with.\<close>

definition trailing :: "bool \<Rightarrow> outcome list \<Rightarrow> nat" where
  "trailing b os = length (takeWhile (\<lambda>x. x = b) (rev (map (snd \<circ> snd) os)))"

lemma trailing_snoc: "trailing b (os @ [(ft, rt, ok)]) = (if ok = b then Suc (trailing b os) else 0)"
  by (simp add: trailing_def)

lemma trailing_le: "trailing b os \<le> length os"
  unfolding trailing_def by (metis length_map length_rev length_takeWhile_le)

lemma outcomes_append:
  "outcomes f s a (os @ os') = outcomes f s a os @
     (if os = [] then outcomes f s a os'
      else let l = last (outcomes f s a os) in outcomes (tr_failures l) (tr_successes l) (tr_alerting l) os')"
proof (induction f s a os rule: outcomes.induct)
  case (2 f s a ft rt ok os)
  then show ?case by (cases os) (auto simp: Let_def)
qed simp

lemma length_outcomes [simp]: "length (outcomes f s a os) = length os"
  by (induction f s a os rule: outcomes.induct) (auto simp: Let_def)

lemma Record_counts:
  "tr_failures (Record f s a ft rt ok) = (if ok then 0 else wrap32 (f + 1))"
  "tr_successes (Record f s a ft rt ok) = (if ok then wrap32 (s + 1) else 0)"
  by (simp_all add: Record_def Let_def)

lemma outcomes_last:
  "outcomes f s a (os @ [(ft, rt, ok)]) =
     outcomes f s a os @ [let l = last (outcomes f s a os) in
       if os = [] then Record f s a ft rt ok
       else Record (tr_failures l) (tr_successes l) (tr_alerting l) ft rt ok]"
  by (cases "os = []") (simp_all add: outcomes_append Let_def)

lemma last_counts:
  "os \<noteq> [] \<Longrightarrow> length os < 2 ^ 31 \<Longrightarrow>
     tr_failures (last (outcomes 0 0 False os)) = int (trailing False os)
     \<and> tr_successes (last (outcomes 0 0 False os)) = int (trailing True os)"
proof (induction os rule: rev_induct)
  case (snoc x os)
  obtain ft rt ok where x: "x = (ft, rt, ok)" using prod_cases3 by blast
  have lt: "int (trailing b os) + 1 < 2 ^ 31" for b
    using trailing_le [of b os] snoc.prems(2) by simp
  show ?case
  proof (cases "os = []")
    case True
    then show ?thesis by (simp add: x Let_def Record_counts trailing_def)
  next
    case False
    with snoc have "tr_failures (last (outcomes 0 0 False os)) = int (trailing False os)"
      and "tr_successes (last (outcomes 0 0 False os)) = int (trailing True os)" by simp_all
    then show ?thesis using False lt [of False] lt [of True]
      by (simp add: x outcomes_last Record_counts trailing_snoc Let_def)
  qed
qed simp

section \<open>Schedules that move forward\<close>

text \<open>
  What the catch-up loop needs of a schedule: the next time is at least \<open>d\<close> later.
\<close>

locale forward_schedule =
  fixes step :: "time \<Rightarrow> time" and d :: duration
  assumes forward: "0 < d \<Longrightarrow> t + d \<le> step t"
begin

lemma advance_forward: "0 < d \<Longrightarrow> now < advance step n now t \<or> t + int n * d \<le> advance step n now t"
proof (induction n arbitrary: t)
  case (Suc n)
  show ?case
  proof (cases "now < t")
    case False
    with Suc.IH [OF Suc.prems, of "step t"] forward [OF Suc.prems, of t] show ?thesis
      by (simp add: algebra_simps) linarith
  qed simp
qed simp

lemma advance_never_back: "0 < d \<Longrightarrow> t \<le> advance step n now t"
proof (induction n arbitrary: t)
  case (Suc n)
  from forward [OF Suc.prems, of t] Suc.prems have "t \<le> step t" by linarith
  with Suc.IH [OF Suc.prems, of "step t"] show ?case by simp
qed simp

end

interpretation interval_forward: forward_schedule
  "\<lambda>t. next_time lib tz (IntervalSchedule d) t + int margin" d for lib tz d margin
  by unfold_locales simp

lemma monitor_interval_forward:
  assumes "monitor_schedule lib m = Inr (IntervalSchedule d)" and "0 \<le> margin_of m" and "0 < d"
  shows "now < advance (next_expected lib m (IntervalSchedule d)) n now t
    \<or> t + int n * d \<le> advance (next_expected lib m (IntervalSchedule d)) n now t"
proof -
  obtain k where "margin_of m = int k" using assms(2) nonneg_int_cases by blast
  then have "next_expected lib m (IntervalSchedule d) =
      (\<lambda>t. next_time lib (monitor_zone lib m) (IntervalSchedule d) t + int k)"
    by (simp add: next_expected_def [abs_def])
  then show ?thesis by (simp only:) (rule interval_forward.advance_forward [OF assms(3)])
qed

lemma monitor_interval_never_back:
  assumes "monitor_schedule lib m = Inr (IntervalSchedule d)" and "0 \<le> margin_of m" and "0 < d"
  shows "t \<le> advance (next_expected lib m (IntervalSchedule d)) n now t"
proof -
  obtain k where "margin_of m = int k" using assms(2) nonneg_int_cases by blast
  then have "next_expected lib m (IntervalSchedule d) =
      (\<lambda>t. next_time lib (monitor_zone lib m) (IntervalSchedule d) t + int k)"
    by (simp add: next_expected_def [abs_def])
  then show ?thesis by (simp only:) (rule interval_forward.advance_never_back [OF assms(3)])
qed

section \<open>The table's contract\<close>

interpretation monitor_table: keyed_table monitor_key merge_monitor
  by unfold_locales (simp add: merge_monitor_def)

lemma UpsertMonitor_row:
  "GetMonitor (snd (UpsertMonitor now p t)) (um_project p) (um_slug p) = Some (fst (UpsertMonitor now p t))"
proof -
  have "monitor_key (excluded_monitor now p) = (um_project p, um_slug p)" by (simp add: excluded_monitor_def)
  with monitor_table.lookup_upsert_same [of "excluded_monitor now p" t] show ?thesis
    by (simp add: UpsertMonitor_def GetMonitor_def split: option.split)
qed

lemma RecordMonitorResult_row:
  "GetMonitor (RecordMonitorResult p t) (mr_project p) (mr_slug p) =
     map_option (\<lambda>m. m\<lparr>mo_last_status := Some (mr_last_status p), mo_failures := mr_failures p,
              mo_successes := mr_successes p, mo_alerting := mr_alerting p,
              mo_next_expected_at := Some (mr_next_expected_at p),
              mo_last_checkin_at := Some (mr_last_checkin_at p)\<rparr>) (GetMonitor t (mr_project p) (mr_slug p))"
  unfolding RecordMonitorResult_def GetMonitor_def by (subst lookup_update_key) simp_all

definition alerting_at :: "monitors \<Rightarrow> project_id \<Rightarrow> string \<Rightarrow> bool" where
  "alerting_at t pid slug = (case GetMonitor t pid slug of None \<Rightarrow> False | Some m \<Rightarrow> mo_alerting m)"

text \<open>The alerts a change of the flag stands for.\<close>

definition edge_alerts :: "bool \<Rightarrow> bool \<Rightarrow> project_id \<Rightarrow> string \<Rightarrow> monitor_alert list" where
  "edge_alerts before after pid slug =
     (if \<not> before \<and> after then [(AlertTypeMonitorFailed, pid, slug)]
      else if before \<and> \<not> after then [(AlertTypeMonitorRecovered, pid, slug)] else [])"

lemma GetMonitor_key: "GetMonitor t pid slug = Some m \<Longrightarrow> mo_project m = pid \<and> mo_slug m = slug"
  unfolding GetMonitor_def by (drule lookup_by_Some) simp

lemma record_outcome_edge:
  assumes "GetMonitor t pid slug = Some m" and "record_outcome m st next_at now t = (t', alerts)"
  shows "alerts = edge_alerts (mo_alerting m) (alerting_at t' pid slug) pid slug"
proof -
  note key = GetMonitor_key [OF assms(1)]
  let ?tr = "Record (mo_failures m) (mo_successes m) (mo_alerting m) (mo_failure_threshold m)
    (mo_recovery_threshold m) (st = CheckinStatusOk)"
  have al: "alerts = transition_alerts ?tr m" and t': "GetMonitor t' pid slug =
      Some (m\<lparr>mo_last_status := Some st, mo_failures := tr_failures ?tr, mo_successes := tr_successes ?tr,
              mo_alerting := tr_alerting ?tr, mo_next_expected_at := Some next_at,
              mo_last_checkin_at := Some now\<rparr>)"
    using assms key RecordMonitorResult_row [of "\<lparr>mr_project = mo_project m, mr_slug = mo_slug m,
        mr_last_status = st, mr_failures = tr_failures ?tr, mr_successes = tr_successes ?tr,
        mr_alerting = tr_alerting ?tr, mr_next_expected_at = next_at, mr_last_checkin_at = now\<rparr>" t]
    by (auto simp: record_outcome_def Let_def)
  from t' have "alerting_at t' pid slug = tr_alerting ?tr" by (simp add: alerting_at_def)
  with al key Record_cases [of "mo_failures m" "mo_successes m" "mo_alerting m" "mo_failure_threshold m"
      "mo_recovery_threshold m" "st = CheckinStatusOk"]
  show ?thesis by (auto simp: transition_alerts_def edge_alerts_def)
qed

lemma UpsertMonitor_alerting:
  "alerting_at (snd (UpsertMonitor now p t)) (um_project p) (um_slug p) = alerting_at t (um_project p) (um_slug p)"
  unfolding alerting_at_def UpsertMonitor_row
  by (simp add: UpsertMonitor_def excluded_monitor_def merge_monitor_def split: option.split)

section \<open>Properties\<close>

text \<open>
  C25. Monitor alerts are one-shot edges: whatever outcomes arrive, and however the thresholds change
  in between, \<open>failed\<close> and \<open>recovered\<close> alternate, beginning with \<open>failed\<close> for a monitor that is
  not alerting.
\<close>

theorem crossings_alternate: "alternates alerting (crossings (outcomes f s alerting os))"
  by (rule outcomes_alternate)

text \<open>
  C22. A monitor that starts fresh fails exactly at the outcome that completes a run of
  \<open>failure_threshold\<close> failures while it is not alerting, and recovers exactly at the one that
  completes a run of \<open>recovery_threshold\<close> successes while it is (fewer than 2 ^ 31 outcomes, the
  range of the counters).
\<close>

theorem thresholds_count_runs:
  assumes "length os < 2 ^ 31 - 1"
  shows "(tr_failed (last_transition (os @ [(ft, rt, ok)])) \<longleftrightarrow>
            \<not> alerting_after os \<and> ft \<le> int (trailing False (os @ [(ft, rt, ok)])))
    \<and> (tr_recovered (last_transition (os @ [(ft, rt, ok)])) \<longleftrightarrow>
            alerting_after os \<and> rt \<le> int (trailing True (os @ [(ft, rt, ok)])))"
proof -
  let ?tr = "last_transition (os @ [(ft, rt, ok)])"
  have counts: "tr_failures ?tr = int (trailing False (os @ [(ft, rt, ok)]))
      \<and> tr_successes ?tr = int (trailing True (os @ [(ft, rt, ok)]))"
    unfolding last_transition_def by (rule last_counts) (use assms(1) in simp_all)
  have tr: "?tr = Record (if os = [] then 0 else tr_failures (last_transition os))
      (if os = [] then 0 else tr_successes (last_transition os)) (alerting_after os) ft rt ok"
    by (simp add: last_transition_def alerting_after_def outcomes_last Let_def)
  have "tr_failed ?tr \<longleftrightarrow> \<not> alerting_after os \<and> ft \<le> tr_failures ?tr"
    and "tr_recovered ?tr \<longleftrightarrow> alerting_after os \<and> rt \<le> tr_successes ?tr"
    unfolding tr by (auto simp: Record_def Let_def)
  with counts show ?thesis by simp
qed

lemma thresholds_count_runs_witness:
  "tr_failed (last_transition ([(2, 1, True), (2, 1, False)] @ [(2, 1, False)]))"
  using thresholds_count_runs [of "[(2, 1, True), (2, 1, False)]" 2 1 False]
  by (simp add: trailing_def alerting_after_def last_transition_def Record_def)

text \<open>
  C29. Recording a check-in of an envelope alerts exactly when the monitor's stored \<open>alerting\<close> flag
  changes, with the type of the change; a check-in for an unknown monitor without a configuration
  changes nothing; uploading a configuration never touches the flag.
\<close>

theorem ingest_check_in_alerts:
  assumes "ingest_check_in lib now pid ci cs = Inr (cs', alerts, n, k)"
  shows "alerts = edge_alerts (alerting_at (cs_monitors cs) pid (ci_slug ci))
                    (alerting_at (cs_monitors cs') pid (ci_slug ci)) pid (ci_slug ci)"
proof -
  obtain mon ms up where pre: "(case ci_config ci of
           Some c \<Rightarrow> (let (m, t) = UpsertMonitor now (config_params pid (ci_slug ci) c) (cs_monitors cs)
                      in (Some m, t, 1))
         | None \<Rightarrow> (GetMonitor (cs_monitors cs) pid (ci_slug ci), cs_monitors cs, 0)) = (mon, ms, up :: nat)"
    using prod_cases3 by blast
  have mon: "GetMonitor ms pid (ci_slug ci) = mon"
    and same: "alerting_at ms pid (ci_slug ci) = alerting_at (cs_monitors cs) pid (ci_slug ci)"
    using pre UpsertMonitor_row [of now "config_params pid (ci_slug ci) (the (ci_config ci))" "cs_monitors cs"]
      UpsertMonitor_alerting [of now "config_params pid (ci_slug ci) (the (ci_config ci))" "cs_monitors cs"]
    by (auto simp: config_params_def split: option.splits prod.splits)
  show ?thesis
  proof (cases mon)
    case None
    with assms pre show ?thesis by (simp add: ingest_check_in_def edge_alerts_def)
  next
    case (Some m)
    with same mon have am: "alerting_at (cs_monitors cs) pid (ci_slug ci) = mo_alerting m"
      by (simp add: alerting_at_def)
    show ?thesis
    proof (cases "ci_status ci = ''ok'' \<or> ci_status ci = ''error''")
      case False
      with assms pre Some have "cs_monitors cs' = ms" "alerts = []"
        by (auto simp: ingest_check_in_def split: option.splits prod.splits)
      with same show ?thesis by (simp add: edge_alerts_def)
    next
      case True
      with assms pre Some obtain st s where "record_outcome m st (next_expected lib m s now) now ms
          = (cs_monitors cs', alerts)"
        by (auto simp: ingest_check_in_def split: option.splits prod.splits sum.splits)
      with record_outcome_edge [of ms pid "ci_slug ci" m] mon Some am show ?thesis by simp
    qed
  qed
qed

definition example_lib :: "unit cron_lib" where
  "example_lib = \<lparr>cron_parse = (\<lambda>s. None), cron_next = (\<lambda>s tz t. t + minute), tz_known = (\<lambda>z. True)\<rparr>"

definition example_check_in :: check_in where
  "example_check_in = \<lparr>ci_id = replicate 32 (CHR ''a''), ci_slug = ''job'', ci_status = ''error'',
     ci_duration = None, ci_release = [], ci_environment = [],
     ci_config = Some \<lparr>mc_schedule_type = ''interval'', mc_schedule_value = ''5'',
       mc_schedule_unit = ''minute'', mc_timezone = ''UTC'', mc_checkin_margin_min = 1,
       mc_max_runtime_min = 30, mc_failure_threshold = 2, mc_recovery_threshold = 1\<rparr>\<rparr>"

lemma ingest_check_in_alerts_witness:
  "\<exists>cs' alerts n k. ingest_check_in example_lib 1000 1 example_check_in \<lparr>cs_monitors = [], cs_checkins = []\<rparr>
      = Inr (cs', alerts, n, k)
    \<and> alerts = edge_alerts (alerting_at [] 1 ''job'') (alerting_at (cs_monitors cs') 1 ''job'') 1 ''job''"
proof -
  let ?r = "ingest_check_in example_lib 1000 1 example_check_in \<lparr>cs_monitors = [], cs_checkins = []\<rparr>"
  have "\<not> isl ?r" by code_simp
  then obtain cs' alerts n k where r: "?r = Inr (cs', alerts, n, k)" by (cases ?r) auto
  have "alerts = edge_alerts (alerting_at [] 1 ''job'') (alerting_at (cs_monitors cs') 1 ''job'') 1 ''job''"
    using ingest_check_in_alerts [OF r] by (simp add: example_check_in_def)
  with r show ?thesis by blast
qed

text \<open>
  The same terminal check-in delivered twice (an envelope sent again) counts twice: with a threshold
  of two, one failed run resent is reported as two failures.
\<close>

lemma resent_check_in_counts_twice:
  "(case ingest_check_in example_lib 1000 1 example_check_in \<lparr>cs_monitors = [], cs_checkins = []\<rparr> of
      Inl e \<Rightarrow> []
    | Inr (cs, _) \<Rightarrow> (case ingest_check_in example_lib 2000 1 example_check_in cs of
        Inl e \<Rightarrow> [] | Inr (cs', alerts, _) \<Rightarrow> alerts))
   = [(AlertTypeMonitorFailed, 1, ''job'')]"
  by code_simp

text \<open>
  A miss moves the monitor on: with an interval schedule the next expected time lies after now,
  or at least ten thousand intervals after the old one; it never goes back, the counters advance by
  one failure, and the missed run is in the history.
\<close>

theorem monitorMissed_moves_on:
  assumes "monitor_schedule lib m = Inr (IntervalSchedule d)" and "0 < d" and "0 \<le> margin_of m"
    and "mo_next_expected_at m = Some t0"
    and "GetMonitor (cs_monitors cs) (mo_project m) (mo_slug m) = Some m"
    and "monitorMissed lib rid now m cs = (Inr alerts, cs')"
  shows "\<exists>m' t1. GetMonitor (cs_monitors cs') (mo_project m) (mo_slug m) = Some m'
    \<and> mo_next_expected_at m' = Some t1 \<and> t0 \<le> t1 \<and> (now < t1 \<or> t0 + 10000 * d \<le> t1)
    \<and> mo_failures m' = wrap32 (mo_failures m + 1) \<and> mo_successes m' = 0
    \<and> alerts = edge_alerts (mo_alerting m) (mo_alerting m') (mo_project m) (mo_slug m)
    \<and> (\<exists>c \<in> set (cs_checkins cs'). ck_id c = rid \<and> ck_status c = CheckinStatusMissed \<and> ck_started_at c = now)"
proof -
  let ?next = "advance (next_expected lib m (IntervalSchedule d)) 10000 now t0"
  let ?tr = "Record (mo_failures m) (mo_successes m) (mo_alerting m) (mo_failure_threshold m)
    (mo_recovery_threshold m) False"
  obtain ms where ro: "record_outcome m CheckinStatusMissed ?next now (cs_monitors cs) = (ms, alerts)"
    and cs': "cs_monitors cs' = ms"
    and row: "\<exists>c \<in> set (cs_checkins cs'). ck_id c = rid \<and> ck_status c = CheckinStatusMissed \<and> ck_started_at c = now"
    using assms(1,4,6)
    by (auto simp: monitorMissed_def Let_def InsertCheckIn_def split: option.splits prod.splits if_splits)
  let ?m' = "m\<lparr>mo_last_status := Some CheckinStatusMissed, mo_failures := tr_failures ?tr,
      mo_successes := tr_successes ?tr, mo_alerting := tr_alerting ?tr, mo_next_expected_at := Some ?next,
      mo_last_checkin_at := Some now\<rparr>"
  have m': "GetMonitor ms (mo_project m) (mo_slug m) = Some ?m'"
    using ro assms(5) RecordMonitorResult_row [of "\<lparr>mr_project = mo_project m, mr_slug = mo_slug m,
        mr_last_status = CheckinStatusMissed, mr_failures = tr_failures ?tr, mr_successes = tr_successes ?tr,
        mr_alerting = tr_alerting ?tr, mr_next_expected_at = ?next, mr_last_checkin_at = now\<rparr>" "cs_monitors cs"]
    by (auto simp: record_outcome_def Let_def)
  have al: "alerts = edge_alerts (mo_alerting m) (tr_alerting ?tr) (mo_project m) (mo_slug m)"
    using record_outcome_edge [OF assms(5) ro] m' by (simp add: alerting_at_def)
  have fwd: "now < ?next \<or> t0 + 10000 * d \<le> ?next"
    using monitor_interval_forward [OF assms(1,3,2), of now 10000 t0] by simp
  have "t0 \<le> ?next" by (rule monitor_interval_never_back [OF assms(1,3,2)])
  with fwd m' al row cs' show ?thesis
    by (intro exI [of _ ?m'] exI [of _ ?next]) (simp add: Record_counts)
qed

definition overdue_monitor :: monitor where
  "overdue_monitor = (excluded_monitor 0 (config_params 1 ''job'' (the (ci_config example_check_in))))
     \<lparr>mo_next_expected_at := Some 60\<rparr>"

lemma monitorMissed_moves_on_witness:
  "\<exists>m'. GetMonitor (cs_monitors (snd (monitorMissed example_lib ''ab'' 100 overdue_monitor
      \<lparr>cs_monitors = [overdue_monitor], cs_checkins = []\<rparr>))) 1 ''job'' = Some m' \<and> mo_failures m' = 1"
proof -
  let ?cs = "\<lparr>cs_monitors = [overdue_monitor], cs_checkins = []\<rparr>"
  let ?r = "monitorMissed example_lib ''ab'' 100 overdue_monitor ?cs"
  have s: "monitor_schedule example_lib overdue_monitor = Inr (IntervalSchedule (5 * minute))" by code_simp
  have g: "0 \<le> margin_of overdue_monitor" "mo_next_expected_at overdue_monitor = Some 60"
    "mo_project overdue_monitor = 1" "mo_slug overdue_monitor = ''job''" "mo_failures overdue_monitor = 0"
    by code_simp+
  then have gm: "GetMonitor (cs_monitors ?cs) (mo_project overdue_monitor) (mo_slug overdue_monitor) = Some overdue_monitor"
    by (simp add: GetMonitor_def lookup_by_def)
  obtain alerts where "?r = (Inr alerts, snd ?r)"
    using s g by (auto simp: monitorMissed_def InsertCheckIn_def Let_def record_outcome_def)
  from monitorMissed_moves_on [OF s _ g(1,2) gm this] g show ?thesis by auto
qed

text \<open>
  An interval schedule is the exact multiple of its unit as long as that fits 64 bits of
  nanoseconds. Nothing bounds the count, though: 20,000 weeks are accepted and wrap around to a
  schedule that runs backwards.
\<close>

theorem ParseSchedule_interval:
  assumes "atoi val = Some n" and "0 < n" and "IntervalUnits unit = Some d" and "d * n < 2 ^ 63"
  shows "ParseSchedule lib ''interval'' val unit = Inr (IntervalSchedule (d * n)) \<and> 0 < d * n
    \<and> ParseSchedule lib ''interval'' ''20000'' ''week'' = Inr (IntervalSchedule (- 6350744073709551616))"
proof -
  have "0 < d" using assms(3) by (auto simp: IntervalUnits_def split: if_splits)
  with assms(2) have "0 < d * n" by simp
  have "wrap64 (d * n) = d * n" by (rule wrap64_id) (use \<open>0 < d * n\<close> assms(4) in linarith)+
  moreover have "\<not> n \<le> 0" using assms(2) by simp
  ultimately have ok: "ParseSchedule lib ''interval'' val unit = Inr (IntervalSchedule (d * n))"
    unfolding ParseSchedule_def using assms(1,3) by (simp only: option.case if_False if_True refl) simp
  moreover have "atoi ''20000'' = Some 20000" by (simp add: atoi_def digit_val_def nat_of_digits_def)
  moreover have "IntervalUnits ''week'' = Some week" by (simp add: IntervalUnits_def)
  moreover have "wrap64 (week * 20000) = - 6350744073709551616" by (simp add: wrap64_def)
  ultimately have "ParseSchedule lib ''interval'' ''20000'' ''week'' = Inr (IntervalSchedule (- 6350744073709551616))"
    by (simp add: ParseSchedule_def)
  with ok \<open>0 < d * n\<close> show ?thesis by blast
qed

lemma ParseSchedule_interval_witness:
  "ParseSchedule example_lib ''interval'' ''5'' ''minute'' = Inr (IntervalSchedule (minute * 5))"
proof -
  have "atoi ''5'' = Some 5" by code_simp
  from ParseSchedule_interval [OF this, of "''minute''" minute example_lib] show ?thesis
    by (simp add: IntervalUnits_def)
qed

end
