(* ===== verification/SideTables.thy ===== *)
theory SideTables
  imports Enums Ids
begin

text \<open>
  The smaller tables an envelope, an upload or a login writes, with their statements:
  \<open>internal/store/releases.go\<close>, \<open>client_reports.go\<close>, \<open>user_reports.go\<close>, \<open>attachments.go\<close>, \<open>chunks.go\<close>
  and \<open>symbols.go\<close>. The constraints the statements can violate (\<open>migrations/00001_baseline.sql\<close>) are
  part of the model: a violation is \<open>None\<close>, and the caller's transaction is rolled back.
\<close>

section \<open>Multi-row upserts\<close>

text \<open>
  One \<open>INSERT ... SELECT unnest(...) ON CONFLICT DO UPDATE\<close> statement. A row that conflicts with one
  this statement wrote is an error (the command cannot affect a row a second time). \<open>merge old x\<close> is
  \<open>None\<close> when the new row violates a constraint, \<open>Some None\<close> when the WHERE clause skips the update.
\<close>

fun upsert_rows ::
  "('r \<Rightarrow> 'k) \<Rightarrow> ('r \<Rightarrow> 'r \<Rightarrow> 'r option option) \<Rightarrow> 'k list \<Rightarrow> 'r list \<Rightarrow> 'r list \<Rightarrow> 'r list option" where
  "upsert_rows key merge written [] t = Some t"
| "upsert_rows key merge written (x # xs) t =
     (case lookup_by key (key x) t of
        None \<Rightarrow> upsert_rows key merge (key x # written) xs (t @ [x])
      | Some old \<Rightarrow>
          if key x \<in> set written then None
          else (case merge old x of
                  None \<Rightarrow> None
                | Some None \<Rightarrow> upsert_rows key merge written xs t
                | Some (Some new) \<Rightarrow>
                    upsert_rows key merge (key x # written) xs (update_where (\<lambda>r. key r = key x) (\<lambda>r. new) t)))"

section \<open>Releases\<close>

record release_row =
  rl_project :: project_id
  rl_release :: string
  rl_platforms :: "string list"
  rl_first_seen :: time

abbreviation release_key :: "release_row \<Rightarrow> project_id \<times> string" where
  "release_key r \<equiv> (rl_project r, rl_release r)"

text \<open>\<open>array_agg(DISTINCT x ORDER BY x)\<close>: NULL over no rows, not the empty array.\<close>

definition array_agg_distinct :: "string list \<Rightarrow> string list option" where
  "array_agg_distinct xs = (if xs = [] then None else Some (sort (remdups xs)))"

definition excluded_release :: "project_id \<Rightarrow> string \<times> string \<times> time \<Rightarrow> release_row" where
  "excluded_release pid u =
     (case u of (r, p, t) \<Rightarrow>
        \<lparr>rl_project = pid, rl_release = r, rl_platforms = (if p = [] then [] else [p]), rl_first_seen = t\<rparr>)"

text \<open>The conflict update, only when it would change something; \<open>platforms\<close> is NOT NULL.\<close>

definition merge_release :: "release_row \<Rightarrow> release_row \<Rightarrow> release_row option option" where
  "merge_release r x =
     (if \<not> set (rl_platforms x) \<subseteq> set (rl_platforms r) \<or> rl_first_seen x < rl_first_seen r
      then map_option (\<lambda>ps. Some (r\<lparr>rl_platforms := ps, rl_first_seen := min (rl_first_seen r) (rl_first_seen x)\<rparr>))
             (array_agg_distinct (rl_platforms r @ rl_platforms x))
      else Some None)"

definition UpsertReleases :: "project_id \<Rightarrow> (string \<times> string \<times> time) list \<Rightarrow> release_row list \<Rightarrow> release_row list option" where
  "UpsertReleases pid us t = upsert_rows release_key merge_release [] (map (excluded_release pid) us) t"

definition ListReleases :: "project_id \<Rightarrow> nat \<Rightarrow> release_row list \<Rightarrow> release_row list" where
  "ListReleases pid limit t =
     take limit (rev (sort_key rl_first_seen (sort_key rl_release (filter (\<lambda>r. rl_project r = pid) t))))"

section \<open>Client reports\<close>

record report_count =
  rc_project :: project_id
  rc_bucket :: time
  rc_reason :: string
  rc_category :: string
  rc_quantity :: int

abbreviation report_key :: "report_count \<Rightarrow> project_id \<times> time \<times> string \<times> string" where
  "report_key r \<equiv> (rc_project r, rc_bucket r, rc_reason r, rc_category r)"

text \<open>A BIGINT sum out of range is an error of the statement.\<close>

definition merge_report :: "report_count \<Rightarrow> report_count \<Rightarrow> report_count option option" where
  "merge_report r x =
     (if rc_quantity r + rc_quantity x < 2 ^ 63 then Some (Some (r\<lparr>rc_quantity := rc_quantity r + rc_quantity x\<rparr>)) else None)"

definition UpsertClientReportCounts ::
  "project_id \<Rightarrow> time \<Rightarrow> (string \<times> string \<times> int) list \<Rightarrow> report_count list \<Rightarrow> report_count list option" where
  "UpsertClientReportCounts pid bucket cs t =
     upsert_rows report_key merge_report []
       (map (\<lambda>(r, c, q). \<lparr>rc_project = pid, rc_bucket = bucket, rc_reason = r, rc_category = c, rc_quantity = q\<rparr>) cs) t"

definition report_sum :: "project_id \<Rightarrow> time \<Rightarrow> time \<Rightarrow> report_count list \<Rightarrow> string \<times> string \<Rightarrow> int" where
  "report_sum pid from_t to_t t k =
     sum_list (map rc_quantity (filter (\<lambda>r. rc_project r = pid \<and> from_t \<le> rc_bucket r \<and> rc_bucket r < to_t
       \<and> (rc_reason r, rc_category r) = k) t))"

definition ListClientReportCounts ::
  "project_id \<Rightarrow> time \<Rightarrow> time \<Rightarrow> report_count list \<Rightarrow> (string \<times> string \<times> int) list" where
  "ListClientReportCounts pid from_t to_t t =
     (let hit = filter (\<lambda>r. rc_project r = pid \<and> from_t \<le> rc_bucket r \<and> rc_bucket r < to_t) t;
          ks = remdups (map (\<lambda>r. (rc_reason r, rc_category r)) hit)
      in sort_key (\<lambda>(r, c, q). - q) (sort_key (\<lambda>(r, c, q). r) (sort_key (\<lambda>(r, c, q). c)
           (map (\<lambda>k. (fst k, snd k, report_sum pid from_t to_t t k)) ks))))"

section \<open>User reports\<close>

record user_report_row =
  up_project :: project_id
  up_event_id :: id_text
  up_received_at :: time
  up_name :: "string option"
  up_email :: "string option"
  up_comments :: string

abbreviation user_report_key :: "user_report_row \<Rightarrow> project_id \<times> id_text" where
  "user_report_key r \<equiv> (up_project r, up_event_id r)"

definition merge_user_report :: "user_report_row \<Rightarrow> user_report_row \<Rightarrow> user_report_row" where
  "merge_user_report r x = r\<lparr>up_name := up_name x, up_email := up_email x, up_comments := up_comments x\<rparr>"

definition UpsertUserReport ::
  "time \<Rightarrow> project_id \<Rightarrow> id_text \<Rightarrow> string option \<Rightarrow> string option \<Rightarrow> string \<Rightarrow> user_report_row list \<Rightarrow> user_report_row list" where
  "UpsertUserReport now pid eid name email comments =
     upsert user_report_key merge_user_report
       \<lparr>up_project = pid, up_event_id = eid, up_received_at = now, up_name = name, up_email = email, up_comments = comments\<rparr>"

definition GetUserReport :: "user_report_row list \<Rightarrow> project_id \<Rightarrow> id_text \<Rightarrow> user_report_row option" where
  "GetUserReport t pid eid = lookup_by user_report_key (pid, eid) t"

definition ListUserReports :: "project_id \<Rightarrow> nat \<Rightarrow> nat \<Rightarrow> user_report_row list \<Rightarrow> user_report_row list" where
  "ListUserReports pid limit skip t =
     take limit (drop skip (rev (sort_key up_received_at (sort_key up_event_id (filter (\<lambda>r. up_project r = pid) t)))))"

definition CountUserReports :: "project_id \<Rightarrow> user_report_row list \<Rightarrow> nat" where
  "CountUserReports pid t = length (filter (\<lambda>r. up_project r = pid) t)"

definition SweepUserReports :: "time \<Rightarrow> user_report_row list \<Rightarrow> nat \<times> user_report_row list" where
  "SweepUserReports before t =
     (length (filter (\<lambda>r. up_received_at r < before) t), delete_where (\<lambda>r. up_received_at r < before) t)"

section \<open>Attachments\<close>

record attachment_row =
  ar_occurred_at :: time
  ar_project :: project_id
  ar_event_id :: id_text
  ar_n :: int
  ar_filename :: string
  ar_content_type :: string
  ar_type :: string
  ar_size :: int
  ar_data :: string

abbreviation attachment_key :: "attachment_row \<Rightarrow> project_id \<times> id_text \<times> time \<times> int" where
  "attachment_key r \<equiv> (ar_project r, ar_event_id r, ar_occurred_at r, ar_n r)"

text \<open>\<open>insertAttachmentSQL\<close> computes the size from the bytes.\<close>

definition attachment_row_of ::
  "time \<Rightarrow> project_id \<Rightarrow> id_text \<Rightarrow> int \<Rightarrow> string \<Rightarrow> string \<Rightarrow> string \<Rightarrow> string \<Rightarrow> attachment_row" where
  "attachment_row_of at pid eid n filename ctype atype data =
     \<lparr>ar_occurred_at = at, ar_project = pid, ar_event_id = eid, ar_n = n, ar_filename = filename,
      ar_content_type = ctype, ar_type = atype, ar_size = int (length data), ar_data = data\<rparr>"

definition InsertAttachments :: "attachment_row list \<Rightarrow> attachment_row list \<Rightarrow> attachment_row list" where
  "InsertAttachments rows t = fold (insert_nothing attachment_key) rows t"

definition ListAttachments :: "attachment_row list \<Rightarrow> project_id \<Rightarrow> id_text \<Rightarrow> time \<Rightarrow> attachment_row list" where
  "ListAttachments t pid eid at =
     sort_key ar_n (filter (\<lambda>r. ar_project r = pid \<and> ar_event_id r = eid \<and> ar_occurred_at r = at) t)"

definition GetAttachment :: "attachment_row list \<Rightarrow> project_id \<Rightarrow> id_text \<Rightarrow> time \<Rightarrow> int \<Rightarrow> attachment_row option" where
  "GetAttachment t pid eid at n = lookup_by attachment_key (pid, eid, at, n) t"

section \<open>Upload chunks\<close>

record chunk =
  cu_sha1 :: string
  cu_data :: string
  cu_created_at :: time

definition PutUploadChunk :: "time \<Rightarrow> string \<Rightarrow> string \<Rightarrow> chunk list \<Rightarrow> chunk list" where
  "PutUploadChunk now sha1 data = insert_nothing cu_sha1 \<lparr>cu_sha1 = sha1, cu_data = data, cu_created_at = now\<rparr>"

definition UploadChunksPresent :: "string list \<Rightarrow> chunk list \<Rightarrow> string list" where
  "UploadChunksPresent sha1s t = map cu_sha1 (filter (\<lambda>c. cu_sha1 c \<in> set sha1s) t)"

text \<open>The join keeps the order of the request; a hash without a chunk yields no row.\<close>

definition GetUploadChunks :: "string list \<Rightarrow> chunk list \<Rightarrow> (string \<times> string) list" where
  "GetUploadChunks sha1s t =
     concat (map (\<lambda>h. map (\<lambda>c. (cu_sha1 c, cu_data c)) (filter (\<lambda>c. cu_sha1 c = h) t)) sha1s)"

definition DeleteUploadChunks :: "string list \<Rightarrow> chunk list \<Rightarrow> chunk list" where
  "DeleteUploadChunks sha1s = delete_where (\<lambda>c. cu_sha1 c \<in> set sha1s)"

definition ExpireUploadChunks :: "time \<Rightarrow> chunk list \<Rightarrow> nat \<times> chunk list" where
  "ExpireUploadChunks before t =
     (length (filter (\<lambda>c. cu_created_at c < before) t), delete_where (\<lambda>c. cu_created_at c < before) t)"

section \<open>Symbol files\<close>

record symbol_file =
  sf_id :: int
  sf_project :: project_id
  sf_kind :: SymbolKind
  sf_release :: "string option"
  sf_debug_id :: "string option"
  sf_filename :: string
  sf_size :: int
  sf_data :: "string option"
  sf_blob_key :: "string option"
  sf_uploaded_at :: time

record symbol_table =
  sy_rows :: "symbol_file list"
  sy_next :: int

text \<open>\<open>UNIQUE NULLS NOT DISTINCT\<close>: a missing release is a value like another.\<close>

abbreviation symbol_key :: "symbol_file \<Rightarrow> project_id \<times> SymbolKind \<times> string option \<times> string" where
  "symbol_key f \<equiv> (sf_project f, sf_kind f, sf_release f, sf_filename f)"

record upsert_symbol_params =
  us_project :: project_id
  us_kind :: SymbolKind
  us_release :: "string option"
  us_debug_id :: "string option"
  us_filename :: string
  us_size :: int
  us_data :: "string option"
  us_blob_key :: "string option"

definition symbol_row_of :: "time \<Rightarrow> int \<Rightarrow> upsert_symbol_params \<Rightarrow> symbol_file" where
  "symbol_row_of now i p =
     \<lparr>sf_id = i, sf_project = us_project p, sf_kind = us_kind p, sf_release = us_release p,
      sf_debug_id = us_debug_id p, sf_filename = us_filename p, sf_size = us_size p, sf_data = us_data p,
      sf_blob_key = us_blob_key p, sf_uploaded_at = now\<rparr>"

definition merge_symbol :: "symbol_file \<Rightarrow> symbol_file \<Rightarrow> symbol_file" where
  "merge_symbol f x = f\<lparr>sf_debug_id := sf_debug_id x, sf_size := sf_size x, sf_data := sf_data x,
     sf_blob_key := sf_blob_key x, sf_uploaded_at := sf_uploaded_at x\<rparr>"

text \<open>The CHECK \<open>symbol_files_location\<close>: exactly one of the bytes and the blob key.\<close>

definition located :: "string option \<Rightarrow> string option \<Rightarrow> bool" where
  "located data blob \<longleftrightarrow> (data = None) \<noteq> (blob = None)"

definition UpsertSymbolFile :: "time \<Rightarrow> upsert_symbol_params \<Rightarrow> symbol_table \<Rightarrow> (symbol_file \<times> symbol_table) option" where
  "UpsertSymbolFile now p t =
     (if \<not> located (us_data p) (us_blob_key p) then None
      else let x = symbol_row_of now (sy_next t) p;
               row = (case lookup_by symbol_key (symbol_key x) (sy_rows t) of None \<Rightarrow> x | Some f \<Rightarrow> merge_symbol f x)
           in Some (row, t\<lparr>sy_rows := upsert symbol_key merge_symbol x (sy_rows t), sy_next := sy_next t + 1\<rparr>))"

definition SymbolFileBlobKey ::
  "symbol_table \<Rightarrow> project_id \<Rightarrow> SymbolKind \<Rightarrow> string option \<Rightarrow> string \<Rightarrow> string option option" where
  "SymbolFileBlobKey t pid kind release filename =
     map_option sf_blob_key (lookup_by symbol_key (pid, kind, release, filename) (sy_rows t))"

definition SymbolFileBlobKeys :: "symbol_table \<Rightarrow> project_id \<Rightarrow> string list" where
  "SymbolFileBlobKeys t pid = List.map_filter sf_blob_key (filter (\<lambda>f. sf_project f = pid) (sy_rows t))"

definition ListSymbolFiles :: "symbol_table \<Rightarrow> project_id \<Rightarrow> symbol_file list" where
  "ListSymbolFiles t pid = sort_key (\<lambda>f. - sf_uploaded_at f) (filter (\<lambda>f. sf_project f = pid) (sy_rows t))"

definition SymbolFilesForRelease :: "symbol_table \<Rightarrow> project_id \<Rightarrow> SymbolKind \<Rightarrow> string \<Rightarrow> symbol_file list" where
  "SymbolFilesForRelease t pid kind release =
     filter (\<lambda>f. sf_project f = pid \<and> sf_release f = Some release \<and> sf_kind f = kind) (sy_rows t)"

text \<open>\<open>debug_id = NULL\<close> is never true.\<close>

definition SymbolFileByDebugID :: "symbol_table \<Rightarrow> project_id \<Rightarrow> string option \<Rightarrow> symbol_file option" where
  "SymbolFileByDebugID t pid debug_id =
     find (\<lambda>f. sf_project f = pid \<and> debug_id \<noteq> None \<and> sf_debug_id f = debug_id) (sy_rows t)"

definition SymbolFileExists :: "symbol_table \<Rightarrow> project_id \<Rightarrow> SymbolKind \<Rightarrow> string \<Rightarrow> string list \<Rightarrow> bool" where
  "SymbolFileExists t pid kind release debug_ids =
     list_ex (\<lambda>f. sf_project f = pid \<and> sf_kind f = kind
       \<and> (sf_release f = Some release \<or> sf_debug_id f \<in> Some ` set debug_ids)) (sy_rows t)"

definition DeleteSymbolFile :: "project_id \<Rightarrow> int \<Rightarrow> symbol_table \<Rightarrow> string option option \<times> symbol_table" where
  "DeleteSymbolFile pid i t =
     (let hit = (\<lambda>f. sf_project f = pid \<and> sf_id f = i)
      in (map_option sf_blob_key (find hit (sy_rows t)), t\<lparr>sy_rows := delete_where hit (sy_rows t)\<rparr>))"

definition ExpireSymbolFiles :: "time \<Rightarrow> symbol_table \<Rightarrow> string option list \<times> symbol_table" where
  "ExpireSymbolFiles before t =
     (let hit = (\<lambda>f. sf_uploaded_at f < before)
      in (map sf_blob_key (filter hit (sy_rows t)), t\<lparr>sy_rows := delete_where hit (sy_rows t)\<rparr>))"

text \<open>Tagging a release onto files uploaded without one; a clash with a tagged file is an error.\<close>

definition untagged :: "project_id \<Rightarrow> string option \<Rightarrow> time \<Rightarrow> symbol_file \<Rightarrow> bool" where
  "untagged pid debug_id since f \<longleftrightarrow>
     sf_project f = pid \<and> sf_release f = None
     \<and> (case debug_id of Some d \<Rightarrow> sf_debug_id f = Some d
        | None \<Rightarrow> sf_kind f = SymbolKindProguard \<and> since < sf_uploaded_at f)"

definition SetSymbolFileRelease ::
  "string \<Rightarrow> project_id \<Rightarrow> string option \<Rightarrow> time \<Rightarrow> symbol_table \<Rightarrow> (nat \<times> symbol_table) option" where
  "SetSymbolFileRelease release pid debug_id since t =
     (let hit = untagged pid debug_id since;
          rows = update_where hit (\<lambda>f. f\<lparr>sf_release := Some release\<rparr>) (sy_rows t)
      in if unique_by symbol_key rows then Some (length (filter hit (sy_rows t)), t\<lparr>sy_rows := rows\<rparr>) else None)"

definition SymbolFilesVersion :: "symbol_table \<Rightarrow> project_id \<Rightarrow> SymbolKind \<Rightarrow> string \<Rightarrow> string \<Rightarrow> nat \<times> time" where
  "SymbolFilesVersion t pid kind debug_id release =
     (let fs = filter (\<lambda>f. sf_project f = pid \<and> sf_kind f = kind
                 \<and> (debug_id \<noteq> [] \<and> sf_debug_id f = Some debug_id \<or> debug_id = [] \<and> sf_release f = Some release))
                 (sy_rows t)
      in (length fs, if fs = [] then 0 else Max (set (map sf_uploaded_at fs))))"

definition SymbolFileData :: "symbol_table \<Rightarrow> int \<Rightarrow> (string option \<times> string option) option" where
  "SymbolFileData t i = map_option (\<lambda>f. (sf_data f, sf_blob_key f)) (lookup_by sf_id i (sy_rows t))"

section \<open>What a multi-row upsert does\<close>

text \<open>The contract: an update keeps the row's key.\<close>

locale checked_upsert =
  fixes key :: "'r \<Rightarrow> 'k" and merge :: "'r \<Rightarrow> 'r \<Rightarrow> 'r option option"
  assumes key_new: "merge old x = Some (Some new) \<Longrightarrow> key new = key old"
begin

abbreviation put_row :: "'k \<Rightarrow> 'r \<Rightarrow> 'r list \<Rightarrow> 'r list" where
  "put_row k new t \<equiv> update_where (\<lambda>r. key r = k) (\<lambda>r. new) t"

lemma keys_put: "key new = k \<Longrightarrow> map key (put_row k new t) = map key t"
  by (auto simp: update_where_def)

lemma lookup_put:
  assumes "key new = k" and "lookup_by key k t = Some old"
  shows "lookup_by key j (put_row k new t) = (if j = k then Some new else lookup_by key j t)"
proof -
  have "j \<noteq> k \<Longrightarrow> lookup_by key j (put_row k new t) = lookup_by key j t"
    using assms(1) by (induction t) (auto simp: lookup_by_def update_where_def)
  moreover have "lookup_by key k (put_row k new t) = Some new"
    using assms by (induction t) (auto simp: lookup_by_def update_where_def split: if_splits)
  ultimately show ?thesis by simp
qed

lemma lookup_append: "lookup_by key (key x) t = None \<Longrightarrow>
    lookup_by key j (t @ [x]) = (if j = key x then Some x else lookup_by key j t)"
  by (induction t) (auto simp: lookup_by_def split: if_splits)

lemma merged_key: "lookup_by key (key x) t = Some old \<Longrightarrow> merge old x = Some (Some new) \<Longrightarrow> key new = key x"
  by (metis key_new lookup_by_Some)

text \<open>The key of a row stays one row's.\<close>

lemma keys_unique: "upsert_rows key merge w xs t = Some t' \<Longrightarrow> unique_by key t \<Longrightarrow> unique_by key t'"
proof (induction xs arbitrary: w t)
  case (Cons x xs)
  show ?case
  proof (cases "lookup_by key (key x) t")
    case None
    with Cons.prems have "unique_by key (t @ [x])" by (simp add: lookup_by_None unique_by_def)
    with Cons None show ?thesis by simp
  next
    case (Some old)
    have "unique_by key (put_row (key x) new t)" if "merge old x = Some (Some new)" for new
      using Cons.prems(2) keys_put [OF merged_key [OF Some that], of t] by (simp add: unique_by_def)
    with Cons Some show ?thesis by (auto split: if_splits option.splits)
  qed
qed simp

text \<open>When the proposed rows have distinct keys, each meets the table as it was before.\<close>

definition met :: "'r list \<Rightarrow> 'r \<Rightarrow> 'r option option" where
  "met t x = (case lookup_by key (key x) t of None \<Rightarrow> Some (Some x) | Some old \<Rightarrow> merge old x)"

lemma met_cong: "lookup_by key (key x) t = lookup_by key (key x) t' \<Longrightarrow> met t x = met t' x"
  by (simp add: met_def)

lemma succeeds:
  "distinct (map key xs) \<Longrightarrow> key ` set xs \<inter> set w = {} \<Longrightarrow>
   (\<exists>t'. upsert_rows key merge w xs t = Some t') \<longleftrightarrow> list_all (\<lambda>x. met t x \<noteq> None) xs"
proof (induction xs arbitrary: w t)
  case (Cons x xs)
  have other: "list_all (\<lambda>y. met t' y \<noteq> None) xs = list_all (\<lambda>y. met t y \<noteq> None) xs"
    if "\<And>k. k \<noteq> key x \<Longrightarrow> lookup_by key k t' = lookup_by key k t" for t'
  proof (rule list.pred_cong [OF refl])
    fix y assume "y \<in> set xs"
    with Cons.prems(1) have "key y \<noteq> key x" by (metis distinct.simps(2) image_eqI list.set_map list.simps(9))
    with that have "met t' y = met t y" by (intro met_cong) simp
    then show "(met t' y \<noteq> None) = (met t y \<noteq> None)" by simp
  qed
  show ?case
  proof (cases "lookup_by key (key x) t")
    case None
    then have "met t x = Some (Some x)" by (simp add: met_def)
    with None Cons.IH [of "key x # w" "t @ [x]"] Cons.prems other [of "t @ [x]"] lookup_append [OF None]
    show ?thesis by auto
  next
    case (Some old)
    then have m: "met t x = merge old x" by (simp add: met_def)
    have put: "list_all (\<lambda>y. met (put_row (key x) new t) y \<noteq> None) xs = list_all (\<lambda>y. met t y \<noteq> None) xs"
      if "merge old x = Some (Some new)" for new
      using lookup_put [OF merged_key [OF Some that] Some] by (intro other) simp
    show ?thesis
    proof (cases "merge old x")
      case None
      with Some m show ?thesis by simp
    next
      case (Some mx)
      then show ?thesis
        using m \<open>lookup_by key (key x) t = Some old\<close> Cons.IH [of w t] Cons.IH [of "key x # w"] Cons.prems put
        by (cases mx) auto
    qed
  qed
qed simp

lemma lookup_rows:
  "upsert_rows key merge w xs t = Some t' \<Longrightarrow> distinct (map key xs) \<Longrightarrow>
   lookup_by key k t' = (case find (\<lambda>x. key x = k) xs of
       None \<Rightarrow> lookup_by key k t
     | Some x \<Rightarrow> (case met t x of Some (Some new) \<Rightarrow> Some new | _ \<Rightarrow> lookup_by key k t))"
proof (induction xs arbitrary: w t)
  case (Cons x xs)
  have fresh: "find (\<lambda>y. key y = key x) xs = None"
    using Cons.prems(2) by (fastforce simp: find_None_iff image_iff)
  have same: "met t2 y = met t y" if "\<And>k. k \<noteq> key x \<Longrightarrow> lookup_by key k t2 = lookup_by key k t"
    "find (\<lambda>y. key y = k) xs = Some y" "k \<noteq> key x" for t2 y
    using that by (intro met_cong) (auto simp: find_Some_iff)
  show ?case
  proof (cases "lookup_by key (key x) t")
    case None
    then have "met t x = Some (Some x)" by (simp add: met_def)
    with None Cons.IH [of "key x # w" "t @ [x]"] Cons.prems fresh lookup_append [OF None] same [of "t @ [x]"]
    show ?thesis by (auto split: option.splits)
  next
    case (Some old)
    then have m: "met t x = merge old x" by (simp add: met_def)
    show ?thesis
    proof (cases "\<exists>new. merge old x = Some (Some new)")
      case True
      then obtain new where new: "merge old x = Some (Some new)" by blast
      note put = lookup_put [OF merged_key [OF Some new] Some]
      show ?thesis
        using Some m new put Cons.IH [of "key x # w" "put_row (key x) new t"] Cons.prems fresh
          same [of "put_row (key x) new t"]
        by (auto split: option.splits if_splits)
    next
      case False
      then show ?thesis
        using Some m Cons.IH [of w t] Cons.prems fresh by (auto split: option.splits if_splits)
    qed
  qed
qed simp

text \<open>A statement that always updates refuses two rows of one key.\<close>

lemma refuses_twice:
  assumes always: "\<And>old x. merge old x \<noteq> Some None"
  shows "upsert_rows key merge w xs t = Some t' \<Longrightarrow> set w \<subseteq> key ` set t \<Longrightarrow>
    distinct (map key xs) \<and> key ` set xs \<inter> set w = {}"
proof (induction xs arbitrary: w t)
  case (Cons x xs)
  show ?case
  proof (cases "lookup_by key (key x) t")
    case None
    then have "key x \<notin> set w" using Cons.prems(2) by (auto simp: lookup_by_None)
    moreover have "distinct (map key xs) \<and> key ` set xs \<inter> set (key x # w) = {}"
      using Cons None by (intro Cons.IH [of _ "t @ [x]"]) auto
    ultimately show ?thesis by auto
  next
    case (Some old)
    with Cons.prems(1) always have w: "key x \<notin> set w" by (auto split: if_splits)
    with Some Cons.prems(1) always obtain new where new: "merge old x = Some (Some new)"
      and rest: "upsert_rows key merge (key x # w) xs (put_row (key x) new t) = Some t'"
      by (auto split: option.splits)
    have "key ` set (put_row (key x) new t) = key ` set t"
      using keys_put [OF merged_key [OF Some new], of t] by (metis list.set_map)
    moreover have "key x \<in> key ` set t" using Some by (metis lookup_by_None option.distinct(1))
    ultimately have "distinct (map key xs) \<and> key ` set xs \<inter> set (key x # w) = {}"
      using Cons.prems(2) by (intro Cons.IH [OF rest]) simp
    with w show ?thesis by auto
  qed
qed simp

end

interpretation release_table: checked_upsert release_key merge_release
  by unfold_locales (auto simp: merge_release_def split: if_splits)

interpretation report_table: checked_upsert report_key merge_report
  by unfold_locales (auto simp: merge_report_def split: if_splits)

interpretation user_report_table: keyed_table user_report_key merge_user_report
  by unfold_locales (simp add: merge_user_report_def)

interpretation symbol_files: keyed_table symbol_key merge_symbol
  by unfold_locales (simp add: merge_symbol_def)

section \<open>Releases: when the statement succeeds, and what it leaves\<close>

lemma merge_release_None: "merge_release r x = None \<longleftrightarrow>
    rl_platforms r = [] \<and> rl_platforms x = [] \<and> rl_first_seen x < rl_first_seen r"
  by (auto simp: merge_release_def array_agg_distinct_def)

lemma excluded_release_simps [simp]:
  "release_key (excluded_release pid (r, p, t)) = (pid, r)"
  "rl_first_seen (excluded_release pid (r, p, t)) = t"
  "rl_platforms (excluded_release pid (r, p, t)) = (if p = [] then [] else [p])"
  by (simp_all add: excluded_release_def)

lemma release_keys: "map release_key (map (excluded_release pid) us) = map (\<lambda>u. (pid, fst u)) us"
  by (auto simp: excluded_release_def split: prod.split)

lemma distinct_release_keys: "distinct (map release_key (map (excluded_release pid) us)) = distinct (map fst us)"
proof -
  have "map (\<lambda>u. (pid, fst u)) us = map (Pair pid) (map fst us)" by simp
  then show ?thesis unfolding release_keys by (simp only: distinct_map) (simp add: inj_on_def)
qed

text \<open>The release row an envelope finds in the way: known without a platform, and seen later.\<close>

definition platformless_later :: "project_id \<Rightarrow> release_row list \<Rightarrow> string \<times> string \<times> time \<Rightarrow> bool" where
  "platformless_later pid t u =
     (case u of (r, p, at) \<Rightarrow> p = [] \<and> (case lookup_by release_key (pid, r) t of
        None \<Rightarrow> False | Some row \<Rightarrow> rl_platforms row = [] \<and> at < rl_first_seen row))"

lemma met_release: "release_table.met t (excluded_release pid u) = None \<longleftrightarrow> platformless_later pid t u"
proof (cases u)
  case (fields r p at)
  show ?thesis
  proof (cases "lookup_by release_key (pid, r) t")
    case None
    then show ?thesis by (simp add: fields release_table.met_def platformless_later_def del: prod.inject)
  next
    case (Some row)
    then show ?thesis by (simp add: fields release_table.met_def platformless_later_def merge_release_None)
  qed
qed

text \<open>
  C40. \<open>UpsertReleases\<close> fails in exactly one case: the envelope mentions - without a platform, as a session
  does - a release that is known without any platform, at a time before its \<open>first_seen\<close>. (The update
  then fires, and \<open>array_agg\<close> over no rows is NULL where the column is NOT NULL.) Every other batch with
  distinct releases is stored.
\<close>

theorem UpsertReleases_fails:
  assumes "distinct (map fst us)"
  shows "UpsertReleases pid us t = None \<longleftrightarrow> list_ex (platformless_later pid t) us"
proof -
  let ?xs = "map (excluded_release pid) us"
  have "(\<exists>t'. UpsertReleases pid us t = Some t') \<longleftrightarrow> list_all (\<lambda>x. release_table.met t x \<noteq> None) ?xs"
    unfolding UpsertReleases_def
    by (rule release_table.succeeds) (use assms distinct_release_keys in auto)
  also have "\<dots> \<longleftrightarrow> \<not> list_ex (platformless_later pid t) us"
    by (simp add: list.pred_set list_ex_iff met_release del: not_None_eq)
  finally show ?thesis by (metis not_None_eq)
qed

text \<open>A release first seen through a session; an older session of it arrives.\<close>

lemma UpsertReleases_fails_witness:
  "UpsertReleases 1 [(''app@1'', [], 7)] [\<lparr>rl_project = 1, rl_release = ''app@1'', rl_platforms = [], rl_first_seen = 9\<rparr>] = None"
  using UpsertReleases_fails [of "[(''app@1'', [], 7)]" 1
      "[\<lparr>rl_project = 1, rl_release = ''app@1'', rl_platforms = [], rl_first_seen = 9\<rparr>]"]
  by (simp add: platformless_later_def lookup_by_def)

lemma find_excluded: "distinct (map fst us) \<Longrightarrow> (r, p, at) \<in> set us \<Longrightarrow>
    find (\<lambda>x. release_key x = (pid, r)) (map (excluded_release pid) us) = Some (excluded_release pid (r, p, at))"
proof (induction us)
  case (Cons u us)
  show ?case
  proof (cases "fst u = r")
    case True
    with Cons.prems have "u = (r, p, at)" by (auto simp: image_iff)
    then show ?thesis by (simp add: excluded_release_def)
  next
    case False
    moreover have "release_key (excluded_release pid u) = (pid, fst u)" by (cases u) simp
    ultimately show ?thesis using Cons by auto
  qed
qed simp

lemma release_after_upsert:
  assumes "UpsertReleases pid us t = Some t'" and "distinct (map fst us)" and "(r, p, at) \<in> set us"
  shows "\<exists>row. lookup_by release_key (pid, r) t' = Some row
    \<and> set (rl_platforms row) = (case lookup_by release_key (pid, r) t of None \<Rightarrow> {} | Some o' \<Rightarrow> set (rl_platforms o'))
                               \<union> (if p = [] then {} else {p})
    \<and> rl_first_seen row = (case lookup_by release_key (pid, r) t of None \<Rightarrow> at | Some o' \<Rightarrow> min (rl_first_seen o') at)"
proof -
  let ?x = "excluded_release pid (r, p, at)"
  have l: "lookup_by release_key (pid, r) t' =
      (case release_table.met t ?x of Some (Some new) \<Rightarrow> Some new | _ \<Rightarrow> lookup_by release_key (pid, r) t)"
    using release_table.lookup_rows [of "[]" "map (excluded_release pid) us" t t' "(pid, r)"]
      assms find_excluded [OF assms(2,3), of pid] distinct_release_keys [of pid us]
    by (simp add: UpsertReleases_def)
  show ?thesis
  proof (cases "lookup_by release_key (pid, r) t")
    case None
    then have "release_table.met t ?x = Some (Some ?x)" by (simp add: release_table.met_def)
    with l None show ?thesis by simp
  next
    case (Some row)
    then have m: "release_table.met t ?x = merge_release row ?x" by (simp add: release_table.met_def)
    have ok: "merge_release row ?x \<noteq> None"
      using UpsertReleases_fails [OF assms(2), of pid t] assms(1,3) Some
      by (auto simp: list_ex_iff platformless_later_def merge_release_None)
    with l m Some show ?thesis
      by (auto simp: merge_release_def array_agg_distinct_def min_def split: if_splits)
  qed
qed

section \<open>Client reports\<close>

lemma report_keys: "map report_key (map (\<lambda>(r, c, q). \<lparr>rc_project = pid, rc_bucket = b, rc_reason = r, rc_category = c, rc_quantity = q\<rparr>) cs)
    = map (\<lambda>(r, c, q). (pid, b, r, c)) cs"
  by (auto split: prod.split)

text \<open>
  An envelope whose client reports name the same reason and category twice (two \<open>client_report\<close> items,
  or two entries of one) is refused as a whole: nothing folds the entries before the statement.
\<close>

lemma client_report_twice_fails:
  assumes "\<not> distinct (map (\<lambda>(r, c, q). (r, c)) cs)"
  shows "UpsertClientReportCounts pid b cs t = None"
proof (rule ccontr)
  assume "UpsertClientReportCounts pid b cs t \<noteq> None"
  then obtain t' where "UpsertClientReportCounts pid b cs t = Some t'" by blast
  then have "distinct (map (\<lambda>(r, c, q). (pid, b, r, c)) cs)"
    unfolding UpsertClientReportCounts_def report_keys [symmetric]
    by (elim report_table.refuses_twice [THEN conjunct1, rotated]) (auto simp: merge_report_def)
  moreover have "map (\<lambda>(r, c, q). (pid, b, r, c)) cs = map (\<lambda>k. (pid, b, k)) (map (\<lambda>(r, c, q). (r, c)) cs)"
    by (auto split: prod.split)
  ultimately have "distinct (map (\<lambda>k. (pid, b, k)) (map (\<lambda>(r, c, q). (r, c)) cs))" by (simp only:)
  then have "distinct (map (\<lambda>(r, c, q). (r, c)) cs)" by (simp only: distinct_map)
  with assms show False ..
qed

section \<open>Attachments, chunks and symbol files\<close>

lemma insert_nothing_keys: "key ` set (insert_nothing key r t) = insert (key r) (key ` set t)"
  by (auto simp: insert_nothing_def)

lemma inserts_keep: "unique_by key t \<Longrightarrow> unique_by key (fold (insert_nothing key) rows t)"
proof (induction rows arbitrary: t)
  case (Cons r rows)
  have "unique_by key (insert_nothing key r t)" using Cons.prems by (auto simp: insert_nothing_def unique_by_def)
  then show ?case by (simp add: Cons.IH)
qed simp

lemma inserts_known: "key ` set rows \<subseteq> key ` set t \<Longrightarrow> fold (insert_nothing key) rows t = t"
  by (induction rows) (simp_all add: insert_nothing_def)

lemma inserts_keys: "key ` set (fold (insert_nothing key) rows t) = key ` set rows \<union> key ` set t"
proof (induction rows arbitrary: t)
  case (Cons r rows)
  show ?case by (simp only: fold_Cons comp_apply Cons.IH insert_nothing_keys) auto
qed simp

text \<open>A resent envelope lands on the same rows.\<close>

lemma InsertAttachments_again: "InsertAttachments rows (InsertAttachments rows t) = InsertAttachments rows t"
  unfolding InsertAttachments_def
  by (rule inserts_known) (simp only: inserts_keys Un_upper1)

lemma inserts_old: "r \<in> set t \<Longrightarrow> r \<in> set (fold (insert_nothing key) rows t)"
  by (induction rows arbitrary: t) (auto simp: insert_nothing_def)

lemma inserts_new:
  "distinct (map key rows) \<Longrightarrow> key ` set rows \<inter> key ` set t = {} \<Longrightarrow> fold (insert_nothing key) rows t = t @ rows"
proof (induction rows arbitrary: t)
  case (Cons r rows)
  then have "insert_nothing key r t = t @ [r]" by (simp add: insert_nothing_def)
  with Cons show ?case by (simp del: distinct_map add: Cons.IH)
qed simp

text \<open>
  Assembling an upload: when every chunk of the request is there, their bytes come back in the order of
  the request, each as it was first put.
\<close>

lemma filter_key: "unique_by key t \<Longrightarrow> filter (\<lambda>x. key x = k) t = (case lookup_by key k t of None \<Rightarrow> [] | Some x \<Rightarrow> [x])"
proof (induction t)
  case (Cons a t)
  then have "key a = k \<Longrightarrow> lookup_by key k t = None" by (auto simp: unique_by_def lookup_by_None)
  with Cons show ?case by (auto simp: lookup_by_def unique_by_def)
qed (simp add: lookup_by_def)

lemma GetUploadChunks_present:
  assumes "unique_by cu_sha1 t"
  shows "GetUploadChunks hs t = List.map_filter (\<lambda>h. map_option (\<lambda>c. (cu_sha1 c, cu_data c)) (lookup_by cu_sha1 h t)) hs"
  using assms by (induction hs) (auto simp: GetUploadChunks_def filter_key map_filter_simps split: option.split)

lemma chunks_stay_unique:
  "unique_by cu_sha1 t \<Longrightarrow> unique_by cu_sha1 (PutUploadChunk now h d t)"
  by (auto simp: PutUploadChunk_def insert_nothing_def unique_by_def)

text \<open>The invariant of the symbol files: unique keys and ids, and the bytes in exactly one place.\<close>

definition symbols_inv :: "symbol_table \<Rightarrow> bool" where
  "symbols_inv t \<longleftrightarrow> unique_by symbol_key (sy_rows t) \<and> unique_by sf_id (sy_rows t)
     \<and> list_all (\<lambda>f. sf_id f < sy_next t \<and> located (sf_data f) (sf_blob_key f)) (sy_rows t)"

lemma upsert_symbol_rows:
  "upsert symbol_key merge_symbol x t =
     (if symbol_key x \<in> symbol_key ` set t then map (\<lambda>f. if symbol_key f = symbol_key x then merge_symbol f x else f) t
      else t @ [x])"
  by (simp add: upsert_def)

lemma merge_symbol_id [simp]: "sf_id (merge_symbol f x) = sf_id f"
  by (simp add: merge_symbol_def)

lemma UpsertSymbolFile_inv [step_inv]:
  assumes "symbols_inv t" and "UpsertSymbolFile now p t = Some (r, t')"
  shows "symbols_inv t'"
proof -
  let ?x = "symbol_row_of now (sy_next t) p"
  have loc: "located (us_data p) (us_blob_key p)"
    and t': "t' = t\<lparr>sy_rows := upsert symbol_key merge_symbol ?x (sy_rows t), sy_next := sy_next t + 1\<rparr>"
    using assms(2) by (auto simp: UpsertSymbolFile_def Let_def split: if_splits)
  have "unique_by symbol_key (sy_rows t')"
    using assms(1) t' by (simp add: symbols_inv_def symbol_files.unique_upsert)
  moreover have "unique_by sf_id (sy_rows t')"
  proof (cases "symbol_key ?x \<in> symbol_key ` set (sy_rows t)")
    case True
    have "map sf_id (map (\<lambda>f. if symbol_key f = symbol_key ?x then merge_symbol f ?x else f) (sy_rows t)) = map sf_id (sy_rows t)"
      by simp
    moreover have "sy_rows t' = map (\<lambda>f. if symbol_key f = symbol_key ?x then merge_symbol f ?x else f) (sy_rows t)"
      using True by (simp add: t' upsert_symbol_rows)
    moreover have "distinct (map sf_id (sy_rows t))" using assms(1) by (simp add: symbols_inv_def unique_by_def)
    ultimately show ?thesis by (simp only: unique_by_def)
  next
    case False
    with assms(1) t' show ?thesis
      by (auto simp: upsert_symbol_rows symbols_inv_def unique_by_def symbol_row_of_def list_all_iff simp del: prod.inject)
  qed
  moreover have "sf_id f < sy_next t' \<and> located (sf_data f) (sf_blob_key f)" if "f \<in> set (sy_rows t')" for f
    using symbol_files.set_upsert_cases [of f ?x "sy_rows t"] that t' assms(1) loc
    by (auto simp: symbols_inv_def list_all_iff merge_symbol_def symbol_row_of_def)
  ultimately show ?thesis by (simp add: symbols_inv_def list_all_iff)
qed

lemma symbols_delete_inv [step_inv]:
  "symbols_inv t \<Longrightarrow> symbols_inv (t\<lparr>sy_rows := delete_where p (sy_rows t)\<rparr>)"
  by (auto simp: symbols_inv_def delete_where_def unique_by_def list_all_iff distinct_map inj_on_def)

lemma SetSymbolFileRelease_inv [step_inv]:
  assumes "symbols_inv t" and "SetSymbolFileRelease rel pid d since t = Some (n, t')"
  shows "symbols_inv t'"
proof -
  let ?rows = "update_where (untagged pid d since) (\<lambda>f. f\<lparr>sf_release := Some rel\<rparr>) (sy_rows t)"
  have t': "t' = t\<lparr>sy_rows := ?rows\<rparr>" and u: "unique_by symbol_key ?rows"
    using assms(2) by (auto simp: SetSymbolFileRelease_def Let_def split: if_splits)
  have "map sf_id ?rows = map sf_id (sy_rows t)" by (simp add: update_where_def)
  then have "unique_by sf_id ?rows" using assms(1) by (simp add: symbols_inv_def unique_by_def)
  with t' u assms(1) show ?thesis
    by (auto simp: symbols_inv_def list_all_iff update_where_def)
qed

end
