(* ===== verification/Blobs.thy ===== *)
theory Blobs
  imports Weeks GoStrings
begin

text \<open>
  The object store of \<open>internal/blob\<close>: its keys (\<open>blob.go\<close>), the contract of its four operations as a
  locale, and the in-process store \<open>Memory\<close> (\<open>memory.go\<close>) that fulfils it. The S3 client is a network
  service behind the same contract.
\<close>

section \<open>Dates and keys\<close>

text \<open>Year, month and day of a number of days since the epoch (the proleptic Gregorian calendar).\<close>

definition civil :: "int \<Rightarrow> int \<times> int \<times> int" where
  "civil n =
     (let z = n + 719468;
          era = z div 146097;
          doe = z mod 146097;
          yoe = (doe - doe div 1460 + doe div 36524 - doe div 146096) div 365;
          doy = doe - (365 * yoe + yoe div 4 - yoe div 100);
          mp = (5 * doy + 2) div 153;
          d = doy - (153 * mp + 2) div 5 + 1;
          m = (if mp < 10 then mp + 3 else mp - 9)
      in (yoe + era * 400 + (if m \<le> 2 then 1 else 0), m, d))"

definition zero_pad :: "nat \<Rightarrow> int \<Rightarrow> string" where
  "zero_pad n i = (let s = itoa_int i in replicate (n - length s) (CHR ''0'') @ s)"

text \<open>\<open>Format("20060102")\<close>, for the years 0 to 9999.\<close>

definition date8 :: "time \<Rightarrow> string" where
  "date8 t = (case civil (t div day) of (y, m, d) \<Rightarrow> zero_pad 4 y @ zero_pad 2 m @ zero_pad 2 d)"

definition PackKey :: "project_id \<Rightarrow> time \<Rightarrow> int \<Rightarrow> string" where
  "PackKey pid w i = ''events/'' @ itoa_int pid @ ''/'' @ date8 w @ ''/'' @ itoa_int i"

text \<open>\<open>SymbolKey\<close>, with the 16 bytes drawn as an argument.\<close>

definition SymbolKey :: "nat list \<Rightarrow> project_id \<Rightarrow> string" where
  "SymbolKey b pid = ''symbols/'' @ itoa_int pid @ ''/'' @ hex_encode b"

definition checkKey :: "string \<Rightarrow> bool" where
  "checkKey key \<longleftrightarrow> key \<noteq> [] \<and> \<not> has_prefix key ''/''
     \<and> list_all (\<lambda>el. el \<noteq> [] \<and> el \<noteq> ''.'' \<and> el \<noteq> ''..'') (split_byte (CHR ''/'') key)"

section \<open>Keys are accepted and distinct\<close>

definition plain_part :: "string \<Rightarrow> bool" where
  "plain_part s \<longleftrightarrow> s \<noteq> [] \<and> CHR ''/'' \<notin> set s \<and> CHR ''.'' \<notin> set s"

lemma digit_char_plain: "d < 16 \<Longrightarrow> digit_char d \<noteq> CHR ''/'' \<and> digit_char d \<noteq> CHR ''.''"
  using digit_val_char [of d] by (auto simp: digit_val_def)

lemma itoa_plain: "plain_part (itoa n)"
proof -
  have "digit_char d \<noteq> CHR ''/'' \<and> digit_char d \<noteq> CHR ''.''" if "d \<in> set (nat_digits 10 n)" for d
    using nat_digits_lt [OF _ that] by (intro digit_char_plain) simp
  then show ?thesis by (auto simp: plain_part_def itoa_def) metis+
qed

lemma itoa_int_plain: "plain_part (itoa_int i)"
  using itoa_plain [of "nat (- i)"] itoa_plain [of "nat i"] by (auto simp: itoa_int_def plain_part_def)

lemma plain_append: "plain_part b \<Longrightarrow> CHR ''/'' \<notin> set a \<Longrightarrow> CHR ''.'' \<notin> set a \<Longrightarrow> plain_part (a @ b)"
  by (auto simp: plain_part_def)

lemma zero_pad_plain: "plain_part (zero_pad n i)"
  unfolding zero_pad_def Let_def by (rule plain_append [OF itoa_int_plain]) auto

lemma date8_plain: "plain_part (date8 t)"
  using zero_pad_plain
  by (auto simp: date8_def split: prod.split intro!: plain_append) (auto simp: plain_part_def)

lemma plain_elem: "plain_part s \<Longrightarrow> s \<noteq> [] \<and> s \<noteq> ''.'' \<and> s \<noteq> ''..''"
  by (auto simp: plain_part_def)

lemma PackKey_ok: "checkKey (PackKey pid w i)"
proof -
  let ?c = "CHR ''/''"
  have "PackKey pid w i = ''events'' @ ?c # (itoa_int pid @ ?c # (date8 w @ ?c # itoa_int i))"
    by (simp add: PackKey_def)
  then have "split_byte ?c (PackKey pid w i) = [''events'', itoa_int pid, date8 w, itoa_int i]"
    using itoa_int_plain [of pid] itoa_int_plain [of i] date8_plain [of w]
    by (simp only: split_byte_append split_byte_free plain_part_def) (simp add: split_byte_append split_byte_free)
  then show ?thesis
    using plain_elem [OF itoa_int_plain] plain_elem [OF date8_plain [of w]]
    by (simp add: checkKey_def PackKey_def has_prefix_def)
qed

lemma itoa_int_inj: "- (2 ^ 63) \<le> i \<Longrightarrow> i < 2 ^ 63 \<Longrightarrow> - (2 ^ 63) \<le> j \<Longrightarrow> j < 2 ^ 63 \<Longrightarrow> itoa_int i = itoa_int j \<Longrightarrow> i = j"
  by (metis atoi_itoa option.inject)

text \<open>The pack's id alone tells two keys apart.\<close>

definition int64 :: "int \<Rightarrow> bool" where
  "int64 i \<longleftrightarrow> - (2 ^ 63) \<le> i \<and> i < 2 ^ 63"

lemma PackKey_inj: "PackKey p w i = PackKey q v j \<Longrightarrow> int64 i \<Longrightarrow> int64 j \<Longrightarrow> i = j"
proof -
  assume eq: "PackKey p w i = PackKey q v j" and b: "int64 i" "int64 j"
  have "after_last_any [CHR ''/''] (PackKey p w i) = itoa_int i" for p w i
  proof -
    have "after_last_any [CHR ''/''] (a @ CHR ''/'' # itoa_int i) = itoa_int i" for a
      using itoa_int_plain [of i] by (simp add: after_last_any_append after_last_any_id plain_part_def)
    moreover have "PackKey p w i = (''events/'' @ itoa_int p @ ''/'' @ date8 w) @ CHR ''/'' # itoa_int i"
      by (simp add: PackKey_def)
    ultimately show ?thesis by metis
  qed
  with eq have "itoa_int i = itoa_int j" by metis
  with b show "i = j" by (auto simp: int64_def intro: itoa_int_inj)
qed

section \<open>The store\<close>

datatype blob_error = ErrNotFound | InvalidKey | OutsideRange | BlobFailed

text \<open>
  What the clients of the store rely on: an accepted object reads back, whole and by range; writing and
  deleting leave the other keys alone; deleting is idempotent and never an error.
\<close>

locale blob_store =
  fixes put :: "string \<Rightarrow> string \<Rightarrow> 'b \<Rightarrow> blob_error + 'b"
    and get :: "string \<Rightarrow> 'b \<Rightarrow> blob_error + string"
    and get_range :: "string \<Rightarrow> int \<Rightarrow> int \<Rightarrow> 'b \<Rightarrow> blob_error + string"
    and remove :: "string \<Rightarrow> 'b \<Rightarrow> 'b"
  assumes put_ok: "checkKey k \<Longrightarrow> \<exists>b'. put k d b = Inr b'"
    and get_put: "put k d b = Inr b' \<Longrightarrow> get k b' = Inr d"
    and get_put_other: "put k d b = Inr b' \<Longrightarrow> k' \<noteq> k \<Longrightarrow> get k' b' = get k' b"
    and get_remove: "get k (remove k b) = Inl ErrNotFound"
    and get_remove_other: "k' \<noteq> k \<Longrightarrow> get k' (remove k b) = get k' b"
    and range_slice: "get k b = Inr d \<Longrightarrow> 0 \<le> off \<Longrightarrow> 0 \<le> n \<Longrightarrow> off + n \<le> int (length d) \<Longrightarrow>
      get_range k off n b = Inr (take (nat n) (drop (nat off) d))"
    and range_missing: "get k b = Inl e \<Longrightarrow> get_range k off n b = Inl e"
begin

text \<open>The parts of an object written in one piece read back by their places.\<close>

lemma part_reads_back:
  assumes "put k (concat (take i ps) @ ps ! i @ rest) b = Inr b'"
  shows "get_range k (int (length (concat (take i ps)))) (int (length (ps ! i))) b' = Inr (ps ! i)"
  using range_slice [OF get_put [OF assms], of "int (length (concat (take i ps)))" "int (length (ps ! i))"] by simp

lemma range_put_other: "put k d b = Inr b' \<Longrightarrow> get k' b = Inr d' \<Longrightarrow> k' \<noteq> k \<Longrightarrow> 0 \<le> off \<Longrightarrow> 0 \<le> n \<Longrightarrow>
    off + n \<le> int (length d') \<Longrightarrow> get_range k' off n b' = get_range k' off n b"
  using range_slice [of k' b d' off n] range_slice [of k' b' d' off n] get_put_other [of k d b b' k'] by simp

end

type_synonym memory = "string \<rightharpoonup> string"

definition Put :: "string \<Rightarrow> string \<Rightarrow> memory \<Rightarrow> blob_error + memory" where
  "Put key data m = (if \<not> checkKey key then Inl InvalidKey else Inr (m(key \<mapsto> data)))"

definition Get :: "string \<Rightarrow> memory \<Rightarrow> blob_error + string" where
  "Get key m = (case m key of None \<Rightarrow> Inl ErrNotFound | Some d \<Rightarrow> Inr d)"

definition GetRange :: "string \<Rightarrow> int \<Rightarrow> int \<Rightarrow> memory \<Rightarrow> blob_error + string" where
  "GetRange key off n m =
     (case m key of
        None \<Rightarrow> Inl ErrNotFound
      | Some d \<Rightarrow> if off < 0 \<or> n < 0 \<or> int (length d) < off + n then Inl OutsideRange
                  else Inr (take (nat n) (drop (nat off) d)))"

definition Delete :: "string \<Rightarrow> memory \<Rightarrow> memory" where
  "Delete key m = m(key := None)"

interpretation memory: blob_store Put Get GetRange Delete
  by unfold_locales (auto simp: Put_def Get_def GetRange_def Delete_def split: option.splits if_splits)

end
