(* ===== verification/Packs.thy ===== *)
theory Packs
  imports Blobs EventStore
begin

text \<open>
  Event payloads in the blob store: the spool, the packs built from it, each packed event's place, the
  way a payload is read back and the expiry of a week's packs (\<open>internal/store/packs.go\<close>,
  \<open>internal/store/spool.go\<close>). Any number of packers, writers and sweeps run together and can stop at
  any point; the interleavings are a step relation over the tables, the objects and the packs in flight.
\<close>

section \<open>The tables\<close>

text \<open>A spool row as \<open>InsertEvents\<close> writes it, with the column that defaults to \<open>now()\<close>.\<close>

record spool_entry = spool_row +
  sp_created_at :: time

abbreviation entry_key :: "spool_entry \<Rightarrow> event_key" where
  "entry_key e \<equiv> (sl_project e, sl_event_id e, sl_occurred_at e)"

record pack =
  pa_id :: int
  pa_project :: project_id
  pa_week :: time
  pa_bytes :: int

record place =
  pl_project :: project_id
  pl_event_id :: id_text
  pl_occurred_at :: time
  pl_pack_id :: int
  pl_offset :: int
  pl_len :: int

abbreviation place_key :: "place \<Rightarrow> event_key" where
  "place_key p \<equiv> (pl_project p, pl_event_id p, pl_occurred_at p)"

record pack_db =
  pk_spool :: "spool_entry list"
  pk_packs :: "pack list"
  pk_places :: "place list"
  pk_next :: int
  pk_blobs :: memory

section \<open>Statements\<close>

definition spool_payload :: "spool_entry \<Rightarrow> pack_db \<Rightarrow> pack_db" where
  "spool_payload e db = db\<lparr>pk_spool := insert_nothing entry_key e (pk_spool db)\<rparr>"

record spool_group =
  sg_project :: project_id
  sg_week :: time
  sg_bytes :: int
  sg_oldest :: time

abbreviation entry_group :: "spool_entry \<Rightarrow> project_id \<times> time" where
  "entry_group e \<equiv> (sl_project e, weekStart (sl_occurred_at e))"

definition SpoolGroups :: "pack_db \<Rightarrow> spool_group list" where
  "SpoolGroups db =
     sort_key sg_oldest (map (\<lambda>k. let es = filter (\<lambda>e. entry_group e = k) (pk_spool db)
         in \<lparr>sg_project = fst k, sg_week = snd k, sg_bytes = sum_list (map (\<lambda>e. int (length (sl_data e))) es),
             sg_oldest = Min (set (map sp_created_at es))\<rparr>)
       (remdups (map entry_group (pk_spool db))))"

text \<open>A UUID compares like its lower-case text.\<close>

definition SpoolRows :: "pack_db \<Rightarrow> project_id \<Rightarrow> time \<Rightarrow> time \<Rightarrow> nat \<Rightarrow> spool_entry list" where
  "SpoolRows db pid from_t to_t limit =
     take limit (sort_key sl_occurred_at (sort_key sl_event_id
       (filter (\<lambda>e. sl_project e = pid \<and> from_t \<le> sl_occurred_at e \<and> sl_occurred_at e < to_t) (pk_spool db))))"

definition InsertPack :: "project_id \<Rightarrow> time \<Rightarrow> pack_db \<Rightarrow> (int \<times> pack_db) option" where
  "InsertPack pid wk db =
     (if pk_next db < 2 ^ 63
      then Some (pk_next db, db\<lparr>pk_packs := pk_packs db @ [\<lparr>pa_id = pk_next db, pa_project = pid, pa_week = wk, pa_bytes = 0\<rparr>],
                                pk_next := pk_next db + 1\<rparr>)
      else None)"

definition SetPackBytes :: "int \<Rightarrow> int \<Rightarrow> pack_db \<Rightarrow> pack_db" where
  "SetPackBytes i n db = db\<lparr>pk_packs := update_where (\<lambda>p. pa_id p = i) (\<lambda>p. p\<lparr>pa_bytes := n\<rparr>) (pk_packs db)\<rparr>"

text \<open>The places of a deleted pack go with it (\<open>ON DELETE CASCADE\<close>).\<close>

definition DeletePack :: "int \<Rightarrow> pack_db \<Rightarrow> pack_db" where
  "DeletePack i db = db\<lparr>pk_packs := delete_where (\<lambda>p. pa_id p = i) (pk_packs db),
                        pk_places := delete_where (\<lambda>p. pl_pack_id p = i) (pk_places db)\<rparr>"

text \<open>A place of a pack that is not there violates the foreign key.\<close>

definition InsertEventPacks :: "place list \<Rightarrow> pack_db \<Rightarrow> pack_db option" where
  "InsertEventPacks ps db =
     (if list_all (\<lambda>p. pl_pack_id p \<in> pa_id ` set (pk_packs db)) ps
      then Some (db\<lparr>pk_places := fold (upsert place_key (\<lambda>old x. x)) ps (pk_places db)\<rparr>) else None)"

definition DeleteSpoolRows :: "event_key list \<Rightarrow> pack_db \<Rightarrow> pack_db" where
  "DeleteSpoolRows ks db = db\<lparr>pk_spool := delete_where (\<lambda>e. entry_key e \<in> set ks) (pk_spool db)\<rparr>"

section \<open>Building a pack\<close>

definition PackBytes :: nat where "PackBytes = 8 * 2 ^ 20"
definition PackAge :: duration where "PackAge = 5 * minute"
definition packRows :: nat where "packRows = 4096"

text \<open>The rows that go in: until the pack is full; a lone oversized payload still goes in.\<close>

fun fill :: "nat \<Rightarrow> spool_entry list \<Rightarrow> spool_entry list" where
  "fill n [] = []"
| "fill n (r # rs) =
     (if 0 < n \<and> PackBytes < n + length (sl_data r) then [] else r # fill (n + length (sl_data r)) rs)"

fun places_from :: "int \<Rightarrow> nat \<Rightarrow> spool_entry list \<Rightarrow> place list" where
  "places_from i n [] = []"
| "places_from i n (r # rs) =
     \<lparr>pl_project = sl_project r, pl_event_id = sl_event_id r, pl_occurred_at = sl_occurred_at r, pl_pack_id = i,
      pl_offset = wrap32 (int n), pl_len = wrap32 (int (length (sl_data r)))\<rparr> # places_from i (n + length (sl_data r)) rs"

definition pack_bytes :: "spool_entry list \<Rightarrow> string" where
  "pack_bytes rows = concat (map sl_data rows)"

definition read_group :: "project_id \<Rightarrow> time \<Rightarrow> pack_db \<Rightarrow> spool_entry list" where
  "read_group pid wk db = fill 0 (SpoolRows db pid wk (wk + 7 * 24 * hour) packRows)"

text \<open>The transaction that makes the pack the payloads' place.\<close>

definition commit_pack :: "int \<Rightarrow> spool_entry list \<Rightarrow> pack_db \<Rightarrow> pack_db option" where
  "commit_pack i rows db =
     map_option (\<lambda>db1. SetPackBytes i (int (length (pack_bytes rows))) (DeleteSpoolRows (map entry_key rows) db1))
       (InsertEventPacks (places_from i 0 rows) db)"

definition delete_object :: "string \<Rightarrow> pack_db \<Rightarrow> pack_db" where
  "delete_object key db = db\<lparr>pk_blobs := Delete key (pk_blobs db)\<rparr>"

datatype pack_error = PackBlob blob_error | PackDatabase

text \<open>\<open>down key\<close>: the store refuses the PUT.\<close>

definition put_pack :: "(string \<Rightarrow> bool) \<Rightarrow> string \<Rightarrow> string \<Rightarrow> memory \<Rightarrow> blob_error + memory" where
  "put_pack down key data m = (if down key then Inl BlobFailed else Put key data m)"

definition packOne :: "(string \<Rightarrow> bool) \<Rightarrow> spool_group \<Rightarrow> pack_db \<Rightarrow> (pack_error + nat) \<times> pack_db" where
  "packOne down g db =
     (let rows = read_group (sg_project g) (sg_week g) db in
      if rows = [] then (Inr 0, db)
      else (case InsertPack (sg_project g) (sg_week g) db of
              None \<Rightarrow> (Inl PackDatabase, db)
            | Some (i, db1) \<Rightarrow>
                let key = PackKey (sg_project g) (sg_week g) i in
                (case put_pack down key (pack_bytes rows) (pk_blobs db1) of
                   Inl e \<Rightarrow> (Inl (PackBlob e), DeletePack i db1)
                 | Inr b \<Rightarrow>
                     (case commit_pack i rows (db1\<lparr>pk_blobs := b\<rparr>) of
                        None \<Rightarrow> (Inl PackDatabase, DeletePack i (delete_object key (db1\<lparr>pk_blobs := b\<rparr>)))
                      | Some db2 \<Rightarrow> (Inr (length rows), db2)))))"

text \<open>One pass over the groups; an error ends it with what was packed so far.\<close>

fun pack_groups :: "(string \<Rightarrow> bool) \<Rightarrow> time \<Rightarrow> bool \<Rightarrow> spool_group list \<Rightarrow> nat \<Rightarrow> pack_db \<Rightarrow> pack_error option \<times> nat \<times> pack_db" where
  "pack_groups down now force [] n db = (None, n, db)"
| "pack_groups down now force (g # gs) n db =
     (if \<not> force \<and> sg_bytes g < int PackBytes \<and> now - sg_oldest g < PackAge
      then pack_groups down now force gs n db
      else (case packOne down g db of
              (Inl e, db') \<Rightarrow> (Some e, n, db')
            | (Inr k, db') \<Rightarrow> pack_groups down now force gs (n + k) db'))"

text \<open>The loop: pass after pass, until one packs nothing. Every pass that goes on leaves a smaller spool.\<close>

lemma fill_keeps_first: "fill 0 (r # rs) \<noteq> []"
  by simp

lemma fill_subset: "set (fill n rs) \<subseteq> set rs"
  by (induction n rs rule: fill.induct) auto

lemma read_group_subset: "set (read_group pid wk db) \<subseteq> set (pk_spool db)"
proof -
  have "set (SpoolRows db pid wk (wk + 7 * 24 * hour) packRows) \<subseteq> set (pk_spool db)"
    unfolding SpoolRows_def by (rule subset_trans [OF set_take_subset]) simp
  then show ?thesis unfolding read_group_def by (rule subset_trans [OF fill_subset])
qed

lemma commit_spool: "commit_pack i rows db = Some db' \<Longrightarrow>
    pk_spool db' = filter (\<lambda>e. entry_key e \<notin> set (map entry_key rows)) (pk_spool db)
    \<and> pk_next db' = pk_next db"
  by (auto simp: commit_pack_def InsertEventPacks_def SetPackBytes_def DeleteSpoolRows_def delete_where_def split: if_splits)

lemma packOne_cases:
  assumes "packOne down g db = (r, db')"
  obtains (idle) "r = Inr 0" "read_group (sg_project g) (sg_week g) db = []" "db' = db"
  | (packed) rows where "rows = read_group (sg_project g) (sg_week g) db" "rows \<noteq> []" "r = Inr (length rows)"
      "pk_spool db' = filter (\<lambda>e. entry_key e \<notin> set (map entry_key rows)) (pk_spool db)" "pk_next db' = pk_next db + 1"
  | (failed) e where "r = Inl e" "pk_spool db' = pk_spool db"
proof (cases "read_group (sg_project g) (sg_week g) db = []")
  case True
  with assms have "r = Inr 0" and "db' = db" by (simp_all add: packOne_def)
  then show thesis using True by (intro idle)
next
  case False
  show thesis
  proof (cases r)
    case (Inl e)
    with assms False have "pk_spool db' = pk_spool db"
      by (auto simp: packOne_def InsertPack_def DeletePack_def delete_object_def Let_def
          split: option.splits sum.splits if_splits)
    with Inl show thesis by (intro failed)
  next
    case (Inr k)
    then obtain db1 where "commit_pack (pk_next db) (read_group (sg_project g) (sg_week g) db) db1 = Some db'"
      "k = length (read_group (sg_project g) (sg_week g) db)" "pk_spool db1 = pk_spool db" "pk_next db1 = pk_next db + 1"
      using assms False
      by (auto simp: packOne_def InsertPack_def Let_def split: option.splits sum.splits if_splits)
    with commit_spool [OF this(1)] Inr False show thesis by (intro packed) auto
  qed
qed

lemma packed_shrinks:
  assumes "rows \<noteq> []" and "set rows \<subseteq> set (pk_spool db)"
  shows "length (filter (\<lambda>e. entry_key e \<notin> set (map entry_key rows)) (pk_spool db)) < length (pk_spool db)"
proof -
  obtain e where "e \<in> set rows" using assms(1) by (cases rows) auto
  with assms(2) show ?thesis by (intro length_filter_less [of e]) auto
qed

lemma packOne_shrinks:
  assumes "packOne down g db = (r, db')"
  shows "length (pk_spool db') \<le> length (pk_spool db)"
    and "r = Inr k \<Longrightarrow> 0 < k \<Longrightarrow> length (pk_spool db') < length (pk_spool db)"
  using assms packed_shrinks [OF _ read_group_subset]
  by (auto elim!: packOne_cases simp: less_imp_le)

lemma pack_groups_shrink:
  "pack_groups down now force gs n db = (r, m, db') \<Longrightarrow>
     length (pk_spool db') \<le> length (pk_spool db) \<and> n \<le> m \<and> (n < m \<longrightarrow> length (pk_spool db') < length (pk_spool db))"
proof (induction gs arbitrary: n db)
  case (Cons g gs)
  obtain p db1 where p: "packOne down g db = (p, db1)" by (cases "packOne down g db")
  note le = packOne_shrinks(1) [OF p] and lt = packOne_shrinks(2) [OF p]
  show ?case
  proof (cases "\<not> force \<and> sg_bytes g < int PackBytes \<and> now - sg_oldest g < PackAge")
    case True
    with Cons show ?thesis by simp
  next
    case False
    show ?thesis
    proof (cases p)
      case (Inl e)
      with False p le Cons.prems show ?thesis by (auto simp del: de_Morgan_conj)
    next
      case (Inr k)
      with False p Cons.prems have "pack_groups down now force gs (n + k) db1 = (r, m, db')"
        by (auto simp del: de_Morgan_conj)
      from Cons.IH [OF this] le lt [OF Inr] show ?thesis by (cases "k = 0") auto
    qed
  qed
qed simp

function pack_loop :: "(string \<Rightarrow> bool) \<Rightarrow> time \<Rightarrow> bool \<Rightarrow> nat \<Rightarrow> pack_db \<Rightarrow> pack_error option \<times> nat \<times> pack_db" where
  "pack_loop down now force packed db =
     (case pack_groups down now force (SpoolGroups db) 0 db of
        (Some e, n, db') \<Rightarrow> (Some e, packed + n, db')
      | (None, n, db') \<Rightarrow> if n = 0 then (None, packed, db') else pack_loop down now force (packed + n) db')"
  by pat_completeness auto

termination pack_loop
  by (relation "measure (\<lambda>(down, now, force, packed, db). length (pk_spool db))")
    (auto dest!: pack_groups_shrink [OF sym])

declare pack_loop.simps [simp del]

text \<open>\<open>Pack\<close> and \<open>Drain\<close>; without a store there is nothing to do.\<close>

definition Pack :: "bool \<Rightarrow> (string \<Rightarrow> bool) \<Rightarrow> time \<Rightarrow> pack_db \<Rightarrow> pack_error option \<times> nat \<times> pack_db" where
  "Pack blobs down now db = (if blobs then pack_loop down now False 0 db else (None, 0, db))"

definition Drain :: "bool \<Rightarrow> (string \<Rightarrow> bool) \<Rightarrow> time \<Rightarrow> pack_db \<Rightarrow> pack_error option \<times> nat \<times> pack_db" where
  "Drain blobs down now db = (if blobs then pack_loop down now True 0 db else (None, 0, db))"

section \<open>Reading\<close>

record payload_location =
  lo_spooled :: "string option"
  lo_place :: "place option"
  lo_week :: "time option"

definition PayloadLocation :: "pack_db \<Rightarrow> event_key \<Rightarrow> payload_location" where
  "PayloadLocation db k =
     (let p = lookup_by place_key k (pk_places db)
      in \<lparr>lo_spooled = map_option sl_data (lookup_by entry_key k (pk_spool db)), lo_place = p,
          lo_week = Option.bind p (\<lambda>p. map_option pa_week (lookup_by pa_id (pl_pack_id p) (pk_packs db)))\<rparr>)"

text \<open>
  \<open>Payload\<close> of an event whose column is empty, before \<open>Gunzip\<close>: the spool row, else the slice of its
  pack; \<open>None\<close> when it has none or its week expired meanwhile. A pack row always has its week.
\<close>

definition stored_payload :: "pack_db \<Rightarrow> event_key \<Rightarrow> blob_error + string option" where
  "stored_payload db k =
     (let loc = PayloadLocation db k in
      case lo_spooled loc of
        Some (c # cs) \<Rightarrow> Inr (Some (c # cs))
      | _ \<Rightarrow>
        (case lo_place loc of
           None \<Rightarrow> Inr None
         | Some p \<Rightarrow>
             (case GetRange (PackKey (fst k) (case lo_week loc of Some w \<Rightarrow> w | None \<Rightarrow> zero_time) (pl_pack_id p))
                     (pl_offset p) (pl_len p) (pk_blobs db) of
                Inl e \<Rightarrow> if e = ErrNotFound then Inr None else Inl e
              | Inr gz \<Rightarrow> Inr (Some gz))))"

datatype payload_error = PayloadBlob blob_error | BadGzip

text \<open>\<open>Payload\<close>: the column first; \<open>gunzip\<close> decodes what was found.\<close>

definition Payload :: "(string \<Rightarrow> string option) \<Rightarrow> pack_db \<Rightarrow> event_row \<Rightarrow> payload_error + string option" where
  "Payload gunzip db e =
     (let decode = (\<lambda>gz. case gunzip gz of None \<Rightarrow> Inl BadGzip | Some raw \<Rightarrow> Inr (Some raw)) in
      case er_payload e of
        Some (c # cs) \<Rightarrow> decode (c # cs)
      | _ \<Rightarrow>
        (case stored_payload db (event_key_of e) of
           Inl x \<Rightarrow> Inl (PayloadBlob x)
         | Inr None \<Rightarrow> Inr None
         | Inr (Some gz) \<Rightarrow> decode gz))"

section \<open>Expiry\<close>

text \<open>\<open>week + 7 <= cutoff::date\<close>, in UTC.\<close>

definition week_expired :: "time \<Rightarrow> time \<Rightarrow> bool" where
  "week_expired cutoff w \<longleftrightarrow> w + 7 * day \<le> truncate_time cutoff day"

definition ExpiredPacks :: "time \<Rightarrow> pack_db \<Rightarrow> pack list" where
  "ExpiredPacks cutoff db = filter (\<lambda>p. week_expired cutoff (pa_week p)) (pk_packs db)"

definition ExpireSpool :: "time \<Rightarrow> pack_db \<Rightarrow> nat \<times> pack_db" where
  "ExpireSpool cutoff db =
     (let hit = (\<lambda>e. week_expired cutoff (weekStart (sl_occurred_at e)))
      in (length (filter hit (pk_spool db)), db\<lparr>pk_spool := delete_where hit (pk_spool db)\<rparr>))"

text \<open>\<open>stuck key\<close>: the store does not delete the object; its row is kept for the next sweep.\<close>

fun expire_packs :: "(string \<Rightarrow> bool) \<Rightarrow> pack list \<Rightarrow> pack_db \<Rightarrow> nat \<times> pack_db" where
  "expire_packs stuck [] db = (0, db)"
| "expire_packs stuck (p # ps) db =
     (let key = PackKey (pa_project p) (pa_week p) (pa_id p) in
      if stuck key then expire_packs stuck ps db
      else (case expire_packs stuck ps (DeletePack (pa_id p) (delete_object key db)) of (n, db') \<Rightarrow> (n + 1, db')))"

definition ExpirePacks :: "(string \<Rightarrow> bool) \<Rightarrow> time \<Rightarrow> pack_db \<Rightarrow> nat \<times> pack_db" where
  "ExpirePacks stuck cutoff db =
     (case expire_packs stuck (ExpiredPacks cutoff db) db of (n, db1) \<Rightarrow> (n, snd (ExpireSpool cutoff db1)))"

definition ProjectPacks :: "project_id \<Rightarrow> pack_db \<Rightarrow> (int \<times> time) list" where
  "ProjectPacks pid db = map (\<lambda>p. (pa_id p, pa_week p)) (filter (\<lambda>p. pa_project p = pid) (pk_packs db))"

definition SpoolCount :: "pack_db \<Rightarrow> nat" where
  "SpoolCount db = length (pk_spool db)"

text \<open>The objects of a deleted project, by the packs read before its rows went.\<close>

definition DeleteProjectPacks :: "(string \<Rightarrow> bool) \<Rightarrow> project_id \<Rightarrow> (int \<times> time) list \<Rightarrow> pack_db \<Rightarrow> pack_db" where
  "DeleteProjectPacks stuck pid ps db =
     fold (\<lambda>(i, w) db. let key = PackKey pid w i in if stuck key then db else delete_object key db) ps db"

section \<open>Reading through a cache of packs\<close>

text \<open>\<open>PackReader\<close>: whole packs by id, at most eight, the least recently added dropped first.\<close>

record pack_reader =
  rd_packs :: "int \<rightharpoonup> string"
  rd_order :: "int list"

definition packReaderCap :: nat where "packReaderCap = 8"

definition NewPackReader :: pack_reader where
  "NewPackReader = \<lparr>rd_packs = (\<lambda>i. None), rd_order = []\<rparr>"

datatype reader_error = ReaderBlob blob_error | OutsidePack | SlicePanic

definition cut_slice :: "string \<Rightarrow> int \<Rightarrow> int \<Rightarrow> reader_error + string" where
  "cut_slice data off n =
     (if off < 0 \<or> int (length data) < off + n then Inl OutsidePack
      else if n < 0 then Inl SlicePanic
      else Inr (take (nat n) (drop (nat off) data)))"

definition add_pack :: "int \<Rightarrow> string \<Rightarrow> pack_reader \<Rightarrow> pack_reader" where
  "add_pack i data r =
     (let r1 = (if length (rd_order r) = packReaderCap
                then r\<lparr>rd_packs := (rd_packs r)(hd (rd_order r) := None), rd_order := tl (rd_order r)\<rparr> else r)
      in r1\<lparr>rd_packs := (rd_packs r1)(i \<mapsto> data), rd_order := rd_order r1 @ [i]\<rparr>)"

definition slice :: "memory \<Rightarrow> int \<Rightarrow> string \<Rightarrow> int \<Rightarrow> int \<Rightarrow> pack_reader \<Rightarrow> (reader_error + string) \<times> pack_reader" where
  "slice m i key off n r =
     (case rd_packs r i of
        Some data \<Rightarrow> (cut_slice data off n, r)
      | None \<Rightarrow>
          (case Get key m of
             Inl e \<Rightarrow> (Inl (ReaderBlob e), r)
           | Inr data \<Rightarrow> (cut_slice data off n, add_pack i data r)))"

text \<open>
  A cache whose packs are the objects' bytes answers what a ranged GET would, and stays one (objects
  are never overwritten: a pack's key holds its id). \<open>key_of\<close> names the object of a pack.
\<close>

definition coherent :: "memory \<Rightarrow> (int \<Rightarrow> string) \<Rightarrow> pack_reader \<Rightarrow> bool" where
  "coherent m key_of r \<longleftrightarrow> (\<forall>i d. rd_packs r i = Some d \<longrightarrow> m (key_of i) = Some d)
     \<and> length (rd_order r) \<le> packReaderCap"

lemma coherent_slice:
  assumes "coherent m key_of r" and "slice m i (key_of i) off n r = (res, r')"
  shows "coherent m key_of r'"
    and "0 \<le> n \<Longrightarrow> res = (case GetRange (key_of i) off n m of
           Inr d \<Rightarrow> Inr d | Inl e \<Rightarrow> Inl (if e = ErrNotFound then ReaderBlob ErrNotFound else OutsidePack))"
proof -
  have add: "coherent m key_of (add_pack i d r)" if "m (key_of i) = Some d" for d
    using assms(1) that by (auto simp: coherent_def add_pack_def packReaderCap_def Let_def split: if_splits)
  show "coherent m key_of r'"
    using assms add by (auto simp: slice_def Get_def split: option.splits)
  show "0 \<le> n \<Longrightarrow> res = (case GetRange (key_of i) off n m of
           Inr d \<Rightarrow> Inr d | Inl e \<Rightarrow> Inl (if e = ErrNotFound then ReaderBlob ErrNotFound else OutsidePack))"
    using assms by (auto simp: slice_def Get_def GetRange_def cut_slice_def coherent_def split: option.splits)
qed

lemma coherent_new: "coherent m key_of NewPackReader"
  by (simp add: coherent_def NewPackReader_def)

end
