(* ===== verification/Accounts.thy ===== *)
theory Accounts
  imports Complex_Main GoStrings Prelude
begin

text \<open>
  Projects with their DSN keys, users with their sessions, and API keys (\<open>internal/store/projects.go\<close>,
  \<open>internal/store/auth.go\<close>), and how ingest resolves a DSN key with its cache (\<open>Project\<close> of
  \<open>internal/ingest/ingest.go\<close>). A UNIQUE violation is \<open>None\<close>.
\<close>

section \<open>Projects and their keys\<close>

record project =
  pj_id :: int
  pj_slug :: string
  pj_name :: string
  pj_platform :: "string option"
  pj_public_key :: string
  pj_sample_rate :: rat
  pj_created_at :: time

record project_key =
  kk_id :: int
  kk_project :: int
  kk_public_key :: string
  kk_retired_at :: time
  kk_last_used_at :: "time option"

record project_tables =
  pt_projects :: "project list"
  pt_next :: int
  pt_keys :: "project_key list"
  pt_next_key :: int

definition projects_unique :: "project list \<Rightarrow> bool" where
  "projects_unique t \<longleftrightarrow> unique_by pj_slug t \<and> unique_by pj_public_key t"

definition ListProjects :: "project_tables \<Rightarrow> project list" where
  "ListProjects t = sort_key pj_name (pt_projects t)"

definition GetProject :: "project_tables \<Rightarrow> string \<Rightarrow> project option" where
  "GetProject t slug = lookup_by pj_slug slug (pt_projects t)"

definition GetProjectByID :: "project_tables \<Rightarrow> int \<Rightarrow> project option" where
  "GetProjectByID t i = lookup_by pj_id i (pt_projects t)"

definition GetProjectByKey :: "project_tables \<Rightarrow> string \<Rightarrow> project option" where
  "GetProjectByKey t k = lookup_by pj_public_key k (pt_projects t)"

definition CreateProject ::
  "time \<Rightarrow> string \<Rightarrow> string \<Rightarrow> string option \<Rightarrow> string \<Rightarrow> project_tables \<Rightarrow> (project \<times> project_tables) option" where
  "CreateProject now slug name platform k t =
     (let p = \<lparr>pj_id = pt_next t, pj_slug = slug, pj_name = name, pj_platform = platform, pj_public_key = k,
               pj_sample_rate = 1, pj_created_at = now\<rparr>
      in if projects_unique (pt_projects t @ [p])
         then Some (p, t\<lparr>pt_projects := pt_projects t @ [p], pt_next := pt_next t + 1\<rparr>) else None)"

record project_update =
  pu_id :: int
  pu_name :: string
  pu_platform :: "string option"
  pu_sample_rate :: rat

definition UpdateProject :: "project_update \<Rightarrow> project_tables \<Rightarrow> project option \<times> project_tables" where
  "UpdateProject u t =
     (let set_fields = (\<lambda>p. p\<lparr>pj_name := pu_name u, pj_platform := pu_platform u, pj_sample_rate := pu_sample_rate u\<rparr>)
      in (map_option set_fields (GetProjectByID t (pu_id u)),
          t\<lparr>pt_projects := update_where (\<lambda>p. pj_id p = pu_id u) set_fields (pt_projects t)\<rparr>))"

text \<open>The keys of a deleted project go with it.\<close>

definition DeleteProject :: "int \<Rightarrow> project_tables \<Rightarrow> project_tables" where
  "DeleteProject i t = t\<lparr>pt_projects := delete_where (\<lambda>p. pj_id p = i) (pt_projects t),
                         pt_keys := delete_where (\<lambda>k. kk_project k = i) (pt_keys t)\<rparr>"

text \<open>Pushing the current key of a project into \<open>project_keys\<close>; nothing when there is no such project.\<close>

definition RetireProjectKey :: "time \<Rightarrow> int \<Rightarrow> project_tables \<Rightarrow> project_tables option" where
  "RetireProjectKey now i t =
     (case GetProjectByID t i of
        None \<Rightarrow> Some t
      | Some p \<Rightarrow>
          if pj_public_key p \<in> kk_public_key ` set (pt_keys t) then None
          else Some (t\<lparr>pt_keys := pt_keys t @ [\<lparr>kk_id = pt_next_key t, kk_project = i, kk_public_key = pj_public_key p,
                                                kk_retired_at = now, kk_last_used_at = None\<rparr>],
                       pt_next_key := pt_next_key t + 1\<rparr>))"

definition ListProjectKeys :: "project_tables \<Rightarrow> int \<Rightarrow> project_key list" where
  "ListProjectKeys t i = sort_key (\<lambda>k. - kk_retired_at k) (filter (\<lambda>k. kk_project k = i) (pt_keys t))"

definition DeleteProjectKey :: "int \<Rightarrow> int \<Rightarrow> project_tables \<Rightarrow> nat \<times> project_tables" where
  "DeleteProjectKey pid i t =
     (let hit = (\<lambda>k. kk_project k = pid \<and> kk_id k = i)
      in (length (filter hit (pt_keys t)), t\<lparr>pt_keys := delete_where hit (pt_keys t)\<rparr>))"

text \<open>The join: the retired key's row and its project.\<close>

definition GetProjectByRetiredKey :: "project_tables \<Rightarrow> string \<Rightarrow> (int \<times> project) option" where
  "GetProjectByRetiredKey t k =
     (case lookup_by kk_public_key k (pt_keys t) of
        None \<Rightarrow> None
      | Some r \<Rightarrow> map_option (\<lambda>p. (kk_id r, p)) (GetProjectByID t (kk_project r)))"

definition TouchProjectKey :: "time \<Rightarrow> int \<Rightarrow> project_tables \<Rightarrow> project_tables" where
  "TouchProjectKey now i t =
     t\<lparr>pt_keys := update_where (\<lambda>k. kk_id k = i \<and> (case kk_last_used_at k of None \<Rightarrow> True | Some u \<Rightarrow> u < now - minute))
                   (\<lambda>k. k\<lparr>kk_last_used_at := Some now\<rparr>) (pt_keys t)\<rparr>"

text \<open>
  \<open>RotateProjectKey\<close>, one transaction: \<open>None\<close> when a key is not unique or there is no such project
  (the UPDATE returns no row).
\<close>

definition RotateProjectKey :: "time \<Rightarrow> int \<Rightarrow> string \<Rightarrow> project_tables \<Rightarrow> (project \<times> project_tables) option" where
  "RotateProjectKey now i k t =
     (case RetireProjectKey now i t of
        None \<Rightarrow> None
      | Some t1 \<Rightarrow>
          let rows = update_where (\<lambda>p. pj_id p = i) (\<lambda>p. p\<lparr>pj_public_key := k\<rparr>) (pt_projects t1)
          in if \<not> projects_unique rows then None
             else map_option (\<lambda>p. (p\<lparr>pj_public_key := k\<rparr>, t1\<lparr>pt_projects := rows\<rparr>)) (GetProjectByID t1 i))"

section \<open>Users and sessions\<close>

record user =
  usr_id :: int
  usr_email :: string
  usr_name :: string
  usr_password_hash :: string
  usr_created_at :: time

record user_session =
  uz_token_hash :: string
  uz_user :: int
  uz_expires_at :: time

record api_key =
  ak_id :: int
  ak_name :: string
  ak_hash :: string
  ak_prefix :: string
  ak_created_by :: "int option"
  ak_created_at :: time
  ak_last_used_at :: "time option"
  ak_revoked_at :: "time option"

record auth_tables =
  au_users :: "user list"
  au_next :: int
  au_sessions :: "user_session list"
  au_keys :: "api_key list"
  au_next_key :: int

definition CountUsers :: "auth_tables \<Rightarrow> nat" where
  "CountUsers t = length (au_users t)"

definition CreateUser :: "time \<Rightarrow> string \<Rightarrow> string \<Rightarrow> string \<Rightarrow> auth_tables \<Rightarrow> (user \<times> auth_tables) option" where
  "CreateUser now email name hash t =
     (if email \<in> usr_email ` set (au_users t) then None
      else let u = \<lparr>usr_id = au_next t, usr_email = email, usr_name = name, usr_password_hash = hash, usr_created_at = now\<rparr>
           in Some (u, t\<lparr>au_users := au_users t @ [u], au_next := au_next t + 1\<rparr>))"

text \<open>\<open>CreateFirstUser\<close>, under its lock: only while there is no user.\<close>

definition CreateFirstUser :: "time \<Rightarrow> string \<Rightarrow> string \<Rightarrow> string \<Rightarrow> auth_tables \<Rightarrow> user option \<times> auth_tables" where
  "CreateFirstUser now email name hash t =
     (if 0 < CountUsers t then (None, t)
      else case CreateUser now email name hash t of None \<Rightarrow> (None, t) | Some (u, t') \<Rightarrow> (Some u, t'))"

definition GetUserByEmail :: "auth_tables \<Rightarrow> string \<Rightarrow> user option" where
  "GetUserByEmail t email = lookup_by usr_email email (au_users t)"

definition ListUsers :: "auth_tables \<Rightarrow> user list" where
  "ListUsers t = sort_key usr_email (au_users t)"

definition SetUserPassword :: "int \<Rightarrow> string \<Rightarrow> auth_tables \<Rightarrow> nat \<times> auth_tables" where
  "SetUserPassword i hash t =
     (length (filter (\<lambda>u. usr_id u = i) (au_users t)),
      t\<lparr>au_users := update_where (\<lambda>u. usr_id u = i) (\<lambda>u. u\<lparr>usr_password_hash := hash\<rparr>) (au_users t)\<rparr>)"

text \<open>The sessions of a deleted user go with it; the keys it created lose their creator.\<close>

definition DeleteUser :: "int \<Rightarrow> auth_tables \<Rightarrow> nat \<times> auth_tables" where
  "DeleteUser i t =
     (length (filter (\<lambda>u. usr_id u = i) (au_users t)),
      t\<lparr>au_users := delete_where (\<lambda>u. usr_id u = i) (au_users t),
        au_sessions := delete_where (\<lambda>z. uz_user z = i) (au_sessions t),
        au_keys := update_where (\<lambda>k. ak_created_by k = Some i) (\<lambda>k. k\<lparr>ak_created_by := None\<rparr>) (au_keys t)\<rparr>)"

definition CreateUserSession :: "string \<Rightarrow> int \<Rightarrow> time \<Rightarrow> auth_tables \<Rightarrow> auth_tables option" where
  "CreateUserSession h i expires t =
     (if h \<in> uz_token_hash ` set (au_sessions t) \<or> i \<notin> usr_id ` set (au_users t) then None
      else Some (t\<lparr>au_sessions := au_sessions t @ [\<lparr>uz_token_hash = h, uz_user = i, uz_expires_at = expires\<rparr>]\<rparr>))"

definition GetUserSession :: "time \<Rightarrow> auth_tables \<Rightarrow> string \<Rightarrow> user option" where
  "GetUserSession now t h =
     (case find (\<lambda>z. uz_token_hash z = h \<and> now < uz_expires_at z) (au_sessions t) of
        None \<Rightarrow> None | Some z \<Rightarrow> lookup_by usr_id (uz_user z) (au_users t))"

definition DeleteUserSession :: "string \<Rightarrow> auth_tables \<Rightarrow> auth_tables" where
  "DeleteUserSession h t = t\<lparr>au_sessions := delete_where (\<lambda>z. uz_token_hash z = h) (au_sessions t)\<rparr>"

definition ExpireUserSessions :: "time \<Rightarrow> auth_tables \<Rightarrow> nat \<times> auth_tables" where
  "ExpireUserSessions now t =
     (length (filter (\<lambda>z. uz_expires_at z < now) (au_sessions t)),
      t\<lparr>au_sessions := delete_where (\<lambda>z. uz_expires_at z < now) (au_sessions t)\<rparr>)"

section \<open>API keys\<close>

definition CreateAPIKey ::
  "time \<Rightarrow> string \<Rightarrow> string \<Rightarrow> string \<Rightarrow> int option \<Rightarrow> auth_tables \<Rightarrow> (api_key \<times> auth_tables) option" where
  "CreateAPIKey now name hash pre created_by t =
     (if hash \<in> ak_hash ` set (au_keys t)
         \<or> (case created_by of None \<Rightarrow> False | Some i \<Rightarrow> i \<notin> usr_id ` set (au_users t)) then None
      else let k = \<lparr>ak_id = au_next_key t, ak_name = name, ak_hash = hash, ak_prefix = pre, ak_created_by = created_by,
                    ak_created_at = now, ak_last_used_at = None, ak_revoked_at = None\<rparr>
           in Some (k, t\<lparr>au_keys := au_keys t @ [k], au_next_key := au_next_key t + 1\<rparr>))"

definition ListAPIKeys :: "auth_tables \<Rightarrow> api_key list" where
  "ListAPIKeys t = sort_key ak_id (au_keys t)"

definition GetAPIKeyByHash :: "auth_tables \<Rightarrow> string \<Rightarrow> api_key option" where
  "GetAPIKeyByHash t h = find (\<lambda>k. ak_hash k = h \<and> ak_revoked_at k = None) (au_keys t)"

definition TouchAPIKey :: "time \<Rightarrow> int \<Rightarrow> auth_tables \<Rightarrow> auth_tables" where
  "TouchAPIKey now i t =
     t\<lparr>au_keys := update_where (\<lambda>k. ak_id k = i \<and> (case ak_last_used_at k of None \<Rightarrow> True | Some u \<Rightarrow> u < now - minute))
                   (\<lambda>k. k\<lparr>ak_last_used_at := Some now\<rparr>) (au_keys t)\<rparr>"

definition RevokeAPIKey :: "time \<Rightarrow> int \<Rightarrow> auth_tables \<Rightarrow> nat \<times> auth_tables" where
  "RevokeAPIKey now i t =
     (let hit = (\<lambda>k. ak_id k = i \<and> ak_revoked_at k = None)
      in (length (filter hit (au_keys t)), t\<lparr>au_keys := update_where hit (\<lambda>k. k\<lparr>ak_revoked_at := Some now\<rparr>) (au_keys t)\<rparr>))"

section \<open>Resolving a DSN key\<close>

text \<open>The lookups of \<open>Project\<close>: the current key of a project, else a retired one, whose use is recorded.\<close>

definition resolve_key :: "time \<Rightarrow> string \<Rightarrow> project_tables \<Rightarrow> project option \<times> project_tables" where
  "resolve_key now k t =
     (case GetProjectByKey t k of
        Some p \<Rightarrow> (Some p, t)
      | None \<Rightarrow>
          (case GetProjectByRetiredKey t k of
             None \<Rightarrow> (None, t)
           | Some (i, p) \<Rightarrow> (Some p, TouchProjectKey now i t)))"

definition keyCacheTTL :: duration where "keyCacheTTL = 10 * second"

type_synonym key_cache = "string \<rightharpoonup> project \<times> time"

text \<open>
  \<open>Project\<close>: \<open>path\<close> is the DSN path's project, \<open>k\<close> the request's key; \<open>None\<close> is
  \<open>errUnauthorized\<close>. The database lookup and the expiry written with it are one step here.
\<close>

definition Project :: "time \<Rightarrow> string \<Rightarrow> string \<Rightarrow> key_cache \<Rightarrow> project_tables \<Rightarrow> project option \<times> key_cache \<times> project_tables" where
  "Project now path k cache t =
     (let check = (\<lambda>p. if path \<noteq> [] \<and> path \<noteq> itoa_int (pj_id p) \<and> path \<noteq> pj_slug p then None else Some p) in
      if k = [] then (None, cache, t)
      else case cache k of
             Some (p, expires) \<Rightarrow>
               if now \<le> expires then (check p, cache, t)
               else (case resolve_key now k t of
                       (None, t') \<Rightarrow> (None, cache, t')
                     | (Some p, t') \<Rightarrow> (check p, cache(k \<mapsto> (p, now + keyCacheTTL)), t'))
           | None \<Rightarrow>
               (case resolve_key now k t of
                  (None, t') \<Rightarrow> (None, cache, t')
                | (Some p, t') \<Rightarrow> (check p, cache(k \<mapsto> (p, now + keyCacheTTL)), t')))"

section \<open>The invariant of the project tables\<close>

definition accounts_inv :: "project_tables \<Rightarrow> bool" where
  "accounts_inv t \<longleftrightarrow> projects_unique (pt_projects t) \<and> unique_by pj_id (pt_projects t)
     \<and> unique_by kk_public_key (pt_keys t)
     \<and> (\<forall>p \<in> set (pt_projects t). pj_id p < pt_next t)
     \<and> (\<forall>k \<in> set (pt_keys t). kk_project k \<in> pj_id ` set (pt_projects t))"

lemma image_update_where: "(\<And>x. g (f x) = g x) \<Longrightarrow> g ` set (update_where P f t) = g ` set t"
  using arg_cong [OF map_update_where [of P g f t], of set] by (simp only: list.set_map)

lemma unique_update: "(\<And>x. g (f x) = g x) \<Longrightarrow> unique_by g (update_where P f t) = unique_by g t"
  by (simp add: unique_by_def map_update_where)

lemma image_subset_of: "g ` set t \<subseteq> A \<longleftrightarrow> (\<forall>x \<in> set t. g x \<in> A)"
  by auto

definition ids_below :: "project_tables \<Rightarrow> bool" where
  "ids_below t \<longleftrightarrow> pj_id ` set (pt_projects t) \<subseteq> {i. i < pt_next t}
     \<and> kk_project ` set (pt_keys t) \<subseteq> pj_id ` set (pt_projects t)"

lemma accounts_inv_alt: "accounts_inv t \<longleftrightarrow> projects_unique (pt_projects t) \<and> unique_by pj_id (pt_projects t)
    \<and> unique_by kk_public_key (pt_keys t) \<and> ids_below t"
  by (auto simp: accounts_inv_def ids_below_def image_subset_of)

lemma CreateProject_inv [step_inv]:
  assumes "accounts_inv t" and "CreateProject now slug name pl k t = Some (p, t')"
  shows "accounts_inv t'"
proof -
  have u: "projects_unique (pt_projects t @ [p])" and t': "t' = t\<lparr>pt_projects := pt_projects t @ [p], pt_next := pt_next t + 1\<rparr>"
    and p: "pj_id p = pt_next t"
    using assms(2) by (auto simp: CreateProject_def Let_def split: if_splits)
  have "pt_next t \<notin> pj_id ` set (pt_projects t)" using assms(1) by (auto simp: accounts_inv_def)
  then show ?thesis using assms(1) u p by (auto simp: t' accounts_inv_def unique_by_def less_imp_le intro: less_trans)
qed

lemma UpdateProject_inv [step_inv]: "accounts_inv t \<Longrightarrow> accounts_inv (snd (UpdateProject u t))"
  by (simp add: accounts_inv_alt ids_below_def UpdateProject_def Let_def projects_unique_def unique_update image_update_where
      del: set_update_where)

lemma DeleteProject_inv [step_inv]: "accounts_inv t \<Longrightarrow> accounts_inv (DeleteProject i t)"
  by (auto simp: accounts_inv_def DeleteProject_def projects_unique_def unique_delete_where)

lemma DeleteProjectKey_inv [step_inv]: "accounts_inv t \<Longrightarrow> accounts_inv (snd (DeleteProjectKey pid i t))"
  by (simp add: accounts_inv_def DeleteProjectKey_def Let_def unique_delete_where)

lemma TouchProjectKey_inv [step_inv]: "accounts_inv t \<Longrightarrow> accounts_inv (TouchProjectKey now i t)"
  by (simp add: accounts_inv_alt ids_below_def TouchProjectKey_def unique_update image_update_where del: set_update_where)

lemma retire_cases:
  assumes "RetireProjectKey now i t = Some t1"
  obtains (gone) "GetProjectByID t i = None" "t1 = t"
  | (retired) p r where "GetProjectByID t i = Some p" "pj_public_key p \<notin> kk_public_key ` set (pt_keys t)"
      "kk_project r = i" "kk_public_key r = pj_public_key p" "pt_keys t1 = pt_keys t @ [r]" "pt_projects t1 = pt_projects t"
      "pt_next t1 = pt_next t"
proof (cases "GetProjectByID t i")
  case None
  with assms have "t1 = t" by (simp add: RetireProjectKey_def)
  then show thesis using None by (intro gone)
next
  case (Some p)
  with assms have "pj_public_key p \<notin> kk_public_key ` set (pt_keys t)"
    and t1: "t1 = t\<lparr>pt_keys := pt_keys t @ [\<lparr>kk_id = pt_next_key t, kk_project = i, kk_public_key = pj_public_key p,
      kk_retired_at = now, kk_last_used_at = None\<rparr>], pt_next_key := pt_next_key t + 1\<rparr>"
    by (auto simp: RetireProjectKey_def split: if_splits)
  with Some show thesis
    by (intro retired [of p "\<lparr>kk_id = pt_next_key t, kk_project = i, kk_public_key = pj_public_key p,
      kk_retired_at = now, kk_last_used_at = None\<rparr>"]) (simp_all add: t1)
qed

lemma GetProjectByID_iff: "accounts_inv t \<Longrightarrow> GetProjectByID t i = Some p \<longleftrightarrow> p \<in> set (pt_projects t) \<and> pj_id p = i"
  by (simp add: accounts_inv_def GetProjectByID_def lookup_by_iff)

lemma RotateProjectKey_inv [step_inv]:
  assumes inv: "accounts_inv t" and r: "RotateProjectKey now i k t = Some (p, t')"
  shows "accounts_inv t'"
proof -
  obtain t1 where t1: "RetireProjectKey now i t = Some t1" using r by (auto simp: RotateProjectKey_def split: option.splits)
  let ?rows = "update_where (\<lambda>p. pj_id p = i) (\<lambda>p. p\<lparr>pj_public_key := k\<rparr>) (pt_projects t1)"
  have u: "projects_unique ?rows" and t': "t' = t1\<lparr>pt_projects := ?rows\<rparr>" and some: "GetProjectByID t1 i \<noteq> None"
    using r t1 by (auto simp: RotateProjectKey_def Let_def split: if_splits)
  have ids: "unique_by pj_id ?rows = unique_by pj_id (pt_projects t1)" "pj_id ` set ?rows = pj_id ` set (pt_projects t1)"
    by (rule unique_update image_update_where, simp)+
  from t1 show ?thesis
  proof (cases rule: retire_cases)
    case gone
    with some show ?thesis by simp
  next
    case (retired q r)
    have "i \<in> pj_id ` set (pt_projects t)" using retired(1) GetProjectByID_iff [OF inv] by auto
    then show ?thesis
      using inv u ids retired by (auto simp: t' accounts_inv_alt ids_below_def unique_by_def)
  qed
qed

section \<open>Rotation keeps the old key alive\<close>

definition key_project :: "project_tables \<Rightarrow> string \<Rightarrow> int option" where
  "key_project t k = map_option pj_id (fst (resolve_key 0 k t))"

lemma resolve_key_project: "map_option pj_id (fst (resolve_key now k t)) = key_project t k"
  by (auto simp: key_project_def resolve_key_def split: option.splits)

lemma key_project_cases:
  assumes "accounts_inv t"
  shows "key_project t k = (case lookup_by pj_public_key k (pt_projects t) of
      Some p \<Rightarrow> Some (pj_id p)
    | None \<Rightarrow> map_option kk_project (lookup_by kk_public_key k (pt_keys t)))"
proof (cases "lookup_by pj_public_key k (pt_projects t)")
  case None
  show ?thesis
  proof (cases "lookup_by kk_public_key k (pt_keys t)")
    case (Some r)
    then have "kk_project r \<in> pj_id ` set (pt_projects t)"
      using assms lookup_by_Some [OF Some] by (auto simp: accounts_inv_def)
    then obtain p where "GetProjectByID t (kk_project r) = Some p" "pj_id p = kk_project r"
      using GetProjectByID_iff [OF assms] by auto
    with None Some show ?thesis
      by (simp add: key_project_def resolve_key_def GetProjectByKey_def GetProjectByRetiredKey_def)
  qed (use None in \<open>simp add: key_project_def resolve_key_def GetProjectByKey_def GetProjectByRetiredKey_def\<close>)
qed (simp add: key_project_def resolve_key_def GetProjectByKey_def)

lemma lookup_snoc: "lookup_by key k (t @ [r]) = (case lookup_by key k t of Some x \<Rightarrow> Some x | None \<Rightarrow> if key r = k then Some r else None)"
  by (induction t) (auto simp: lookup_by_def)

text \<open>
  C38. Rotating a project's DSN key keeps every client working: after \<open>RotateProjectKey\<close> the new key and
  the one it replaced both name the project, and every other key names the project it named before.
\<close>

theorem RotateProjectKey_keeps_keys:
  assumes "accounts_inv t" and "RotateProjectKey now i k t = Some (p, t')"
  shows "\<exists>old. GetProjectByID t i = Some old \<and> key_project t' k = Some i \<and> key_project t' (pj_public_key old) = Some i
    \<and> (\<forall>j. j = k \<or> key_project t' j = key_project t j)"
proof -
  have inv': "accounts_inv t'" by (rule RotateProjectKey_inv [OF assms])
  obtain t1 where t1: "RetireProjectKey now i t = Some t1" using assms(2) by (auto simp: RotateProjectKey_def split: option.splits)
  let ?rows = "update_where (\<lambda>p. pj_id p = i) (\<lambda>p. p\<lparr>pj_public_key := k\<rparr>) (pt_projects t1)"
  have t': "t' = t1\<lparr>pt_projects := ?rows\<rparr>" and some: "GetProjectByID t1 i \<noteq> None"
    using assms(2) t1 by (auto simp: RotateProjectKey_def Let_def split: if_splits)
  from t1 show ?thesis
  proof (cases rule: retire_cases)
    case gone
    with some show ?thesis by simp
  next
    case (retired old r)
    have old: "old \<in> set (pt_projects t)" "pj_id old = i" using retired(1) GetProjectByID_iff [OF assms(1)] by auto
    have ids: "x \<in> set (pt_projects t) \<Longrightarrow> pj_id x = i \<Longrightarrow> x = old" for x
      using assms(1) old unique_by_same [of pj_id "pt_projects t" x old] by (simp add: accounts_inv_def)
    have rows: "set (pt_projects t') = (\<lambda>x. if pj_id x = i then x\<lparr>pj_public_key := k\<rparr> else x) ` set (pt_projects t)"
      using retired(6) by (simp add: t')
    have keys: "pt_keys t' = pt_keys t @ [r]" using retired(5) by (simp add: t')
    have look': "lookup_by pj_public_key j (pt_projects t') = Some x \<longleftrightarrow> x \<in> set (pt_projects t') \<and> pj_public_key x = j" for j x
      using inv' by (simp add: accounts_inv_def projects_unique_def lookup_by_iff)
    have look: "lookup_by pj_public_key j (pt_projects t) = Some x \<longleftrightarrow> x \<in> set (pt_projects t) \<and> pj_public_key x = j" for j x
      using assms(1) by (simp add: accounts_inv_def projects_unique_def lookup_by_iff)
    have new: "key_project t' k = Some i"
    proof -
      have "lookup_by pj_public_key k (pt_projects t') = Some (old\<lparr>pj_public_key := k\<rparr>)"
        unfolding look' rows using old by auto
      then show ?thesis using old(2) by (simp add: key_project_cases [OF inv'])
    qed
    have other: "key_project t' j = key_project t j" if "j \<noteq> k" for j
    proof (cases "lookup_by pj_public_key j (pt_projects t)")
      case (Some x)
      then have x: "x \<in> set (pt_projects t)" "pj_public_key x = j" by (simp_all add: look)
      show ?thesis
      proof (cases "pj_id x = i")
        case True
        with ids x have "x = old" by simp
        with x have j: "pj_public_key old = j" by simp
        have "lookup_by pj_public_key j (pt_projects t') = None"
          unfolding lookup_by_None rows using that x(2) ids look Some
          by (auto split: if_splits) (metis True assms(1) accounts_inv_def projects_unique_def unique_by_same x(1))
        moreover have "lookup_by kk_public_key j (pt_keys t) = None"
          using retired(2) j by (simp add: lookup_by_None)
        ultimately show ?thesis
          using retired(3,4) j True Some by (simp add: key_project_cases [OF inv'] key_project_cases [OF assms(1)] keys lookup_snoc)
      next
        case False
        then have "lookup_by pj_public_key j (pt_projects t') = Some x" unfolding look' rows using x by auto
        with Some show ?thesis by (simp add: key_project_cases [OF inv'] key_project_cases [OF assms(1)])
      qed
    next
      case None
      then have none: "j \<notin> pj_public_key ` set (pt_projects t)" by (simp add: lookup_by_None)
      then have "lookup_by pj_public_key j (pt_projects t') = None"
        unfolding lookup_by_None rows using that by (auto split: if_splits)
      moreover have "kk_public_key r \<noteq> j" using none old(1) retired(4) by auto
      ultimately show ?thesis
        using None by (simp add: key_project_cases [OF inv'] key_project_cases [OF assms(1)] keys lookup_snoc split: option.split)
    qed
    have "key_project t' (pj_public_key old) = Some i"
    proof (cases "pj_public_key old = k")
      case False
      have "lookup_by pj_public_key (pj_public_key old) (pt_projects t) = Some old" using old by (simp add: look)
      then show ?thesis using other [OF False] old(2) by (simp add: key_project_cases [OF assms(1)])
    qed (use new in simp)
    with new other retired(1) show ?thesis by auto
  qed
qed

definition example_projects :: project_tables where
  "example_projects = \<lparr>pt_projects = [\<lparr>pj_id = 1, pj_slug = ''app'', pj_name = ''App'', pj_platform = None,
     pj_public_key = ''k1'', pj_sample_rate = 1, pj_created_at = 0\<rparr>], pt_next = 2, pt_keys = [], pt_next_key = 1\<rparr>"

lemma RotateProjectKey_keeps_keys_witness:
  "\<exists>p t'. RotateProjectKey 5 1 ''k2'' example_projects = Some (p, t') \<and> key_project t' ''k2'' = Some 1
     \<and> key_project t' ''k1'' = Some 1"
proof -
  have inv: "accounts_inv example_projects"
    by (simp add: example_projects_def accounts_inv_def projects_unique_def unique_by_def)
  obtain p t' where r: "RotateProjectKey 5 1 ''k2'' example_projects = Some (p, t')"
    by (simp add: example_projects_def RotateProjectKey_def RetireProjectKey_def GetProjectByID_def lookup_by_def
        update_where_def projects_unique_def unique_by_def)
  from RotateProjectKey_keeps_keys [OF inv r] r show ?thesis
    by (auto simp: example_projects_def GetProjectByID_def lookup_by_def)
qed

section \<open>A deleted key stops within the cache's lifetime\<close>

text \<open>
  Requests, time passing and any change to the tables, in any order. \<open>ks_valid\<close> is the last instant the
  database resolved a key; it is not state of the program.
\<close>

record key_sys =
  ks_cache :: key_cache
  ks_tables :: project_tables
  ks_clock :: time
  ks_valid :: "string \<rightharpoonup> time"

definition note_valid :: "key_sys \<Rightarrow> key_sys" where
  "note_valid s = s\<lparr>ks_valid := (\<lambda>k. if fst (resolve_key (ks_clock s) k (ks_tables s)) \<noteq> None then Some (ks_clock s) else ks_valid s k)\<rparr>"

inductive key_step :: "key_sys \<Rightarrow> key_sys \<Rightarrow> bool" where
  key_time: "ks_clock s \<le> c \<Longrightarrow> key_step s (note_valid (s\<lparr>ks_clock := c\<rparr>))"
| key_change: "key_step s (note_valid (s\<lparr>ks_tables := t\<rparr>))"
| key_request: "Project (ks_clock s) path k (ks_cache s) (ks_tables s) = (r, c, t) \<Longrightarrow>
    key_step s (note_valid (s\<lparr>ks_cache := c, ks_tables := t\<rparr>))"

inductive_cases key_stepE: "key_step s t"

definition key_start :: "key_sys \<Rightarrow> bool" where
  "key_start s \<longleftrightarrow> ks_cache s = (\<lambda>k. None) \<and> (\<exists>s0. s = note_valid s0 \<and> ks_valid s0 = (\<lambda>k. None))"

definition key_inv :: "key_sys \<Rightarrow> bool" where
  "key_inv s \<longleftrightarrow> (\<forall>k p e. ks_cache s k = Some (p, e) \<longrightarrow> (\<exists>v. ks_valid s k = Some v \<and> e \<le> v + keyCacheTTL))
     \<and> (\<forall>k now. fst (resolve_key now k (ks_tables s)) \<noteq> None \<longrightarrow> ks_valid s k = Some (ks_clock s))
     \<and> (\<forall>k v. ks_valid s k = Some v \<longrightarrow> v \<le> ks_clock s)"

lemma resolve_now: "fst (resolve_key now k t) \<noteq> None \<longleftrightarrow> fst (resolve_key now' k t) \<noteq> None"
  by (auto simp: resolve_key_def split: option.splits)

lemma note_valid_resolves: "fst (resolve_key now k (ks_tables s)) \<noteq> None \<Longrightarrow> ks_valid (note_valid s) k = Some (ks_clock s)"
  using resolve_now [of now k "ks_tables s" "ks_clock s"] by (simp add: note_valid_def)

lemma note_valid_inv:
  assumes "\<And>k p e. ks_cache s k = Some (p, e) \<Longrightarrow> \<exists>v. ks_valid s k = Some v \<and> e \<le> v + keyCacheTTL \<or> e \<le> ks_clock s + keyCacheTTL
      \<and> fst (resolve_key (ks_clock s) k (ks_tables s)) \<noteq> None"
    and "\<And>k v. ks_valid s k = Some v \<Longrightarrow> v \<le> ks_clock s"
  shows "key_inv (note_valid s)"
  unfolding key_inv_def
proof (intro conjI allI impI)
  fix k p e assume "ks_cache (note_valid s) k = Some (p, e)"
  then have c: "ks_cache s k = Some (p, e)" by (simp add: note_valid_def)
  show "\<exists>v. ks_valid (note_valid s) k = Some v \<and> e \<le> v + keyCacheTTL"
  proof (cases "fst (resolve_key (ks_clock s) k (ks_tables s)) = None")
    case True
    with assms(1) [OF c] show ?thesis by (auto simp: note_valid_def)
  next
    case False
    then have "ks_valid (note_valid s) k = Some (ks_clock s)" by (rule note_valid_resolves)
    with assms(1) [OF c] assms(2) [of k] show ?thesis by fastforce
  qed
next
  fix k now assume "fst (resolve_key now k (ks_tables (note_valid s))) \<noteq> None"
  then show "ks_valid (note_valid s) k = Some (ks_clock (note_valid s))"
    using note_valid_resolves [of now k s] by (simp add: note_valid_def)
next
  fix k v assume "ks_valid (note_valid s) k = Some v"
  then show "v \<le> ks_clock (note_valid s)" using assms(2) [of k v] by (simp add: note_valid_def split: if_splits)
qed

lemma lookup_update_where:
  assumes "\<And>x. key (f x) = key x"
  shows "lookup_by key k (update_where p f t) = map_option (\<lambda>x. if p x then f x else x) (lookup_by key k t)"
  using assms by (induction t) (auto simp: lookup_by_def update_where_def)

lemma touched_lookup: "map_option kk_project (lookup_by kk_public_key k (pt_keys (TouchProjectKey now i t))) =
    map_option kk_project (lookup_by kk_public_key k (pt_keys t))"
  by (simp add: TouchProjectKey_def lookup_update_where option.map_comp o_def if_distrib [of kk_project] cong: if_cong)

lemma GetProjectByRetiredKey_finds: "GetProjectByRetiredKey t k \<noteq> None \<longleftrightarrow>
    (case map_option kk_project (lookup_by kk_public_key k (pt_keys t)) of
       None \<Rightarrow> False | Some i \<Rightarrow> GetProjectByID t i \<noteq> None)"
  by (auto simp: GetProjectByRetiredKey_def split: option.splits)

lemma touched_keys: "GetProjectByRetiredKey (TouchProjectKey now i t) k \<noteq> None \<longleftrightarrow> GetProjectByRetiredKey t k \<noteq> None"
  unfolding GetProjectByRetiredKey_finds touched_lookup
  by (simp add: TouchProjectKey_def GetProjectByID_def split: option.splits)

lemma resolve_finds: "fst (resolve_key now k t) \<noteq> None \<longleftrightarrow> GetProjectByKey t k \<noteq> None \<or> GetProjectByRetiredKey t k \<noteq> None"
  by (auto simp: resolve_key_def split: option.splits)

lemma resolve_touches: "snd (resolve_key now k t) = t \<or> (\<exists>i. snd (resolve_key now k t) = TouchProjectKey now i t)"
  by (auto simp: resolve_key_def split: option.splits)

lemma resolve_after: "fst (resolve_key now j (snd (resolve_key now' k t))) \<noteq> None \<longleftrightarrow> fst (resolve_key now j t) \<noteq> None"
proof -
  have key: "GetProjectByKey (TouchProjectKey now' i t) j = GetProjectByKey t j" for i
    by (simp add: GetProjectByKey_def TouchProjectKey_def)
  from resolve_touches [of now' k t] show ?thesis
  proof
    assume "\<exists>i. snd (resolve_key now' k t) = TouchProjectKey now' i t"
    then obtain i where t: "snd (resolve_key now' k t) = TouchProjectKey now' i t" by blast
    show ?thesis unfolding t resolve_finds key touched_keys by (rule refl)
  qed simp
qed

lemma Project_cases:
  assumes "Project now path k cache t = (r, c, t')"
  obtains (same) "c = cache" "t' = t" "r \<noteq> None \<Longrightarrow> \<exists>p e. cache k = Some (p, e) \<and> now \<le> e"
  | (missed) "c = cache" "t' = snd (resolve_key now k t)" "r = None"
  | (fresh) p where "fst (resolve_key now k t) = Some p" "c = cache(k \<mapsto> (p, now + keyCacheTTL))" "t' = snd (resolve_key now k t)"
  using assms by (cases "resolve_key now k t") (auto simp: Project_def Let_def split: option.splits if_splits prod.splits)

lemma key_inv_cache: "key_inv s \<Longrightarrow> ks_cache s k = Some (p, e) \<Longrightarrow> \<exists>v. ks_valid s k = Some v \<and> e \<le> v + keyCacheTTL"
  unfolding key_inv_def by blast

lemma key_inv_past: "key_inv s \<Longrightarrow> ks_valid s k = Some v \<Longrightarrow> v \<le> ks_clock s"
  unfolding key_inv_def by blast

lemma key_step_keeps: "key_step s t \<Longrightarrow> key_inv s \<Longrightarrow> key_inv t"
proof (erule key_stepE)
  fix c assume inv: "key_inv s" and t: "t = note_valid (s\<lparr>ks_clock := c\<rparr>)" and c: "ks_clock s \<le> c"
  show "key_inv t" unfolding t
  proof (rule note_valid_inv)
    fix k v assume "ks_valid (s\<lparr>ks_clock := c\<rparr>) k = Some v"
    with key_inv_past [OF inv, of k v] c show "v \<le> ks_clock (s\<lparr>ks_clock := c\<rparr>)" by simp
  qed (use key_inv_cache [OF inv] in fastforce)
next
  fix ts assume inv: "key_inv s" and t: "t = note_valid (s\<lparr>ks_tables := ts\<rparr>)"
  show "key_inv t" unfolding t
    by (rule note_valid_inv) (use key_inv_cache [OF inv] key_inv_past [OF inv] in fastforce)+
next
  fix path k r c ts
  assume inv: "key_inv s" and t: "t = note_valid (s\<lparr>ks_cache := c, ks_tables := ts\<rparr>)"
    and p: "Project (ks_clock s) path k (ks_cache s) (ks_tables s) = (r, c, ts)"
  have old: "\<exists>v. ks_valid s j = Some v \<and> e \<le> v + keyCacheTTL" if "ks_cache s j = Some (q, e)" for j q e
    using key_inv_cache [OF inv that] .
  have past: "ks_valid s j = Some v \<Longrightarrow> v \<le> ks_clock s" for j v by (rule key_inv_past [OF inv])
  show "key_inv t" unfolding t
  proof (rule note_valid_inv)
    fix j q e assume c: "ks_cache (s\<lparr>ks_cache := c, ks_tables := ts\<rparr>) j = Some (q, e)"
    from p show "\<exists>v. ks_valid (s\<lparr>ks_cache := c, ks_tables := ts\<rparr>) j = Some v \<and> e \<le> v + keyCacheTTL
        \<or> e \<le> ks_clock (s\<lparr>ks_cache := c, ks_tables := ts\<rparr>) + keyCacheTTL
          \<and> fst (resolve_key (ks_clock (s\<lparr>ks_cache := c, ks_tables := ts\<rparr>)) j (ks_tables (s\<lparr>ks_cache := c, ks_tables := ts\<rparr>))) \<noteq> None"
    proof (cases rule: Project_cases)
      case (fresh x)
      show ?thesis
      proof (cases "j = k")
        case True
        with c fresh have "e = ks_clock s + keyCacheTTL" by simp
        moreover have "fst (resolve_key (ks_clock s) j ts) \<noteq> None"
          unfolding fresh(3) resolve_after using fresh(1) True by simp
        ultimately show ?thesis by simp
      next
        case False
        with c fresh old [of j q e] show ?thesis by auto
      qed
    qed (use c old [of j q e] in auto)
  qed (use past in simp)
qed

interpretation key_machine: invariant key_start key_step key_inv
proof unfold_locales
  show "key_inv s" if s: "key_start s" for s
  proof -
    obtain s0 where "s = note_valid s0" "ks_valid s0 = (\<lambda>k. None)" "ks_cache s = (\<lambda>k. None)"
      using s by (auto simp: key_start_def)
    moreover from this have "ks_cache s0 = (\<lambda>k. None)" by (simp add: note_valid_def)
    ultimately show ?thesis using note_valid_inv [of s0] by simp
  qed
qed (rule key_step_keeps)

text \<open>
  C40. A DSN key that was deleted stops working within the cache's ten seconds: whatever happens to the
  projects and keys, a request is only accepted when the database itself resolved its key at most
  \<open>keyCacheTTL\<close> before.
\<close>

theorem accepted_key_was_valid:
  assumes "reach key_start key_step s"
    and "Project (ks_clock s) path k (ks_cache s) (ks_tables s) = (Some p, c, t)"
  shows "\<exists>v. ks_valid s k = Some v \<and> ks_clock s \<le> v + keyCacheTTL"
proof -
  have inv: "key_inv s" by (rule key_machine.reach_inv [OF assms(1)])
  from assms(2) show ?thesis
  proof (cases rule: Project_cases)
    case same
    then obtain q e where "ks_cache s k = Some (q, e)" "ks_clock s \<le> e" by auto
    with inv show ?thesis unfolding key_inv_def by fastforce
  next
    case (fresh x)
    then have "fst (resolve_key (ks_clock s) k (ks_tables s)) \<noteq> None" by simp
    with inv have "ks_valid s k = Some (ks_clock s)" unfolding key_inv_def by blast
    then show ?thesis by (simp add: keyCacheTTL_def)
  qed simp
qed

definition example_keys :: key_sys where
  "example_keys = note_valid \<lparr>ks_cache = (\<lambda>k. None), ks_tables = example_projects, ks_clock = 7, ks_valid = (\<lambda>k. None)\<rparr>"

lemma accepted_key_was_valid_witness:
  "fst (Project 7 ''1'' ''k1'' (\<lambda>k. None) example_projects) \<noteq> None
   \<and> (\<exists>v. ks_valid example_keys ''k1'' = Some v \<and> ks_clock example_keys \<le> v + keyCacheTTL)"
proof -
  have "ks_cache example_keys = (\<lambda>k. None)" by (simp add: example_keys_def note_valid_def)
  then have "key_start example_keys" unfolding key_start_def example_keys_def by fastforce
  then have r: "reach key_start key_step example_keys" by (rule reach_init)
  have "itoa_int 1 = ''1''" by code_simp
  then obtain p c t where p: "Project 7 ''1'' ''k1'' (\<lambda>k. None) example_projects = (Some p, c, t)"
    by (simp add: Project_def resolve_key_def GetProjectByKey_def example_projects_def lookup_by_def Let_def)
  then have "Project (ks_clock example_keys) ''1'' ''k1'' (ks_cache example_keys) (ks_tables example_keys) = (Some p, c, t)"
    by (simp add: example_keys_def note_valid_def)
  from accepted_key_was_valid [OF r this] p show ?thesis by simp
qed

end
