(* ===== verification/Retention.thy ===== *)
theory Retention
  imports Weeks RollupRuns Worker Monitors SideTables Packs Accounts
begin

text \<open>
  \<open>internal/retention/retention.go\<close>: the weekly partitions of a time-series table with its DEFAULT
  partition, creating the ones ahead and dropping the expired ones, and the expiry of issues. A
  partition is identified by the week it starts (the Go code writes that date into the table's name
  and parses it back). The statistics are in \<open>Rollup\<close> and \<open>RollupRuns\<close>.
\<close>

definition partitionsAhead :: duration where "partitionsAhead = 2 * PartitionWidth"

section \<open>A partitioned table\<close>

record 'r partitioned_table =
  pt_parts :: "(time \<times> 'r list) list"
  pt_default :: "'r list"

definition table_rows :: "'r partitioned_table \<Rightarrow> 'r list" where
  "table_rows t = concat (map snd (pt_parts t)) @ pt_default t"

definition in_week :: "('r \<Rightarrow> time) \<Rightarrow> time \<Rightarrow> 'r \<Rightarrow> bool" where
  "in_week col start r \<longleftrightarrow> start \<le> col r \<and> col r < start + PartitionWidth"

text \<open>Postgres routes a row to the partition of its range, or to the DEFAULT partition.\<close>

definition insert_row :: "('r \<Rightarrow> time) \<Rightarrow> 'r \<Rightarrow> 'r partitioned_table \<Rightarrow> 'r partitioned_table" where
  "insert_row col r t =
     (if list_ex (\<lambda>p. in_week col (fst p) r) (pt_parts t)
      then t\<lparr>pt_parts := map (\<lambda>p. if in_week col (fst p) r then (fst p, snd p @ [r]) else p) (pt_parts t)\<rparr>
      else t\<lparr>pt_default := pt_default t @ [r]\<rparr>)"

text \<open>\<open>Partitions\<close>: the weekly partitions, oldest first.\<close>

definition Partitions :: "'r partitioned_table \<Rightarrow> time list" where
  "Partitions t = sort (map fst (pt_parts t))"

text \<open>
  \<open>ensurePartition\<close>: nothing when the partition exists by now; otherwise it is created, and the rows
  of that week that sat in the DEFAULT partition are moved into it, in one transaction.
\<close>

definition ensurePartition :: "('r \<Rightarrow> time) \<Rightarrow> time \<Rightarrow> 'r partitioned_table \<Rightarrow> 'r partitioned_table" where
  "ensurePartition col start t =
     (if start \<in> fst ` set (pt_parts t) then t
      else if filter (in_week col start) (pt_default t) = [] then t\<lparr>pt_parts := pt_parts t @ [(start, [])]\<rparr>
      else t\<lparr>pt_parts := pt_parts t @ [(start, filter (in_week col start) (pt_default t))],
             pt_default := filter (\<lambda>r. \<not> in_week col start r) (pt_default t)\<rparr>)"

text \<open>The loop over the weeks, with the partitions listed before it.\<close>

function ensure_weeks :: "('r \<Rightarrow> time) \<Rightarrow> time list \<Rightarrow> time \<Rightarrow> time \<Rightarrow> 'r partitioned_table \<Rightarrow> 'r partitioned_table" where
  "ensure_weeks col have start to t =
     (if to < start then t
      else ensure_weeks col have (start + PartitionWidth) to
             (if start \<in> set have then t else ensurePartition col start t))"
  by pat_completeness auto

termination ensure_weeks
  by (relation "measure (\<lambda>(col, have, start, to, t). nat (to + 1 - start))")
    (auto simp: PartitionWidth_def)

declare ensure_weeks.simps [simp del]

definition EnsurePartitions :: "('r \<Rightarrow> time) \<Rightarrow> duration \<Rightarrow> time \<Rightarrow> 'r partitioned_table \<Rightarrow> 'r partitioned_table" where
  "EnsurePartitions col retention now t =
     ensure_weeks col (Partitions t) (weekStart (now - retention)) (weekStart (now + partitionsAhead)) t"

definition dropExpiredPartitions :: "('r \<Rightarrow> time) \<Rightarrow> duration \<Rightarrow> time \<Rightarrow> 'r partitioned_table \<Rightarrow> 'r partitioned_table" where
  "dropExpiredPartitions col retention now t =
     (let cutoff = now - retention
      in t\<lparr>pt_parts := filter (\<lambda>p. cutoff < fst p + PartitionWidth) (pt_parts t),
           pt_default := delete_where (\<lambda>r. col r < cutoff) (pt_default t)\<rparr>)"

section \<open>The invariant of a partitioned table\<close>

text \<open>
  Partitions are Monday-aligned and distinct; a row is in the partition of its week, and in the
  DEFAULT partition only when its week has none.
\<close>

definition partitions_ok :: "('r \<Rightarrow> time) \<Rightarrow> 'r partitioned_table \<Rightarrow> bool" where
  "partitions_ok col t \<longleftrightarrow> distinct (map fst (pt_parts t))
     \<and> (\<forall>(s, rs) \<in> set (pt_parts t). week_start s \<and> (\<forall>r \<in> set rs. in_week col s r))
     \<and> (\<forall>r \<in> set (pt_default t). \<forall>s \<in> fst ` set (pt_parts t). \<not> in_week col s r)"

lemma in_week_start: "week_start s \<Longrightarrow> in_week col s r \<longleftrightarrow> weekStart (col r) = s"
  using week_of [of s "col r"] weekStart_le [of "col r"] weekStart_near [of "col r"]
  by (auto simp: in_week_def PartitionWidth_def)

lemma partitions_okD:
  assumes "partitions_ok col t"
  shows "distinct (map fst (pt_parts t))"
    and "\<And>p. p \<in> set (pt_parts t) \<Longrightarrow> week_start (fst p)"
    and "p \<in> set (pt_parts t) \<Longrightarrow> r \<in> set (snd p) \<Longrightarrow> in_week col (fst p) r"
    and "r \<in> set (pt_default t) \<Longrightarrow> p \<in> set (pt_parts t) \<Longrightarrow> \<not> in_week col (fst p) r"
  using assms by (auto simp: partitions_ok_def split_beta)

lemma partitions_okI:
  assumes "distinct (map fst (pt_parts t))"
    and "\<And>p. p \<in> set (pt_parts t) \<Longrightarrow> week_start (fst p)"
    and "\<And>p r. p \<in> set (pt_parts t) \<Longrightarrow> r \<in> set (snd p) \<Longrightarrow> in_week col (fst p) r"
    and "\<And>p r. r \<in> set (pt_default t) \<Longrightarrow> p \<in> set (pt_parts t) \<Longrightarrow> \<not> in_week col (fst p) r"
  shows "partitions_ok col t"
  using assms by (force simp: partitions_ok_def)

lemma insert_row_ok [step_inv]: "partitions_ok col t \<Longrightarrow> partitions_ok col (insert_row col r t)"
proof (rule partitions_okI)
  assume ok: "partitions_ok col t"
  note D = partitions_okD [OF ok]
  have same: "map fst (pt_parts (insert_row col r t)) = map fst (pt_parts t)" by (simp add: insert_row_def)
  with D(1) show "distinct (map fst (pt_parts (insert_row col r t)))" by simp
  from same have "fst ` set (pt_parts (insert_row col r t)) = fst ` set (pt_parts t)" by (metis set_map)
  with D(2) show "week_start (fst p)" if "p \<in> set (pt_parts (insert_row col r t))" for p
    using that by (metis (no_types, lifting) imageE imageI)
  show "in_week col (fst p) x" if "p \<in> set (pt_parts (insert_row col r t))" "x \<in> set (snd p)" for p x
    using that D(3) [of p x] D(3) [of _ x] by (fastforce simp: insert_row_def split: if_splits)
  show "\<not> in_week col (fst p) x"
    if "x \<in> set (pt_default (insert_row col r t))" "p \<in> set (pt_parts (insert_row col r t))" for p x
  proof -
    from that(2) same have "fst p \<in> fst ` set (pt_parts t)" by (metis imageI set_map)
    then obtain p0 where p0: "p0 \<in> set (pt_parts t)" "fst p = fst p0" by auto
    from that(1) p0(1) consider "x \<in> set (pt_default t)" | "x = r" "\<not> in_week col (fst p0) r"
      by (auto simp: insert_row_def list_ex_iff split: if_splits)
    then show ?thesis using D(4) [OF _ p0(1)] p0(2) by cases auto
  qed
qed

lemma ensure_ok [step_inv]:
  assumes ok: "partitions_ok col t" and "week_start s"
  shows "partitions_ok col (ensurePartition col s t)"
proof (rule partitions_okI)
  note D = partitions_okD [OF ok]
  show "distinct (map fst (pt_parts (ensurePartition col s t)))"
    using D(1) by (simp add: ensurePartition_def)
  show "week_start (fst p)" if "p \<in> set (pt_parts (ensurePartition col s t))" for p
    using that D(2) assms(2) by (fastforce simp: ensurePartition_def split: if_splits)
  show "in_week col (fst p) r" if "p \<in> set (pt_parts (ensurePartition col s t))" "r \<in> set (snd p)" for p r
    using that D(3) by (fastforce simp: ensurePartition_def split: if_splits)
  show "\<not> in_week col (fst p) r"
    if "r \<in> set (pt_default (ensurePartition col s t))" "p \<in> set (pt_parts (ensurePartition col s t))" for p r
    using that D(4) by (cases p) (fastforce simp: ensurePartition_def filter_empty_conv split: if_splits)
qed

lemma drop_ok [step_inv]: "partitions_ok col t \<Longrightarrow> partitions_ok col (dropExpiredPartitions col retention now t)"
proof (rule partitions_okI)
  assume ok: "partitions_ok col t"
  note D = partitions_okD [OF ok]
  show "distinct (map fst (pt_parts (dropExpiredPartitions col retention now t)))"
    using D(1) by (simp add: dropExpiredPartitions_def Let_def distinct_map_filter)
qed (auto simp: dropExpiredPartitions_def Let_def dest: partitions_okD)

lemma ensure_rows: "mset (table_rows (ensurePartition col s t)) = mset (table_rows t)"
proof -
  have "mset (pt_default t) = mset (filter (in_week col s) (pt_default t)) + mset (filter (\<lambda>r. \<not> in_week col s r) (pt_default t))"
    by (simp add: mset_filter flip: multiset_partition)
  then show ?thesis by (simp add: ensurePartition_def table_rows_def)
qed

lemma ensure_starts: "fst ` set (pt_parts (ensurePartition col s t)) = insert s (fst ` set (pt_parts t))"
  by (auto simp: ensurePartition_def)

text \<open>The loop keeps the rows and the invariant, and every week from the first to the last is there.\<close>

lemma ensure_weeks_result:
  assumes "partitions_ok col t" and "week_start start" and "week_start to" and "set have \<subseteq> fst ` set (pt_parts t)"
  shows "partitions_ok col (ensure_weeks col have start to t)
    \<and> mset (table_rows (ensure_weeks col have start to t)) = mset (table_rows t)
    \<and> fst ` set (pt_parts t) \<subseteq> fst ` set (pt_parts (ensure_weeks col have start to t))
    \<and> (\<forall>s. week_start s \<and> start \<le> s \<and> s \<le> to \<longrightarrow> s \<in> fst ` set (pt_parts (ensure_weeks col have start to t)))"
  using assms
proof (induction col "have" start to t rule: ensure_weeks.induct)
  case (1 col "have" start to t)
  let ?t = "if start \<in> set have then t else ensurePartition col start t"
  show ?case
  proof (cases "to < start")
    case True
    with 1(2) show ?thesis by (subst (1 2 3 4) ensure_weeks.simps) auto
  next
    case False
    have ok: "partitions_ok col ?t" using 1(2,3) by (simp add: ensure_ok)
    have starts: "fst ` set (pt_parts ?t) = insert start (fst ` set (pt_parts t))"
      using 1(5) ensure_starts [of col start t] by auto
    have IH: "partitions_ok col (ensure_weeks col have (start + PartitionWidth) to ?t)
      \<and> mset (table_rows (ensure_weeks col have (start + PartitionWidth) to ?t)) = mset (table_rows ?t)
      \<and> fst ` set (pt_parts ?t) \<subseteq> fst ` set (pt_parts (ensure_weeks col have (start + PartitionWidth) to ?t))
      \<and> (\<forall>s. week_start s \<and> start + PartitionWidth \<le> s \<and> s \<le> to \<longrightarrow>
          s \<in> fst ` set (pt_parts (ensure_weeks col have (start + PartitionWidth) to ?t)))"
      by (rule 1(1) [OF False ok])
        (use 1(3-5) starts week_start_add [OF 1(3)] in \<open>auto simp: PartitionWidth_def simp del: week_start_add\<close>)
    have next_week: "s = start \<or> start + PartitionWidth \<le> s" if "week_start s" "start \<le> s" for s
      using week_starts_apart [OF that(1) 1(3)] that(2) by (auto simp: PartitionWidth_def)
    have e: "ensure_weeks col have start to t = ensure_weeks col have (start + PartitionWidth) to ?t"
      using False by (subst ensure_weeks.simps) simp
    have rows: "mset (table_rows ?t) = mset (table_rows t)" by (simp add: ensure_rows)
    let ?w = "fst ` set (pt_parts (ensure_weeks col have (start + PartitionWidth) to ?t))"
    from IH have sub: "fst ` set (pt_parts ?t) \<subseteq> ?w" by blast
    have "s \<in> ?w" if "week_start s \<and> start \<le> s \<and> s \<le> to" for s
      using that next_week [of s] sub IH unfolding starts by blast
    moreover have "fst ` set (pt_parts t) \<subseteq> ?w" using sub unfolding starts by blast
    ultimately show ?thesis unfolding e using IH rows by (simp only: simp_thms) blast
  qed
qed

lemma EnsurePartitions_result:
  assumes "partitions_ok col t"
  shows "partitions_ok col (EnsurePartitions col retention now t)"
    and "mset (table_rows (EnsurePartitions col retention now t)) = mset (table_rows t)"
    and "now - retention \<le> x \<Longrightarrow> x < now + partitionsAhead \<Longrightarrow>
      weekStart x \<in> fst ` set (pt_parts (EnsurePartitions col retention now t))"
proof -
  have "set (Partitions t) \<subseteq> fst ` set (pt_parts t)" by (simp add: Partitions_def)
  note R = ensure_weeks_result [OF assms weeks.canonical_f weeks.canonical_f this, of "now - retention" "now + partitionsAhead"]
  show "partitions_ok col (EnsurePartitions col retention now t)"
    and "mset (table_rows (EnsurePartitions col retention now t)) = mset (table_rows t)"
    using R by (simp_all add: EnsurePartitions_def)
  assume x: "now - retention \<le> x" "x < now + partitionsAhead"
  have mono: "weekStart a \<le> weekStart b" if "a \<le> b" for a b
  proof (rule ccontr)
    assume "\<not> weekStart a \<le> weekStart b"
    then have "weekStart b + week \<le> weekStart a"
      using week_starts_apart [OF weeks.canonical_f weeks.canonical_f, of b a] by linarith
    with weekStart_le [of a] weekStart_near [of b] that show False by linarith
  qed
  show "weekStart x \<in> fst ` set (pt_parts (EnsurePartitions col retention now t))"
    using R mono [of "now - retention" x] mono [of x "now + partitionsAhead"] x
    by (simp add: EnsurePartitions_def weeks.canonical_f)
qed

lemma dropped_rows:
  "r \<in> set (table_rows (dropExpiredPartitions col retention now t)) \<longleftrightarrow>
     (\<exists>p \<in> set (pt_parts t). now - retention < fst p + PartitionWidth \<and> r \<in> set (snd p))
     \<or> r \<in> set (pt_default t) \<and> now - retention \<le> col r"
  by (force simp: dropExpiredPartitions_def table_rows_def Let_def)

text \<open>What the sweep leaves of a partitioned table: nothing of the window goes, nothing past a week before it stays.\<close>

lemma dropped_window:
  assumes "partitions_ok col t"
  shows "r \<in> set (table_rows t) \<Longrightarrow> now - retention \<le> col r \<Longrightarrow> r \<in> set (table_rows (dropExpiredPartitions col retention now t))"
    and "r \<in> set (table_rows (dropExpiredPartitions col retention now t)) \<Longrightarrow>
      r \<in> set (table_rows t) \<and> weekStart (now - retention) \<le> col r"
proof -
  note D = partitions_okD [OF assms]
  show "r \<in> set (table_rows (dropExpiredPartitions col retention now t))"
    if "r \<in> set (table_rows t)" "now - retention \<le> col r"
  proof (cases "r \<in> set (pt_default t)")
    case False
    with that(1) obtain p where p: "p \<in> set (pt_parts t)" "r \<in> set (snd p)" by (auto simp: table_rows_def)
    with D(3) [OF p] that(2) have "now - retention < fst p + PartitionWidth" by (simp add: in_week_def)
    with p show ?thesis unfolding dropped_rows by blast
  qed (simp add: dropped_rows that)
  assume r: "r \<in> set (table_rows (dropExpiredPartitions col retention now t))"
  then consider p where "p \<in> set (pt_parts t)" "now - retention < fst p + PartitionWidth" "r \<in> set (snd p)"
    | "r \<in> set (pt_default t)" "now - retention \<le> col r" by (auto simp: dropped_rows)
  then show "r \<in> set (table_rows t) \<and> weekStart (now - retention) \<le> col r"
  proof cases
    case 1
    have "weekStart (now - retention) \<le> fst p"
    proof (rule ccontr)
      assume "\<not> weekStart (now - retention) \<le> fst p"
      with 1(2) weekStart_le [of "now - retention"]
        week_starts_apart [OF D(2) [OF 1(1)] weeks.canonical_f, of "now - retention"]
      show False by (simp add: PartitionWidth_def)
    qed
    moreover have "fst p \<le> col r" using D(3) [OF 1(1,3)] by (simp add: in_week_def)
    ultimately show ?thesis using 1 by (auto simp: table_rows_def)
  next
    case 2
    then show ?thesis using weekStart_le [of "now - retention"] by (auto simp: table_rows_def)
  qed
qed

lemma dropped_window_mset:
  assumes "partitions_ok col t"
  shows "mset (filter (\<lambda>r. now - retention \<le> col r) (table_rows (dropExpiredPartitions col retention now t)))
       = mset (filter (\<lambda>r. now - retention \<le> col r) (table_rows t))"
proof -
  note D = partitions_okD [OF assms]
  have parts: "concat (map (\<lambda>p. filter (\<lambda>r. now - retention \<le> col r) (snd p)) (filter (\<lambda>p. now - retention < fst p + PartitionWidth) ps))
      = concat (map (\<lambda>p. filter (\<lambda>r. now - retention \<le> col r) (snd p)) ps)" if "set ps \<subseteq> set (pt_parts t)" for ps
    using that
  proof (induction ps)
    case (Cons p ps)
    have "filter (\<lambda>r. now - retention \<le> col r) (snd p) = []" if "\<not> now - retention < fst p + PartitionWidth"
      using that Cons.prems D(3) [of p] by (fastforce simp: filter_empty_conv in_week_def)
    with Cons show ?case by simp
  qed simp
  show ?thesis
    using parts [of "pt_parts t"]
    by (simp add: dropExpiredPartitions_def table_rows_def delete_where_def Let_def filter_concat comp_def)
      (simp add: not_less conj_commute cong: conj_cong)
qed

section \<open>Issues\<close>

definition StaleIssueFactor :: int where "StaleIssueFactor = 4"

text \<open>
  \<open>ExpireIssues\<close>: \<open>gone\<close> and \<open>stale\<close> delete from the same snapshot, a row in both once; how many
  there were, with the hourly rows of the deleted issues.
\<close>

definition gone_issue :: "time \<Rightarrow> issue \<Rightarrow> bool" where
  "gone_issue before i \<longleftrightarrow> is_last_seen i < before
     \<and> (is_status i = IssueStatusResolved \<or> is_status i = IssueStatusIgnored)"

definition stale_issue :: "time \<Rightarrow> issue \<Rightarrow> bool" where
  "stale_issue before i \<longleftrightarrow> is_last_seen i < before"

definition ExpireIssues :: "duration \<Rightarrow> time \<Rightarrow> issues \<Rightarrow> issue_hour list \<Rightarrow> nat \<times> issues \<times> issue_hour list" where
  "ExpireIssues retention now t hours =
     (let expired = (\<lambda>i. gone_issue (weekStart (now - retention)) i
                       \<or> stale_issue (now - StaleIssueFactor * retention) i);
          all_gone = map issue_key (filter expired t)
      in (length all_gone, delete_where expired t,
          delete_where (\<lambda>h. (ih_project h, ih_fingerprint h) \<in> set all_gone) hours))"

section \<open>The sweep\<close>

definition AggregateRetentionDays :: int where "AggregateRetentionDays = 400"

record sweep_tables =
  sw_events :: "event_row partitioned_table"
  sw_attachments :: "attachment_row partitioned_table"
  sw_sessions :: "session_row partitioned_table"
  sw_checkins :: "checkin partitioned_table"
  sw_packs :: pack_db
  sw_issues :: issues
  sw_jobs :: jobs_table
  sw_auth :: auth_tables
  sw_chunks :: "chunk list"
  sw_symbols :: symbol_table
  sw_user_reports :: "user_report_row list"
  sw_event_stats :: "event_stat list"
  sw_issue_stats :: "issue_hour list"
  sw_health :: "health_stat list"
  sw_client_reports :: "report_count list"

text \<open>
  \<open>Sweep\<close>, in its order: partitions ahead, expired partitions and then the packs of their weeks,
  issues, jobs, sessions of users, upload chunks, symbol files with their objects, user reports, rolled
  history. \<open>stuck\<close> says which objects the blob store does not delete - all of them when none is
  configured; an object of a symbol file whose row is gone is then left behind.
\<close>

definition sweep_table :: "('r \<Rightarrow> time) \<Rightarrow> duration \<Rightarrow> time \<Rightarrow> 'r partitioned_table \<Rightarrow> 'r partitioned_table" where
  "sweep_table col retention now t = dropExpiredPartitions col retention now (EnsurePartitions col retention now t)"

definition delete_symbol_objects :: "(string \<Rightarrow> bool) \<Rightarrow> string option list \<Rightarrow> pack_db \<Rightarrow> pack_db" where
  "delete_symbol_objects stuck keys db =
     fold (\<lambda>k db. case k of None \<Rightarrow> db | Some key \<Rightarrow> if stuck key then db else delete_object key db) keys db"

definition Sweep :: "(string \<Rightarrow> bool) \<Rightarrow> duration \<Rightarrow> time \<Rightarrow> sweep_tables \<Rightarrow> sweep_tables" where
  "Sweep stuck retention now db =
     (let packs = snd (ExpirePacks stuck (now - retention) (sw_packs db));
          (n, issues, hours) = ExpireIssues retention now (sw_issues db) (sw_issue_stats db);
          (keys, symbols) = ExpireSymbolFiles (now - 2 * retention) (sw_symbols db);
          history = now - AggregateRetentionDays * day
      in db\<lparr>sw_events := sweep_table er_occurred_at retention now (sw_events db),
            sw_attachments := sweep_table ar_occurred_at retention now (sw_attachments db),
            sw_sessions := sweep_table ss_started_at retention now (sw_sessions db),
            sw_checkins := sweep_table ck_started_at retention now (sw_checkins db),
            sw_packs := delete_symbol_objects stuck keys packs,
            sw_issues := issues,
            sw_jobs := snd (ExpireJobs now (sw_jobs db)),
            sw_auth := snd (ExpireUserSessions now (sw_auth db)),
            sw_chunks := snd (ExpireUploadChunks (now - 24 * hour) (sw_chunks db)),
            sw_symbols := symbols,
            sw_user_reports := snd (SweepUserReports (now - retention) (sw_user_reports db)),
            sw_event_stats := delete_where (\<lambda>g. es_bucket g < history) (sw_event_stats db),
            sw_issue_stats := delete_where (\<lambda>g. ih_bucket g < history) hours,
            sw_health := delete_where (\<lambda>g. hs_bucket g < history) (sw_health db),
            sw_client_reports := delete_where (\<lambda>g. rc_bucket g < history) (sw_client_reports db)\<rparr>)"

lemma Sweep_tables [simp]:
  "sw_events (Sweep stuck retention now db) = sweep_table er_occurred_at retention now (sw_events db)"
  "sw_issues (Sweep stuck retention now db) = delete_where (\<lambda>i. gone_issue (weekStart (now - retention)) i
     \<or> stale_issue (now - StaleIssueFactor * retention) i) (sw_issues db)"
  by (simp_all add: Sweep_def ExpireIssues_def ExpireSymbolFiles_def Let_def)

lemma sweep_table_rows:
  assumes "partitions_ok col t"
  shows "r \<in> set (table_rows (sweep_table col retention now t)) \<Longrightarrow>
    r \<in> set (table_rows t) \<and> weekStart (now - retention) \<le> col r"
  using dropped_window(2) [OF EnsurePartitions_result(1) [OF assms]] mset_eq_setD [OF EnsurePartitions_result(2) [OF assms]]
  by (metis sweep_table_def)

text \<open>A row whose week has a partition stays until that partition has expired.\<close>

lemma sweep_keeps_week:
  assumes ok: "partitions_ok col t" and r: "r \<in> set (table_rows t)"
    and "weekStart (col r) \<in> fst ` set (pt_parts t)" and "now - retention < weekStart (col r) + PartitionWidth"
  shows "r \<in> set (table_rows (sweep_table col retention now t))"
proof -
  let ?e = "EnsurePartitions col retention now t"
  note R = EnsurePartitions_result [OF ok, where retention = retention and now = now]
  have "set (Partitions t) \<subseteq> fst ` set (pt_parts t)" by (simp add: Partitions_def)
  from ensure_weeks_result [OF ok weeks.canonical_f weeks.canonical_f this] assms(3)
  have "weekStart (col r) \<in> fst ` set (pt_parts ?e)" unfolding EnsurePartitions_def by blast
  then have "r \<notin> set (pt_default ?e)"
    using partitions_okD(4) [OF R(1)] by (metis imageE in_week_start weeks.canonical_f)
  with r mset_eq_setD [OF R(2)] obtain p where p: "p \<in> set (pt_parts ?e)" "r \<in> set (snd p)"
    by (fastforce simp: table_rows_def)
  have "fst p = weekStart (col r)"
    using partitions_okD(2,3) [OF R(1)] p by (metis in_week_start)
  with p assms(4) show ?thesis unfolding sweep_table_def dropped_rows by auto
qed

section \<open>Properties\<close>

text \<open>
  C33. \<open>EnsurePartitions\<close> leaves a partition for the week of every time from the start of the retention
  window to two weeks ahead, loses and duplicates no row - rows of a week that sat in the DEFAULT
  partition move into the new one - and keeps the partitions aligned, distinct and correctly filled.
\<close>

theorem EnsurePartitions_covers:
  assumes "partitions_ok col t"
  shows "partitions_ok col (EnsurePartitions col retention now t)
    \<and> mset (table_rows (EnsurePartitions col retention now t)) = mset (table_rows t)
    \<and> (\<forall>x. now - retention \<le> x \<and> x < now + partitionsAhead \<longrightarrow>
        weekStart x \<in> fst ` set (pt_parts (EnsurePartitions col retention now t)))
    \<and> (\<forall>r. r \<in> set (pt_default (EnsurePartitions col retention now t)) \<longrightarrow>
        col r < now - retention \<or> now + partitionsAhead \<le> col r)"
proof -
  note R = EnsurePartitions_result [OF assms, where retention = retention and now = now]
  have "\<not> (now - retention \<le> col r \<and> col r < now + partitionsAhead)"
    if "r \<in> set (pt_default (EnsurePartitions col retention now t))" for r
  proof
    assume c: "now - retention \<le> col r \<and> col r < now + partitionsAhead"
    then obtain p where "p \<in> set (pt_parts (EnsurePartitions col retention now t))" "fst p = weekStart (col r)"
      using R(3) [of "col r"] by (metis imageE)
    with partitions_okD(4) [OF R(1) that] show False by (metis in_week_start weeks.canonical_f)
  qed
  with R show ?thesis by (simp only: simp_thms) (meson not_le)
qed

lemma EnsurePartitions_covers_witness:
  "mset (table_rows (EnsurePartitions id 700000000000000 3000000000000000 \<lparr>pt_parts = [], pt_default = [3000000000000000]\<rparr>))
     = {#3000000000000000#}
   \<and> 3000000000000000 \<notin> set (pt_default
       (EnsurePartitions id 700000000000000 3000000000000000 \<lparr>pt_parts = [], pt_default = [3000000000000000]\<rparr>))"
proof -
  have "partitions_ok id \<lparr>pt_parts = [], pt_default = [3000000000000000]\<rparr>" by (simp add: partitions_ok_def)
  note C = EnsurePartitions_covers [OF this, of 700000000000000 3000000000000000]
  from C have "mset (table_rows (EnsurePartitions id 700000000000000 3000000000000000 \<lparr>pt_parts = [], pt_default = [3000000000000000]\<rparr>))
      = mset (table_rows \<lparr>pt_parts = [], pt_default = [3000000000000000]\<rparr>)" by blast
  moreover from C have "3000000000000000 \<in> set (pt_default
      (EnsurePartitions id 700000000000000 3000000000000000 \<lparr>pt_parts = [], pt_default = [3000000000000000]\<rparr>)) \<Longrightarrow>
      id 3000000000000000 < 3000000000000000 - (700000000000000 :: int) \<or> 3000000000000000 + partitionsAhead \<le> id 3000000000000000"
    by blast
  ultimately show ?thesis by (auto simp: table_rows_def partitionsAhead_def PartitionWidth_def)
qed


text \<open>Example tables for the sweep: one event and its issue, in the week of January 5, 1970.\<close>

definition sweep_example :: "time \<Rightarrow> sweep_tables" where
  "sweep_example seen = \<lparr>
     sw_events = \<lparr>pt_parts = [(345600000000000,
       [example_event ''a''\<lparr>er_occurred_at := seen, er_fingerprint := Some ''ab''\<rparr>])], pt_default = []\<rparr>,
     sw_attachments = \<lparr>pt_parts = [], pt_default = []\<rparr>,
     sw_sessions = \<lparr>pt_parts = [], pt_default = []\<rparr>, sw_checkins = \<lparr>pt_parts = [], pt_default = []\<rparr>,
     sw_packs = \<lparr>pk_spool = [], pk_packs = [], pk_places = [], pk_next = 1, pk_blobs = (\<lambda>k. None)\<rparr>,
     sw_issues = [excluded_issue seen (example_upsert\<lparr>ui_last_seen := seen\<rparr>)],
     sw_jobs = \<lparr>jt_rows = [], jt_next = 1\<rparr>,
     sw_auth = \<lparr>au_users = [], au_next = 1, au_sessions = [], au_keys = [], au_next_key = 1\<rparr>,
     sw_chunks = [], sw_symbols = \<lparr>sy_rows = [], sy_next = 1\<rparr>, sw_user_reports = [],
     sw_event_stats = [], sw_issue_stats = [], sw_health = [], sw_client_reports = []\<rparr>"

abbreviation example_at :: time where "example_at \<equiv> 345600000000007"

lemma example_weeks: "weekStart example_at = 345600000000000" "week_start 345600000000000"
  by (simp_all add: weekStart_days week_start_def Weekday_def)

lemma sweep_example_ok: "partitions_ok er_occurred_at (sw_events (sweep_example example_at))"
  by (simp add: partitions_ok_def sweep_example_def in_week_def PartitionWidth_def example_weeks)


text \<open>
  C29. An issue the sweep deletes leaves no event behind: when its events are not later than its
  \<open>last_seen\<close> and the retention is at least three days, all of them are gone from the events table
  too, so no listed event lacks its issue because of the sweep.
\<close>

theorem expired_issue_has_no_event:
  assumes "partitions_ok er_occurred_at (sw_events db)"
    and "\<And>e. e \<in> set (table_rows (sw_events db)) \<Longrightarrow> er_project e = is_project i \<Longrightarrow>
      er_fingerprint e = Some (is_fingerprint i) \<Longrightarrow> er_occurred_at e \<le> is_last_seen i"
    and "i \<in> set (sw_issues db)" and "i \<notin> set (sw_issues (Sweep stuck retention now db))" and "3 * day \<le> retention"
  shows "filter (\<lambda>e. er_project e = is_project i \<and> er_fingerprint e = Some (is_fingerprint i))
    (table_rows (sw_events (Sweep stuck retention now db))) = []"
proof -
  have "\<not> (er_project e = is_project i \<and> er_fingerprint e = Some (is_fingerprint i))"
    if "e \<in> set (table_rows (sw_events (Sweep stuck retention now db)))" for e
  proof
    assume same: "er_project e = is_project i \<and> er_fingerprint e = Some (is_fingerprint i)"
    have e: "e \<in> set (table_rows (sw_events db))" "weekStart (now - retention) \<le> er_occurred_at e"
      using sweep_table_rows [OF assms(1)] that by auto
    then have "er_occurred_at e \<le> is_last_seen i" using assms(2) same by blast
    moreover have "gone_issue (weekStart (now - retention)) i \<or> stale_issue (now - StaleIssueFactor * retention) i"
      using assms(3,4) by simp
    moreover have "now - StaleIssueFactor * retention \<le> weekStart (now - retention)"
      using weekStart_near [of "now - retention"] assms(5) by (simp add: StaleIssueFactor_def)
    ultimately show False using e(2) by (auto simp: gone_issue_def stale_issue_def)
  qed
  then show ?thesis by (simp add: filter_empty_conv)
qed

text \<open>A sweep 200 days later, with a retention of 30 days.\<close>

lemma expired_issue_has_no_event_witness:
  "filter (\<lambda>e. er_project e = 1 \<and> er_fingerprint e = Some ''ab'')
     (table_rows (sw_events (Sweep (\<lambda>k. False) 2592000000000000 17280000000000000 (sweep_example example_at)))) = []"
proof -
  let ?i = "excluded_issue example_at (example_upsert\<lparr>ui_last_seen := example_at\<rparr>)"
  have i: "is_project ?i = 1" "is_fingerprint ?i = ''ab''" "is_last_seen ?i = example_at"
    by (simp_all add: excluded_issue_def example_upsert_def)
  have "?i \<notin> set (sw_issues (Sweep (\<lambda>k. False) 2592000000000000 17280000000000000 (sweep_example example_at)))"
    by (simp add: sweep_example_def stale_issue_def StaleIssueFactor_def i)
  from expired_issue_has_no_event [OF sweep_example_ok _ _ this]
  show ?thesis by (simp add: sweep_example_def table_rows_def i)
qed

text \<open>
  With a retention of one or two days the guarantee fails: \<open>now - 4 * retention\<close> is then later than
  the Monday the oldest surviving partition starts at, so an issue is deleted as stale while its
  events are still listed.
\<close>

lemma short_retention_orphans_events:
  "sw_issues (Sweep (\<lambda>k. False) 86400000000000 864000000000000 (sweep_example example_at)) = []
   \<and> table_rows (sw_events (sweep_example example_at)) \<noteq> []
   \<and> set (table_rows (sw_events (sweep_example example_at)))
       \<subseteq> set (table_rows (sw_events (Sweep (\<lambda>k. False) 86400000000000 864000000000000 (sweep_example example_at))))"
proof -
  have "r \<in> set (table_rows (sw_events (Sweep (\<lambda>k. False) 86400000000000 864000000000000 (sweep_example example_at))))"
    if "r \<in> set (table_rows (sw_events (sweep_example example_at)))" for r
    unfolding Sweep_tables
    by (rule sweep_keeps_week [OF sweep_example_ok that])
      (use that in \<open>simp_all add: sweep_example_def table_rows_def example_weeks PartitionWidth_def\<close>)
  moreover have "sw_issues (Sweep (\<lambda>k. False) 86400000000000 864000000000000 (sweep_example example_at)) = []"
    by (simp add: sweep_example_def delete_where_def stale_issue_def StaleIssueFactor_def excluded_issue_def)
  ultimately show ?thesis by (auto simp: sweep_example_def table_rows_def)
qed

end
