(* ===== verification/EventParse.thy ===== *)
theory EventParse
  imports Complex_Main Events Enums "HOL-Library.AList"
begin

text \<open>
  \<open>ParseEvent\<close> of \<open>internal/sentry/envelope.go\<close> with its helpers: timestamps, levels, tags,
  messages, breadcrumbs and \<open>sanitize\<close>. What \<open>encoding/json\<close> makes of a body is a parameter: a
  record of decoders, one per Go target type, so every statement holds whatever they return.
\<close>

section \<open>The decoded documents\<close>

record raw_mechanism =
  rm_type :: string
  rm_handled :: "bool option"
  rm_exception_id :: "int option"
  rm_parent_id :: "int option"

record raw_exception =
  rx_type :: string
  rx_value :: string
  rx_stack :: "frame list option"
  rx_mechanism :: "raw_mechanism option"

text \<open>A \<open>json.RawMessage\<close> is its text, empty when the field is absent.\<close>

record raw_breadcrumb =
  rb_timestamp :: string
  rb_type :: string
  rb_category :: string
  rb_message :: string
  rb_level :: string
  rb_data :: string

record raw_event =
  re_event_id :: string
  re_timestamp :: string
  re_level :: string
  re_message :: string
  re_logentry :: "(string \<times> string) option"
  re_platform :: string
  re_environment :: string
  re_release :: string
  re_transaction :: string
  re_server_name :: string
  re_tags :: string
  re_breadcrumbs :: "raw_breadcrumb list"
  re_fingerprint :: "string list"
  re_device_model :: "string option"
  re_os_version :: "string option"
  re_exceptions :: "raw_exception list"
  re_threads :: "raw_thread list"
  re_images :: "debug_image list"
  re_sdk_name :: "string option"
  re_user_id :: "string option"

text \<open>
  \<open>js_event\<close>: \<open>None\<close> when the body is no JSON (a field of the wrong type is dropped, the rest kept).
  \<open>js_number\<close>: a \<open>float64\<close>, as the rational it is; \<open>fl_round\<close> rounds a product back to one.
  \<open>tm_parse layout s\<close>: \<open>time.Parse\<close>.
\<close>

record json_lib =
  js_event :: "string \<Rightarrow> raw_event option"
  js_string :: "string \<Rightarrow> string option"
  js_number :: "string \<Rightarrow> rat option"
  js_message :: "string \<Rightarrow> (string \<times> string) option"
  js_tag_object :: "string \<Rightarrow> (string \<times> string) list option"
  js_tag_pairs :: "string \<Rightarrow> string list list option"
  tm_parse :: "string \<Rightarrow> string \<Rightarrow> time option"
  tm_rfc3339 :: "time \<Rightarrow> string"
  fl_round :: "rat \<Rightarrow> rat"

section \<open>Timestamps\<close>

definition time_layouts :: "string list" where
  "time_layouts = [''2006-01-02T15:04:05.999999999Z07:00'', ''2006-01-02T15:04:05Z07:00'',
     ''2006-01-02T15:04:05.999999999'', ''2006-01-02T15:04:05'',
     ''2006-01-02 15:04:05.999999999Z07:00'', ''2006-01-02 15:04:05'']"

fun parse_layouts :: "('d json_lib_scheme) \<Rightarrow> string list \<Rightarrow> string \<Rightarrow> time" where
  "parse_layouts lib [] s = zero_time"
| "parse_layouts lib (l # ls) s = (case tm_parse lib l s of Some t \<Rightarrow> t | None \<Rightarrow> parse_layouts lib ls s)"

text \<open>A conversion to \<open>int64\<close> truncates towards zero; the guards keep it in range.\<close>

definition trunc_rat :: "rat \<Rightarrow> int" where
  "trunc_rat r = (if r < 0 then \<lceil>r\<rceil> else \<lfloor>r\<rfloor>)"

definition parseTimestamp :: "('d json_lib_scheme) \<Rightarrow> string \<Rightarrow> time" where
  "parseTimestamp lib raw0 =
     (let raw = trim_space raw0 in
      if raw = [] then zero_time
      else case js_number lib raw of
             Some f \<Rightarrow>
               if f \<le> 0 \<or> 10 ^ 15 \<le> f then zero_time
               else if f < 10 ^ 12 then
                 (let sec = trunc_rat f; frac = f - of_int sec
                  in sec * second + trunc_rat (fl_round lib (frac * 10 ^ 9)))
               else trunc_rat f * 1000000
           | None \<Rightarrow>
               (case js_string lib raw of
                  None \<Rightarrow> zero_time
                | Some s \<Rightarrow> if trim_space s = [] then zero_time else parse_layouts lib time_layouts s))"

text \<open>More than a minute ahead of the server: a wrong clock, taken as happening now.\<close>

definition clampFuture :: "time \<Rightarrow> time \<Rightarrow> time \<times> bool" where
  "clampFuture t now = (if now + minute < t then (now, True) else (t, False))"

section \<open>Scalars, tags, messages, breadcrumbs\<close>

definition normalizeLevel :: "string \<Rightarrow> string" where
  "normalizeLevel l0 =
     (let l = to_lower (trim_space l0) in
      if l = ''warn'' then ''warning''
      else if l = ''critical'' then ''fatal''
      else if l = ''log'' then ''info''
      else if l \<in> {''fatal'', ''error'', ''warning'', ''info'', ''debug''} then l
      else ''error'')"

definition scalarString :: "('d json_lib_scheme) \<Rightarrow> string \<Rightarrow> string" where
  "scalarString lib raw0 =
     (let raw = trim_space raw0 in
      if raw = [] \<or> raw = ''null'' then []
      else case js_string lib raw of Some s \<Rightarrow> s | None \<Rightarrow> raw)"

text \<open>\<open>m[k] = v\<close> on a map held as its entries.\<close>

definition put_tag :: "string \<Rightarrow> string \<Rightarrow> (string \<times> string) list \<Rightarrow> (string \<times> string) list" where
  "put_tag k v m = AList.update k v m"

definition parseTags :: "('d json_lib_scheme) \<Rightarrow> string \<Rightarrow> (string \<times> string) list" where
  "parseTags lib raw =
     (if raw = [] then []
      else case js_tag_object lib raw of
             Some obj \<Rightarrow> fold (\<lambda>(k, v). put_tag k (scalarString lib v)) obj []
           | None \<Rightarrow>
               (case js_tag_pairs lib raw of
                  None \<Rightarrow> []
                | Some pairs \<Rightarrow>
                    fold (\<lambda>p m. case p of k # v # _ \<Rightarrow> put_tag (scalarString lib k) (scalarString lib v) m
                                        | _ \<Rightarrow> m) pairs []))"

definition noMessage :: string where "noMessage = ''(no message)''"

text \<open>\<open>primary\<close> indexes the values the exceptions were built from.\<close>

definition extractMessage :: "('d json_lib_scheme) \<Rightarrow> raw_event \<Rightarrow> nat \<Rightarrow> string" where
  "extractMessage lib re primary =
     (let first_of = (\<lambda>xs. find (\<lambda>s. s \<noteq> []) xs);
          logentry = (case re_logentry re of None \<Rightarrow> [] | Some (m, f) \<Rightarrow> [f, m]);
          message = (if re_message re = [] then []
                     else (case js_string lib (re_message re) of None \<Rightarrow> [] | Some s \<Rightarrow> [s])
                        @ (case js_message lib (re_message re) of None \<Rightarrow> [] | Some (f, m) \<Rightarrow> [f, m]))
      in case first_of (logentry @ message) of
           Some s \<Rightarrow> s
         | None \<Rightarrow>
             if primary < length (re_exceptions re) then
               (let v = re_exceptions re ! primary;
                    t = (if rx_type v = [] then ''Error'' else rx_type v)
                in if rx_value v = [] then t else t @ '': '' @ rx_value v)
             else noMessage)"

definition lastBreadcrumbs :: "raw_breadcrumb list \<Rightarrow> raw_breadcrumb list" where
  "lastBreadcrumbs xs = (if 20 < length xs then drop (length xs - 20) xs else xs)"

definition breadcrumb_of :: "('d json_lib_scheme) \<Rightarrow> raw_breadcrumb \<Rightarrow> breadcrumb" where
  "breadcrumb_of lib b =
     (let t = parseTimestamp lib (rb_timestamp b) in
      \<lparr>bc_timestamp = (if t = zero_time then [] else tm_rfc3339 lib t), bc_type = rb_type b,
       bc_category = (if rb_category b = [] then ''default'' else rb_category b),
       bc_message = rb_message b,
       bc_level = (if rb_level b = [] then ''info'' else rb_level b), bc_data = rb_data b\<rparr>)"

definition exception_of :: "raw_exception \<Rightarrow> sentry_exception" where
  "exception_of x =
     \<lparr>ex_type = rx_type x, ex_value = rx_value x,
      ex_frames = (case rx_stack x of None \<Rightarrow> [] | Some fs \<Rightarrow> fs),
      ex_handled = (case rx_mechanism x of None \<Rightarrow> None | Some m \<Rightarrow> rm_handled m),
      ex_mechanism = (case rx_mechanism x of None \<Rightarrow> [] | Some m \<Rightarrow> rm_type m),
      ex_id = (case rx_mechanism x of None \<Rightarrow> None | Some m \<Rightarrow> rm_exception_id m),
      ex_parent = (case rx_mechanism x of None \<Rightarrow> None | Some m \<Rightarrow> rm_parent_id m)\<rparr>"

section \<open>Sanitizing\<close>

definition maxMessage :: nat where "maxMessage = 500"
definition maxRelease :: nat where "maxRelease = 200"
definition maxEnvironment :: nat where "maxEnvironment = 64"
definition maxScreen :: nat where "maxScreen = 200"
definition maxUserID :: nat where "maxUserID = 128"
definition maxErrorType :: nat where "maxErrorType = 200"
definition maxDevice :: nat where "maxDevice = 200"
definition maxSDKName :: nat where "maxSDKName = 100"
definition maxPlatform :: nat where "maxPlatform = 64"
definition maxTagKey :: nat where "maxTagKey = 32"
definition maxTagValue :: nat where "maxTagValue = 200"
definition maxFrameField :: nat where "maxFrameField = 1024"
definition maxSessionID :: nat where "maxSessionID = 128"

text \<open>
  The loop over the tags changes the map it ranges over: an entry that was deleted is not visited,
  one that was overwritten is visited with its new value (an added one may be visited too, which
  cleaning a clean key and value makes no difference).
\<close>

definition clean_tag :: "string \<Rightarrow> (string \<times> string) list \<Rightarrow> (string \<times> string) list" where
  "clean_tag k m =
     (case map_of m k of
        None \<Rightarrow> m
      | Some v \<Rightarrow>
          let ck = clean k (maxTagKey + 1) in
          if ck = [] \<or> maxTagKey < length (runes ck) then AList.delete k m
          else put_tag ck (clean v maxTagValue) (if ck \<noteq> k then AList.delete k m else m))"

definition clean_tags :: "(string \<times> string) list \<Rightarrow> (string \<times> string) list" where
  "clean_tags m = fold clean_tag (map fst m) m"

definition clean_frame :: "frame \<Rightarrow> frame" where
  "clean_frame f = f\<lparr>
     fr_filename := clean (fr_filename f) maxFrameField, fr_abs_path := clean (fr_abs_path f) maxFrameField,
     fr_function := clean (fr_function f) maxFrameField, fr_module := clean (fr_module f) maxFrameField,
     fr_package := clean (fr_package f) maxFrameField, fr_instr_addr := clean (fr_instr_addr f) maxFrameField,
     fr_image_addr := clean (fr_image_addr f) maxFrameField, fr_symbol_addr := clean (fr_symbol_addr f) maxFrameField\<rparr>"

definition clean_exception :: "sentry_exception \<Rightarrow> sentry_exception" where
  "clean_exception x = x\<lparr>
     ex_type := clean (ex_type x) maxErrorType, ex_value := clean (ex_value x) maxMessage,
     ex_mechanism := clean (ex_mechanism x) maxErrorType, ex_frames := map clean_frame (ex_frames x)\<rparr>"

definition sanitize :: "event \<Rightarrow> event" where
  "sanitize e = e\<lparr>
     ev_platform := clean (ev_platform e) maxPlatform,
     ev_environment := clean (ev_environment e) maxEnvironment,
     ev_transaction := clean (ev_transaction e) maxScreen,
     ev_release := clean (ev_release e) maxRelease,
     ev_message := clean (ev_message e) maxMessage,
     ev_error_type := clean (ev_error_type e) maxErrorType,
     ev_device_model := clean (ev_device_model e) maxDevice,
     ev_os_version := clean (ev_os_version e) maxDevice,
     ev_sdk_name := clean (ev_sdk_name e) maxSDKName,
     ev_user_id := clean (ev_user_id e) maxUserID,
     ev_tags := clean_tags (ev_tags e),
     ev_exceptions := map clean_exception (ev_exceptions e)\<rparr>"

section \<open>ParseEvent\<close>

definition event_id_of :: "string \<Rightarrow> string \<Rightarrow> string \<Rightarrow> id_text" where
  "event_id_of own header body =
     (case ParseID own of
        Some i \<Rightarrow> i
      | None \<Rightarrow> (case ParseID header of Some i \<Rightarrow> i | None \<Rightarrow> DerivedID body))"

definition event_time :: "('d json_lib_scheme) \<Rightarrow> string \<Rightarrow> time \<Rightarrow> time \<Rightarrow> time \<times> bool" where
  "event_time lib raw fallback now =
     (let t0 = parseTimestamp lib raw;
          (t, clamped) = clampFuture (if t0 = zero_time then fallback else t0) now
      in (truncate_time t microsecond, clamped))"

definition add_server_name :: "string \<Rightarrow> (string \<times> string) list \<Rightarrow> (string \<times> string) list" where
  "add_server_name s m = (if s \<noteq> [] \<and> map_of m ''server_name'' = None then put_tag ''server_name'' s m else m)"

text \<open>The main exception without frames of its own borrows the crashed thread's.\<close>

definition borrow_frames :: "raw_thread list \<Rightarrow> sentry_exception list \<Rightarrow> sentry_exception list" where
  "borrow_frames ts xs =
     (let i = mainException xs in
      if xs \<noteq> [] \<and> ex_frames (xs ! i) = [] then xs[i := (xs ! i)\<lparr>ex_frames := threadFrames ts\<rparr>] else xs)"

definition image_of :: "debug_image \<Rightarrow> debug_image" where
  "image_of i = (if im_debug_id i = [] then i\<lparr>im_debug_id := im_uuid i\<rparr> else i)"

definition opt_text :: "string option \<Rightarrow> string" where
  "opt_text s = (case s of None \<Rightarrow> [] | Some t \<Rightarrow> t)"

text \<open>The fields of the event, before \<open>sanitize\<close>.\<close>

definition event_from ::
  "('d json_lib_scheme) \<Rightarrow> string \<Rightarrow> time \<Rightarrow> bool \<Rightarrow> string \<Rightarrow> raw_event \<Rightarrow> event" where
  "event_from lib header_id t clamped trimmed re =
     (let xs = map exception_of (re_exceptions re);
          primary = mainException xs
      in \<lparr>ev_id = event_id_of (re_event_id re) header_id trimmed,
          ev_time = t,
          ev_level = normalizeLevel (re_level re),
          ev_message = Truncate (extractMessage lib re primary) maxMessage,
          ev_platform = re_platform re,
          ev_environment = re_environment re,
          ev_release = re_release re,
          ev_os_version = opt_text (re_os_version re),
          ev_device_model = opt_text (re_device_model re),
          ev_transaction = re_transaction re,
          ev_error_type = (if xs = [] then [] else ex_type (xs ! primary)),
          ev_handled = (if xs = [] then None else ex_handled (xs ! primary)),
          ev_sdk_name = opt_text (re_sdk_name re),
          ev_user_id = (case re_user_id re of None \<Rightarrow> [] | Some raw \<Rightarrow> scalarString lib raw),
          ev_tags = add_server_name (re_server_name re) (parseTags lib (re_tags re)),
          ev_breadcrumbs = map (breadcrumb_of lib) (lastBreadcrumbs (re_breadcrumbs re)),
          ev_exceptions = borrow_frames (re_threads re) xs,
          ev_images = map image_of (re_images re),
          ev_sdk_fingerprint = re_fingerprint re,
          ev_primary = primary,
          ev_thread_frames = (if xs = [] then threadFrames (re_threads re) else []),
          ev_clamped = clamped,
          ev_raw = trimmed\<rparr>)"

definition ParseEvent ::
  "('d json_lib_scheme) \<Rightarrow> string \<Rightarrow> time \<Rightarrow> string \<Rightarrow> time \<Rightarrow> event option" where
  "ParseEvent lib header_id fallback body now =
     (let trimmed = trim_space body in
      if trimmed = [] \<or> hd trimmed \<noteq> CHR ''{'' then None
      else case js_event lib trimmed of
             None \<Rightarrow> None
           | Some re \<Rightarrow>
               let (t, clamped) = event_time lib (re_timestamp re) fallback now
               in Some (sanitize (event_from lib header_id t clamped trimmed re)))"

section \<open>Helper facts\<close>

lemma clampFuture_bound: "fst (clampFuture t now) \<le> now + minute"
  by (simp add: clampFuture_def)

lemma clampFuture_clamped: "snd (clampFuture t now) \<Longrightarrow> fst (clampFuture t now) = now"
  by (simp add: clampFuture_def split: if_splits)

text \<open>The levels as a normaliser: what comes out is one of the five of the database enum.\<close>

definition protocol_level :: "string \<Rightarrow> bool" where
  "protocol_level l \<longleftrightarrow> l \<in> {''fatal'', ''error'', ''warning'', ''info'', ''debug''}"

lemma level_text_plain:
  assumes "protocol_level l"
  shows "to_lower (trim_space l) = l"
proof -
  have a: "ascii l" using assms by (auto simp: protocol_level_def ascii_def)
  moreover have "trim_space l = l"
    using assms by (intro trim_space_fixed [OF a]) (auto simp: protocol_level_def space_char_def is_space_def)
  moreover have "map lower_char l = l" using assms by (auto simp: protocol_level_def lower_char_def Let_def)
  ultimately show ?thesis by (simp add: to_lower_ascii)
qed

interpretation levels: normalizer normalizeLevel protocol_level
proof
  fix l
  show "protocol_level (normalizeLevel l)" by (simp add: normalizeLevel_def protocol_level_def Let_def)
  assume "protocol_level l"
  with level_text_plain [of l] show "normalizeLevel l = l"
    by (auto simp: normalizeLevel_def protocol_level_def Let_def)
qed

text \<open>Tags: the keys stay distinct, and every entry is clean once the loop has visited it.\<close>

definition good_tag :: "string \<times> string \<Rightarrow> bool" where
  "good_tag e \<longleftrightarrow> fst e \<noteq> [] \<and> is_clean maxTagKey (fst e) \<and> is_clean maxTagValue (snd e)"

lemma put_tag_distinct: "distinct (map fst m) \<Longrightarrow> distinct (map fst (put_tag k v m))"
  by (simp add: put_tag_def distinct_update)

lemma set_put_tag: "distinct (map fst m) \<Longrightarrow> e \<in> set (put_tag k v m) \<longleftrightarrow> e = (k, v) \<or> e \<in> set m \<and> fst e \<noteq> k"
proof (induction m)
  case (Cons x m)
  have "e \<in> set m \<Longrightarrow> fst e \<noteq> fst x" using Cons.prems by (metis distinct.simps(2) image_eqI list.simps(9) set_map)
  with Cons show ?case by (cases x) (auto simp: put_tag_def)
qed (simp add: put_tag_def)

lemma set_delete_tag: "e \<in> set (AList.delete k m) \<longleftrightarrow> e \<in> set m \<and> fst e \<noteq> k"
  by (auto simp: AList.delete_eq)

lemma parseTags_distinct: "distinct (map fst (parseTags lib raw))"
proof -
  have obj: "distinct (map fst (fold (\<lambda>(k, v). put_tag k (f v)) xs m))" if "distinct (map fst m)"
    for f :: "string \<Rightarrow> string" and xs m
    using that by (induction xs arbitrary: m) (auto intro: put_tag_distinct)
  have pairs: "distinct (map fst (fold (\<lambda>p m. case p of k # v # _ \<Rightarrow> put_tag (f k) (f v) m | _ \<Rightarrow> m) ps m))"
    if "distinct (map fst m)" for f :: "string \<Rightarrow> string" and ps :: "string list list" and m
    using that
  proof (induction ps arbitrary: m)
    case (Cons p ps)
    then show ?case by (cases p rule: remdups_adj.cases) (auto intro: put_tag_distinct)
  qed simp
  show ?thesis unfolding parseTags_def by (auto intro: obj pairs split: option.split)
qed

lemma clean_tag_step:
  assumes "distinct (map fst m)" and inv: "\<forall>e \<in> set m. good_tag e \<or> fst e \<in> set (k # ks)"
  shows "distinct (map fst (clean_tag k m)) \<and> (\<forall>e \<in> set (clean_tag k m). good_tag e \<or> fst e \<in> set ks)"
proof (cases "map_of m k")
  case None
  then have "k \<notin> fst ` set m" by (simp add: map_of_eq_None_iff)
  with None assms show ?thesis by (fastforce simp: clean_tag_def)
next
  case (Some v)
  let ?ck = "clean k (maxTagKey + 1)"
  have del: "distinct (map fst (AList.delete k m))" using assms(1) by (simp add: distinct_delete)
  show ?thesis
  proof (cases "?ck = [] \<or> maxTagKey < length (runes ?ck)")
    case True
    with Some assms del show ?thesis by (auto simp: clean_tag_def Let_def set_delete_tag)
  next
    case False
    have "is_clean (maxTagKey + 1) ?ck" by (rule clean_is_clean)
    with False have "is_clean maxTagKey ?ck" by (simp add: is_clean_def)
    with False have good: "good_tag (?ck, clean v maxTagValue)" by (simp add: good_tag_def)
    let ?m = "if ?ck \<noteq> k then AList.delete k m else m"
    have d: "distinct (map fst ?m)" using del assms(1) by simp
    have "clean_tag k m = put_tag ?ck (clean v maxTagValue) ?m"
      using Some False by (simp add: clean_tag_def Let_def)
    moreover have "good_tag e \<or> fst e \<in> set ks" if "e \<in> set (put_tag ?ck (clean v maxTagValue) ?m)" for e
    proof -
      from that consider "e = (?ck, clean v maxTagValue)" | "e \<in> set ?m" "fst e \<noteq> ?ck"
        unfolding set_put_tag [OF d] by blast
      then show ?thesis
      proof cases
        case 2
        then have "e \<in> set m" "fst e \<noteq> k" by (auto simp: set_delete_tag split: if_splits)
        with inv show ?thesis by auto
      qed (use good in blast)
    qed
    ultimately show ?thesis using put_tag_distinct [OF d] by simp
  qed
qed

lemma clean_tags_good:
  assumes "distinct (map fst m)"
  shows "distinct (map fst (clean_tags m)) \<and> list_all good_tag (clean_tags m)"
proof -
  have "distinct (map fst (fold clean_tag ks m)) \<and> (\<forall>e \<in> set (fold clean_tag ks m). good_tag e)"
    if "distinct (map fst m)" "\<forall>e \<in> set m. good_tag e \<or> fst e \<in> set ks" for ks
    using that
  proof (induction ks arbitrary: m)
    case (Cons k ks)
    from clean_tag_step [OF Cons.prems] Cons.IH [of "clean_tag k m"] show ?case by simp
  qed simp
  from this [of "map fst m"] assms show ?thesis by (simp add: clean_tags_def list_all_iff)
qed

definition clean_exc :: "sentry_exception \<Rightarrow> bool" where
  "clean_exc x \<longleftrightarrow> is_clean maxErrorType (ex_type x) \<and> is_clean maxMessage (ex_value x)
     \<and> is_clean maxErrorType (ex_mechanism x)
     \<and> list_all (\<lambda>f. list_all (is_clean maxFrameField) [fr_filename f, fr_abs_path f, fr_function f, fr_module f,
          fr_package f, fr_instr_addr f, fr_image_addr f, fr_symbol_addr f]) (ex_frames x)"

lemma clean_exception_ok: "clean_exc (clean_exception x)"
  by (simp add: clean_exc_def clean_exception_def list_all_iff clean_frame_def)

text \<open>The columns of the events table \<open>sanitize\<close> is for.\<close>

definition clean_columns :: "event \<Rightarrow> bool" where
  "clean_columns e \<longleftrightarrow> is_clean maxPlatform (ev_platform e) \<and> is_clean maxEnvironment (ev_environment e)
     \<and> is_clean maxScreen (ev_transaction e) \<and> is_clean maxRelease (ev_release e)
     \<and> is_clean maxMessage (ev_message e) \<and> is_clean maxErrorType (ev_error_type e)
     \<and> is_clean maxDevice (ev_device_model e) \<and> is_clean maxDevice (ev_os_version e)
     \<and> is_clean maxSDKName (ev_sdk_name e) \<and> is_clean maxUserID (ev_user_id e)"

lemma event_id_valid: "valid_id (event_id_of own header body)"
  by (auto simp: event_id_of_def DerivedID_valid dest: ParseID_valid split: option.split)

lemma length_borrow [simp]: "length (borrow_frames ts xs) = length xs"
  by (simp add: borrow_frames_def Let_def)

lemma borrow_Nil [simp]: "borrow_frames ts [] = []"
  by (simp add: borrow_frames_def)

lemma event_time_bound: "event_time lib raw fallback now = (t, c) \<Longrightarrow> t \<le> now + minute \<and> (c \<longrightarrow> t = truncate_time now microsecond)"
  using clampFuture_bound [of "if parseTimestamp lib raw = zero_time then fallback else parseTimestamp lib raw" now]
    clampFuture_clamped [of "if parseTimestamp lib raw = zero_time then fallback else parseTimestamp lib raw" now]
    truncate_time_le
  by (auto simp: event_time_def Let_def split: prod.splits intro: order_trans)

fun_cases ParseEvent_fun_cases: "parse_layouts lib (l # ls) s = t"

definition event_ok :: "time \<Rightarrow> event \<Rightarrow> bool" where
  "event_ok now ev \<longleftrightarrow> valid_id (ev_id ev) \<and> event_level_of_text (ev_level ev) \<noteq> None
    \<and> ev_time ev \<le> now + minute \<and> (ev_clamped ev \<longrightarrow> ev_time ev = truncate_time now microsecond)
    \<and> clean_columns ev \<and> list_all clean_exc (ev_exceptions ev)
    \<and> distinct (map fst (ev_tags ev)) \<and> list_all good_tag (ev_tags ev)
    \<and> length (ev_breadcrumbs ev) \<le> 20 \<and> Frames ev \<noteq> None"

lemma parse_event_ok:
  assumes "ParseEvent lib header_id fallback body now = Some ev"
  shows "event_ok now ev"
proof -
  obtain re t c where t: "event_time lib (re_timestamp re) fallback now = (t, c)"
    and ev: "ev = sanitize (event_from lib header_id t c (trim_space body) re)"
    using assms by (auto simp: ParseEvent_def Let_def split: if_splits option.splits prod.splits)
  let ?xs = "map exception_of (re_exceptions re)"
  have lvl: "event_level_of_text (normalizeLevel l) \<noteq> None" for l
    using levels.canonical_f [of l] by (auto simp: protocol_level_def event_level_of_text_def event_level_values_def)
  have "valid_id (ev_id ev) \<and> event_level_of_text (ev_level ev) \<noteq> None"
    by (simp add: ev sanitize_def event_from_def Let_def event_id_valid lvl del: not_None_eq)
  moreover have "ev_time ev \<le> now + minute \<and> (ev_clamped ev \<longrightarrow> ev_time ev = truncate_time now microsecond)"
    using event_time_bound [OF t] by (simp add: ev sanitize_def event_from_def Let_def)
  moreover have "clean_columns ev \<and> list_all clean_exc (ev_exceptions ev)"
    unfolding ev by (simp add: clean_columns_def sanitize_def list_all_iff clean_exception_ok)
  moreover have "distinct (map fst (ev_tags ev)) \<and> list_all good_tag (ev_tags ev)"
    unfolding ev sanitize_def
    using clean_tags_good [of "add_server_name (re_server_name re) (parseTags lib (re_tags re))"]
    by (simp add: event_from_def Let_def add_server_name_def parseTags_distinct put_tag_distinct)
  moreover have "length (ev_breadcrumbs ev) \<le> 20"
    by (simp add: ev sanitize_def event_from_def Let_def lastBreadcrumbs_def)
  moreover have "Frames ev \<noteq> None"
    using mainException_lt [of ?xs] by (cases "re_exceptions re") (simp_all add: ev sanitize_def event_from_def Let_def Frames_def)
  ultimately show ?thesis unfolding event_ok_def by blast
qed

section \<open>Properties\<close>

text \<open>
  C34. What \<open>ParseEvent\<close> returns can be stored: the id is a valid one, the level one of the database
  enum, the time at most a minute ahead of the server (and the server's own when it was clamped), the
  text columns and the exceptions bounded and free of NUL, the tags distinct, non-empty and bounded,
  at most 20 breadcrumbs, and the main exception exists.
\<close>

theorem ParseEvent_storable:
  assumes "ParseEvent lib header_id fallback body now = Some ev"
  shows "valid_id (ev_id ev) \<and> event_level_of_text (ev_level ev) \<noteq> None
    \<and> ev_time ev \<le> now + minute \<and> (ev_clamped ev \<longrightarrow> ev_time ev = truncate_time now microsecond)
    \<and> clean_columns ev \<and> list_all clean_exc (ev_exceptions ev)
    \<and> distinct (map fst (ev_tags ev)) \<and> list_all good_tag (ev_tags ev)
    \<and> length (ev_breadcrumbs ev) \<le> 20 \<and> Frames ev \<noteq> None"
  using parse_event_ok [OF assms] unfolding event_ok_def .

text \<open>A decoder for the examples: every body decodes to the same event, nothing else does.\<close>

definition example_raw :: raw_event where
  "example_raw = \<lparr>re_event_id = [], re_timestamp = ''t'', re_level = ''Warn'', re_message = [], re_logentry = None,
     re_platform = ''go'', re_environment = [], re_release = ''1.0'', re_transaction = [], re_server_name = ''web-1'',
     re_tags = [], re_breadcrumbs = [], re_fingerprint = [], re_device_model = None, re_os_version = None,
     re_exceptions = [], re_threads = [\<lparr>rt_crashed = True, rt_current = False,
       rt_stack = Some [frame0\<lparr>fr_function := [CHR ''f'', CHR 0x00]\<rparr>]\<rparr>],
     re_images = [], re_sdk_name = None, re_user_id = None\<rparr>"

definition example_json :: json_lib where
  "example_json = \<lparr>js_event = (\<lambda>s. Some example_raw), js_string = (\<lambda>s. None), js_number = (\<lambda>s. Some 2000000000),
     js_message = (\<lambda>s. None), js_tag_object = (\<lambda>s. None), js_tag_pairs = (\<lambda>s. None), tm_parse = (\<lambda>l s. None),
     tm_rfc3339 = (\<lambda>t. []), fl_round = (\<lambda>r. r)\<rparr>"

lemma trim_braces: "trim_space ''{}'' = ''{}''"
  by (rule trim_space_fixed) (simp_all add: ascii_def space_char_def is_space_def)

definition example_parsed :: event where
  "example_parsed = sanitize (event_from example_json [] 1000 True ''{}'' example_raw)"

text \<open>The SDK's clock (the year 2033) is ahead of the server's (just after the epoch).\<close>

lemma ParseEvent_example: "ParseEvent example_json [] 0 ''{}'' 1500 = Some example_parsed"
proof -
  have "trim_space ''t'' = ''t''" by (rule trim_space_fixed) (simp_all add: ascii_def space_char_def is_space_def)
  then have "event_time example_json ''t'' 0 1500 = (1000, True)"
    by (simp add: event_time_def parseTimestamp_def example_json_def Let_def trunc_rat_def zero_time_def clampFuture_def
        truncate_time_def)
  then show ?thesis
    by (simp add: ParseEvent_def trim_braces example_parsed_def Let_def)
      (simp add: example_json_def example_raw_def)
qed

lemma ParseEvent_storable_witness:
  "ev_time example_parsed = 1000 \<and> clean_columns example_parsed \<and> list_all good_tag (ev_tags example_parsed)"
  using ParseEvent_storable [OF ParseEvent_example] by (simp add: truncate_time_def zero_time_def)
    (simp add: example_parsed_def sanitize_def event_from_def Let_def)

text \<open>
  A resend lands on the same row: the same body parsed again, at another time and from another
  envelope with the same header id, gives the same event except for its time and whether that was
  clamped - and the same time too, when the SDK's timestamp is usable and not ahead of either clock.
\<close>

theorem ParseEvent_resend:
  "map_option (\<lambda>e. e\<lparr>ev_time := 0, ev_clamped := False\<rparr>) (ParseEvent lib header_id fb1 body now1)
     = map_option (\<lambda>e. e\<lparr>ev_time := 0, ev_clamped := False\<rparr>) (ParseEvent lib header_id fb2 body now2)
   \<and> map_option ev_time (ParseEvent lib header_id fb1 body now1) =
     map_option (\<lambda>re. fst (event_time lib (re_timestamp re) fb1 now1))
       (if trim_space body = [] \<or> hd (trim_space body) \<noteq> CHR ''{'' then None else js_event lib (trim_space body))
   \<and> (zero_time \<noteq> parseTimestamp lib raw \<and> parseTimestamp lib raw \<le> min now1 now2 + minute \<longrightarrow>
       event_time lib raw fb1 now1 = event_time lib raw fb2 now2)"
  by (auto simp: ParseEvent_def Let_def event_time_def clampFuture_def sanitize_def event_from_def
      split: option.splits prod.splits)

text \<open>Parsed again an hour later, with a usable timestamp.\<close>

lemma ParseEvent_resend_witness:
  "event_time example_json ''t'' 0 (3 * 10 ^ 18) = event_time example_json ''t'' 0 (3 * 10 ^ 18 + hour)"
proof -
  have "trim_space ''t'' = ''t''" by (rule trim_space_fixed) (simp_all add: ascii_def space_char_def is_space_def)
  then have "parseTimestamp example_json ''t'' = 2000000000 * second"
    by (simp add: parseTimestamp_def example_json_def Let_def trunc_rat_def)
  then show ?thesis
    using ParseEvent_resend [of example_json "[]" 0 "[]" "3 * 10 ^ 18" 0 "3 * 10 ^ 18 + hour" "''t''"]
    by (simp add: zero_time_def)
qed

text \<open>
  \<open>sanitize\<close> leaves the frames of an event without exceptions as they are: a NUL in a function name
  reaches \<open>ThreadFrames\<close>, and with it the culprit column, which Postgres refuses.
\<close>

lemma thread_frames_not_cleaned:
  "map_option (map fr_function) (Frames example_parsed) = Some [[CHR ''f'', CHR 0x00]]"
  by (simp add: example_parsed_def sanitize_def event_from_def Let_def Frames_def example_raw_def threadFrames_def frame0_def)

end
