(* ===== verification/Envelope.thy ===== *)
theory Envelope
  imports EventParse Monitors
begin

text \<open>
  The envelope reader of \<open>internal/sentry/envelope.go\<close>: the framing (\<open>Parse\<close>, \<open>cutLine\<close>), the limits on
  what one envelope may hold, and the items beside events - sessions, attachments, user reports,
  client reports and check-ins. The JSON decoders are parameters, as in \<open>EventParse\<close>.
\<close>

section \<open>The decoded items\<close>

record item_header =
  ih_type :: string
  ih_length :: "int option"
  ih_filename :: string
  ih_content_type :: string
  ih_attachment_type :: string

record raw_session =
  rs_sid :: string
  rs_status :: string
  rs_errors :: int
  rs_release :: string
  rs_started :: string
  rs_attrs :: "(string \<times> string) option"
  rs_environment :: string

record raw_aggregate =
  ra_started :: string
  ra_exited :: int
  ra_errored :: int
  ra_crashed :: int
  ra_abnormal :: int

record raw_sessions =
  rg_aggregates :: "raw_aggregate list"
  rg_attrs :: "(string \<times> string) option"
  rg_items :: "raw_session list"

record raw_user_report =
  ru_event_id :: string
  ru_name :: string
  ru_email :: string
  ru_comments :: string

record raw_monitor_config =
  rc_type :: string
  rc_value :: string
  rc_unit :: string
  rc_checkin_margin :: "rat option"
  rc_max_runtime :: "rat option"
  rc_failure_threshold :: "int option"
  rc_recovery_threshold :: "int option"
  rc_timezone :: string

text \<open>The duration is already the \<open>float32\<close> the column holds.\<close>

record raw_check_in =
  rk_id :: string
  rk_slug :: string
  rk_status :: string
  rk_duration :: "float_bits option"
  rk_release :: string
  rk_environment :: string
  rk_config :: "raw_monitor_config option"

text \<open>
  \<open>fl_overflow\<close>: what the conversion of a float to a signed integer of that many bits gives out of
  range (Go leaves it to the implementation).
\<close>

record 'c item_lib = json_lib +
  js_envelope_header :: "string \<Rightarrow> (string \<times> string) option"
  js_item_header :: "string \<Rightarrow> item_header option"
  js_session :: "string \<Rightarrow> raw_session option"
  js_sessions :: "string \<Rightarrow> raw_sessions option"
  js_user_report :: "string \<Rightarrow> raw_user_report option"
  js_client_report :: "string \<Rightarrow> (string \<times> string \<times> int) list option"
  js_check_in :: "string \<Rightarrow> raw_check_in option"
  fl_overflow :: "nat \<Rightarrow> rat \<Rightarrow> int"
  it_cron :: "'c cron_lib"

definition float_to_int :: "'c item_lib \<Rightarrow> nat \<Rightarrow> rat \<Rightarrow> int" where
  "float_to_int lib w r =
     (let n = trunc_rat r in if - (2 ^ (w - 1)) \<le> n \<and> n < 2 ^ (w - 1) then n else fl_overflow lib w r)"

section \<open>User reports and client reports\<close>

definition maxReportField :: nat where "maxReportField = 200"
definition maxReportComments :: nat where "maxReportComments = 4096"
definition maxClientReportEntries :: nat where "maxClientReportEntries = 200"
definition maxClientReportField :: nat where "maxClientReportField = 200"

record user_report =
  ur_event_id :: id_text
  ur_name :: string
  ur_email :: string
  ur_comments :: string

definition parseUserReport :: "'c item_lib \<Rightarrow> string \<Rightarrow> string \<Rightarrow> user_report option" where
  "parseUserReport lib header_id body =
     (case js_user_report lib body of
        None \<Rightarrow> None
      | Some raw \<Rightarrow>
          (case (case ParseID (ru_event_id raw) of Some i \<Rightarrow> Some i | None \<Rightarrow> ParseID header_id) of
             None \<Rightarrow> None
           | Some i \<Rightarrow>
               let comments = clean (ru_comments raw) maxReportComments in
               if comments = [] then None
               else Some \<lparr>ur_event_id = i, ur_name = clean (ru_name raw) maxReportField,
                          ur_email = clean (ru_email raw) maxReportField, ur_comments = comments\<rparr>))"

record client_report_count =
  cr_reason :: string
  cr_category :: string
  cr_quantity :: int

fun client_counts :: "nat \<Rightarrow> (string \<times> string \<times> int) list \<Rightarrow> client_report_count list \<times> nat" where
  "client_counts i [] = ([], 0)"
| "client_counts i ((r, c, q) # es) =
     (let (counts, dropped) = client_counts (Suc i) es in
      if q \<le> 0 then (counts, dropped)
      else if maxClientReportEntries \<le> i then (counts, dropped + 1)
      else (\<lparr>cr_reason = clean r maxClientReportField, cr_category = clean c maxClientReportField,
              cr_quantity = q\<rparr> # counts, dropped))"

definition parseClientReport :: "'c item_lib \<Rightarrow> string \<Rightarrow> client_report_count list \<times> nat" where
  "parseClientReport lib body =
     (case js_client_report lib body of None \<Rightarrow> ([], 1) | Some es \<Rightarrow> client_counts 0 es)"

section \<open>Check-ins\<close>

definition maxSlug :: nat where "maxSlug = 200"
definition maxScheduleValue :: nat where "maxScheduleValue = 200"
definition maxTimezone :: nat where "maxTimezone = 64"
definition defaultMargin :: int where "defaultMargin = 1"
definition defaultMaxRuntime :: int where "defaultMaxRuntime = 30"
definition defaultThreshold :: int where "defaultThreshold = 1"

definition positive_or :: "int \<Rightarrow> int option \<Rightarrow> int" where
  "positive_or d v = (case v of Some n \<Rightarrow> if 0 < n then n else d | None \<Rightarrow> d)"

definition minutes_or :: "'c item_lib \<Rightarrow> int \<Rightarrow> rat option \<Rightarrow> int" where
  "minutes_or lib d v = (case v of Some r \<Rightarrow> if 0 < r then float_to_int lib 32 r else d | None \<Rightarrow> d)"

text \<open>The config as stored, once the schedule's type, value and unit are known; \<open>None\<close> when it does not parse.\<close>

definition bounded_config ::
  "'c item_lib \<Rightarrow> string \<Rightarrow> string \<Rightarrow> string \<Rightarrow> raw_monitor_config \<Rightarrow> monitor_config option" where
  "bounded_config lib typ val unit raw =
     (let tz = clean (rc_timezone raw) maxTimezone in
      case ParseSchedule (it_cron lib) typ val unit of
        Inl _ \<Rightarrow> None
      | Inr _ \<Rightarrow>
          if tz \<noteq> [] \<and> \<not> tz_known (it_cron lib) tz then None
          else Some \<lparr>mc_schedule_type = typ, mc_schedule_value = val, mc_schedule_unit = unit,
             mc_timezone = (if tz = [] then ''UTC'' else tz),
             mc_checkin_margin_min = minutes_or lib defaultMargin (rc_checkin_margin raw),
             mc_max_runtime_min = minutes_or lib defaultMaxRuntime (rc_max_runtime raw),
             mc_failure_threshold = positive_or defaultThreshold (rc_failure_threshold raw),
             mc_recovery_threshold = positive_or defaultThreshold (rc_recovery_threshold raw)\<rparr>)"

definition schedule_value :: "'c item_lib \<Rightarrow> string \<Rightarrow> string \<Rightarrow> string" where
  "schedule_value lib typ raw =
     (if typ = ''crontab'' then (case js_string lib raw of None \<Rightarrow> [] | Some s \<Rightarrow> s)
      else if typ = ''interval'' then
        (case js_number lib raw of None \<Rightarrow> [] | Some n \<Rightarrow> itoa_int (float_to_int lib 64 n))
      else [])"

definition parseMonitorConfig :: "'c item_lib \<Rightarrow> raw_monitor_config \<Rightarrow> monitor_config option" where
  "parseMonitorConfig lib raw =
     (let typ = to_lower (trim_space (rc_type raw));
          unit = (if typ = ''interval'' then to_lower (trim_space (rc_unit raw)) else []);
          val = clean (schedule_value lib typ (rc_value raw)) maxScheduleValue
      in bounded_config lib typ val unit raw)"

definition validCheckInStatus :: "string \<Rightarrow> bool" where
  "validCheckInStatus s \<longleftrightarrow> s \<in> {''in_progress'', ''ok'', ''error''}"

definition parseCheckIn :: "'c item_lib \<Rightarrow> string \<Rightarrow> check_in option" where
  "parseCheckIn lib body =
     (case js_check_in lib body of
        None \<Rightarrow> None
      | Some raw \<Rightarrow>
          let slug = clean (rk_slug raw) maxSlug in
          if slug = [] \<or> \<not> validCheckInStatus (rk_status raw) then None
          else (case ParseID (rk_id raw) of
                  None \<Rightarrow> None
                | Some i \<Rightarrow>
                    Some \<lparr>ci_id = i, ci_slug = slug, ci_status = rk_status raw, ci_duration = rk_duration raw,
                       ci_release = clean (rk_release raw) maxRelease,
                       ci_environment = clean (rk_environment raw) maxEnvironment,
                       ci_config = Option.bind (rk_config raw) (parseMonitorConfig lib)\<rparr>))"

section \<open>Sessions\<close>

definition validSessionStatus :: "string \<Rightarrow> bool" where
  "validSessionStatus s \<longleftrightarrow> s \<in> {''ok'', ''exited'', ''crashed'', ''errored'', ''abnormal''}"

definition started_at :: "('d json_lib_scheme) \<Rightarrow> string \<Rightarrow> time \<Rightarrow> time" where
  "started_at lib raw now =
     (let t = parseTimestamp lib raw in fst (clampFuture (if t = zero_time then now else t) now))"

definition sessionFrom :: "'c item_lib \<Rightarrow> raw_session \<Rightarrow> time \<Rightarrow> session option" where
  "sessionFrom lib s now =
     (let (ar, ae) = (case rs_attrs s of None \<Rightarrow> ([], []) | Some a \<Rightarrow> a);
          rel = clean (if rs_release s = [] then ar else rs_release s) maxRelease;
          env = clean (if rs_environment s = [] then ae else rs_environment s) maxEnvironment
      in if rel = [] \<or> \<not> validSessionStatus (rs_status s) then None
         else Some \<lparr>se_sid = clean (rs_sid s) maxSessionID, se_release = rel, se_environment = env,
                se_status = (if 0 < rs_errors s \<and> (rs_status s = ''ok'' \<or> rs_status s = ''exited'')
                             then ''errored'' else rs_status s),
                se_started = started_at lib (rs_started s) now, se_count = 1\<rparr>)"

definition MaxInt32 :: int where "MaxInt32 = 2147483647"

text \<open>The rows of one aggregate, in a fixed order.\<close>

definition aggregate_rows :: "'c item_lib \<Rightarrow> string \<Rightarrow> string \<Rightarrow> time \<Rightarrow> raw_aggregate \<Rightarrow> session list" where
  "aggregate_rows lib rel env now a =
     map (\<lambda>(status, n). \<lparr>se_sid = [], se_release = rel, se_environment = env, se_status = status,
            se_started = started_at lib (ra_started a) now, se_count = min n MaxInt32\<rparr>)
       (filter (\<lambda>(status, n). 0 < n)
          [(''exited'', ra_exited a), (''errored'', ra_errored a), (''crashed'', ra_crashed a),
           (''abnormal'', ra_abnormal a)])"

definition parse_aggregates :: "'c item_lib \<Rightarrow> string \<Rightarrow> time \<Rightarrow> session list" where
  "parse_aggregates lib body now =
     (case js_sessions lib body of
        None \<Rightarrow> []
      | Some agg \<Rightarrow>
          List.map_filter (\<lambda>it. sessionFrom lib it now) (rg_items agg) @
          (case rg_attrs agg of
             None \<Rightarrow> []
           | Some (rel, env) \<Rightarrow>
               if rel = [] then []
               else concat (map (aggregate_rows lib (clean rel maxRelease) (clean env maxEnvironment) now)
                      (rg_aggregates agg))))"

definition parseSessions :: "'c item_lib \<Rightarrow> string \<Rightarrow> time \<Rightarrow> session list" where
  "parseSessions lib body now =
     (case js_session lib body of
        Some single \<Rightarrow>
          if rs_status single \<noteq> [] then (case sessionFrom lib single now of None \<Rightarrow> [] | Some s \<Rightarrow> [s])
          else parse_aggregates lib body now
      | None \<Rightarrow> parse_aggregates lib body now)"

section \<open>The envelope\<close>

definition MaxEvents :: nat where "MaxEvents = 500"
definition MaxSessions :: nat where "MaxSessions = 5000"
definition MaxAttachments :: nat where "MaxAttachments = 8"
definition MaxAttachmentSize :: nat where "MaxAttachmentSize = 8 * 2 ^ 20"
definition maxFilename :: nat where "maxFilename = 255"
definition maxContentType :: nat where "maxContentType = 128"

record envelope =
  en_event_id :: string
  en_events :: "event list"
  en_sessions :: "session list"
  en_attachments :: "attachment list"
  en_user_report :: "user_report option"
  en_client_reports :: "client_report_count list"
  en_check_in :: "check_in option"
  en_dropped :: nat
  en_invalid :: nat

definition envelope0 :: envelope where
  "envelope0 = \<lparr>en_event_id = [], en_events = [], en_sessions = [], en_attachments = [], en_user_report = None,
     en_client_reports = [], en_check_in = None, en_dropped = 0, en_invalid = 0\<rparr>"

definition attachmentName :: "string \<Rightarrow> string" where
  "attachmentName s0 =
     (let s = Truncate (after_last_any [CHR ''/'', CHR 0x5C] (trim_space s0)) maxFilename
      in if s \<in> {[], ''.'', ''..''} then ''attachment'' else s)"

definition cleanLower :: "string \<Rightarrow> nat \<Rightarrow> string \<Rightarrow> string" where
  "cleanLower s0 n d = (let s = Truncate (to_lower (trim_space s0)) n in if s = [] then d else s)"

definition newline :: char where "newline = CHR 0x0A"

definition cutLine :: "string \<Rightarrow> string \<times> string" where
  "cutLine b = (case cut_byte newline b of (line, rest, found) \<Rightarrow> (line, rest))"

text \<open>The body of an item: by its length when that fits, else the next line.\<close>

definition item_body :: "item_header \<Rightarrow> string \<Rightarrow> string \<times> string" where
  "item_body ih rest =
     (case ih_length ih of
        Some n \<Rightarrow>
          if 0 \<le> n \<and> n \<le> int (length rest)
          then (let r = drop (nat n) rest
                in (take (nat n) rest, if r \<noteq> [] \<and> hd r = newline then tl r else r))
          else cutLine rest
      | None \<Rightarrow> cutLine rest)"

definition drop_item :: "nat \<Rightarrow> envelope \<Rightarrow> envelope" where
  "drop_item n env = env\<lparr>en_dropped := en_dropped env + n\<rparr>"

text \<open>The \<open>switch\<close> on the item's type.\<close>

definition take_item ::
  "'c item_lib \<Rightarrow> string \<Rightarrow> time \<Rightarrow> time \<Rightarrow> item_header \<Rightarrow> string \<Rightarrow> envelope \<Rightarrow> envelope" where
  "take_item lib header_id fallback now ih body env =
     (if ih_type ih = ''event'' then
        if MaxEvents < length (en_events env) then drop_item 1 env
        else (case ParseEvent lib header_id fallback body now of
                Some ev \<Rightarrow> env\<lparr>en_events := en_events env @ [ev]\<rparr>
              | None \<Rightarrow> env\<lparr>en_invalid := en_invalid env + 1\<rparr>)
      else if ih_type ih = ''session'' \<or> ih_type ih = ''sessions'' then
        if MaxSessions \<le> length (en_sessions env) then drop_item 1 env
        else (let ss = parseSessions lib body now; n = MaxSessions - length (en_sessions env)
              in drop_item (length ss - n) (env\<lparr>en_sessions := en_sessions env @ take n ss\<rparr>))
      else if ih_type ih = ''attachment'' then
        if MaxAttachments \<le> length (en_attachments env) \<or> MaxAttachmentSize < length body then drop_item 1 env
        else env\<lparr>en_attachments := en_attachments env @
               [\<lparr>at_filename = attachmentName (ih_filename ih),
                 at_content_type = cleanLower (ih_content_type ih) maxContentType ''application/octet-stream'',
                 at_type = cleanLower (ih_attachment_type ih) maxContentType ''event.attachment'',
                 at_data = body\<rparr>]\<rparr>
      else if ih_type ih = ''user_report'' then
        (case parseUserReport lib header_id body of
           Some r \<Rightarrow> env\<lparr>en_user_report := Some r\<rparr> | None \<Rightarrow> drop_item 1 env)
      else if ih_type ih = ''client_report'' then
        (case parseClientReport lib body of
           (counts, dropped) \<Rightarrow> drop_item dropped (env\<lparr>en_client_reports := en_client_reports env @ counts\<rparr>))
      else if ih_type ih = ''check_in'' then
        (case parseCheckIn lib body of
           Some c \<Rightarrow> env\<lparr>en_check_in := Some c\<rparr> | None \<Rightarrow> drop_item 1 env)
      else drop_item 1 env)"

lemma cutLine_shorter: "b \<noteq> [] \<Longrightarrow> length (snd (cutLine b)) < length b"
  using cut_byte_cases [of b newline] by (auto simp: cutLine_def)

lemma cutLine_le: "length (snd (cutLine b)) \<le> length b"
  using cut_byte_cases [of b newline] by (auto simp: cutLine_def)

lemma item_body_le: "length (snd (item_body ih rest)) \<le> length rest"
  using cutLine_le by (auto simp: item_body_def Let_def split: option.split)

text \<open>The loop of \<open>Parse\<close>: every iteration reads at least one byte.\<close>

function read_items ::
  "'c item_lib \<Rightarrow> string \<Rightarrow> time \<Rightarrow> time \<Rightarrow> string \<Rightarrow> envelope \<Rightarrow> envelope" where
  "read_items lib header_id fallback now rest env =
     (if rest = [] then env
      else
        let line = fst (cutLine rest); rest1 = snd (cutLine rest) in
        if trim_space line = [] then read_items lib header_id fallback now rest1 env
        else (case js_item_header lib line of
                None \<Rightarrow> read_items lib header_id fallback now rest1 env
              | Some ih \<Rightarrow>
                  read_items lib header_id fallback now (snd (item_body ih rest1))
                    (take_item lib header_id fallback now ih (fst (item_body ih rest1)) env)))"
  by pat_completeness auto

termination read_items
  by (relation "measure (\<lambda>(lib, header_id, fallback, now, rest, env). length rest)")
    (auto simp: cutLine_shorter intro: le_less_trans [OF item_body_le cutLine_shorter])

declare read_items.simps [simp del]

definition Parse :: "'c item_lib \<Rightarrow> string \<Rightarrow> time \<Rightarrow> envelope" where
  "Parse lib body now =
     (let (line, rest) = cutLine body in
      case js_envelope_header lib line of
        None \<Rightarrow> envelope0
      | Some (header_id, sent_at) \<Rightarrow>
          let t = parseTimestamp lib sent_at;
              fallback = (if t = zero_time then now else t);
              env = envelope0\<lparr>en_event_id := (case ParseID header_id of Some i \<Rightarrow> i | None \<Rightarrow> [])\<rparr>
          in read_items lib header_id fallback now rest env)"

section \<open>What an envelope holds\<close>

definition session_ok :: "time \<Rightarrow> session \<Rightarrow> bool" where
  "session_ok now s \<longleftrightarrow> session_status_of_text (se_status s) \<noteq> None
     \<and> is_clean maxRelease (se_release s) \<and> is_clean maxEnvironment (se_environment s)
     \<and> is_clean maxSessionID (se_sid s) \<and> se_started s \<le> now + minute
     \<and> 1 \<le> se_count s \<and> se_count s \<le> MaxInt32"

definition report_ok :: "user_report \<Rightarrow> bool" where
  "report_ok r \<longleftrightarrow> valid_id (ur_event_id r) \<and> ur_comments r \<noteq> [] \<and> is_clean maxReportComments (ur_comments r)
     \<and> is_clean maxReportField (ur_name r) \<and> is_clean maxReportField (ur_email r)"

definition count_ok :: "client_report_count \<Rightarrow> bool" where
  "count_ok c \<longleftrightarrow> 0 < cr_quantity c \<and> is_clean maxClientReportField (cr_reason c)
     \<and> is_clean maxClientReportField (cr_category c)"

definition config_ok :: "'c cron_lib \<Rightarrow> monitor_config \<Rightarrow> bool" where
  "config_ok lib c \<longleftrightarrow>
     (\<exists>s. ParseSchedule lib (mc_schedule_type c) (mc_schedule_value c) (mc_schedule_unit c) = Inr s)
     \<and> (mc_timezone c = ''UTC'' \<or> tz_known lib (mc_timezone c))
     \<and> 1 \<le> mc_failure_threshold c \<and> 1 \<le> mc_recovery_threshold c"

definition check_in_ok :: "'c cron_lib \<Rightarrow> check_in \<Rightarrow> bool" where
  "check_in_ok lib c \<longleftrightarrow> valid_id (ci_id c) \<and> ci_slug c \<noteq> [] \<and> is_clean maxSlug (ci_slug c)
     \<and> checkin_status_of_text (ci_status c) \<noteq> None \<and> pred_option (config_ok lib) (ci_config c)"

definition slash_free :: "string \<Rightarrow> bool" where
  "slash_free s \<longleftrightarrow> CHR ''/'' \<notin> set s \<and> CHR 0x5C \<notin> set s"

definition envelope_ok :: "'c item_lib \<Rightarrow> time \<Rightarrow> envelope \<Rightarrow> bool" where
  "envelope_ok lib now env \<longleftrightarrow>
     length (en_events env) \<le> MaxEvents + 1 \<and> list_all (event_ok now) (en_events env)
     \<and> length (en_sessions env) \<le> MaxSessions \<and> list_all (session_ok now) (en_sessions env)
     \<and> length (en_attachments env) \<le> MaxAttachments
     \<and> list_all (\<lambda>a. length (at_data a) \<le> MaxAttachmentSize \<and> length (runes (at_filename a)) \<le> maxFilename
          \<and> at_filename a \<noteq> [] \<and> slash_free (at_filename a)) (en_attachments env)
     \<and> pred_option report_ok (en_user_report env)
     \<and> list_all count_ok (en_client_reports env)
     \<and> pred_option (check_in_ok (it_cron lib)) (en_check_in env)"

lemma parseUserReport_ok: "parseUserReport lib h body = Some r \<Longrightarrow> report_ok r"
  by (auto simp: parseUserReport_def report_ok_def Let_def dest: ParseID_valid split: option.splits if_splits)

lemma client_counts_ok: "list_all count_ok (fst (client_counts i es))"
  by (induction i es rule: client_counts.induct) (auto simp: count_ok_def split: prod.splits)

lemma positive_or_pos: "1 \<le> d \<Longrightarrow> 1 \<le> positive_or d v"
  by (simp add: positive_or_def split: option.split)

lemma bounded_config_ok:
  assumes "bounded_config lib typ val unit raw = Some c"
  shows "config_ok (it_cron lib) c"
proof (cases "ParseSchedule (it_cron lib) typ val unit")
  case (Inl e)
  with assms show ?thesis by (simp add: bounded_config_def)
next
  case (Inr s)
  let ?tz = "clean (rc_timezone raw) maxTimezone"
  from assms Inr have "?tz = [] \<or> tz_known (it_cron lib) ?tz"
    by (auto simp: bounded_config_def Let_def split: if_splits)
  with assms Inr show ?thesis
    by (auto simp: bounded_config_def Let_def config_ok_def defaultThreshold_def positive_or_pos split: if_splits)
qed

lemma parseMonitorConfig_ok: "parseMonitorConfig lib raw = Some c \<Longrightarrow> config_ok (it_cron lib) c"
  unfolding parseMonitorConfig_def Let_def by (rule bounded_config_ok)

lemma check_in_status_enum: "validCheckInStatus st \<Longrightarrow> checkin_status_of_text st \<noteq> None"
  by (auto simp: validCheckInStatus_def checkin_status_of_text_def checkin_status_values_def)

lemma parseCheckIn_ok:
  assumes "parseCheckIn lib body = Some c"
  shows "check_in_ok (it_cron lib) c"
proof -
  obtain raw i where r: "js_check_in lib body = Some raw" "ParseID (rk_id raw) = Some i"
    and ok: "clean (rk_slug raw) maxSlug \<noteq> []" "validCheckInStatus (rk_status raw)"
    using assms by (auto simp: parseCheckIn_def Let_def split: option.splits if_splits)
  have "pred_option (config_ok (it_cron lib)) (Option.bind (rk_config raw) (parseMonitorConfig lib))"
    using parseMonitorConfig_ok by (cases "rk_config raw") (auto simp: pred_option_def)
  with assms r ok check_in_status_enum [OF ok(2)] ParseID_valid [OF r(2)] show ?thesis
    by (simp add: parseCheckIn_def check_in_ok_def Let_def) (metis check_in.select_convs(1,2,3,7) clean_is_clean)
qed

lemma started_at_bound: "started_at lib raw now \<le> now + minute"
  using clampFuture_bound by (simp add: started_at_def Let_def)

lemma session_status_enum: "validSessionStatus st \<Longrightarrow> session_status_of_text st \<noteq> None"
  by (auto simp: validSessionStatus_def session_status_of_text_def session_status_values_def)

lemma errored_status: "session_status_of_text ''errored'' \<noteq> None"
  by (rule session_status_enum) (simp add: validSessionStatus_def)

lemma session_okI:
  assumes "session_status_of_text st \<noteq> None" and "is_clean maxRelease rel" and "is_clean maxEnvironment env"
    and "is_clean maxSessionID i" and "1 \<le> n" and "n \<le> MaxInt32"
  shows "session_ok now \<lparr>se_sid = i, se_release = rel, se_environment = env, se_status = st,
    se_started = started_at lib raw now, se_count = n\<rparr>"
  using assms started_at_bound by (simp add: session_ok_def)

lemma not_refused: "(if P then None else Some a) = Some x \<Longrightarrow> x = a"
  by (simp split: if_splits)

lemma sessionFrom_ok:
  assumes "sessionFrom lib s now = Some x"
  shows "session_ok now x"
proof -
  obtain ar ae where a: "(case rs_attrs s of None \<Rightarrow> ([], []) | Some a \<Rightarrow> a) = (ar, ae)" by fastforce
  have "validSessionStatus (rs_status s)"
    using assms by (auto simp: sessionFrom_def a Let_def split: if_splits)
  then have "session_status_of_text (if b then ''errored'' else rs_status s) \<noteq> None" for b
    using session_status_enum errored_status by simp
  note ok = session_okI [OF this clean_is_clean clean_is_clean clean_is_clean]
  from assms have "x = (let b = 0 < rs_errors s \<and> (rs_status s = ''ok'' \<or> rs_status s = ''exited'') in
      \<lparr>se_sid = clean (rs_sid s) maxSessionID,
       se_release = clean (if rs_release s = [] then ar else rs_release s) maxRelease,
       se_environment = clean (if rs_environment s = [] then ae else rs_environment s) maxEnvironment,
       se_status = (if b then ''errored'' else rs_status s),
       se_started = started_at lib (rs_started s) now, se_count = 1\<rparr>)"
    unfolding sessionFrom_def a Let_def prod.case by (rule not_refused)
  then show ?thesis unfolding Let_def by (simp only:) (rule ok, simp_all add: MaxInt32_def)
qed

lemma aggregate_rows_ok:
  assumes "is_clean maxRelease rel" and "is_clean maxEnvironment env"
  shows "list_all (session_ok now) (aggregate_rows lib rel env now a)"
proof -
  have nil: "is_clean maxSessionID []" by (simp add: is_clean_def runes_def runes_of_bytes_def bytes_def)
  have "session_ok now \<lparr>se_sid = [], se_release = rel, se_environment = env, se_status = st,
      se_started = started_at lib (ra_started a) now, se_count = min n MaxInt32\<rparr>"
    if "0 < n" "st \<in> {''exited'', ''errored'', ''crashed'', ''abnormal''}" for n st
  proof (rule session_okI [OF _ assms nil])
    show "session_status_of_text st \<noteq> None"
      using that(2) by (intro session_status_enum) (auto simp: validSessionStatus_def)
  qed (use that(1) in \<open>auto simp: MaxInt32_def\<close>)
  then show ?thesis by (simp add: aggregate_rows_def)
qed

lemma parse_aggregates_ok: "list_all (session_ok now) (parse_aggregates lib body now)"
proof -
  have items: "list_all (session_ok now) (List.map_filter (\<lambda>it. sessionFrom lib it now) xs)" for xs
    by (induction xs) (auto simp: List.map_filter_def sessionFrom_ok)
  have rows: "list_all (session_ok now) (concat (map (aggregate_rows lib (clean rel maxRelease) (clean e maxEnvironment) now) xs))"
    for rel e xs by (induction xs) (simp_all add: aggregate_rows_ok)
  show ?thesis using items rows by (auto simp: parse_aggregates_def split: option.split)
qed

lemma parseSessions_ok: "list_all (session_ok now) (parseSessions lib body now)"
  using parse_aggregates_ok by (auto simp: parseSessions_def sessionFrom_ok split: option.split)

text \<open>Truncating brings in no ASCII byte that was not there.\<close>

lemma ascii_rune_byte: "r \<in> set (runes_of_bytes bs) \<Longrightarrow> r < 128 \<Longrightarrow> r \<in> set bs"
proof (induction bs rule: rune_chunks.induct)
  case (2 b bs)
  obtain r' w where rw: "decode_rune b bs = (r', w)" by fastforce
  with "2.prems" consider "r = r'" | "r \<in> set (runes_of_bytes (drop w (b # bs)))"
    by (auto simp: runes_of_bytes_Cons)
  then show ?case
  proof cases
    case 1
    with decode_rune_cases [OF rw] "2.prems"(2) show ?thesis by auto
  next
    case 2
    then have "r \<in> set (drop w (b # bs))" using "2.IH" [OF rw [symmetric] refl] "2.prems"(2) by simp
    then show ?thesis by (rule in_set_dropD)
  qed
qed (simp add: runes_of_bytes_def)

lemma Truncate_ascii_byte:
  assumes "c \<in> set (Truncate s n)" and "of_char c < (128 :: nat)"
  shows "c \<in> set s"
proof -
  have "c \<in> set s" if in_runes: "c \<in> set (string_of_runes (take n (runes s)))"
  proof -
    have v: "\<forall>r \<in> set (take n (runes s)). valid_rune r" by (auto dest: in_set_takeD runes_all_valid)
    have "(of_char c :: nat) \<in> set (bytes (string_of_runes (take n (runes s))))"
      using in_runes by (auto simp: bytes_def)
    then obtain r where "r \<in> set (take n (runes s))" "(of_char c :: nat) \<in> set (encode_rune r)"
      by (auto simp: bytes_string_of_runes [OF v])
    then have "(of_char c :: nat) \<in> set (runes s)"
      using encode_rune_ascii [OF _ assms(2)] by (auto dest: in_set_takeD)
    then have "(of_char c :: nat) \<in> set (bytes s)"
      unfolding runes_def using ascii_rune_byte assms(2) by blast
    then show ?thesis by (auto simp: bytes_def)
  qed
  with assms(1) show ?thesis by (auto simp: Truncate_def Let_def split: if_splits)
qed

lemma attachmentName_ok:
  "length (runes (attachmentName s)) \<le> maxFilename \<and> attachmentName s \<noteq> [] \<and> slash_free (attachmentName s)"
proof -
  let ?t = "Truncate (after_last_any [CHR ''/'', CHR 0x5C] (trim_space s)) maxFilename"
  have "slash_free ?t"
    using Truncate_ascii_byte [of "CHR ''/''" "after_last_any [CHR ''/'', CHR 0x5C] (trim_space s)" maxFilename]
      Truncate_ascii_byte [of "CHR 0x5C" "after_last_any [CHR ''/'', CHR 0x5C] (trim_space s)" maxFilename]
      after_last_any_free [of _ "[CHR ''/'', CHR 0x5C]" "trim_space s"]
    by (auto simp: slash_free_def)
  moreover have "length (runes ?t) \<le> maxFilename" by (simp add: runes_Truncate)
  moreover have "length (runes ''attachment'') \<le> maxFilename"
    using length_runes [of "''attachment''"] by (simp add: maxFilename_def)
  moreover have "slash_free ''attachment''" by (simp add: slash_free_def)
  ultimately show ?thesis by (auto simp: attachmentName_def Let_def)
qed

lemma if_envelope_ok:
  "(c \<Longrightarrow> envelope_ok lib now a) \<Longrightarrow> (\<not> c \<Longrightarrow> envelope_ok lib now b) \<Longrightarrow> envelope_ok lib now (if c then a else b)"
  by simp

lemma take_item_ok:
  assumes "envelope_ok lib now env"
  shows "envelope_ok lib now (take_item lib header_id fallback now ih body env)"
proof -
  have drop: "envelope_ok lib now (drop_item n e) = envelope_ok lib now e" for n e
    by (simp add: envelope_ok_def drop_item_def)
  have sess: "list_all (session_ok now) (take n (parseSessions lib body now))" for n
    using parseSessions_ok [of now lib body] by (auto simp: list_all_iff dest: in_set_takeD)
  have counts: "list_all count_ok (fst (parseClientReport lib body))"
    using client_counts_ok by (simp add: parseClientReport_def split: option.split)
  show ?thesis
    unfolding take_item_def
  proof (intro if_envelope_ok, goal_cases)
    case 2
    with assms show ?case
      by (auto simp: envelope_ok_def split: option.split dest: parse_event_ok)
  next
    case 4
    with assms sess show ?case unfolding Let_def drop by (simp add: envelope_ok_def)
  next
    case 6
    with assms attachmentName_ok [of "ih_filename ih"] show ?case by (simp add: envelope_ok_def not_le)
  next
    case 7
    show ?case
      using assms parseUserReport_ok [of lib header_id body]
      by (cases "parseUserReport lib header_id body") (simp only: option.case drop, simp add: envelope_ok_def)
  next
    case 8
    with assms counts show ?case
      by (cases "parseClientReport lib body") (simp add: drop, simp add: envelope_ok_def)
  next
    case 9
    show ?case
      using assms parseCheckIn_ok [of lib body]
      by (cases "parseCheckIn lib body") (simp only: option.case drop, simp add: envelope_ok_def)
  qed (simp_all add: drop assms)
qed

lemma read_items_ok:
  "envelope_ok lib now env \<Longrightarrow> envelope_ok lib now (read_items lib header_id fallback now rest env)"
proof (induction lib header_id fallback now rest env rule: read_items.induct)
  case (1 lib header_id fallback now rest env)
  show ?case
  proof (cases "rest = []")
    case True
    with 1(4) show ?thesis by (subst read_items.simps) simp
  next
    case False
    note IH = 1(1) [OF False refl refl] 1(2) [OF False refl refl] 1(3) [OF False refl refl]
    show ?thesis
    proof (cases "trim_space (fst (cutLine rest)) = []")
      case True
      with IH(1) [OF True 1(4)] False show ?thesis by (subst read_items.simps) (simp add: Let_def)
    next
      case blank: False
      show ?thesis
      proof (cases "js_item_header lib (fst (cutLine rest))")
        case None
        with IH(2) [OF blank None 1(4)] False blank show ?thesis by (subst read_items.simps) (simp add: Let_def)
      next
        case (Some ih)
        with IH(3) [OF blank Some take_item_ok [OF 1(4)]] False blank show ?thesis
          by (subst read_items.simps) (simp add: Let_def)
      qed
    qed
  qed
qed

lemma parsed_ok: "envelope_ok lib now (Parse lib body now)"
proof -
  have "envelope_ok lib now (envelope0\<lparr>en_event_id := i\<rparr>)" for i
    by (simp add: envelope_ok_def envelope0_def)
  moreover have "envelope_ok lib now envelope0" by (simp add: envelope_ok_def envelope0_def)
  ultimately show ?thesis
    by (auto simp: Parse_def Let_def read_items_ok split: prod.split option.split)
qed

section \<open>Properties\<close>


text \<open>An item as an SDK writes it: the header line, the body, a newline.\<close>

definition render_item :: "string \<times> string \<Rightarrow> string" where
  "render_item i = fst i @ newline # snd i @ [newline]"

definition framed :: "'c item_lib \<Rightarrow> string \<times> string \<Rightarrow> bool" where
  "framed lib i \<longleftrightarrow> newline \<notin> set (fst i) \<and> trim_space (fst i) \<noteq> []
     \<and> (case js_item_header lib (fst i) of
          None \<Rightarrow> False
        | Some ih \<Rightarrow> (case ih_length ih of Some n \<Rightarrow> n = int (length (snd i)) | None \<Rightarrow> newline \<notin> set (snd i)))"

definition take_framed ::
  "'c item_lib \<Rightarrow> string \<Rightarrow> time \<Rightarrow> time \<Rightarrow> string \<times> string \<Rightarrow> envelope \<Rightarrow> envelope" where
  "take_framed lib header_id fallback now i env =
     (case js_item_header lib (fst i) of None \<Rightarrow> env | Some ih \<Rightarrow> take_item lib header_id fallback now ih (snd i) env)"

lemma cutLine_append: "newline \<notin> set a \<Longrightarrow> cutLine (a @ newline # b) = (a, b)"
  by (simp add: cutLine_def cut_byte_split)

lemma read_framed:
  assumes "framed lib i"
  shows "read_items lib header_id fallback now (render_item i @ rest) env
       = read_items lib header_id fallback now rest (take_framed lib header_id fallback now i env)"
proof -
  obtain ih where ih: "js_item_header lib (fst i) = Some ih"
    and len: "case ih_length ih of Some n \<Rightarrow> n = int (length (snd i)) | None \<Rightarrow> newline \<notin> set (snd i)"
    using assms by (auto simp: framed_def split: option.splits)
  have cut: "cutLine (render_item i @ rest) = (fst i, snd i @ newline # rest)"
    using assms by (simp add: render_item_def framed_def cutLine_append)
  have "item_body ih (snd i @ newline # rest) = (snd i, rest)"
    using len cutLine_append [of "snd i" rest] by (auto simp: item_body_def split: option.splits)
  with cut ih assms show ?thesis
    by (subst read_items.simps) (simp add: framed_def render_item_def take_framed_def)
qed

text \<open>
  C36. Framing is faithful: the items an SDK writes one after the other - each with its length, or
  without one when its body has no newline - are read back one by one, in order, each with exactly
  its body, whatever bytes (newlines included) the bodies with a length hold.
\<close>

theorem Parse_framing:
  assumes "newline \<notin> set header" and "js_envelope_header lib header = Some (header_id, sent_at)"
    and "list_all (framed lib) items"
  shows "Parse lib (header @ newline # concat (map render_item items)) now =
    fold (take_framed lib header_id
            (if parseTimestamp lib sent_at = zero_time then now else parseTimestamp lib sent_at) now)
      items (envelope0\<lparr>en_event_id := (case ParseID header_id of Some i \<Rightarrow> i | None \<Rightarrow> [])\<rparr>)"
proof -
  have "read_items lib header_id fb now (concat (map render_item items)) env =
      fold (take_framed lib header_id fb now) items env" for fb env
    using assms(3)
  proof (induction items arbitrary: env)
    case Nil
    show ?case by (subst read_items.simps) simp
  next
    case (Cons i items)
    then show ?case by (simp add: read_framed)
  qed
  then show ?thesis using assms(1,2) by (simp add: Parse_def cutLine_append Let_def)
qed

text \<open>An attachment whose body holds a newline and looks like an item header.\<close>

definition envelope_lib :: "unit item_lib" where
  "envelope_lib = json_lib.extend example_json
     \<lparr>js_envelope_header = (\<lambda>s. Some (s, [])),
      js_item_header = (\<lambda>s. Some \<lparr>ih_type = ''attachment'', ih_length = Some 3, ih_filename = ''dir/a.txt'',
                              ih_content_type = [], ih_attachment_type = []\<rparr>),
      js_session = (\<lambda>s. None), js_sessions = (\<lambda>s. None), js_user_report = (\<lambda>s. None),
      js_client_report = (\<lambda>s. None), js_check_in = (\<lambda>s. None), fl_overflow = (\<lambda>w r. 0),
      it_cron = \<lparr>cron_parse = (\<lambda>s. None), cron_next = (\<lambda>c tz t. t), tz_known = (\<lambda>s. False)\<rparr>\<rparr>"

lemma Parse_framing_witness:
  "map at_data (en_attachments (Parse envelope_lib (''{}'' @ newline # concat (map render_item
     [(''h'', [CHR ''a'', newline, CHR ''b'']), (''h'', ''xyz'')])) 5)) = [[CHR ''a'', newline, CHR ''b''], ''xyz'']"
proof -
  have h: "trim_space ''h'' = ''h''" by (rule trim_space_fixed) (simp_all add: ascii_def space_char_def is_space_def)
  have lib: "js_envelope_header envelope_lib ''{}'' = Some (''{}'', [])"
    by (simp add: envelope_lib_def json_lib.defs)
  have "list_all (framed envelope_lib) [(''h'', [CHR ''a'', newline, CHR ''b'']), (''h'', ''xyz'')]"
    by (simp add: framed_def h newline_def envelope_lib_def json_lib.defs)
  moreover have "newline \<notin> set ''{}''" by (simp add: newline_def)
  ultimately show ?thesis
    using Parse_framing [OF _ lib, of "[(''h'', [CHR ''a'', newline, CHR ''b'']), (''h'', ''xyz'')]" 5]
    by (simp add: take_framed_def take_item_def envelope_lib_def json_lib.defs envelope0_def MaxAttachments_def
        MaxAttachmentSize_def)
qed

text \<open>
  The name of an attachment is not cleaned: a NUL in the item header's \<open>filename\<close> (valid JSON) reaches a
  TEXT column, where Postgres refuses it, and the envelope with it.
\<close>

lemma attachment_name_keeps_nul: "CHR 0x00 \<in> set (attachmentName [CHR ''a'', CHR 0x00, CHR ''b''])"
proof -
  have "trim_space [CHR ''a'', CHR 0x00, CHR ''b''] = [CHR ''a'', CHR 0x00, CHR ''b'']"
    by (rule trim_space_fixed) (simp_all add: ascii_def space_char_def is_space_def)
  moreover have "after_last_any [CHR ''/'', CHR 0x5C] [CHR ''a'', CHR 0x00, CHR ''b''] = [CHR ''a'', CHR 0x00, CHR ''b'']"
    by (rule after_last_any_id) simp
  moreover have "Truncate [CHR ''a'', CHR 0x00, CHR ''b''] maxFilename = [CHR ''a'', CHR 0x00, CHR ''b'']"
    by (simp add: Truncate_def maxFilename_def)
  ultimately show ?thesis by (simp add: attachmentName_def)
qed

end
