(* ===== verification/PackRuns.thy ===== *)
theory PackRuns
  imports Packs
begin

text \<open>
  Packers, writers and sweeps running together (\<open>packOne\<close> and \<open>ExpirePacks\<close> of
  \<open>internal/store/packs.go\<close>, cut into the statements that commit on their own): each packer can stop
  after any statement, and the invariant behind it all - a payload that was stored reads back the same,
  from the spool or from its pack, until its week expires.
\<close>

section \<open>The system\<close>

text \<open>
  A packer between its statements: the rows it read, the id of the pack it opened, whether the object
  is written. \<open>ps_written\<close> is what the writers stored under each event's key, \<open>ps_cutoff\<close> the latest
  cutoff of a sweep; neither is state of the program.
\<close>

record flight =
  fl_project :: project_id
  fl_week :: time
  fl_rows :: "spool_entry list"
  fl_id :: "int option"
  fl_stored :: bool

record pack_sys =
  ps_db :: pack_db
  ps_workers :: "nat \<rightharpoonup> flight"
  ps_written :: "event_key \<rightharpoonup> string"
  ps_cutoff :: time

abbreviation flight_key :: "flight \<Rightarrow> int \<Rightarrow> string" where
  "flight_key f i \<equiv> PackKey (fl_project f) (fl_week f) i"

text \<open>
  A payload is spooled once per event key (\<open>InsertEvents\<close> spools only for a new event row); a BYTEA is
  below 1 GB and a gzip stream is never empty. \<open>step_give_up\<close> is the branch of a failed PUT, whose object
  may have been written all the same, and the second half of the branch of a failed commit, whose first
  half is \<open>step_undo_object\<close>.
\<close>

inductive pack_step :: "pack_sys \<Rightarrow> pack_sys \<Rightarrow> bool" where
  step_spool: "ps_written s (entry_key e) = None \<Longrightarrow> sl_data e \<noteq> [] \<Longrightarrow> int (length (sl_data e)) < 2 ^ 31 \<Longrightarrow>
    pack_step s (s\<lparr>ps_db := spool_payload e (ps_db s), ps_written := (ps_written s)(entry_key e \<mapsto> sl_data e)\<rparr>)"
| step_read: "ps_workers s w = None \<Longrightarrow> week_start wk \<Longrightarrow>
    pack_step s (s\<lparr>ps_workers := (ps_workers s)(w \<mapsto>
      \<lparr>fl_project = pid, fl_week = wk, fl_rows = read_group pid wk (ps_db s), fl_id = None, fl_stored = False\<rparr>)\<rparr>)"
| step_open: "ps_workers s w = Some f \<Longrightarrow> fl_id f = None \<Longrightarrow>
    InsertPack (fl_project f) (fl_week f) (ps_db s) = Some (i, db) \<Longrightarrow>
    pack_step s (s\<lparr>ps_db := db, ps_workers := (ps_workers s)(w \<mapsto> f\<lparr>fl_id := Some i, fl_stored := False\<rparr>)\<rparr>)"
| step_put: "ps_workers s w = Some f \<Longrightarrow> fl_id f = Some i \<Longrightarrow>
    Put (flight_key f i) (pack_bytes (fl_rows f)) (pk_blobs (ps_db s)) = Inr b \<Longrightarrow>
    pack_step s (s\<lparr>ps_db := (ps_db s)\<lparr>pk_blobs := b\<rparr>, ps_workers := (ps_workers s)(w \<mapsto> f\<lparr>fl_stored := True\<rparr>)\<rparr>)"
| step_commit: "ps_workers s w = Some f \<Longrightarrow> fl_id f = Some i \<Longrightarrow> fl_stored f \<Longrightarrow>
    commit_pack i (fl_rows f) (ps_db s) = Some db \<Longrightarrow>
    pack_step s (s\<lparr>ps_db := db, ps_workers := (ps_workers s)(w := None)\<rparr>)"
| step_undo_object: "ps_workers s w = Some f \<Longrightarrow> fl_id f = Some i \<Longrightarrow>
    pack_step s (s\<lparr>ps_db := delete_object (flight_key f i) (ps_db s),
                   ps_workers := (ps_workers s)(w \<mapsto> f\<lparr>fl_stored := False\<rparr>)\<rparr>)"
| step_give_up: "ps_workers s w = Some f \<Longrightarrow> fl_id f = Some i \<Longrightarrow>
    b = pk_blobs (ps_db s) \<or> Put (flight_key f i) (pack_bytes (fl_rows f)) (pk_blobs (ps_db s)) = Inr b \<Longrightarrow>
    pack_step s (s\<lparr>ps_db := DeletePack i ((ps_db s)\<lparr>pk_blobs := b\<rparr>), ps_workers := (ps_workers s)(w := None)\<rparr>)"
| step_crash: "pack_step s (s\<lparr>ps_workers := (ps_workers s)(w := None)\<rparr>)"
| step_expire_object: "p \<in> set (ExpiredPacks c (ps_db s)) \<Longrightarrow>
    pack_step s (s\<lparr>ps_cutoff := max c (ps_cutoff s),
                   ps_db := delete_object (PackKey (pa_project p) (pa_week p) (pa_id p)) (ps_db s)\<rparr>)"
| step_expire_pack: "p \<in> set (ExpiredPacks c (ps_db s)) \<Longrightarrow>
    pack_step s (s\<lparr>ps_cutoff := max c (ps_cutoff s), ps_db := DeletePack (pa_id p) (ps_db s)\<rparr>)"
| step_expire_spool: "pack_step s (s\<lparr>ps_cutoff := max c (ps_cutoff s), ps_db := snd (ExpireSpool c (ps_db s))\<rparr>)"

inductive_simps pack_step_simps: "pack_step s t"

definition pack_start :: "pack_sys \<Rightarrow> bool" where
  "pack_start s \<longleftrightarrow> pk_spool (ps_db s) = [] \<and> pk_packs (ps_db s) = [] \<and> pk_places (ps_db s) = []
     \<and> pk_next (ps_db s) = 1 \<and> ps_workers s = (\<lambda>w. None) \<and> ps_written s = (\<lambda>k. None)"

section \<open>The invariant\<close>

definition live :: "pack_sys \<Rightarrow> event_key \<Rightarrow> bool" where
  "live s k \<longleftrightarrow> \<not> week_expired (ps_cutoff s) (weekStart (snd (snd k)))"

definition spool_inv :: "pack_sys \<Rightarrow> bool" where
  "spool_inv s \<longleftrightarrow> unique_by entry_key (pk_spool (ps_db s))
     \<and> (\<forall>e \<in> set (pk_spool (ps_db s)). ps_written s (entry_key e) = Some (sl_data e))
     \<and> (\<forall>k d. ps_written s k = Some d \<longrightarrow> d \<noteq> [] \<and> int (length d) < 2 ^ 31)"

definition packs_inv :: "pack_db \<Rightarrow> bool" where
  "packs_inv db \<longleftrightarrow> unique_by pa_id (pk_packs db) \<and> 0 < pk_next db \<and> pk_next db \<le> 2 ^ 63
     \<and> (\<forall>p \<in> set (pk_packs db). 0 < pa_id p \<and> pa_id p < pk_next db)"

definition readable :: "pack_db \<Rightarrow> place \<Rightarrow> string \<Rightarrow> bool" where
  "readable db p d \<longleftrightarrow> GetRange (PackKey (pl_project p) (weekStart (pl_occurred_at p)) (pl_pack_id p))
     (pl_offset p) (pl_len p) (pk_blobs db) = Inr d"

definition anchored :: "pack_db \<Rightarrow> place \<Rightarrow> bool" where
  "anchored db p \<longleftrightarrow> (\<exists>q \<in> set (pk_packs db). pa_id q = pl_pack_id p \<and> pa_project q = pl_project p
     \<and> pa_week q = weekStart (pl_occurred_at p))"

definition places_inv :: "pack_sys \<Rightarrow> bool" where
  "places_inv s \<longleftrightarrow> unique_by place_key (pk_places (ps_db s))
     \<and> (\<forall>p \<in> set (pk_places (ps_db s)). anchored (ps_db s) p
          \<and> (live s (place_key p) \<longrightarrow> (\<exists>d. ps_written s (place_key p) = Some d \<and> readable (ps_db s) p d)))"

definition covered :: "pack_sys \<Rightarrow> bool" where
  "covered s \<longleftrightarrow> (\<forall>k d. ps_written s k = Some d \<longrightarrow> live s k \<longrightarrow>
     k \<in> entry_key ` set (pk_spool (ps_db s)) \<or> k \<in> place_key ` set (pk_places (ps_db s)))"

fun offsets_ok :: "nat \<Rightarrow> spool_entry list \<Rightarrow> bool" where
  "offsets_ok n [] = True"
| "offsets_ok n (r # rs) = (int n < 2 ^ 31 \<and> offsets_ok (n + length (sl_data r)) rs)"

definition opened_ok :: "pack_sys \<Rightarrow> flight \<Rightarrow> int \<Rightarrow> bool" where
  "opened_ok s f i \<longleftrightarrow> 0 < i \<and> i < pk_next (ps_db s)
     \<and> (\<forall>p \<in> set (pk_places (ps_db s)). pl_pack_id p \<noteq> i)
     \<and> (\<forall>q \<in> set (pk_packs (ps_db s)). pa_id q = i \<longrightarrow> pa_project q = fl_project f \<and> pa_week q = fl_week f)
     \<and> (fl_stored f \<longrightarrow> \<not> week_expired (ps_cutoff s) (fl_week f) \<longrightarrow>
          pk_blobs (ps_db s) (flight_key f i) = Some (pack_bytes (fl_rows f)))"

definition rows_ok :: "pack_sys \<Rightarrow> flight \<Rightarrow> bool" where
  "rows_ok s f \<longleftrightarrow> distinct (map entry_key (fl_rows f)) \<and> offsets_ok 0 (fl_rows f)
     \<and> (\<forall>e \<in> set (fl_rows f). ps_written s (entry_key e) = Some (sl_data e) \<and> sl_project e = fl_project f
          \<and> weekStart (sl_occurred_at e) = fl_week f)"

definition flights_inv :: "pack_sys \<Rightarrow> bool" where
  "flights_inv s \<longleftrightarrow>
     (\<forall>w f. ps_workers s w = Some f \<longrightarrow> rows_ok s f \<and> (\<forall>i. fl_id f = Some i \<longrightarrow> opened_ok s f i))
     \<and> (\<forall>w w' f f' i. ps_workers s w = Some f \<longrightarrow> ps_workers s w' = Some f' \<longrightarrow> fl_id f = Some i \<longrightarrow>
          fl_id f' = Some i \<longrightarrow> w = w')"

definition pack_inv :: "pack_sys \<Rightarrow> bool" where
  "pack_inv s \<longleftrightarrow> spool_inv s \<and> packs_inv (ps_db s) \<and> places_inv s \<and> covered s \<and> flights_inv s"

section \<open>Facts about the parts\<close>

lemma fill_offsets: "offsets_ok n (fill n rs)"
  by (induction n rs rule: fill.induct) (auto simp: PackBytes_def)

lemma fill_prefix: "\<exists>k. fill n rs = take k rs"
proof (induction n rs rule: fill.induct)
  case (2 n r rs)
  show ?case
  proof (cases "0 < n \<and> PackBytes < n + length (sl_data r)")
    case True
    then have "fill n (r # rs) = take 0 (r # rs)" by simp
    then show ?thesis by blast
  next
    case False
    with 2 obtain k where "fill (n + length (sl_data r)) rs = take k rs" by blast
    with False have "fill n (r # rs) = take (Suc k) (r # rs)" by (simp del: de_Morgan_conj)
    then show ?thesis by blast
  qed
qed simp

lemma SpoolRows_set: "set (SpoolRows db pid a b k) \<subseteq>
    {e \<in> set (pk_spool db). sl_project e = pid \<and> a \<le> sl_occurred_at e \<and> sl_occurred_at e < b}"
  by (auto simp: SpoolRows_def dest!: in_set_takeD)

lemma distinct_map_sort_key: "distinct (map g (sort_key f xs)) = distinct (map g xs)"
  by (metis mset_map mset_sort mset_eq_imp_distinct_iff)

lemma SpoolRows_distinct: "unique_by entry_key (pk_spool db) \<Longrightarrow> distinct (map entry_key (SpoolRows db pid a b k))"
  unfolding SpoolRows_def take_map [symmetric]
  by (rule distinct_take) (simp add: distinct_map_sort_key unique_by_def distinct_map inj_on_def)

lemma read_group_rows:
  assumes "unique_by entry_key (pk_spool db)"
  shows "distinct (map entry_key (read_group pid wk db))" and "offsets_ok 0 (read_group pid wk db)"
    and "e \<in> set (read_group pid wk db) \<Longrightarrow>
      e \<in> set (pk_spool db) \<and> sl_project e = pid \<and> wk \<le> sl_occurred_at e \<and> sl_occurred_at e < wk + week"
proof -
  obtain k where k: "read_group pid wk db = take k (SpoolRows db pid wk (wk + 7 * 24 * hour) packRows)"
    using fill_prefix unfolding read_group_def by blast
  show "distinct (map entry_key (read_group pid wk db))"
    unfolding k take_map [symmetric] by (rule distinct_take) (rule SpoolRows_distinct [OF assms])
  show "offsets_ok 0 (read_group pid wk db)" unfolding read_group_def by (rule fill_offsets)
  show "e \<in> set (pk_spool db) \<and> sl_project e = pid \<and> wk \<le> sl_occurred_at e \<and> sl_occurred_at e < wk + week"
    if "e \<in> set (read_group pid wk db)"
    using subsetD [OF SpoolRows_set in_set_takeD] that unfolding k by fastforce
qed

text \<open>What the places of a pack say, read against its bytes.\<close>

lemma places_from_read:
  assumes "p \<in> set (places_from i n rows)" and "offsets_ok n rows" and "length pre = n"
    and "\<forall>e \<in> set rows. int (length (sl_data e)) < 2 ^ 31"
  shows "\<exists>e \<in> set rows. place_key p = entry_key e \<and> pl_pack_id p = i \<and> 0 \<le> pl_offset p \<and> 0 \<le> pl_len p
    \<and> pl_offset p + pl_len p \<le> int (length (pre @ pack_bytes rows))
    \<and> take (nat (pl_len p)) (drop (nat (pl_offset p)) (pre @ pack_bytes rows)) = sl_data e"
  using assms
proof (induction rows arbitrary: n pre)
  case (Cons r rows)
  show ?case
  proof (cases "p \<in> set (places_from i (n + length (sl_data r)) rows)")
    case True
    from Cons.IH [OF this, of "pre @ sl_data r"] Cons.prems
    show ?thesis by (auto simp: pack_bytes_def)
  next
    case False
    with Cons.prems have p: "p = \<lparr>pl_project = sl_project r, pl_event_id = sl_event_id r, pl_occurred_at = sl_occurred_at r,
        pl_pack_id = i, pl_offset = wrap32 (int n), pl_len = wrap32 (int (length (sl_data r)))\<rparr>" by simp
    moreover have "wrap32 (int n) = int n" and "wrap32 (int (length (sl_data r))) = int (length (sl_data r))"
      using Cons.prems by simp_all
    ultimately show ?thesis using Cons.prems(3) by (auto simp: pack_bytes_def)
  qed
qed simp

lemma places_from_keys: "map place_key (places_from i n rows) = map entry_key rows"
  by (induction i n rows rule: places_from.induct) auto

lemma places_from_ids: "p \<in> set (places_from i n rows) \<Longrightarrow> pl_pack_id p = i"
  by (induction i n rows rule: places_from.induct) auto

interpretation place_table: keyed_table place_key "\<lambda>old x. x"
  by unfold_locales simp

lemma set_replace: "set (upsert key (\<lambda>old x. x) x t) = insert x {p \<in> set t. key p \<noteq> key x}"
  by (cases "key x \<in> key ` set t") (auto simp: upsert_def, metis imageI)

lemma upsert_places:
  "unique_by place_key t \<Longrightarrow> distinct (map place_key ps) \<Longrightarrow>
   unique_by place_key (fold (upsert place_key (\<lambda>old x. x)) ps t)
   \<and> set (fold (upsert place_key (\<lambda>old x. x)) ps t) = set ps \<union> {p \<in> set t. place_key p \<notin> place_key ` set ps}"
proof (induction ps arbitrary: t)
  case (Cons x ps)
  have x: "set (upsert place_key (\<lambda>old x. x) x t) = insert x {p \<in> set t. place_key p \<noteq> place_key x}"
    by (rule set_replace)
  have fresh: "place_key x \<notin> place_key ` set ps"
    using Cons.prems(2) by (simp only: list.map distinct.simps set_map) simp
  have "unique_by place_key (upsert place_key (\<lambda>old x. x) x t)" by (rule place_table.unique_upsert [OF Cons.prems(1)])
  moreover have "distinct (map place_key ps)" using Cons.prems(2) by (simp only: list.map distinct.simps)
  ultimately show ?case
    using Cons.IH [of "upsert place_key (\<lambda>old x. x) x t"] fresh by (auto simp: x simp del: prod.inject)
qed simp

lemma week_expired_mono: "week_expired c w \<Longrightarrow> c \<le> c' \<Longrightarrow> week_expired c' w"
proof -
  assume e: "week_expired c w" and "c \<le> c'"
  then have "c div day * day \<le> c' div day * day"
    by (intro mult_right_mono zdiv_mono1) simp_all
  with e show ?thesis unfolding week_expired_def truncate_day by linarith
qed

lemma week_expired_max: "week_expired c w \<Longrightarrow> week_expired (max c c') w"
  by (erule week_expired_mono) simp

lemma readable_cong: "pk_blobs db' (PackKey (pl_project p) (weekStart (pl_occurred_at p)) (pl_pack_id p))
      = pk_blobs db (PackKey (pl_project p) (weekStart (pl_occurred_at p)) (pl_pack_id p)) \<Longrightarrow>
    readable db' p d = readable db p d"
  by (simp add: readable_def GetRange_def)

lemma rows_ok_mono:
  "rows_ok s f \<Longrightarrow> (\<And>k d. ps_written s k = Some d \<Longrightarrow> ps_written t k = Some d) \<Longrightarrow> rows_ok t f"
  by (auto simp: rows_ok_def)

lemma rows_ok_cong: "fl_rows f' = fl_rows f \<Longrightarrow> fl_project f' = fl_project f \<Longrightarrow> fl_week f' = fl_week f \<Longrightarrow>
    ps_written t = ps_written s \<Longrightarrow> rows_ok t f' = rows_ok s f"
  by (simp add: rows_ok_def)

lemma pack_keys_differ: "packs_inv db \<Longrightarrow> 0 < i \<Longrightarrow> i < pk_next db \<Longrightarrow> 0 < j \<Longrightarrow> j < pk_next db \<Longrightarrow> i \<noteq> j \<Longrightarrow>
    PackKey p w i \<noteq> PackKey q v j"
  using PackKey_inj [of p w i q v j] by (auto simp: packs_inv_def int64_def)

lemma anchored_id: "packs_inv db \<Longrightarrow> anchored db p \<Longrightarrow> 0 < pl_pack_id p \<and> pl_pack_id p < pk_next db"
  by (auto simp: anchored_def packs_inv_def)

text \<open>The parts of the invariant a worker's own step leaves alone.\<close>

lemma pack_invD:
  assumes "pack_inv s"
  shows "spool_inv s" and "packs_inv (ps_db s)" and "places_inv s" and "covered s" and "flights_inv s"
  using assms by (simp_all add: pack_inv_def)

lemma flights_invD:
  assumes "flights_inv s" and "ps_workers s w = Some f"
  shows "rows_ok s f" and "fl_id f = Some i \<Longrightarrow> opened_ok s f i"
  using assms by (auto simp: flights_inv_def)

lemma flights_same: "flights_inv s \<Longrightarrow> ps_workers s w = Some f \<Longrightarrow> fl_id f = Some i \<Longrightarrow>
    ps_workers s w' = Some f' \<Longrightarrow> fl_id f' = Some i \<Longrightarrow> w = w'"
  unfolding flights_inv_def by blast

lemma flights_invI:
  assumes "\<And>w f. ps_workers s w = Some f \<Longrightarrow> rows_ok s f"
    and "\<And>w f i. ps_workers s w = Some f \<Longrightarrow> fl_id f = Some i \<Longrightarrow> opened_ok s f i"
    and "\<And>w w' f f' i. ps_workers s w = Some f \<Longrightarrow> ps_workers s w' = Some f' \<Longrightarrow> fl_id f = Some i \<Longrightarrow>
      fl_id f' = Some i \<Longrightarrow> w = w'"
  shows "flights_inv s"
  using assms unfolding flights_inv_def by blast

lemma live_mono: "ps_cutoff s \<le> ps_cutoff t \<Longrightarrow> live t k \<Longrightarrow> live s k"
  by (auto simp: live_def dest: week_expired_mono)

lemma places_inv_keep:
  assumes "places_inv s" and "unique_by place_key (pk_places (ps_db t))"
    and "set (pk_places (ps_db t)) \<subseteq> set (pk_places (ps_db s))"
    and "\<And>k d. ps_written s k = Some d \<Longrightarrow> ps_written t k = Some d" and "ps_cutoff s \<le> ps_cutoff t"
    and "\<And>p. p \<in> set (pk_places (ps_db t)) \<Longrightarrow> anchored (ps_db s) p \<Longrightarrow> anchored (ps_db t) p"
    and "\<And>p d. p \<in> set (pk_places (ps_db t)) \<Longrightarrow> anchored (ps_db s) p \<Longrightarrow> live t (place_key p) \<Longrightarrow>
      readable (ps_db s) p d \<Longrightarrow> readable (ps_db t) p d"
  shows "places_inv t"
  unfolding places_inv_def
proof (intro conjI ballI impI)
  fix p assume p: "p \<in> set (pk_places (ps_db t))"
  with assms(3) have s: "p \<in> set (pk_places (ps_db s))" by blast
  with assms(1) have a: "anchored (ps_db s) p" by (simp add: places_inv_def)
  with p show "anchored (ps_db t) p" by (rule assms(6))
  assume l: "live t (place_key p)"
  with assms(1) s live_mono [OF assms(5)] obtain d where "ps_written s (place_key p) = Some d" "readable (ps_db s) p d"
    by (auto simp: places_inv_def)
  with assms(4) assms(7) [OF p a l] show "\<exists>d. ps_written t (place_key p) = Some d \<and> readable (ps_db t) p d" by blast
qed (rule assms(2))

definition held_keys :: "pack_sys \<Rightarrow> event_key set" where
  "held_keys s = entry_key ` set (pk_spool (ps_db s)) \<union> place_key ` set (pk_places (ps_db s))"

lemma covered_keep:
  assumes "covered s" and "ps_written t = ps_written s" and "ps_cutoff s \<le> ps_cutoff t"
    and "\<And>k. live t k \<Longrightarrow> k \<in> held_keys s \<Longrightarrow> k \<in> held_keys t"
  shows "covered t"
  using assms(1,2,4) live_mono [OF assms(3)] by (simp add: covered_def held_keys_def)

lemma opened_ok_keep:
  assumes "opened_ok s f i" and "pk_next (ps_db s) \<le> pk_next (ps_db t)" and "ps_cutoff s \<le> ps_cutoff t"
    and "\<And>p. p \<in> set (pk_places (ps_db t)) \<Longrightarrow> pl_pack_id p = i \<Longrightarrow> p \<in> set (pk_places (ps_db s))"
    and "\<And>q. q \<in> set (pk_packs (ps_db t)) \<Longrightarrow> pa_id q = i \<Longrightarrow>
      \<exists>q' \<in> set (pk_packs (ps_db s)). pa_id q' = i \<and> pa_project q' = pa_project q \<and> pa_week q' = pa_week q"
    and "fl_stored f \<Longrightarrow> \<not> week_expired (ps_cutoff t) (fl_week f) \<Longrightarrow>
      pk_blobs (ps_db t) (flight_key f i) = pk_blobs (ps_db s) (flight_key f i)"
  shows "opened_ok t f i"
proof -
  have "fl_stored f \<Longrightarrow> \<not> week_expired (ps_cutoff t) (fl_week f) \<Longrightarrow>
      pk_blobs (ps_db t) (flight_key f i) = Some (pack_bytes (fl_rows f))"
    using assms(1,6) week_expired_mono [OF _ assms(3)] unfolding opened_ok_def by metis
  moreover have "pa_project q = fl_project f \<and> pa_week q = fl_week f" if "q \<in> set (pk_packs (ps_db t))" "pa_id q = i" for q
    using assms(5) [OF that] assms(1) unfolding opened_ok_def by metis
  ultimately show ?thesis using assms(1,2,4) unfolding opened_ok_def by auto
qed

lemma flights_keep:
  assumes "flights_inv s" and "ps_written t = ps_written s"
    and "\<And>w f. ps_workers t w = Some f \<Longrightarrow> ps_workers s w = Some f"
    and "\<And>w f i. ps_workers t w = Some f \<Longrightarrow> fl_id f = Some i \<Longrightarrow> opened_ok s f i \<Longrightarrow> opened_ok t f i"
  shows "flights_inv t"
proof (rule flights_invI)
  fix w f assume w: "ps_workers t w = Some f"
  note o' = flights_invD [OF assms(1) assms(3) [OF w]]
  show "rows_ok t f" using rows_ok_mono [OF o'(1), of t] assms(2) by simp
  show "opened_ok t f i" if "fl_id f = Some i" for i by (rule assms(4) [OF w that o'(2) [OF that]])
  show "w = w'" if "ps_workers t w' = Some f'" "fl_id f = Some i" "fl_id f' = Some i" for w' f' i
    using flights_same [OF assms(1) assms(3) [OF w] that(2) assms(3) [OF that(1)] that(3)] .
qed

lemma spool_keys_written: "spool_inv s \<Longrightarrow> ps_written s k = None \<Longrightarrow> k \<notin> entry_key ` set (pk_spool (ps_db s))"
  by (auto simp: spool_inv_def simp del: prod.inject)

lemma spool_keeps:
  assumes inv: "pack_inv s" and new: "ps_written s (entry_key e) = None" "sl_data e \<noteq> []" "int (length (sl_data e)) < 2 ^ 31"
  shows "pack_inv (s\<lparr>ps_db := spool_payload e (ps_db s), ps_written := (ps_written s)(entry_key e \<mapsto> sl_data e)\<rparr>)" (is "pack_inv ?t")
proof -
  note I = pack_invD [OF inv]
  have fresh: "entry_key e \<notin> entry_key ` set (pk_spool (ps_db s))" by (rule spool_keys_written [OF I(1) new(1)])
  have db: "ps_db ?t = (ps_db s)\<lparr>pk_spool := pk_spool (ps_db s) @ [e]\<rparr>"
    using fresh by (simp add: spool_payload_def insert_nothing_def)
  have keep: "ps_written s k = Some d \<Longrightarrow> ps_written ?t k = Some d" for k d
    using new(1) by auto
  have "spool_inv ?t"
    using I(1) fresh new keep unfolding spool_inv_def db by (auto simp: unique_by_def simp del: prod.inject)
  moreover have "packs_inv (ps_db ?t)" using I(2) unfolding db by (simp add: packs_inv_def)
  moreover have "places_inv ?t"
    by (rule places_inv_keep [OF I(3)]) (use I(3) keep in \<open>simp_all add: db places_inv_def anchored_def readable_def\<close>)
  moreover have "covered ?t"
    using I(4) unfolding covered_def db by (auto simp: live_def)
  moreover have "flights_inv ?t"
  proof (rule flights_invI)
    fix w f assume "ps_workers ?t w = Some f"
    then have w: "ps_workers s w = Some f" by simp
    from rows_ok_mono [OF flights_invD(1) [OF I(5) w] keep] show "rows_ok ?t f" .
    show "opened_ok ?t f i" if "fl_id f = Some i" for i
      using flights_invD(2) [OF I(5) w that] unfolding opened_ok_def db by simp
  qed (use I(5) in \<open>auto simp: flights_inv_def\<close>)
  ultimately show ?thesis by (simp add: pack_inv_def)
qed

lemma read_keeps:
  assumes inv: "pack_inv s" and wk: "week_start wk"
  shows "pack_inv (s\<lparr>ps_workers := (ps_workers s)(w \<mapsto>
      \<lparr>fl_project = pid, fl_week = wk, fl_rows = read_group pid wk (ps_db s), fl_id = None, fl_stored = False\<rparr>)\<rparr>)"
    (is "pack_inv ?t")
proof -
  note I = pack_invD [OF inv]
  have u: "unique_by entry_key (pk_spool (ps_db s))" using I(1) by (simp add: spool_inv_def)
  note R = read_group_rows [OF u]
  let ?f = "\<lparr>fl_project = pid, fl_week = wk, fl_rows = read_group pid wk (ps_db s), fl_id = None, fl_stored = False\<rparr>"
  have rows: "rows_ok s ?f"
    using R(1,2) I(1) week_of [OF wk] by (auto simp: rows_ok_def spool_inv_def dest!: R(3))
  have "flights_inv ?t"
  proof (rule flights_invI)
    fix w' f assume w': "ps_workers ?t w' = Some f"
    show "rows_ok ?t f"
      using w' rows flights_invD(1) [OF I(5), of w' f] rows_ok_mono [of s _ ?t] by (auto split: if_splits)
    show "opened_ok ?t f i" if "fl_id f = Some i" for i
      using w' that flights_invD(2) [OF I(5), of w' f i] by (auto simp: opened_ok_def split: if_splits)
  next
    fix w1 w2 f1 f2 i
    assume "ps_workers ?t w1 = Some f1" "ps_workers ?t w2 = Some f2" "fl_id f1 = Some i" "fl_id f2 = Some i"
    then show "w1 = w2" using flights_same [OF I(5)] by (auto split: if_splits)
  qed
  moreover have "spool_inv ?t" using I(1) by (simp add: spool_inv_def)
  moreover have "places_inv ?t" using I(3) by (simp add: places_inv_def live_def)
  moreover have "covered ?t" using I(4) by (simp add: covered_def live_def)
  ultimately show ?thesis using I(2) by (simp add: pack_inv_def)
qed

lemma place_ids: "places_inv s \<Longrightarrow> packs_inv (ps_db s) \<Longrightarrow> p \<in> set (pk_places (ps_db s)) \<Longrightarrow>
    0 < pl_pack_id p \<and> pl_pack_id p < pk_next (ps_db s)"
  by (rule anchored_id) (simp_all add: places_inv_def)

lemma open_keeps:
  assumes inv: "pack_inv s" and w: "ps_workers s w = Some f"
    and ins: "InsertPack (fl_project f) (fl_week f) (ps_db s) = Some (i, db)"
  shows "pack_inv (s\<lparr>ps_db := db, ps_workers := (ps_workers s)(w \<mapsto> f\<lparr>fl_id := Some i, fl_stored := False\<rparr>)\<rparr>)"
    (is "pack_inv ?t")
proof -
  note I = pack_invD [OF inv]
  let ?new = "\<lparr>pa_id = i, pa_project = fl_project f, pa_week = fl_week f, pa_bytes = 0\<rparr>"
  have i: "i = pk_next (ps_db s)" "i < 2 ^ 63"
    and db: "db = (ps_db s)\<lparr>pk_packs := pk_packs (ps_db s) @ [?new], pk_next := i + 1\<rparr>"
    using ins by (auto simp: InsertPack_def split: if_splits)
  have "packs_inv (ps_db ?t)"
    using I(2) i by (auto simp: db packs_inv_def unique_by_def)
  moreover have "places_inv ?t"
    by (rule places_inv_keep [OF I(3)])
      (use I(3) in \<open>auto simp: db places_inv_def anchored_def readable_def\<close>)
  moreover have "covered ?t"
    by (rule covered_keep [OF I(4)]) (simp_all add: held_keys_def db)
  moreover have "flights_inv ?t"
  proof (rule flights_invI)
    fix w' f' assume w': "ps_workers ?t w' = Some f'"
    show "rows_ok ?t f'"
    proof (cases "w' = w")
      case True
      with w' flights_invD(1) [OF I(5) w] show ?thesis by (auto simp: rows_ok_def)
    next
      case False
      with w' flights_invD(1) [OF I(5), of w' f'] show ?thesis by (auto simp: rows_ok_def)
    qed
    show "opened_ok ?t f' j" if j: "fl_id f' = Some j" for j
    proof (cases "w' = w")
      case True
      with w' j have f': "f' = f\<lparr>fl_id := Some i, fl_stored := False\<rparr>" "j = i" by auto
      have "pl_pack_id p \<noteq> i" if "p \<in> set (pk_places (ps_db s))" for p
        using place_ids [OF I(3,2) that] i(1) by simp
      moreover have "pa_id q \<noteq> i" if "q \<in> set (pk_packs (ps_db s))" for q
        using I(2) that i(1) by (auto simp: packs_inv_def)
      ultimately show ?thesis using I(2) i(1) by (auto simp: f' opened_ok_def db packs_inv_def)
    next
      case False
      with w' have "ps_workers s w' = Some f'" by simp
      then have o': "opened_ok s f' j" using flights_invD(2) [OF I(5)] j by blast
      show ?thesis by (rule opened_ok_keep [OF o']) (use o' i(1) in \<open>auto simp: db opened_ok_def\<close>)
    qed
  next
    fix w1 w2 f1 f2 j
    assume a: "ps_workers ?t w1 = Some f1" "ps_workers ?t w2 = Some f2" "fl_id f1 = Some j" "fl_id f2 = Some j"
    have "j < i" if "ps_workers s w' = Some f'" "fl_id f' = Some j" for w' f'
      using flights_invD(2) [OF I(5) that] i(1) by (simp add: opened_ok_def)
    with a show "w1 = w2" using flights_same [OF I(5)] by (fastforce split: if_splits)
  qed
  moreover have "spool_inv ?t" using I(1) by (simp add: spool_inv_def db)
  ultimately show ?thesis by (simp add: pack_inv_def)
qed

text \<open>Writing or deleting the object of a pack in flight touches no place's bytes.\<close>

lemma object_keeps:
  assumes inv: "pack_inv s" and w: "ps_workers s w = Some f" and i: "fl_id f = Some i"
    and b: "\<And>k. k \<noteq> flight_key f i \<Longrightarrow> b k = pk_blobs (ps_db s) k"
    and st: "st \<Longrightarrow> b (flight_key f i) = Some (pack_bytes (fl_rows f))"
  shows "pack_inv (s\<lparr>ps_db := (ps_db s)\<lparr>pk_blobs := b\<rparr>, ps_workers := (ps_workers s)(w \<mapsto> f\<lparr>fl_stored := st\<rparr>)\<rparr>)"
    (is "pack_inv ?t")
proof -
  note I = pack_invD [OF inv]
  have of: "opened_ok s f i" by (rule flights_invD(2) [OF I(5) w i])
  then have ib: "0 < i" "i < pk_next (ps_db s)" by (simp_all add: opened_ok_def)
  have other: "b (PackKey p v j) = pk_blobs (ps_db s) (PackKey p v j)"
    if "0 < j" "j < pk_next (ps_db s)" "j \<noteq> i" for p v j
    by (rule b, rule pack_keys_differ [OF I(2)]) (use that ib in auto)
  have "places_inv ?t"
  proof (rule places_inv_keep [OF I(3)])
    fix p d assume p: "p \<in> set (pk_places (ps_db ?t))" and r: "readable (ps_db s) p d"
    from p have p': "p \<in> set (pk_places (ps_db s))" by simp
    with of have "pl_pack_id p \<noteq> i" by (auto simp: opened_ok_def)
    with place_ids [OF I(3,2) p'] r show "readable (ps_db ?t) p d"
      by (subst readable_cong [of _ _ "ps_db s"]) (simp_all add: other)
  qed (use I(3) in \<open>auto simp: places_inv_def anchored_def\<close>)
  moreover have "covered ?t"
    by (rule covered_keep [OF I(4)]) (simp_all add: held_keys_def)
  moreover have "flights_inv ?t"
  proof (rule flights_invI)
    fix w' f' assume w': "ps_workers ?t w' = Some f'"
    show "rows_ok ?t f'"
    proof (cases "w' = w")
      case True
      with w' flights_invD(1) [OF I(5) w] show ?thesis by (auto simp: rows_ok_def)
    next
      case False
      with w' flights_invD(1) [OF I(5), of w' f'] show ?thesis by (auto simp: rows_ok_def)
    qed
    show "opened_ok ?t f' j" if j: "fl_id f' = Some j" for j
    proof (cases "w' = w")
      case True
      with w' j i have f': "f' = f\<lparr>fl_stored := st\<rparr>" "j = i" by auto
      show ?thesis using of st by (auto simp: f' opened_ok_def)
    next
      case False
      with w' have w1: "ps_workers s w' = Some f'" by simp
      have o': "opened_ok s f' j" by (rule flights_invD(2) [OF I(5) w1 j])
      moreover have "j \<noteq> i" using flights_same [OF I(5) w i w1] j False by auto
      ultimately show ?thesis by (intro opened_ok_keep [OF o']) (auto simp: opened_ok_def other)
    qed
  next
    fix w1 w2 f1 f2 j
    assume "ps_workers ?t w1 = Some f1" "ps_workers ?t w2 = Some f2" "fl_id f1 = Some j" "fl_id f2 = Some j"
    then show "w1 = w2"
      using flights_same [OF I(5)] w i by (auto split: if_splits)
  qed
  moreover have "spool_inv ?t" using I(1) by (simp add: spool_inv_def)
  ultimately show ?thesis using I(2) by (simp add: pack_inv_def packs_inv_def)
qed

lemma crash_keeps: "pack_inv s \<Longrightarrow> pack_inv (s\<lparr>ps_workers := (ps_workers s)(w := None)\<rparr>)"
proof -
  let ?t = "s\<lparr>ps_workers := (ps_workers s)(w := None)\<rparr>"
  assume "pack_inv s"
  note I = pack_invD [OF this]
  have "flights_inv ?t" by (rule flights_keep [OF I(5)]) (auto simp: opened_ok_def split: if_splits)
  then show ?thesis using I
    by (simp add: pack_inv_def spool_inv_def places_inv_def covered_def live_def)
qed

lemma cutoff_keeps: "pack_inv s \<Longrightarrow> ps_cutoff s \<le> c \<Longrightarrow> pack_inv (s\<lparr>ps_cutoff := c\<rparr>)"
proof -
  let ?t = "s\<lparr>ps_cutoff := c\<rparr>"
  assume "pack_inv s" and c: "ps_cutoff s \<le> c"
  note I = pack_invD [OF this(1)]
  have "flights_inv ?t"
    by (rule flights_keep [OF I(5)]) (use c in \<open>auto simp: opened_ok_def dest: week_expired_mono\<close>)
  moreover have "places_inv ?t"
    by (rule places_inv_keep [OF I(3)]) (use I(3) c in \<open>auto simp: places_inv_def\<close>)
  moreover have "covered ?t" by (rule covered_keep [OF I(4)]) (use c in \<open>auto simp: held_keys_def\<close>)
  ultimately show ?thesis using I(1,2) by (simp add: pack_inv_def spool_inv_def)
qed

lemma DeletePack_fields [simp]:
  "pk_places (DeletePack i db) = filter (\<lambda>p. pl_pack_id p \<noteq> i) (pk_places db)"
  "pk_packs (DeletePack i db) = filter (\<lambda>q. pa_id q \<noteq> i) (pk_packs db)"
  "pk_spool (DeletePack i db) = pk_spool db" "pk_next (DeletePack i db) = pk_next db"
  "pk_blobs (DeletePack i db) = pk_blobs db"
  by (simp_all add: DeletePack_def delete_where_def)

lemma ExpireSpool_fields [simp]:
  "pk_spool (snd (ExpireSpool c db)) = filter (\<lambda>e. \<not> week_expired c (weekStart (sl_occurred_at e))) (pk_spool db)"
  "pk_places (snd (ExpireSpool c db)) = pk_places db" "pk_packs (snd (ExpireSpool c db)) = pk_packs db"
  "pk_next (snd (ExpireSpool c db)) = pk_next db" "pk_blobs (snd (ExpireSpool c db)) = pk_blobs db"
  by (simp_all add: ExpireSpool_def delete_where_def Let_def)

lemma delete_object_fields [simp]:
  "pk_spool (delete_object k db) = pk_spool db" "pk_places (delete_object k db) = pk_places db"
  "pk_packs (delete_object k db) = pk_packs db" "pk_next (delete_object k db) = pk_next db"
  "pk_blobs (delete_object k db) = (pk_blobs db)(k := None)"
  by (simp_all add: delete_object_def Delete_def)

text \<open>Deleting a pack whose places are all of an expired week.\<close>

lemma delete_keeps:
  assumes inv: "pack_inv s" and none: "\<And>p. p \<in> set (pk_places (ps_db s)) \<Longrightarrow> pl_pack_id p = i \<Longrightarrow> \<not> live s (place_key p)"
  shows "pack_inv (s\<lparr>ps_db := DeletePack i (ps_db s)\<rparr>)" (is "pack_inv ?t")
proof -
  note I = pack_invD [OF inv]
  have "packs_inv (ps_db ?t)"
    using I(2) unfolding packs_inv_def unique_by_def by (auto simp: distinct_map_filter)
  moreover have "places_inv ?t"
  proof (rule places_inv_keep [OF I(3)])
    show "unique_by place_key (pk_places (ps_db ?t))"
      using I(3) by (simp add: places_inv_def unique_by_def distinct_map_filter)
  next
    fix p assume "p \<in> set (pk_places (ps_db ?t))" and "anchored (ps_db s) p"
    then show "anchored (ps_db ?t) p" unfolding anchored_def by auto
  next
    fix p d assume "readable (ps_db s) p d"
    then show "readable (ps_db ?t) p d" by (subst readable_cong [of _ _ "ps_db s"]) simp_all
  qed auto
  moreover have "covered ?t"
  proof (rule covered_keep [OF I(4)])
    fix k assume "live ?t k" and "k \<in> held_keys s"
    moreover from this(1) have "live s k" by (simp add: live_def)
    ultimately show "k \<in> held_keys ?t" using none unfolding held_keys_def by auto
  qed simp_all
  moreover have "flights_inv ?t"
  proof (rule flights_keep [OF I(5)])
    show "opened_ok ?t f j" if "opened_ok s f j" for f j
      by (rule opened_ok_keep [OF that]) auto
  qed simp_all
  moreover have "spool_inv ?t" using I(1) by (simp add: spool_inv_def)
  ultimately show ?thesis by (simp add: pack_inv_def)
qed

text \<open>Deleting the object of a pack of an expired week.\<close>

lemma delete_object_keeps:
  assumes inv: "pack_inv s" and p: "p \<in> set (pk_packs (ps_db s))" and e: "week_expired (ps_cutoff s) (pa_week p)"
  shows "pack_inv (s\<lparr>ps_db := delete_object (PackKey (pa_project p) (pa_week p) (pa_id p)) (ps_db s)\<rparr>)" (is "pack_inv ?t")
proof -
  note I = pack_invD [OF inv]
  have pid: "0 < pa_id p" "pa_id p < pk_next (ps_db s)" using I(2) p by (auto simp: packs_inv_def)
  have same: "pk_blobs (ps_db ?t) (PackKey q v j) = pk_blobs (ps_db s) (PackKey q v j)"
    if "0 < j" "j < pk_next (ps_db s)" "j \<noteq> pa_id p" for q v j
    using pack_keys_differ [OF I(2) that(1,2) pid that(3)] by simp
  have "places_inv ?t"
  proof (rule places_inv_keep [OF I(3)])
    fix r d assume r: "r \<in> set (pk_places (ps_db ?t))" and a: "anchored (ps_db s) r" and l: "live ?t (place_key r)"
      and read: "readable (ps_db s) r d"
    have "pl_pack_id r \<noteq> pa_id p"
    proof
      assume "pl_pack_id r = pa_id p"
      moreover obtain q where q: "q \<in> set (pk_packs (ps_db s))" "pa_id q = pl_pack_id r" "pa_week q = weekStart (pl_occurred_at r)"
        using a by (auto simp: anchored_def)
      ultimately have "q = p" using I(2) p unique_by_same [of pa_id "pk_packs (ps_db s)" q p] by (simp add: packs_inv_def)
      with q(3) e l show False by (simp add: live_def)
    qed
    then have "pk_blobs (ps_db ?t) (PackKey (pl_project r) (weekStart (pl_occurred_at r)) (pl_pack_id r))
        = pk_blobs (ps_db s) (PackKey (pl_project r) (weekStart (pl_occurred_at r)) (pl_pack_id r))"
      using anchored_id [OF I(2) a] by (intro same) simp_all
    from readable_cong [OF this, of d] read show "readable (ps_db ?t) r d" by blast
  qed (use I(3) in \<open>auto simp: places_inv_def anchored_def\<close>)
  moreover have "covered ?t" by (rule covered_keep [OF I(4)]) (simp_all add: held_keys_def)
  moreover have "flights_inv ?t"
  proof (rule flights_keep [OF I(5)])
    fix w f j assume o': "opened_ok s f j"
    show "opened_ok ?t f j"
    proof (rule opened_ok_keep [OF o'])
      assume "\<not> week_expired (ps_cutoff ?t) (fl_week f)"
      then have "j \<noteq> pa_id p" using o' p e by (auto simp: opened_ok_def)
      then show "pk_blobs (ps_db ?t) (flight_key f j) = pk_blobs (ps_db s) (flight_key f j)"
        using o' by (intro same) (simp_all add: opened_ok_def)
    qed auto
  qed simp_all
  moreover have "spool_inv ?t" using I(1) by (simp add: spool_inv_def)
  moreover have "packs_inv (ps_db ?t)" using I(2) by (simp add: packs_inv_def)
  ultimately show ?thesis by (simp add: pack_inv_def)
qed

lemma expire_spool_keeps:
  assumes inv: "pack_inv s" and c: "c \<le> ps_cutoff s"
  shows "pack_inv (s\<lparr>ps_db := snd (ExpireSpool c (ps_db s))\<rparr>)" (is "pack_inv ?t")
proof -
  note I = pack_invD [OF inv]
  have "spool_inv ?t"
    using I(1) unfolding spool_inv_def by (auto simp: unique_by_def distinct_map_filter)
  moreover have "covered ?t"
  proof (rule covered_keep [OF I(4)])
    fix k assume l: "live ?t k" and "k \<in> held_keys s"
    moreover have "\<not> week_expired c (weekStart (snd (snd k)))" using l c by (auto simp: live_def dest: week_expired_mono)
    ultimately show "k \<in> held_keys ?t" unfolding held_keys_def by auto
  qed simp_all
  moreover have "places_inv ?t"
    using I(3) unfolding places_inv_def by (simp add: live_def anchored_def readable_def)
  moreover have "flights_inv ?t"
    by (rule flights_keep [OF I(5)]) (simp_all add: opened_ok_def)
  moreover have "packs_inv (ps_db ?t)" using I(2) by (simp add: packs_inv_def)
  ultimately show ?thesis by (simp add: pack_inv_def)
qed

text \<open>The commit: what it leaves, and that it keeps the invariant.\<close>

definition pack_of :: "pack \<Rightarrow> int \<times> project_id \<times> time" where
  "pack_of q = (pa_id q, pa_project q, pa_week q)"

lemma commit_fields:
  assumes "commit_pack i rows db = Some db'"
  shows "pk_spool db' = filter (\<lambda>e. entry_key e \<notin> entry_key ` set rows) (pk_spool db)"
    and "pk_places db' = fold (upsert place_key (\<lambda>old x. x)) (places_from i 0 rows) (pk_places db)"
    and "map pack_of (pk_packs db') = map pack_of (pk_packs db)"
    and "pk_next db' = pk_next db" and "pk_blobs db' = pk_blobs db"
    and "rows \<noteq> [] \<Longrightarrow> i \<in> pa_id ` set (pk_packs db)"
proof -
  have c: "db' = SetPackBytes i (int (length (pack_bytes rows))) (DeleteSpoolRows (map entry_key rows)
      (db\<lparr>pk_places := fold (upsert place_key (\<lambda>old x. x)) (places_from i 0 rows) (pk_places db)\<rparr>))"
    and l: "list_all (\<lambda>p. pl_pack_id p \<in> pa_id ` set (pk_packs db)) (places_from i 0 rows)"
    using assms by (auto simp: commit_pack_def InsertEventPacks_def split: if_splits)
  show "pk_spool db' = filter (\<lambda>e. entry_key e \<notin> entry_key ` set rows) (pk_spool db)"
    and "pk_places db' = fold (upsert place_key (\<lambda>old x. x)) (places_from i 0 rows) (pk_places db)"
    and "map pack_of (pk_packs db') = map pack_of (pk_packs db)"
    and "pk_next db' = pk_next db" and "pk_blobs db' = pk_blobs db"
    by (simp_all add: c SetPackBytes_def DeleteSpoolRows_def delete_where_def update_where_def pack_of_def)
  show "i \<in> pa_id ` set (pk_packs db)" if "rows \<noteq> []"
    using l that by (cases rows) auto
qed

lemma same_pack:
  assumes "pack_of ` A \<subseteq> pack_of ` B" and "q \<in> A"
  shows "\<exists>q' \<in> B. pa_id q' = pa_id q \<and> pa_project q' = pa_project q \<and> pa_week q' = pa_week q"
proof -
  from assms have "pack_of q \<in> pack_of ` B" by blast
  then obtain q' where "q' \<in> B" and "pack_of q' = pack_of q" by (metis imageE)
  then show ?thesis by (auto simp: pack_of_def)
qed

lemma same_packs:
  assumes "map pack_of qs' = map pack_of qs"
  shows "map pa_id qs' = map pa_id qs"
    and "q \<in> set qs' \<Longrightarrow> \<exists>q' \<in> set qs. pa_id q' = pa_id q \<and> pa_project q' = pa_project q \<and> pa_week q' = pa_week q"
    and "q \<in> set qs \<Longrightarrow> \<exists>q' \<in> set qs'. pa_id q' = pa_id q \<and> pa_project q' = pa_project q \<and> pa_week q' = pa_week q"
proof -
  have "map fst (map pack_of qs') = map fst (map pack_of qs)" by (simp only: assms)
  then show "map pa_id qs' = map pa_id qs" by (simp add: pack_of_def comp_def)
  have eq: "pack_of ` set qs' = pack_of ` set qs"
    using arg_cong [OF assms, of set] by (simp only: list.set_map)
  show "q \<in> set qs' \<Longrightarrow> \<exists>q' \<in> set qs. pa_id q' = pa_id q \<and> pa_project q' = pa_project q \<and> pa_week q' = pa_week q"
    by (rule same_pack) (simp_all add: eq)
  show "q \<in> set qs \<Longrightarrow> \<exists>q' \<in> set qs'. pa_id q' = pa_id q \<and> pa_project q' = pa_project q \<and> pa_week q' = pa_week q"
    by (rule same_pack) (simp_all add: eq)
qed

lemma commit_keeps:
  assumes inv: "pack_inv s" and w: "ps_workers s w = Some f" and i: "fl_id f = Some i" and st: "fl_stored f"
    and c: "commit_pack i (fl_rows f) (ps_db s) = Some db"
  shows "pack_inv (s\<lparr>ps_db := db, ps_workers := (ps_workers s)(w := None)\<rparr>)" (is "pack_inv ?t")
proof -
  note I = pack_invD [OF inv]
  note R = flights_invD(1) [OF I(5) w, unfolded rows_ok_def]
  have of: "opened_ok s f i" by (rule flights_invD(2) [OF I(5) w i])
  then have ib: "0 < i" "i < pk_next (ps_db s)" by (simp_all add: opened_ok_def)
  note C = commit_fields [OF c] and S = same_packs [OF commit_fields(3) [OF c]]
  let ?new = "places_from i 0 (fl_rows f)"
  have "distinct (map place_key ?new)" using R by (simp only: places_from_keys)
  moreover have "unique_by place_key (pk_places (ps_db s))" using I(3) by (simp add: places_inv_def)
  ultimately have U: "unique_by place_key (pk_places db)"
    and P: "set (pk_places db) = set ?new \<union> {p \<in> set (pk_places (ps_db s)). place_key p \<notin> place_key ` set ?new}"
    unfolding C(2) using upsert_places [of "pk_places (ps_db s)" ?new] by blast+
  have K: "place_key ` set ?new = entry_key ` set (fl_rows f)"
    using arg_cong [OF places_from_keys [of i 0 "fl_rows f"], of set] by (simp only: list.set_map)
  have small: "\<forall>e \<in> set (fl_rows f). int (length (sl_data e)) < 2 ^ 31"
  proof
    fix e assume "e \<in> set (fl_rows f)"
    with R have "ps_written s (entry_key e) = Some (sl_data e)" by blast
    with I(1) show "int (length (sl_data e)) < 2 ^ 31" unfolding spool_inv_def by blast
  qed
  have keeps_anchor: "anchored (ps_db s) p \<Longrightarrow> anchored db p" for p
    unfolding anchored_def using S(3) by metis
  have new: "anchored db p \<and> (live ?t (place_key p) \<longrightarrow> (\<exists>d. ps_written s (place_key p) = Some d \<and> readable db p d))"
    if p: "p \<in> set ?new" for p
  proof -
    obtain e where e: "e \<in> set (fl_rows f)" "place_key p = entry_key e" "pl_pack_id p = i" "0 \<le> pl_offset p" "0 \<le> pl_len p"
      "pl_offset p + pl_len p \<le> int (length (pack_bytes (fl_rows f)))"
      "take (nat (pl_len p)) (drop (nat (pl_offset p)) (pack_bytes (fl_rows f))) = sl_data e"
      using places_from_read [OF p, of "[]"] R small by auto
    have ev: "ps_written s (entry_key e) = Some (sl_data e)" "sl_project e = fl_project f" "weekStart (sl_occurred_at e) = fl_week f"
      using R e(1) by auto
    have "fl_rows f \<noteq> []" using e(1) by auto
    with C(6) obtain q where q: "q \<in> set (pk_packs (ps_db s))" "pa_id q = i" by auto
    with of have "pa_project q = fl_project f" "pa_week q = fl_week f" by (auto simp: opened_ok_def)
    with q ev e(2,3) have "anchored (ps_db s) p" by (auto simp: anchored_def)
    then have "anchored db p" by (rule keeps_anchor)
    moreover have "readable db p (sl_data e)" if "live ?t (place_key p)"
    proof -
      have "\<not> week_expired (ps_cutoff s) (fl_week f)" using that e(2) ev(3) by (simp add: live_def)
      with of st have "pk_blobs (ps_db s) (flight_key f i) = Some (pack_bytes (fl_rows f))" by (simp add: opened_ok_def)
      moreover have "pl_project p = fl_project f" "weekStart (pl_occurred_at p) = fl_week f" using e(2) ev by simp_all
      ultimately show ?thesis using e(3-7) by (simp add: readable_def GetRange_def C(5))
    qed
    ultimately show ?thesis using ev(1) e(2) by auto
  qed
  have "packs_inv db" using I(2) S(1) C(4) unfolding packs_inv_def unique_by_def by (metis S(2))
  moreover have "places_inv ?t"
  proof -
    have "anchored db p \<and> (live ?t (place_key p) \<longrightarrow> (\<exists>d. ps_written s (place_key p) = Some d \<and> readable db p d))"
      if "p \<in> set (pk_places (ps_db s))" for p
      using I(3) that keeps_anchor readable_cong [of db p "ps_db s"] C(5) by (auto simp: places_inv_def live_def)
    with new U P show ?thesis by (auto simp: places_inv_def)
  qed
  moreover have "covered ?t"
  proof (rule covered_keep [OF I(4)])
    fix k assume "k \<in> held_keys s"
    moreover have "place_key ` set (pk_places db) = entry_key ` set (fl_rows f) \<union> place_key ` set (pk_places (ps_db s))"
    proof -
      have "place_key ` set (pk_places db) = place_key ` set ?new \<union> place_key ` set (pk_places (ps_db s))"
        unfolding P by (auto simp del: prod.inject)
      then show ?thesis by (simp only: K)
    qed
    ultimately show "k \<in> held_keys ?t" by (auto simp: held_keys_def C(1) simp del: prod.inject)
  qed simp_all
  moreover have "flights_inv ?t"
  proof (rule flights_keep [OF I(5)])
    fix w' f' j assume w': "ps_workers ?t w' = Some f'" and j: "fl_id f' = Some j" and o': "opened_ok s f' j"
    have "j \<noteq> i" using flights_same [OF I(5) w i, of w' f'] w' j by (auto split: if_splits)
    moreover have "pl_pack_id p = i" if "p \<in> set ?new" for p using places_from_ids [OF that] .
    ultimately show "opened_ok ?t f' j"
      using P S(2) C(4,5) by (intro opened_ok_keep [OF o']) auto
  qed (auto split: if_splits)
  moreover have "spool_inv ?t"
    using I(1) by (auto simp: spool_inv_def C(1) unique_by_def distinct_map_filter)
  ultimately show ?thesis by (simp add: pack_inv_def)
qed

lemma give_up_keeps:
  assumes inv: "pack_inv s" and w: "ps_workers s w = Some f" and i: "fl_id f = Some i"
    and b: "b = pk_blobs (ps_db s) \<or> Put (flight_key f i) (pack_bytes (fl_rows f)) (pk_blobs (ps_db s)) = Inr b"
  shows "pack_inv (s\<lparr>ps_db := DeletePack i ((ps_db s)\<lparr>pk_blobs := b\<rparr>), ps_workers := (ps_workers s)(w := None)\<rparr>)"
proof -
  let ?s1 = "s\<lparr>ps_db := (ps_db s)\<lparr>pk_blobs := b\<rparr>, ps_workers := (ps_workers s)(w \<mapsto> f\<lparr>fl_stored := False\<rparr>)\<rparr>"
  have "b k = pk_blobs (ps_db s) k" if "k \<noteq> flight_key f i" for k
    using b that by (auto simp: Put_def split: if_splits)
  then have s1: "pack_inv ?s1" by (intro object_keeps [OF inv w i]) simp_all
  have "opened_ok s f i" by (rule flights_invD(2) [OF pack_invD(5) [OF inv] w i])
  then have "pack_inv (?s1\<lparr>ps_db := DeletePack i (ps_db ?s1)\<rparr>)"
    by (intro delete_keeps [OF s1]) (simp add: opened_ok_def)
  from crash_keeps [OF this, of w] show ?thesis by simp
qed

lemma pack_step_keeps: "pack_step s t \<Longrightarrow> pack_inv s \<Longrightarrow> pack_inv t"
proof (induction rule: pack_step.induct)
  case (step_put s w f i b)
  then show ?case by (intro object_keeps [OF step_put(4,1,2)]) (auto simp: Put_def split: if_splits)
next
  case (step_undo_object s w f i)
  have "pack_inv (s\<lparr>ps_db := (ps_db s)\<lparr>pk_blobs := (pk_blobs (ps_db s))(flight_key f i := None)\<rparr>,
      ps_workers := (ps_workers s)(w \<mapsto> f\<lparr>fl_stored := False\<rparr>)\<rparr>)"
    by (rule object_keeps [OF step_undo_object(3,1,2)]) simp_all
  then show ?case by (simp add: delete_object_def Delete_def)
next
  case (step_expire_object p c s)
  have "pack_inv (s\<lparr>ps_cutoff := max c (ps_cutoff s)\<rparr>)" by (rule cutoff_keeps [OF step_expire_object(2)]) simp
  moreover have "p \<in> set (pk_packs (ps_db s))" "week_expired c (pa_week p)"
    using step_expire_object(1) by (simp_all add: ExpiredPacks_def)
  moreover from this(2) have "week_expired (max c (ps_cutoff s)) (pa_week p)" by (rule week_expired_mono) simp
  ultimately show ?case using delete_object_keeps [of "s\<lparr>ps_cutoff := max c (ps_cutoff s)\<rparr>" p] by simp
next
  case (step_expire_pack p c s)
  let ?s1 = "s\<lparr>ps_cutoff := max c (ps_cutoff s)\<rparr>"
  have s1: "pack_inv ?s1" by (rule cutoff_keeps [OF step_expire_pack(2)]) simp
  have p: "p \<in> set (pk_packs (ps_db s))" "week_expired (ps_cutoff ?s1) (pa_week p)"
    using step_expire_pack(1) by (auto simp: ExpiredPacks_def intro: week_expired_max)
  have "pack_inv (?s1\<lparr>ps_db := DeletePack (pa_id p) (ps_db ?s1)\<rparr>)"
  proof (rule delete_keeps [OF s1])
    fix r assume r: "r \<in> set (pk_places (ps_db ?s1))" "pl_pack_id r = pa_id p"
    with pack_invD(3) [OF s1] obtain q where q: "q \<in> set (pk_packs (ps_db s))" "pa_id q = pa_id p"
      "pa_week q = weekStart (pl_occurred_at r)" by (auto simp: places_inv_def anchored_def)
    with p(1) pack_invD(2) [OF s1] unique_by_same [of pa_id "pk_packs (ps_db s)" q p]
    have "q = p" by (simp add: packs_inv_def)
    with q(3) p(2) show "\<not> live ?s1 (place_key r)" by (simp add: live_def)
  qed
  then show ?case by simp
next
  case (step_expire_spool s c)
  have "pack_inv (s\<lparr>ps_cutoff := max c (ps_cutoff s)\<rparr>)" by (rule cutoff_keeps [OF step_expire_spool]) simp
  from expire_spool_keeps [OF this, of c] show ?case by simp
qed (auto intro: spool_keeps read_keeps open_keeps commit_keeps give_up_keeps crash_keeps)

interpretation packers: invariant pack_start pack_step pack_inv
proof unfold_locales
  show "pack_start s \<Longrightarrow> pack_inv s" for s
    by (auto simp: pack_start_def pack_inv_def spool_inv_def packs_inv_def places_inv_def covered_def flights_inv_def unique_by_def)
qed (rule pack_step_keeps)

section \<open>Reading back\<close>

lemma stored_payload_live:
  assumes inv: "pack_inv s" and d: "ps_written s k = Some d" and l: "live s k"
  shows "stored_payload (ps_db s) k = Inr (Some d)"
proof -
  note I = pack_invD [OF inv]
  have ne: "d \<noteq> []" using I(1) d by (cases k) (auto simp: spool_inv_def)
  show ?thesis
  proof (cases "lookup_by entry_key k (pk_spool (ps_db s))")
    case (Some e)
    from lookup_by_Some [OF Some] have e: "e \<in> set (pk_spool (ps_db s))" "entry_key e = k" by blast+
    from I(1) e(1) have "ps_written s (entry_key e) = Some (sl_data e)" unfolding spool_inv_def by blast
    with e(2) have "ps_written s k = Some (sl_data e)" by simp
    with d ne Some show ?thesis
      by (cases d) (simp_all add: stored_payload_def PayloadLocation_def Let_def)
  next
    case None
    then have "k \<notin> entry_key ` set (pk_spool (ps_db s))" by (simp add: lookup_by_None)
    with I(4) d l have "k \<in> place_key ` set (pk_places (ps_db s))" unfolding covered_def by blast
    then obtain p where look: "lookup_by place_key k (pk_places (ps_db s)) = Some p"
      by (cases "lookup_by place_key k (pk_places (ps_db s))") (auto simp: lookup_by_None)
    from lookup_by_Some [OF look] have p: "p \<in> set (pk_places (ps_db s))" "place_key p = k" by blast+
    with I(3) have a: "anchored (ps_db s) p" by (simp add: places_inv_def)
    from I(3) p l d have r: "readable (ps_db s) p d" unfolding places_inv_def by force
    obtain q where q: "q \<in> set (pk_packs (ps_db s))" "pa_id q = pl_pack_id p" "pa_week q = weekStart (pl_occurred_at p)"
      using a by (auto simp: anchored_def)
    then have "lookup_by pa_id (pl_pack_id p) (pk_packs (ps_db s)) = Some q"
      using I(2) by (subst lookup_by_iff) (simp_all add: packs_inv_def)
    moreover have "fst k = pl_project p" using p(2) by auto
    ultimately show ?thesis
      using None look r q(3) by (simp add: stored_payload_def PayloadLocation_def Let_def readable_def)
  qed
qed

section \<open>Draining the spool\<close>

lemma elem_nonempty: "x \<in> set xs \<Longrightarrow> xs \<noteq> []"
  by auto

lemma group_has_rows: "e \<in> set (pk_spool db) \<Longrightarrow> read_group (sl_project e) (weekStart (sl_occurred_at e)) db \<noteq> []"
proof -
  assume e: "e \<in> set (pk_spool db)"
  let ?P = "\<lambda>x. sl_project x = sl_project e \<and> weekStart (sl_occurred_at e) \<le> sl_occurred_at x
      \<and> sl_occurred_at x < weekStart (sl_occurred_at e) + 7 * 24 * hour"
  have "e \<in> set (filter ?P (pk_spool db))"
    using e weekStart_le [of "sl_occurred_at e"] weekStart_near [of "sl_occurred_at e"] by simp
  then have "e \<in> set (sort_key sl_occurred_at (sort_key sl_event_id (filter ?P (pk_spool db))))"
    by (simp only: set_sort)
  then have "sort_key sl_occurred_at (sort_key sl_event_id (filter ?P (pk_spool db))) \<noteq> []" by (rule elem_nonempty)
  then have "SpoolRows db (sl_project e) (weekStart (sl_occurred_at e)) (weekStart (sl_occurred_at e) + 7 * 24 * hour) packRows \<noteq> []"
    unfolding SpoolRows_def packRows_def by (simp only: take_eq_Nil) simp
  then show ?thesis unfolding read_group_def by (auto simp: neq_Nil_conv)
qed

lemma SpoolGroups_complete:
  "e \<in> set (pk_spool db) \<Longrightarrow> \<exists>g \<in> set (SpoolGroups db). sg_project g = sl_project e \<and> sg_week g = weekStart (sl_occurred_at e)"
  by (auto simp: SpoolGroups_def image_iff Let_def)

lemma forced_pass_idle:
  "pack_groups down now True gs n db = (None, n, db') \<Longrightarrow> g \<in> set gs \<Longrightarrow> read_group (sg_project g) (sg_week g) db = []"
proof (induction gs arbitrary: db)
  case (Cons h gs)
  obtain r db1 where p: "packOne down h db = (r, db1)" by (cases "packOne down h db")
  from p show ?case
  proof (cases rule: packOne_cases)
    case idle
    with p Cons show ?thesis by auto
  next
    case (packed rows)
    then have "pack_groups down now True gs (n + length rows) db1 = (None, n, db')" using Cons.prems(1) p by simp
    from pack_groups_shrink [OF this] packed(2) show ?thesis by simp
  next
    case (failed e)
    with Cons.prems(1) p show ?thesis by simp
  qed
qed simp

lemma drained: "pack_loop down now True packed db = (None, m, db') \<Longrightarrow> pk_spool db' = []"
proof (induction down now "True" packed db arbitrary: m rule: pack_loop.induct)
  case (1 down now packed db)
  obtain r n db1 where g: "pack_groups down now True (SpoolGroups db) 0 db = (r, n, db1)"
    by (cases "pack_groups down now True (SpoolGroups db) 0 db")
  with "1.prems" have r: "r = None" by (subst (asm) pack_loop.simps) (auto split: option.splits)
  show ?case
  proof (cases "n = 0")
    case True
    with "1.prems" g r have "db' = db1" by (subst (asm) pack_loop.simps) simp
    moreover have "pk_spool db = []"
    proof (rule ccontr)
      assume "pk_spool db \<noteq> []"
      then obtain e where e: "e \<in> set (pk_spool db)" by (cases "pk_spool db") auto
      then obtain h where "h \<in> set (SpoolGroups db)" "sg_project h = sl_project e" "sg_week h = weekStart (sl_occurred_at e)"
        using SpoolGroups_complete by blast
      with forced_pass_idle [of down now "SpoolGroups db" 0 db db1 h] g r True group_has_rows [OF e] show False by simp
    qed
    ultimately show ?thesis using pack_groups_shrink [OF g] by simp
  next
    case False
    with "1.prems" g r have "pack_loop down now True (packed + n) db1 = (None, m, db')"
      by (subst (asm) pack_loop.simps) simp
    with 1 g r False show ?thesis by simp
  qed
qed

lemma removed_count:
  assumes "unique_by entry_key t" and "distinct (map entry_key rows)" and "set rows \<subseteq> set t"
  shows "length (filter (\<lambda>e. entry_key e \<notin> set (map entry_key rows)) t) + length rows = length t"
proof -
  let ?P = "\<lambda>e. entry_key e \<in> set (map entry_key rows)"
  have d: "distinct (map entry_key (filter ?P t))" using assms(1) by (simp add: unique_by_def distinct_map_filter)
  have "set (map entry_key (filter ?P t)) = set (map entry_key rows)" using assms(3) by auto
  then have "length (map entry_key (filter ?P t)) = length (map entry_key rows)"
    by (simp only: distinct_card [OF d, symmetric] distinct_card [OF assms(2), symmetric])
  then show ?thesis using sum_length_filter_compl [of ?P t] by simp
qed

definition room :: "pack_db \<Rightarrow> bool" where
  "room db \<longleftrightarrow> unique_by entry_key (pk_spool db) \<and> pk_next db + int (length (pk_spool db)) \<le> 2 ^ 63"

lemma packOne_runs:
  assumes "room db" and up: "\<forall>k. \<not> down k"
  shows "\<exists>k db'. packOne down g db = (Inr k, db') \<and> room db' \<and> length (pk_spool db') + k = length (pk_spool db)"
proof -
  obtain r db' where p: "packOne down g db = (r, db')" by (cases "packOne down g db")
  have u: "unique_by entry_key (pk_spool db)" using assms(1) by (simp add: room_def)
  from p show ?thesis
  proof (cases rule: packOne_cases)
    case idle
    with p assms(1) show ?thesis by auto
  next
    case (packed rows)
    have l: "length (pk_spool db') + length rows = length (pk_spool db)"
      unfolding packed(4,1) by (rule removed_count [OF u read_group_rows(1) [OF u] read_group_subset])
    moreover have "room db'"
      using assms(1) l packed(2,5) unfolding room_def packed(4) by (cases rows) (auto simp: unique_by_def distinct_map_filter)
    ultimately show ?thesis using p packed(3) by auto
  next
    case (failed e)
    then have rows: "read_group (sg_project g) (sg_week g) db \<noteq> []" using p by (auto simp: packOne_def)
    then have "pk_spool db \<noteq> []" using read_group_subset [of "sg_project g" "sg_week g" db] by auto
    then have "pk_next db < 2 ^ 63" using assms(1) by (cases "pk_spool db") (auto simp: room_def)
    moreover have "put_pack down k d m = Inr (m(k \<mapsto> d))" if "checkKey k" for k d m
      using up that by (simp add: put_pack_def Put_def)
    ultimately show ?thesis
      using p failed rows PackKey_ok places_from_ids
      by (auto simp: packOne_def InsertPack_def Let_def commit_pack_def InsertEventPacks_def list_all_iff split: option.splits if_splits)
  qed
qed

lemma pack_groups_run:
  assumes "\<forall>k. \<not> down k"
  shows "room db \<Longrightarrow> \<exists>m db'. pack_groups down now True gs n db = (None, n + m, db') \<and> room db'
    \<and> length (pk_spool db') + m = length (pk_spool db)"
proof (induction gs arbitrary: n db)
  case (Cons g gs)
  obtain k db1 where p: "packOne down g db = (Inr k, db1)" "room db1" "length (pk_spool db1) + k = length (pk_spool db)"
    using packOne_runs [OF Cons.prems assms] by blast
  from Cons.IH [OF p(2), of "n + k"] obtain m db' where
    "pack_groups down now True gs (n + k) db1 = (None, n + k + m, db')" "room db'"
    "length (pk_spool db') + m = length (pk_spool db1)" by blast
  with p show ?case by (auto intro!: exI [of _ "k + m"])
qed auto

text \<open>
  C39. \<open>Drain\<close> finishes its work: with a store that accepts its objects (and pack ids left in 63 bits) it
  ends without an error, the spool is empty, and it reports exactly the number of payloads that were
  spooled - however many groups and packs that takes.
\<close>

theorem Drain_empties_spool:
  assumes "\<forall>k. \<not> down k" and "unique_by entry_key (pk_spool db)"
    and "pk_next db + int (length (pk_spool db)) \<le> 2 ^ 63"
  shows "\<exists>db'. Drain True down now db = (None, length (pk_spool db), db') \<and> pk_spool db' = []"
proof -
  have "\<exists>db'. pack_loop down now True packed db = (None, packed + length (pk_spool db), db')" if "room db" for packed db
    using that
  proof (induction "length (pk_spool db)" arbitrary: packed db rule: less_induct)
    case less
    obtain m db1 where g: "pack_groups down now True (SpoolGroups db) 0 db = (None, m, db1)" "room db1"
      "length (pk_spool db1) + m = length (pk_spool db)"
      using pack_groups_run [OF assms(1) less.prems, of now "SpoolGroups db" 0] by auto
    show ?case
    proof (cases "m = 0")
      case True
      with g(1) have loop: "pack_loop down now True packed db = (None, packed, db1)" by (subst pack_loop.simps) simp
      from drained [OF this] g(3) True loop show ?thesis by simp
    next
      case False
      with g less(1) [of db1 "packed + m"] show ?thesis by (subst pack_loop.simps) auto
    qed
  qed
  then obtain db' where "pack_loop down now True 0 db = (None, 0 + length (pk_spool db), db')"
    using assms(2,3) unfolding room_def by blast
  with drained [OF this] show ?thesis by (simp add: Drain_def)
qed

section \<open>The functions are runs of the system\<close>

lemma step_give_up_kept: "ps_workers s w = Some f \<Longrightarrow> fl_id f = Some i \<Longrightarrow>
    pack_step s (s\<lparr>ps_db := DeletePack i (ps_db s), ps_workers := (ps_workers s)(w := None)\<rparr>)"
  using step_give_up [of s w f i "pk_blobs (ps_db s)"] by simp

text \<open>\<open>packOne\<close>, run by a packer of its own, is a sequence of steps.\<close>

lemma packOne_steps:
  assumes w: "ps_workers s w = None" and wk: "week_start (sg_week g)"
  shows "\<exists>t. pack_step\<^sup>*\<^sup>* s t \<and> ps_db t = snd (packOne down g (ps_db s)) \<and> ps_written t = ps_written s
    \<and> ps_cutoff t = ps_cutoff s"
proof (cases "read_group (sg_project g) (sg_week g) (ps_db s) = []")
  case True
  then show ?thesis by (auto simp: packOne_def)
next
  case False
  let ?rows = "read_group (sg_project g) (sg_week g) (ps_db s)" and ?i = "pk_next (ps_db s)"
  let ?f = "\<lparr>fl_project = sg_project g, fl_week = sg_week g, fl_rows = ?rows, fl_id = None, fl_stored = False\<rparr>"
  let ?f1 = "?f\<lparr>fl_id := Some ?i\<rparr>" and ?key = "PackKey (sg_project g) (sg_week g) ?i"
  let ?s1 = "s\<lparr>ps_workers := (ps_workers s)(w \<mapsto> ?f)\<rparr>"
  have r: "pack_step s ?s1" by (rule step_read [OF w wk])
  show ?thesis
  proof (cases "InsertPack (sg_project g) (sg_week g) (ps_db s)")
    case None
    with False r show ?thesis by (intro exI [of _ ?s1]) (auto simp: packOne_def)
  next
    case (Some x)
    then obtain db1 where ins: "InsertPack (sg_project g) (sg_week g) (ps_db s) = Some (?i, db1)"
      by (auto simp: InsertPack_def split: if_splits)
    let ?s2 = "s\<lparr>ps_db := db1, ps_workers := (ps_workers s)(w \<mapsto> ?f1)\<rparr>"
    have "pack_step ?s1 ?s2" using step_open [of ?s1 w ?f ?i db1] ins by simp
    with r have s2: "pack_step\<^sup>*\<^sup>* s ?s2" by (meson converse_rtranclp_into_rtranclp r_into_rtranclp)
    show ?thesis
    proof (cases "put_pack down ?key (pack_bytes ?rows) (pk_blobs db1)")
      case (Inl e)
      let ?t = "s\<lparr>ps_db := DeletePack ?i db1, ps_workers := (ps_workers s)(w := None)\<rparr>"
      have "pack_step ?s2 ?t" using step_give_up_kept [of ?s2 w ?f1 ?i] by simp
      with s2 have "pack_step\<^sup>*\<^sup>* s ?t" by (rule rtranclp.rtrancl_into_rtrancl)
      then show ?thesis using False ins Inl by (intro exI [of _ ?t]) (auto simp: packOne_def Let_def)
    next
      case (Inr b)
      then have put: "Put ?key (pack_bytes ?rows) (pk_blobs db1) = Inr b" by (auto simp: put_pack_def split: if_splits)
      let ?f2 = "?f1\<lparr>fl_stored := True\<rparr>" and ?db2 = "db1\<lparr>pk_blobs := b\<rparr>"
      let ?s3 = "s\<lparr>ps_db := ?db2, ps_workers := (ps_workers s)(w \<mapsto> ?f2)\<rparr>"
      have "pack_step ?s2 ?s3" using step_put [of ?s2 w ?f1 ?i b] put by simp
      with s2 have s3: "pack_step\<^sup>*\<^sup>* s ?s3" by (rule rtranclp.rtrancl_into_rtrancl)
      show ?thesis
      proof (cases "commit_pack ?i ?rows ?db2")
        case (Some db3)
        let ?t = "s\<lparr>ps_db := db3, ps_workers := (ps_workers s)(w := None)\<rparr>"
        have "pack_step ?s3 ?t" using step_commit [of ?s3 w ?f2 ?i db3] Some by simp
        with s3 have "pack_step\<^sup>*\<^sup>* s ?t" by (rule rtranclp.rtrancl_into_rtrancl)
        then show ?thesis using False ins Inr Some by (intro exI [of _ ?t]) (auto simp: packOne_def Let_def)
      next
        case None
        let ?db4 = "delete_object ?key ?db2"
        let ?s4 = "s\<lparr>ps_db := ?db4, ps_workers := (ps_workers s)(w \<mapsto> ?f1)\<rparr>"
        let ?t = "s\<lparr>ps_db := DeletePack ?i ?db4, ps_workers := (ps_workers s)(w := None)\<rparr>"
        have "pack_step ?s3 ?s4" using step_undo_object [of ?s3 w ?f2 ?i] by simp
        moreover have "pack_step ?s4 ?t" using step_give_up_kept [of ?s4 w ?f1 ?i] by simp
        ultimately have "pack_step\<^sup>*\<^sup>* s ?t" using s3 by (meson rtranclp.rtrancl_into_rtrancl)
        then show ?thesis using False ins Inr None by (intro exI [of _ ?t]) (auto simp: packOne_def Let_def)
      qed
    qed
  qed
qed

text \<open>So is a sweep.\<close>

lemma expire_packs_steps:
  assumes "unique_by pa_id ps" and "set ps \<subseteq> set (ExpiredPacks c (ps_db s))"
  shows "\<exists>t c'. pack_step\<^sup>*\<^sup>* s t \<and> ps_db t = snd (expire_packs stuck ps (ps_db s)) \<and> ps_written t = ps_written s
    \<and> ps_cutoff t = c' \<and> c' \<le> max c (ps_cutoff s)"
  using assms
proof (induction ps arbitrary: s)
  case (Cons p ps)
  have u: "unique_by pa_id ps" and fresh: "pa_id p \<notin> pa_id ` set ps" using Cons.prems(1) by (auto simp: unique_by_def)
  let ?key = "PackKey (pa_project p) (pa_week p) (pa_id p)"
  show ?case
  proof (cases "stuck ?key")
    case True
    with Cons.IH [OF u] Cons.prems(2) show ?thesis by (simp add: Let_def)
  next
    case False
    let ?s1 = "s\<lparr>ps_cutoff := max c (ps_cutoff s), ps_db := delete_object ?key (ps_db s)\<rparr>"
    let ?s2 = "?s1\<lparr>ps_db := DeletePack (pa_id p) (delete_object ?key (ps_db s))\<rparr>"
    have p: "p \<in> set (ExpiredPacks c (ps_db s))" using Cons.prems(2) by simp
    have "pack_step s ?s1" by (rule step_expire_object [OF p])
    moreover have "pack_step ?s1 ?s2" using step_expire_pack [of p c ?s1] p by (simp add: ExpiredPacks_def max.left_idem)
    ultimately have run: "pack_step\<^sup>*\<^sup>* s ?s2" by (meson converse_rtranclp_into_rtranclp r_into_rtranclp)
    have "set ps \<subseteq> set (ExpiredPacks c (ps_db ?s2))"
    proof
      fix q assume q: "q \<in> set ps"
      with fresh have "pa_id q \<noteq> pa_id p" by (metis imageI)
      with q Cons.prems(2) show "q \<in> set (ExpiredPacks c (ps_db ?s2))" by (auto simp: ExpiredPacks_def)
    qed
    from Cons.IH [OF u this] obtain t where "pack_step\<^sup>*\<^sup>* ?s2 t" "ps_written t = ps_written s"
      "ps_db t = snd (expire_packs stuck ps (DeletePack (pa_id p) (delete_object ?key (ps_db s))))"
      "ps_cutoff t \<le> max c (ps_cutoff ?s2)" by auto
    with run False show ?thesis by (intro exI [of _ t]) (auto simp: Let_def split: prod.split)
  qed
qed auto

lemma ExpirePacks_steps:
  assumes "pack_inv s"
  shows "\<exists>t. pack_step\<^sup>*\<^sup>* s t \<and> ps_db t = snd (ExpirePacks stuck c (ps_db s)) \<and> ps_written t = ps_written s
    \<and> ps_cutoff t \<le> max c (ps_cutoff s)"
proof -
  have "unique_by pa_id (ExpiredPacks c (ps_db s))"
    using pack_invD(2) [OF assms] by (simp add: packs_inv_def ExpiredPacks_def unique_by_def distinct_map_filter)
  from expire_packs_steps [OF this order_refl] obtain t where t: "pack_step\<^sup>*\<^sup>* s t" "ps_written t = ps_written s"
    "ps_db t = snd (expire_packs stuck (ExpiredPacks c (ps_db s)) (ps_db s))" "ps_cutoff t \<le> max c (ps_cutoff s)" by blast
  let ?t = "t\<lparr>ps_cutoff := max c (ps_cutoff t), ps_db := snd (ExpireSpool c (ps_db t))\<rparr>"
  have "pack_step\<^sup>*\<^sup>* s ?t" using t(1) step_expire_spool by (rule rtranclp.rtrancl_into_rtrancl)
  with t show ?thesis by (intro exI [of _ ?t]) (auto simp: ExpirePacks_def split: prod.split)
qed

section \<open>Properties\<close>


definition pack_example0 :: pack_sys where
  "pack_example0 = \<lparr>ps_db = \<lparr>pk_spool = [], pk_packs = [], pk_places = [], pk_next = 1, pk_blobs = (\<lambda>k. None)\<rparr>,
     ps_workers = (\<lambda>w. None), ps_written = (\<lambda>k. None), ps_cutoff = 0\<rparr>"

definition pack_entry :: spool_entry where
  "pack_entry = \<lparr>sl_project = 1, sl_event_id = replicate 32 (CHR ''a''), sl_occurred_at = 0, sl_data = ''gz'', sp_created_at = 0\<rparr>"

definition pack_example1 :: pack_sys where
  "pack_example1 = pack_example0\<lparr>ps_db := spool_payload pack_entry (ps_db pack_example0),
     ps_written := (ps_written pack_example0)(entry_key pack_entry \<mapsto> sl_data pack_entry)\<rparr>"

definition pack_group :: spool_group where
  "pack_group = \<lparr>sg_project = 1, sg_week = weekStart 0, sg_bytes = 2, sg_oldest = 0\<rparr>"

lemma week_zero: "weekStart 0 = - 259200 * 1000000000"
  by (simp add: weekStart_days)

lemma pack_example_reach: "reach pack_start pack_step pack_example1"
proof -
  have "reach pack_start pack_step pack_example0" by (rule reach_init) (simp add: pack_start_def pack_example0_def)
  moreover have "pack_step pack_example0 pack_example1"
    unfolding pack_example1_def by (rule step_spool) (simp_all add: pack_example0_def pack_entry_def)
  ultimately show ?thesis by (rule reach_step)
qed

lemma reach_star: "reach initial step s \<Longrightarrow> step\<^sup>*\<^sup>* s t \<Longrightarrow> reach initial step t"
  by (erule rtranclp_induct) (auto intro: reach_step)


lemma Drain_empties_spool_witness:
  "\<exists>db'. Drain True (\<lambda>k. False) 0 (ps_db pack_example1) = (None, 1, db') \<and> pk_spool db' = []"
  using Drain_empties_spool [of "\<lambda>k. False" "ps_db pack_example1" 0]
  by (simp add: pack_example1_def pack_example0_def spool_payload_def insert_nothing_def unique_by_def)

text \<open>
  C40. The one gap: a commit whose reply is lost. \<open>packOne\<close> takes the error of \<open>Tx\<close> for a transaction
  that did not happen and deletes the object and the pack; when the database had committed, the spool rows
  are gone, the cascade deletes the places, and every payload of the pack is lost - in any reachable state,
  for every row of the pack.
\<close>

theorem failed_commit_reply_loses_payload:
  assumes "reach pack_start pack_step s" and "ps_workers s w = Some f" and "fl_id f = Some i"
    and "commit_pack i (fl_rows f) (ps_db s) = Some db" and "e \<in> set (fl_rows f)"
  shows "stored_payload (DeletePack i (delete_object (flight_key f i) db)) (entry_key e) = Inr None"
proof -
  note I = pack_invD [OF packers.reach_inv [OF assms(1)]]
  note C = commit_fields [OF assms(4)]
  let ?db = "DeletePack i (delete_object (flight_key f i) db)" and ?new = "places_from i 0 (fl_rows f)"
  have K: "place_key ` set ?new = entry_key ` set (fl_rows f)"
    using arg_cong [OF places_from_keys [of i 0 "fl_rows f"], of set] by (simp only: list.set_map)
  have "distinct (map place_key ?new)"
    using flights_invD(1) [OF I(5) assms(2)] by (simp only: places_from_keys rows_ok_def)
  moreover have "unique_by place_key (pk_places (ps_db s))" using I(3) by (simp add: places_inv_def)
  ultimately have P: "set (pk_places db) = set ?new \<union> {p \<in> set (pk_places (ps_db s)). place_key p \<notin> place_key ` set ?new}"
    unfolding C(2) using upsert_places [of "pk_places (ps_db s)" ?new] by blast
  have "entry_key e \<notin> place_key ` set (pk_places ?db)"
  proof
    assume "entry_key e \<in> place_key ` set (pk_places ?db)"
    then obtain p where p: "p \<in> set (pk_places db)" "pl_pack_id p \<noteq> i" "place_key p = entry_key e" by auto
    from p(2) have "p \<notin> set ?new" using places_from_ids by blast
    with P p(1) have "place_key p \<notin> place_key ` set ?new" by blast
    with K p(3) assms(5) show False by auto
  qed
  then have "lookup_by place_key (entry_key e) (pk_places ?db) = None" unfolding lookup_by_None .
  moreover have "entry_key e \<notin> entry_key ` set (pk_spool ?db)"
  proof -
    have "entry_key e \<in> entry_key ` set (fl_rows f)" using assms(5) by (rule imageI)
    moreover have "set (pk_spool ?db) = {x \<in> set (pk_spool (ps_db s)). entry_key x \<notin> entry_key ` set (fl_rows f)}"
      by (simp add: C(1))
    ultimately show ?thesis by (metis (mono_tags, lifting) imageE mem_Collect_eq)
  qed
  then have "lookup_by entry_key (entry_key e) (pk_spool ?db) = None" unfolding lookup_by_None .
  ultimately show ?thesis by (simp add: stored_payload_def PayloadLocation_def Let_def)
qed

definition pack_flight :: flight where
  "pack_flight = \<lparr>fl_project = 1, fl_week = weekStart 0, fl_rows = [pack_entry], fl_id = Some 1, fl_stored = True\<rparr>"

definition pack_example2 :: pack_sys where
  "pack_example2 = pack_example1\<lparr>ps_db := (ps_db pack_example1)\<lparr>
       pk_packs := [\<lparr>pa_id = 1, pa_project = 1, pa_week = weekStart 0, pa_bytes = 0\<rparr>], pk_next := 2,
       pk_blobs := [PackKey 1 (weekStart 0) 1 \<mapsto> ''gz'']\<rparr>, ps_workers := [0 \<mapsto> pack_flight]\<rparr>"

lemma pack_example_spool: "pk_spool (ps_db pack_example1) = [pack_entry]"
  by (simp add: pack_example1_def pack_example0_def spool_payload_def insert_nothing_def)

lemma pack_example_rows: "read_group 1 (weekStart 0) (ps_db pack_example1) = [pack_entry]"
  by (simp add: read_group_def SpoolRows_def pack_example_spool packRows_def pack_entry_def week_zero)

lemma pack_example2_reach: "reach pack_start pack_step pack_example2"
proof -
  let ?f = "pack_flight\<lparr>fl_id := None, fl_stored := False\<rparr>" and ?f1 = "pack_flight\<lparr>fl_stored := False\<rparr>"
  let ?s1 = "pack_example1\<lparr>ps_workers := [0 \<mapsto> ?f]\<rparr>"
  let ?db = "(ps_db pack_example1)\<lparr>pk_packs := [\<lparr>pa_id = 1, pa_project = 1, pa_week = weekStart 0, pa_bytes = 0\<rparr>], pk_next := 2\<rparr>"
  let ?s2 = "pack_example1\<lparr>ps_db := ?db, ps_workers := [0 \<mapsto> ?f1]\<rparr>"
  have w: "ps_workers pack_example1 = (\<lambda>w. None)" by (simp add: pack_example1_def pack_example0_def)
  have "pack_step pack_example1 ?s1"
    using step_read [of pack_example1 0 "weekStart 0" 1] w weeks.canonical_f
    by (simp add: pack_example_rows pack_flight_def)
  then have s1: "reach pack_start pack_step ?s1" by (rule reach_step [OF pack_example_reach])
  have "InsertPack 1 (weekStart 0) (ps_db pack_example1) = Some (1, ?db)"
    by (simp add: InsertPack_def pack_example1_def pack_example0_def spool_payload_def)
  then have "pack_step ?s1 ?s2" using step_open [of ?s1 0 ?f 1 ?db] by (simp add: pack_flight_def)
  with s1 have s2: "reach pack_start pack_step ?s2" by (rule reach_step)
  have "Put (flight_key pack_flight 1) ''gz'' (pk_blobs (ps_db pack_example1)) = Inr [PackKey 1 (weekStart 0) 1 \<mapsto> ''gz'']"
    by (simp add: Put_def PackKey_ok pack_flight_def pack_example1_def pack_example0_def spool_payload_def)
  then have "pack_step ?s2 pack_example2"
    using step_put [of ?s2 0 ?f1 1 "[PackKey 1 (weekStart 0) 1 \<mapsto> ''gz'']"]
    by (simp add: pack_flight_def pack_example2_def pack_bytes_def pack_entry_def)
  with s2 show ?thesis by (rule reach_step)
qed

lemma failed_commit_reply_loses_payload_witness:
  "\<exists>db. commit_pack 1 [pack_entry] (ps_db pack_example2) = Some db
     \<and> stored_payload (DeletePack 1 (delete_object (PackKey 1 (weekStart 0) 1) db)) (entry_key pack_entry) = Inr None"
proof -
  have f: "ps_workers pack_example2 0 = Some pack_flight" by (simp add: pack_example2_def)
  obtain db where c: "commit_pack 1 (fl_rows pack_flight) (ps_db pack_example2) = Some db"
    by (auto simp: commit_pack_def InsertEventPacks_def pack_flight_def pack_example2_def)
  from failed_commit_reply_loses_payload [OF pack_example2_reach f _ c, of pack_entry] c
  show ?thesis by (auto simp: pack_flight_def)
qed

end
