(* ===== verification/Pii.thy ===== *)
theory Pii
  imports Events GoStrings
begin

text \<open>
  \<open>internal/ingest/pii.go\<close> and \<open>redact\<close> of \<open>ingest.go\<close>: the scrubbing of personal data, with the
  regular expressions as data and Go's leftmost-first matching over them. The expressions only
  repeat character classes, all of them ASCII or the complement of one ASCII character, so matching
  bytes and matching runes agree. \<open>encoding/json\<close> is a parameter.
\<close>

section \<open>Regular expressions\<close>

datatype re = Rep "char \<Rightarrow> bool" nat "nat option" | Seq re re | Alt re re | Opt re

text \<open>What is left after a match, the preferred one first: greedy repetition, earlier alternatives first.\<close>

fun rep_rests :: "(char \<Rightarrow> bool) \<Rightarrow> nat \<Rightarrow> nat option \<Rightarrow> string \<Rightarrow> string list" where
  "rep_rests p n m [] = (if n = 0 then [[]] else [])"
| "rep_rests p n m (c # s) =
     (if m \<noteq> Some 0 \<and> p c then rep_rests p (n - 1) (map_option (\<lambda>k. k - 1) m) s else [])
     @ (if n = 0 then [c # s] else [])"

fun re_match :: "re \<Rightarrow> string \<Rightarrow> string list" where
  "re_match (Rep p n m) s = rep_rests p n m s"
| "re_match (Seq a b) s = concat (map (re_match b) (re_match a s))"
| "re_match (Alt a b) s = re_match a s @ re_match b s"
| "re_match (Opt a) s = re_match a s @ [s]"

abbreviation one :: "(char \<Rightarrow> bool) \<Rightarrow> re" where "one p \<equiv> Rep p 1 (Some 1)"
abbreviation char_re :: "char \<Rightarrow> re" where "char_re c \<equiv> one (\<lambda>x. x = c)"
abbreviation exactly :: "(char \<Rightarrow> bool) \<Rightarrow> nat \<Rightarrow> re" where "exactly p n \<equiv> Rep p n (Some n)"

fun seq :: "re list \<Rightarrow> re" where
  "seq [] = Rep (\<lambda>c. False) 0 (Some 0)"
| "seq [r] = r"
| "seq (r # rs) = Seq r (seq rs)"

definition dec_digit :: "char \<Rightarrow> bool" where "dec_digit c \<longleftrightarrow> CHR ''0'' \<le> c \<and> c \<le> CHR ''9''"
definition letter :: "char \<Rightarrow> bool" where
  "letter c \<longleftrightarrow> CHR ''a'' \<le> c \<and> c \<le> CHR ''z'' \<or> CHR ''A'' \<le> c \<and> c \<le> CHR ''Z''"
definition re_space :: "char \<Rightarrow> bool" where
  "re_space c \<longleftrightarrow> c \<in> {CHR 0x09, CHR 0x0A, CHR 0x0C, CHR 0x0D, CHR '' ''}"
definition local_char :: "char \<Rightarrow> bool" where
  "local_char c \<longleftrightarrow> letter c \<or> dec_digit c \<or> c \<in> set ''._%+-''"
definition domain_char :: "char \<Rightarrow> bool" where
  "domain_char c \<longleftrightarrow> letter c \<or> dec_digit c \<or> c \<in> set ''.-''"

abbreviation phone_sep :: "char \<Rightarrow> bool" where "phone_sep c \<equiv> c \<in> set ''-.'' \<or> re_space c"
abbreviation card_sep :: "char \<Rightarrow> bool" where "card_sep c \<equiv> c = CHR ''-'' \<or> re_space c"

definition emailRe :: re where
  "emailRe = seq [Rep local_char 1 None, char_re (CHR ''@''), Rep domain_char 1 None, char_re (CHR ''.''), Rep letter 2 None]"

definition phoneRe :: re where
  "phoneRe = seq [Opt (seq [char_re (CHR ''+''), Rep dec_digit 1 (Some 3), Opt (one phone_sep)]),
     Alt (seq [char_re (CHR ''(''), exactly dec_digit 3, char_re (CHR '')'')]) (exactly dec_digit 3),
     one phone_sep, Rep dec_digit 3 (Some 4), Opt (one phone_sep), exactly dec_digit 4]"

definition cardRe :: re where
  "cardRe = seq [exactly dec_digit 4, one card_sep, exactly dec_digit 4, one card_sep, exactly dec_digit 4,
     one card_sep, exactly dec_digit 4]"

definition ipAddressField :: re where
  "ipAddressField = seq (map char_re ''\"ip_address\"'' @ [Rep re_space 0 None, char_re (CHR '':''), Rep re_space 0 None,
     char_re (CHR ''\"''), Rep (\<lambda>c. c \<noteq> CHR ''\"'') 0 None, char_re (CHR ''\"'')])"

section \<open>Replacing\<close>

text \<open>
  \<open>ReplaceAllString\<close> with a text without \<open>$\<close>, for an expression that never matches nothing: the leftmost
  match, then on from its end.
\<close>

function replace_all :: "re \<Rightarrow> string \<Rightarrow> string \<Rightarrow> string" where
  "replace_all r w [] = []"
| "replace_all r w (c # s) =
     (case re_match r (c # s) of
        [] \<Rightarrow> c # replace_all r w s
      | rest # _ \<Rightarrow> if length rest \<le> length s then w @ replace_all r w rest else c # replace_all r w s)"
  by pat_completeness auto
termination by (relation "measure (\<lambda>(r, w, s). length s)") auto

text \<open>
  \<open>replaceBounded\<close>: the same search, but a match next to another digit is copied. \<open>prev\<close> is the character
  before, if any.
\<close>

definition digit_at :: "char option \<Rightarrow> bool" where
  "digit_at x = (case x of None \<Rightarrow> False | Some c \<Rightarrow> dec_digit c)"

definition head :: "string \<Rightarrow> char option" where
  "head s = (case s of [] \<Rightarrow> None | c # _ \<Rightarrow> Some c)"

abbreviation redacted :: string where "redacted \<equiv> ''[REDACTED]''"

function replaceBounded :: "re \<Rightarrow> char option \<Rightarrow> string \<Rightarrow> string" where
  "replaceBounded r prev [] = []"
| "replaceBounded r prev (c # s) =
     (case re_match r (c # s) of
        [] \<Rightarrow> c # replaceBounded r (Some c) s
      | rest # _ \<Rightarrow>
          if length rest \<le> length s then
            (let m = take (length (c # s) - length rest) (c # s)
             in (if digit_at prev \<or> digit_at (head rest) then m else redacted) @ replaceBounded r (Some (last m)) rest)
          else c # replaceBounded r (Some c) s)"
  by pat_completeness auto
termination by (relation "measure (\<lambda>(r, prev, s). length s)") auto

definition RedactText :: "string \<Rightarrow> string" where
  "RedactText s = replaceBounded phoneRe None (replaceBounded cardRe None (replace_all emailRe redacted s))"

definition RedactRaw :: "string \<Rightarrow> string" where
  "RedactRaw s = replace_all ipAddressField ''\"ip_address\":\"[redacted]\"'' (RedactText s)"

definition RedactUserID :: "string \<Rightarrow> string" where
  "RedactUserID i =
     (if i = [] then []
      else if 8 < length i then take 4 i @ ''****'' @ drop (length i - 4) i
      else ''****'')"

definition RedactTags :: "(string \<times> string) list \<Rightarrow> (string \<times> string) list" where
  "RedactTags tags =
     map (\<lambda>(k, v). (k, if k \<in> {''email'', ''phone'', ''password''} then redacted else RedactText v)) tags"

section \<open>The user object of the raw document\<close>

text \<open>What the code needs of \<open>encoding/json\<close>: objects as member lists, the encoders.\<close>

datatype json_value = JText string | JOther string

record pii_json =
  jp_top :: "string \<Rightarrow> (string \<times> string) list option"
  jp_user :: "string \<Rightarrow> (string \<times> json_value) list option"
  jp_write_user :: "(string \<times> json_value) list \<Rightarrow> string option"
  jp_write_top :: "(string \<times> string) list \<Rightarrow> string option"

definition mask_user :: "string \<times> json_value \<Rightarrow> string \<times> json_value" where
  "mask_user m =
     (case m of
        (k, JText s) \<Rightarrow> if (k = ''id'' \<or> k = ''username'') \<and> s \<noteq> [] then (k, JText (RedactUserID s)) else m
      | _ \<Rightarrow> m)"

definition redactRawUser :: "pii_json \<Rightarrow> string \<Rightarrow> string" where
  "redactRawUser js raw =
     (case jp_top js raw of
        None \<Rightarrow> raw
      | Some doc \<Rightarrow>
          (case map_of doc ''user'' of
             None \<Rightarrow> raw
           | Some u \<Rightarrow>
               if u = [] then raw
               else (case jp_user js u of
                  None \<Rightarrow> raw
                | Some user \<Rightarrow>
                    if \<not> list_ex (\<lambda>(k, v). (k = ''id'' \<or> k = ''username'') \<and> (case v of JText s \<Rightarrow> s \<noteq> [] | _ \<Rightarrow> False)) user
                    then raw
                    else (case jp_write_user js (map mask_user user) of
                       None \<Rightarrow> raw
                     | Some u' \<Rightarrow>
                         (case jp_write_top js (map (\<lambda>(k, v). if k = ''user'' then (k, u') else (k, v)) doc) of
                            None \<Rightarrow> raw
                          | Some out \<Rightarrow> out)))))"

definition redact :: "pii_json \<Rightarrow> event \<Rightarrow> event" where
  "redact js ev = ev\<lparr>
     ev_message := RedactText (ev_message ev),
     ev_transaction := RedactText (ev_transaction ev),
     ev_user_id := RedactUserID (ev_user_id ev),
     ev_tags := RedactTags (ev_tags ev),
     ev_breadcrumbs := map (\<lambda>b. b\<lparr>bc_message := RedactText (bc_message b)\<rparr>) (ev_breadcrumbs ev),
     ev_exceptions := map (\<lambda>x. x\<lparr>ex_value := RedactText (ex_value x)\<rparr>) (ev_exceptions ev),
     ev_raw := redactRawUser js (RedactRaw (ev_raw ev))\<rparr>"

section \<open>Matches and barriers\<close>

text \<open>A character no part of an expression accepts cannot be inside a match.\<close>

fun accepts :: "re \<Rightarrow> char \<Rightarrow> bool" where
  "accepts (Rep p n m) c = p c"
| "accepts (Seq a b) c = (accepts a c \<or> accepts b c)"
| "accepts (Alt a b) c = (accepts a c \<or> accepts b c)"
| "accepts (Opt a) c = accepts a c"

lemma rep_barrier: "\<not> p c \<Longrightarrow> rep_rests p n m (a @ c # b) = map (\<lambda>x. x @ c # b) (rep_rests p n m a)"
  by (induction p n m a rule: rep_rests.induct) auto

lemma match_barrier: "\<not> accepts r c \<Longrightarrow> re_match r (a @ c # b) = map (\<lambda>x. x @ c # b) (re_match r a)"
  by (induction r arbitrary: a) (simp_all add: rep_barrier map_concat comp_def del: append.simps)

lemma rep_extends: "x \<in> set (rep_rests p n m s) \<Longrightarrow> x @ t \<in> set (rep_rests p n m (s @ t))"
proof (induction p n m s rule: rep_rests.induct)
  case (1 p n m)
  then show ?case by (cases t) (auto split: if_splits)
qed (auto split: if_splits)

lemma match_extends: "x \<in> set (re_match r s) \<Longrightarrow> x @ t \<in> set (re_match r (s @ t))"
proof (induction r arbitrary: s x)
  case (Seq a b)
  then obtain y where "y \<in> set (re_match a s)" "x \<in> set (re_match b y)" by auto
  with Seq.IH have "y @ t \<in> set (re_match a (s @ t))" "x @ t \<in> set (re_match b (y @ t))" by blast+
  then show ?case by auto
qed (auto simp: rep_extends)

lemma match_prefix: "re_match r (s @ t) = [] \<Longrightarrow> re_match r s = []"
  using match_extends [of _ r s t] by (cases "re_match r s") auto

lemma rep_suffix: "x \<in> set (rep_rests p n m s) \<Longrightarrow> suffix x s"
  by (induction p n m s rule: rep_rests.induct) (auto split: if_splits intro: suffix_ConsI)

lemma match_suffix: "x \<in> set (re_match r s) \<Longrightarrow> suffix x s"
proof (induction r arbitrary: s x)
  case (Seq a b)
  then obtain y where "y \<in> set (re_match a s)" "x \<in> set (re_match b y)" by auto
  with Seq.IH show ?case by (blast intro: suffix_order.trans)
qed (auto dest: rep_suffix)

text \<open>\<open>absent r s\<close>: no match starts anywhere in \<open>s\<close>.\<close>

fun absent :: "re \<Rightarrow> string \<Rightarrow> bool" where
  "absent r [] = (re_match r [] = [])"
| "absent r (c # s) = (re_match r (c # s) = [] \<and> absent r s)"

lemma absent_empty: "absent r t \<Longrightarrow> re_match r [] = []"
  by (induction t) auto

lemma absent_prefix: "absent r (s @ t) \<Longrightarrow> absent r s"
proof (induction s)
  case Nil
  then show ?case by (simp add: absent_empty)
next
  case (Cons c s)
  have "re_match r (c # s) = []" by (rule match_prefix [of r "c # s" t]) (use Cons.prems in simp)
  with Cons show ?case by simp
qed

lemma absent_suffix: "absent r (s @ t) \<Longrightarrow> absent r t"
  by (induction s) auto

lemma absent_barrier:
  assumes "\<not> accepts r c"
  shows "absent r (a @ c # b) \<longleftrightarrow> absent r a \<and> absent r b"
proof (induction a)
  case Nil
  have "re_match r (c # b) = [] \<longleftrightarrow> re_match r [] = []" using match_barrier [OF assms, of "[]" b] by simp
  with absent_empty [of r b] show ?case by auto
next
  case (Cons x a)
  then show ?case using match_barrier [OF assms, of "x # a" b] by simp
qed

section \<open>Masking\<close>

text \<open>\<open>masks w s t\<close>: \<open>t\<close> is \<open>s\<close> with some pieces replaced by \<open>w\<close>.\<close>

inductive masks :: "string \<Rightarrow> string \<Rightarrow> string \<Rightarrow> bool" for w where
  masks_Nil: "masks w [] []"
| masks_keep: "masks w s t \<Longrightarrow> masks w (c # s) (c # t)"
| masks_drop: "masks w s t \<Longrightarrow> masks w (m @ s) (w @ t)"

lemma masks_append: "masks w s t \<Longrightarrow> masks w (m @ s) (m @ t)"
  by (induction m) (auto intro: masks_keep)

lemma masks_first:
  "masks w s t \<Longrightarrow> t = s \<or> (\<exists>p m s' q. t = p @ w @ q \<and> s = p @ m @ s' \<and> masks w s' q)"
proof (induction rule: masks.induct)
  case (masks_keep s t c)
  then show ?case
  proof (elim disjE exE conjE)
    fix p m s' q assume "t = p @ w @ q" "s = p @ m @ s'" "masks w s' q"
    then have "c # t = (c # p) @ w @ q \<and> c # s = (c # p) @ m @ s' \<and> masks w s' q" by simp
    then show ?thesis by blast
  qed simp
next
  case (masks_drop s t m)
  then have "w @ t = [] @ w @ t \<and> m @ s = [] @ m @ s \<and> masks w s t" by simp
  then show ?case by blast
qed simp

text \<open>Masks that begin and end with barriers create no match: each of the pieces was in the text before.\<close>

lemma masks_absent:
  assumes w: "w = b # u @ [b']" and b: "\<not> accepts r b" "\<not> accepts r b'" and u: "absent r u"
  shows "masks w s t \<Longrightarrow> absent r s \<Longrightarrow> absent r t"
proof (induction "length t" arbitrary: s t rule: less_induct)
  case less
  from masks_first [OF less.prems(1)] show ?case
  proof (elim disjE exE conjE)
    fix p m s' q assume t: "t = p @ w @ q" and s: "s = p @ m @ s'" and q: "masks w s' q"
    have "absent r p" "absent r s'"
      using less.prems(2) absent_prefix [of r p] absent_suffix [of r "p @ m" s'] unfolding s by simp_all
    moreover from this(2) q less.hyps have "absent r q" unfolding t w by simp
    ultimately show ?thesis
      using u absent_barrier [OF b(1), of p "u @ b' # q"] absent_barrier [OF b(2), of u q] by (simp add: t w)
  qed (use less.prems in simp)
qed

lemma rest_split: "re_match r s = rest # rs \<Longrightarrow> take (length s - length rest) s @ rest = s"
proof -
  assume "re_match r s = rest # rs"
  then have "rest \<in> set (re_match r s)" by simp
  then obtain m where "s = m @ rest" using match_suffix [of rest r s] by (auto simp: suffix_def)
  then show ?thesis by simp
qed

lemma replace_all_masks: "masks w s (replace_all r w s)"
proof (induction r w s rule: replace_all.induct)
  case (2 r w c s)
  show ?case
  proof (cases "re_match r (c # s)")
    case Nil
    with 2 show ?thesis by (simp add: masks_keep)
  next
    case (Cons rest rs)
    show ?thesis
    proof (cases "length rest \<le> length s")
      case True
      then have "masks w rest (replace_all r w rest)" using 2(2) [OF Cons] by simp
      then have "masks w (take (length (c # s) - length rest) (c # s) @ rest) (w @ replace_all r w rest)"
        by (rule masks_drop)
      then have "masks w (c # s) (w @ replace_all r w rest)" unfolding rest_split [OF Cons] .
      with True Cons show ?thesis by simp
    next
      case False
      with 2(3) [OF Cons] Cons show ?thesis by (simp add: masks_keep)
    qed
  qed
qed (simp add: masks_Nil)

lemma replaceBounded_masks: "masks redacted s (replaceBounded r prev s)"
proof (induction r prev s rule: replaceBounded.induct)
  case (2 r prev c s)
  show ?case
  proof (cases "re_match r (c # s)")
    case Nil
    with 2 show ?thesis by (simp add: masks_keep)
  next
    case (Cons rest rs)
    let ?m = "take (length (c # s) - length rest) (c # s)"
    let ?out = "replaceBounded r (Some (last ?m)) rest"
    show ?thesis
    proof (cases "length rest \<le> length s")
      case True
      then have rest: "masks redacted rest ?out" using 2(2) [OF Cons] by simp
      have "masks redacted (?m @ rest) (redacted @ ?out)" "masks redacted (?m @ rest) (?m @ ?out)"
        using rest by (rule masks_drop, rule masks_append)
      then have "masks redacted (c # s) (redacted @ ?out)" "masks redacted (c # s) (?m @ ?out)"
        unfolding rest_split [OF Cons] .
      with True Cons show ?thesis by (simp add: Let_def)
    next
      case False
      with 2(3) [OF Cons] Cons show ?thesis by (simp add: masks_keep)
    qed
  qed
qed (simp add: masks_Nil)

text \<open>After \<open>replace_all\<close> of its own expression nothing is left of it.\<close>

lemma replace_all_absent:
  assumes w: "w = b # u @ [b']" and b: "\<not> accepts r b" "\<not> accepts r b'" and u: "absent r u"
    and proper: "\<And>s x. x \<in> set (re_match r s) \<Longrightarrow> length x < length s"
  shows "absent r (replace_all r w s)"
proof (induction "length s" arbitrary: s rule: less_induct)
  case less
  have empty: "re_match r [] = []" using proper [of _ "[]"] by (cases "re_match r []") auto
  show ?case
  proof (cases s)
    case (Cons c s')
    show ?thesis
    proof (cases "re_match r (c # s')")
      case Nil
      have "absent r (replace_all r w s')" using less [of s'] Cons by simp
      moreover have "re_match r (c # replace_all r w s') = []"
        using masks_first [OF replace_all_masks [where w = w and s = s' and r = r]]
      proof (elim disjE exE conjE)
        fix p m s2 q assume o: "replace_all r w s' = p @ w @ q" and s': "s' = p @ m @ s2"
        have "re_match r (c # p) = []" using Nil match_prefix [of r "c # p" "m @ s2"] by (simp add: s')
        then have "re_match r (c # p @ w @ q) = []" using match_barrier [OF b(1), of "c # p" "u @ b' # q"] by (simp add: w)
        then show ?thesis by (simp only: o)
      qed (use Nil in simp)
      ultimately show ?thesis using Cons Nil by simp
    next
      case m: (Cons rest rs)
      then have l: "length rest \<le> length s'" using proper [of rest "c # s'"] by simp
      then have "absent r (replace_all r w rest)" using less [of rest] Cons by simp
      then show ?thesis
        using m l Cons u empty absent_barrier [OF b(1), of "[]" "u @ b' # replace_all r w rest"]
          absent_barrier [OF b(2), of u "replace_all r w rest"]
        by (simp add: w)
    qed
  qed (simp add: empty)
qed

section \<open>Properties\<close>

abbreviation no_email :: "string \<Rightarrow> bool" where "no_email s \<equiv> absent emailRe s"

lemma rep_shorter: "x \<in> set (rep_rests p n m s) \<Longrightarrow> length x + n \<le> length s"
  by (induction p n m s rule: rep_rests.induct) (auto split: if_splits)

lemma email_shorter: "x \<in> set (re_match emailRe s) \<Longrightarrow> length x < length s"
  by (fastforce simp: emailRe_def dest!: rep_shorter)

lemma email_barriers: "\<not> accepts emailRe (CHR ''['')" "\<not> accepts emailRe (CHR '']'')" "\<not> accepts emailRe (CHR ''\"'')"
  by (simp_all add: emailRe_def local_char_def domain_char_def letter_def dec_digit_def)

lemma RedactText_no_email: "no_email (RedactText s)"
proof -
  have w: "redacted = CHR ''['' # ''REDACTED'' @ [CHR '']'']" by simp
  have u: "no_email ''REDACTED''" by code_simp
  note M = masks_absent [OF w email_barriers(1,2) u]
  have "no_email (replace_all emailRe redacted s)"
    by (rule replace_all_absent [OF w email_barriers(1,2) u email_shorter])
  from M [OF replaceBounded_masks M [OF replaceBounded_masks this]] show ?thesis
    unfolding RedactText_def .
qed

lemma RedactRaw_no_email: "no_email (RedactRaw s)"
proof -
  have w: "''\"ip_address\":\"[redacted]\"'' = CHR ''\"'' # ''ip_address\":\"[redacted]'' @ [CHR ''\"'']" by simp
  have u: "no_email ''ip_address\":\"[redacted]''" by code_simp
  from masks_absent [OF w email_barriers(3,3) u replace_all_masks RedactText_no_email] show ?thesis
    unfolding RedactRaw_def .
qed


text \<open>
  The rule for numbers next to digits has a gap: a match that is skipped because of its neighbour still
  consumes its characters, so a number that begins inside it survives.
\<close>

lemma overlapping_phone_survives:
  "RedactText ''123-4567-8901'' = redacted \<and> RedactText ''1555-123-4567-8901'' = ''1555-123-4567-8901''"
  by code_simp

text \<open>
  Masking a user id cuts bytes, not characters: of three Japanese letters the first four bytes end inside
  the second one. Postgres refuses the text, and with it the envelope.
\<close>

lemma RedactUserID_cuts_characters:
  assumes "s = of_bytes [227, 129, 130, 227, 129, 132, 227, 129, 134]"
  shows "rune_error \<notin> set (runes s) \<and> rune_error \<in> set (runes (RedactUserID s))"
proof -
  have b: "bytes s = [227, 129, 130, 227, 129, 132, 227, 129, 134]"
    unfolding assms by (rule bytes_of_bytes) simp
  have t: "bytes (take n x) = take n (bytes x)" "bytes (drop n x) = drop n (bytes x)" for n x
    by (simp_all add: bytes_def take_map drop_map)
  have "length s = 9" using arg_cong [OF b, of length] by simp
  then have r: "bytes (RedactUserID s) = [227, 129, 130, 227, 42, 42, 42, 42, 132, 227, 129, 134]"
    using t(2) [of 5 s] by (auto simp: RedactUserID_def b t(1) bytes_def [of "CHR ''*'' # _"] bytes_def [of "drop 5 s"])
  show ?thesis
    by (simp add: runes_def b r runes_of_bytes_def decode_rune_def decode2_def decode3_def decode4_def cont_byte_def rune_error_def)
qed

end
