(* ===== verification/Ingest.thy ===== *)
theory Ingest
  imports Analyze Envelope SideTables Jobs EventStore Accounts Blobs Pii
begin

text \<open>
  \<open>internal/ingest/ingest.go\<close>: what one parsed envelope does to the tables. The analysis of the events
  (clamping, redaction, symbolication, fingerprint), then one transaction: dropping resends, releases,
  issues, sampling, events, attachments, user report, client reports, check-in, sessions, jobs.
  Symbolicator, random numbers, gzip and the JSON encoders are parameters. The resolver is given the
  position of the event in the envelope, since what it answers depends on its state and time budget;
  the database's \<open>now()\<close> is the request's time; a step that fails undoes the transaction.
\<close>

section \<open>The ingester, its tables and its result\<close>

record 'c ingester =
  in_retention :: duration
  in_redact :: bool
  in_blobs :: bool
  in_json :: pii_json
  in_resolve :: "(nat \<Rightarrow> event \<Rightarrow> frame list \<times> bool \<times> bool) option"
  in_coin :: "id_text \<Rightarrow> rat"
  in_sid :: "nat \<Rightarrow> nat list"
  in_gzip :: "string \<Rightarrow> string"
  in_frames_json :: "frame list \<Rightarrow> string"
  in_quote :: "string \<Rightarrow> string"
  in_cron :: "'c cron_lib"
  in_clock :: time

record ingest_tables =
  ig_events :: event_tables
  ig_sessions :: session_tables
  ig_releases :: "release_row list"
  ig_issues :: issues
  ig_attachments :: "attachment_row list"
  ig_user_reports :: "user_report_row list"
  ig_client_reports :: "report_count list"
  ig_cron :: cron_state
  ig_jobs :: jobs_table

record ingest_result =
  res_received :: nat
  res_stored :: nat
  res_sampled :: nat
  res_duplicates :: nat
  res_mismatched :: nat
  res_invalid :: nat
  res_sessions :: nat
  res_attachments :: nat
  res_user_reports :: nat
  res_client_reports :: nat
  res_monitors :: nat
  res_check_ins :: nat
  res_new_issues :: "id_text list"
  res_regressions :: "id_text list"
  res_jobs :: nat

definition result0 :: ingest_result where
  "result0 = \<lparr>res_received = 0, res_stored = 0, res_sampled = 0, res_duplicates = 0, res_mismatched = 0,
     res_invalid = 0, res_sessions = 0, res_attachments = 0, res_user_reports = 0, res_client_reports = 0,
     res_monitors = 0, res_check_ins = 0, res_new_issues = [], res_regressions = [], res_jobs = 0\<rparr>"

datatype ingest_error =
    EventPanics
  | BadLevel string
  | ReleasesRefused
  | ClientReportsRefused
  | CheckInFailed monitor_error
  | BadSessionStatus string
  | JobsRefused

section \<open>Analysis\<close>

record prepared =
  pp_event :: event
  pp_frames :: "frame list"
  pp_symbolicated :: bool
  pp_retry :: bool
  pp_fingerprint :: id_text
  pp_location :: string

abbreviation pp_id :: "prepared \<Rightarrow> id_text" where "pp_id q \<equiv> ev_id (pp_event q)"
abbreviation pp_time :: "prepared \<Rightarrow> time" where "pp_time q \<equiv> ev_time (pp_event q)"

definition clampPast :: "time \<Rightarrow> time \<Rightarrow> time \<Rightarrow> time" where
  "clampPast t past now = (if t < past then truncate_time now microsecond else t)"

definition clamp_event :: "time \<Rightarrow> time \<Rightarrow> event \<Rightarrow> event" where
  "clamp_event past now ev =
     (let t = clampPast (ev_time ev) past now
      in if t = ev_time ev then ev else ev\<lparr>ev_time := t, ev_clamped := True\<rparr>)"

definition clamp_session :: "time \<Rightarrow> time \<Rightarrow> session \<Rightarrow> session" where
  "clamp_session past now s = s\<lparr>se_started := clampPast (se_started s) past now\<rparr>"

definition prepare_event :: "'c ingester \<Rightarrow> nat \<Rightarrow> event \<Rightarrow> ingest_error + prepared" where
  "prepare_event lib i ev =
     and_then (or_error EventPanics (Frames ev)) (\<lambda>fs.
       let (frames, sym, again) =
         (case in_resolve lib of
            None \<Rightarrow> (fs, False, False)
          | Some resolve \<Rightarrow>
              if NeedsSymbolication ev = Some True
              then (case resolve i ev of (r, ok, retry) \<Rightarrow> if ok then (r, True, False) else (fs, False, retry))
              else (fs, False, False))
       in Inr \<lparr>pp_event = ev, pp_frames = frames, pp_symbolicated = sym, pp_retry = again,
               pp_fingerprint = Fingerprint ev frames, pp_location = Culprit frames\<rparr>)"

text \<open>What is done to an event before its analysis, and whether its platform is another than the project's.\<close>

definition admit :: "'c ingester \<Rightarrow> time \<Rightarrow> event \<Rightarrow> event" where
  "admit lib now ev =
     (let e = clamp_event (now - in_retention lib) now ev in if in_redact lib then redact (in_json lib) e else e)"

definition mismatched :: "project \<Rightarrow> event \<Rightarrow> bool" where
  "mismatched p ev \<longleftrightarrow> \<not> Accepts (deref (pj_platform p)) (Family (ev_platform ev) (ev_sdk_name ev))"

text \<open>
  The loop over the events: \<open>i\<close> is the position, \<open>seen\<close> the ids before it. Prepared events, events
  repeated within the envelope, mismatches.
\<close>

fun prepare_all :: "'c ingester \<Rightarrow> project \<Rightarrow> time \<Rightarrow> nat \<Rightarrow> id_text list \<Rightarrow> event list
    \<Rightarrow> ingest_error + prepared list \<times> nat \<times> nat" where
  "prepare_all lib p now i seen [] = Inr ([], 0, 0)"
| "prepare_all lib p now i seen (e # es) =
     (if ev_id e \<in> set seen
      then and_then (prepare_all lib p now (Suc i) seen es) (\<lambda>(qs, d, m). Inr (qs, Suc d, m))
      else and_then (prepare_event lib i (admit lib now e)) (\<lambda>q.
             and_then (prepare_all lib p now (Suc i) (ev_id e # seen) es) (\<lambda>(qs, d, m).
               Inr (q # qs, d, if mismatched p (admit lib now e) then Suc m else m))))"

section \<open>Resends\<close>

definition earliest :: "prepared list \<Rightarrow> time" where
  "earliest qs = (case qs of [] \<Rightarrow> 0 | q # _ \<Rightarrow> fold (\<lambda>q t. min (pp_time q) t) qs (pp_time q))"

definition latest :: "prepared list \<Rightarrow> time" where
  "latest qs = (case qs of [] \<Rightarrow> 0 | q # _ \<Rightarrow> fold (\<lambda>q t. max (pp_time q) t) qs (pp_time q))"

definition existing_ids :: "event_row list \<Rightarrow> project_id \<Rightarrow> prepared list \<Rightarrow> id_text list" where
  "existing_ids rows pid qs =
     (if qs = [] then []
      else ExistingEventIDs rows pid (map pp_id qs) (earliest qs) (latest qs + microsecond)
           @ (let clamped = map pp_id (filter (\<lambda>q. ev_clamped (pp_event q)) qs)
              in if clamped = [] then [] else ExistingEventIDsAnyTime rows pid clamped))"

definition drop_resends :: "event_row list \<Rightarrow> project_id \<Rightarrow> prepared list \<Rightarrow> prepared list" where
  "drop_resends rows pid qs = filter (\<lambda>q. pp_id q \<notin> set (existing_ids rows pid qs)) qs"

section \<open>Releases\<close>

text \<open>The closure \<open>note\<close>: the map of releases seen, each with the first platform named and the earliest time.\<close>

type_synonym seen_releases = "(string \<times> string \<times> time) list"

definition note_release :: "string \<Rightarrow> string \<Rightarrow> time \<Rightarrow> seen_releases \<Rightarrow> seen_releases" where
  "note_release release platform t rels =
     (if release = [] then rels
      else if map_of rels release = None then rels @ [(release, platform, t)]
      else map (\<lambda>(r, pf, seen). if r = release then (r, if pf = [] then platform else pf, min seen t) else (r, pf, seen)) rels)"

definition mentioned_releases :: "prepared list \<Rightarrow> session list \<Rightarrow> seen_releases" where
  "mentioned_releases qs ss =
     sort_key fst (fold (\<lambda>s. note_release (se_release s) [] (se_started s)) ss
       (fold (\<lambda>q. note_release (ev_release (pp_event q)) (ev_platform (pp_event q)) (pp_time q)) qs []))"

section \<open>Issues\<close>

text \<open>\<open>sampleStore\<close>, with the draw of the event as an argument.\<close>

definition UnhandledKeepFactor :: rat where "UnhandledKeepFactor = 5"

definition sampleStore :: "rat \<Rightarrow> rat \<Rightarrow> bool \<Rightarrow> bool" where
  "sampleStore draw rate unhandled =
     (let r = (if unhandled then min 1 (rate * UnhandledKeepFactor) else rate) in 1 \<le> r \<or> draw < r)"

definition keeps :: "'c ingester \<Rightarrow> project \<Rightarrow> prepared \<Rightarrow> bool" where
  "keeps lib p q = sampleStore (in_coin lib (pp_id q)) (pj_sample_rate p) (IsUnhandled (pp_event q))"

record group_stat =
  gs_min :: time
  gs_max :: time
  gs_release :: "string option"
  gs_level :: string
  gs_releases :: "string list"
  gs_stored :: nat

definition group_step :: "'c ingester \<Rightarrow> project \<Rightarrow> prepared \<Rightarrow> group_stat \<Rightarrow> group_stat" where
  "group_step lib p q g =
     (let e = pp_event q; t = ev_time e; newest = (gs_max g \<le> t)
      in \<lparr>gs_min = (if gs_min g = zero_time \<or> t < gs_min g then t else gs_min g),
          gs_max = (if newest then t else gs_max g),
          gs_release = (if newest then nilIfEmpty (ev_release e) else gs_release g),
          gs_level = (if newest then ev_level e else gs_level g),
          gs_releases = (if ev_release e \<in> set (gs_releases g) then gs_releases g else gs_releases g @ [ev_release e]),
          gs_stored = (if keeps lib p q then Suc (gs_stored g) else gs_stored g)\<rparr>)"

definition group_stat_of :: "'c ingester \<Rightarrow> project \<Rightarrow> prepared list \<Rightarrow> group_stat" where
  "group_stat_of lib p qs =
     fold (group_step lib p) qs
       \<lparr>gs_min = zero_time, gs_max = zero_time, gs_release = None,
        gs_level = (case qs of [] \<Rightarrow> [] | q # _ \<Rightarrow> ev_level (pp_event q)), gs_releases = [], gs_stored = 0\<rparr>"

definition group_of :: "prepared list \<Rightarrow> id_text \<Rightarrow> prepared list" where
  "group_of qs fp = filter (\<lambda>q. pp_fingerprint q = fp) qs"

text \<open>The fingerprints in the order their rows are locked.\<close>

definition group_order :: "prepared list \<Rightarrow> id_text list" where
  "group_order qs = sort (remdups (filter (\<lambda>fp. fp \<noteq> []) (map pp_fingerprint qs)))"

definition issue_params :: "'c ingester \<Rightarrow> project \<Rightarrow> id_text \<Rightarrow> prepared list \<Rightarrow> ingest_error + upsert_issue_params" where
  "issue_params lib p fp qs =
     (let g = group_stat_of lib p qs; first = pp_event (hd qs)
      in and_then (or_error (BadLevel (gs_level g)) (event_level_of_text (gs_level g))) (\<lambda>level. Inr
           \<lparr>ui_project = pj_id p, ui_fingerprint = fp, ui_title = IssueTitle first, ui_level = level,
            ui_error_type = nilIfEmpty (ev_error_type first), ui_transaction = nilIfEmpty (ev_transaction first),
            ui_platform = nilIfEmpty (ev_platform first), ui_event_count = int (length qs),
            ui_stored_count = int (gs_stored g), ui_first_seen = gs_min g, ui_last_seen = gs_max g,
            ui_first_release = gs_release g, ui_releases = Some (gs_releases g), ui_regress = True\<rparr>))"

section \<open>Jobs\<close>

text \<open>\<open>json.Marshal\<close> of the maps: keys in order; only a monitor's slug can need escaping (\<open>in_quote\<close>).\<close>

definition alertJob :: "'c ingester \<Rightarrow> project_id \<Rightarrow> AlertType \<Rightarrow> id_text \<Rightarrow> enqueue_params" where
  "alertJob lib pid t fp =
     \<lparr>eq_kind = JobKindAlert, eq_project = pid,
      eq_args = ''{\"fingerprint\":\"'' @ fp @ ''\",\"type\":\"'' @ alert_type_text t @ ''\"}'', eq_run_after = in_clock lib\<rparr>"

definition monitorAlertJob :: "'c ingester \<Rightarrow> monitor_alert \<Rightarrow> enqueue_params" where
  "monitorAlertJob lib a =
     (case a of (t, pid, slug) \<Rightarrow>
        \<lparr>eq_kind = JobKindAlert, eq_project = pid,
         eq_args = ''{\"monitor\":'' @ in_quote lib slug @ '',\"type\":\"'' @ alert_type_text t @ ''\"}'',
         eq_run_after = in_clock lib\<rparr>)"

text \<open>\<open>Format("2006-01-02T15:04:05.000000Z")\<close>, for the years 0 to 9999.\<close>

definition JobTime :: "time \<Rightarrow> string" where
  "JobTime t =
     (case civil (t div day) of (y, m, d) \<Rightarrow>
        let r = t mod day
        in zero_pad 4 y @ ''-'' @ zero_pad 2 m @ ''-'' @ zero_pad 2 d @ ''T''
           @ zero_pad 2 (r div hour) @ '':'' @ zero_pad 2 (r div minute mod 60) @ '':'' @ zero_pad 2 (r div second mod 60)
           @ ''.'' @ zero_pad 6 (r div microsecond mod 1000000) @ ''Z'')"

definition symbolicateJob :: "time \<Rightarrow> project_id \<Rightarrow> prepared \<Rightarrow> enqueue_params" where
  "symbolicateJob now pid q =
     \<lparr>eq_kind = JobKindSymbolicate, eq_project = pid,
      eq_args = ''{\"at\":\"'' @ JobTime (pp_time q) @ ''\",\"event\":\"'' @ pp_id q @ ''\"}'', eq_run_after = now\<rparr>"

definition job_order :: "enqueue_params list \<Rightarrow> enqueue_params list" where
  "job_order js = sort_key (\<lambda>j. job_kind_text (eq_kind j)) (sort_key eq_args js)"

section \<open>Rows\<close>

definition event_row_of :: "'c ingester \<Rightarrow> project_id \<Rightarrow> prepared \<Rightarrow> ingest_error + event_row" where
  "event_row_of lib pid q =
     (let e = pp_event q
      in and_then (or_error (BadLevel (ev_level e)) (event_level_of_text (ev_level e))) (\<lambda>level. Inr
           \<lparr>er_occurred_at = ev_time e, er_project = pid, er_event_id = ev_id e, er_level = level,
            er_message = ev_message e, er_platform = nilIfEmpty (ev_platform e),
            er_environment = nilIfEmpty (ev_environment e), er_release = nilIfEmpty (ev_release e),
            er_device_id = nilIfEmpty (DeviceID e), er_device_model = nilIfEmpty (ev_device_model e),
            er_os_version = nilIfEmpty (ev_os_version e), er_transaction = nilIfEmpty (ev_transaction e),
            er_error_type = nilIfEmpty (ev_error_type e), er_culprit = nilIfEmpty (pp_location q),
            er_handled = ev_handled e, er_sdk_name = nilIfEmpty (ev_sdk_name e),
            er_user_id = nilIfEmpty (ev_user_id e), er_fingerprint = Ptr (pp_fingerprint q),
            er_symbolicated = pp_symbolicated q, er_tags = ev_tags e,
            er_symbols = (if pp_symbolicated q then Some (in_frames_json lib (pp_frames q)) else None),
            er_payload = Some (in_gzip lib (ev_raw e))\<rparr>))"

definition sessionID :: "'c ingester \<Rightarrow> nat \<Rightarrow> session \<Rightarrow> string" where
  "sessionID lib i s = (if se_sid s \<noteq> [] then se_sid s else ''agg-'' @ hex_encode (in_sid lib i))"

definition session_row_of :: "'c ingester \<Rightarrow> project_id \<Rightarrow> nat \<times> session \<Rightarrow> ingest_error + session_row" where
  "session_row_of lib pid x =
     (case x of (i, s) \<Rightarrow>
        and_then (or_error (BadSessionStatus (se_status s)) (session_status_of_text (se_status s))) (\<lambda>st. Inr
          \<lparr>ss_started_at = se_started s, ss_project = pid, ss_sid = sessionID lib i s, ss_release = se_release s,
           ss_environment = nilIfEmpty (se_environment s), ss_status = st, ss_count = wrap32 (max (se_count s) 1)\<rparr>))"

definition attachment_target :: "envelope \<Rightarrow> event_row list \<Rightarrow> event_row option" where
  "attachment_target env rows =
     find (\<lambda>r. er_event_id r = en_event_id env \<or> en_event_id env = [] \<and> length rows = 1) rows"

definition attachment_rows :: "event_row \<Rightarrow> attachment list \<Rightarrow> attachment_row list" where
  "attachment_rows r atts =
     map (\<lambda>(i, a). attachment_row_of (er_occurred_at r) (er_project r) (er_event_id r) (wrap32 (int i))
            (at_filename a) (at_content_type a) (at_type a) (at_data a)) (enumerate 0 atts)"

section \<open>The transaction\<close>

record ingest_tx =
  tx_db :: ingest_tables
  tx_res :: ingest_result
  tx_jobs :: "enqueue_params list"

definition release_step :: "project_id \<Rightarrow> prepared list \<Rightarrow> session list \<Rightarrow> ingest_tx \<Rightarrow> ingest_error + ingest_tx" where
  "release_step pid qs ss tx =
     (let us = mentioned_releases qs ss; db = tx_db tx
      in if us = [] then Inr tx
         else and_then (or_error ReleasesRefused (UpsertReleases pid us (ig_releases db)))
                (\<lambda>t. Inr (tx\<lparr>tx_db := db\<lparr>ig_releases := t\<rparr>\<rparr>)))"

text \<open>One group: its issue is upserted; a new or regressed one is listed and gets an alert job.\<close>

definition issue_step :: "'c ingester \<Rightarrow> project \<Rightarrow> time \<Rightarrow> prepared list \<Rightarrow> id_text \<Rightarrow> ingest_tx
    \<Rightarrow> ingest_error + ingest_tx" where
  "issue_step lib p now qs fp tx =
     and_then (issue_params lib p fp (group_of qs fp)) (\<lambda>ui.
       let db = tx_db tx; res = tx_res tx;
           (row, t) = UpsertIssue now ui (ig_issues db);
           db' = db\<lparr>ig_issues := t\<rparr>
       in Inr (if ur_created row
               then \<lparr>tx_db = db', tx_res = res\<lparr>res_new_issues := res_new_issues res @ [fp]\<rparr>,
                     tx_jobs = tx_jobs tx @ [alertJob lib (pj_id p) AlertTypeNewIssue fp]\<rparr>
               else if ur_regressed row
               then \<lparr>tx_db = db', tx_res = res\<lparr>res_regressions := res_regressions res @ [fp]\<rparr>,
                     tx_jobs = tx_jobs tx @ [alertJob lib (pj_id p) AlertTypeRegression fp]\<rparr>
               else \<lparr>tx_db = db', tx_res = res, tx_jobs = tx_jobs tx\<rparr>))"

definition event_step :: "'c ingester \<Rightarrow> project \<Rightarrow> time \<Rightarrow> prepared list \<Rightarrow> ingest_tx
    \<Rightarrow> ingest_error + event_row list \<times> ingest_tx" where
  "event_step lib p now qs tx =
     (let kept = filter (keeps lib p) qs
      in and_then (collect (event_row_of lib (pj_id p)) kept) (\<lambda>rows. Inr (rows,
           \<lparr>tx_db = (tx_db tx)\<lparr>ig_events := InsertEvents (in_blobs lib) rows (ig_events (tx_db tx))\<rparr>,
            tx_res = (tx_res tx)\<lparr>res_stored := length rows, res_sampled := length (filter (\<lambda>q. \<not> keeps lib p q) qs)\<rparr>,
            tx_jobs = tx_jobs tx @ map (symbolicateJob now (pj_id p))
                        (filter (\<lambda>q. pp_retry q \<and> pp_fingerprint q \<noteq> []) kept)\<rparr>)))"

definition attachment_step :: "envelope \<Rightarrow> event_row list \<Rightarrow> ingest_tx \<Rightarrow> ingest_tx" where
  "attachment_step env rows tx =
     (case (if en_attachments env = [] then None else attachment_target env rows) of
        None \<Rightarrow> tx
      | Some r \<Rightarrow>
          (let db = tx_db tx; ars = attachment_rows r (en_attachments env)
           in tx\<lparr>tx_db := db\<lparr>ig_attachments := InsertAttachments ars (ig_attachments db)\<rparr>,
                 tx_res := (tx_res tx)\<lparr>res_attachments := length ars\<rparr>\<rparr>))"

definition user_report_step :: "'c ingester \<Rightarrow> project_id \<Rightarrow> time \<Rightarrow> user_report option \<Rightarrow> ingest_tx \<Rightarrow> ingest_tx" where
  "user_report_step lib pid now report tx =
     (case report of
        None \<Rightarrow> tx
      | Some r \<Rightarrow>
          (let db = tx_db tx;
               mask = (\<lambda>s. if in_redact lib then [] else s);
               comments = (if in_redact lib then RedactText (ur_comments r) else ur_comments r)
           in tx\<lparr>tx_db := db\<lparr>ig_user_reports := UpsertUserReport now pid (ur_event_id r) (nilIfEmpty (mask (ur_name r)))
                    (nilIfEmpty (mask (ur_email r))) comments (ig_user_reports db)\<rparr>,
                 tx_res := (tx_res tx)\<lparr>res_user_reports := 1\<rparr>\<rparr>))"

definition client_report_step :: "project_id \<Rightarrow> time \<Rightarrow> client_report_count list \<Rightarrow> ingest_tx \<Rightarrow> ingest_error + ingest_tx" where
  "client_report_step pid now cs tx =
     (if cs = [] then Inr tx
      else let db = tx_db tx
           in and_then (or_error ClientReportsRefused
                (UpsertClientReportCounts pid (truncate_time now hour)
                   (map (\<lambda>c. (cr_reason c, cr_category c, cr_quantity c)) cs) (ig_client_reports db)))
                (\<lambda>t. Inr (tx\<lparr>tx_db := db\<lparr>ig_client_reports := t\<rparr>,
                             tx_res := (tx_res tx)\<lparr>res_client_reports := length cs\<rparr>\<rparr>)))"

definition check_in_step :: "'c ingester \<Rightarrow> project_id \<Rightarrow> time \<Rightarrow> check_in option \<Rightarrow> ingest_tx \<Rightarrow> ingest_error + ingest_tx" where
  "check_in_step lib pid now ci tx =
     (case ci of
        None \<Rightarrow> Inr tx
      | Some c \<Rightarrow>
          (let db = tx_db tx
           in case ingest_check_in (in_cron lib) now pid c (ig_cron db) of
                Inl e \<Rightarrow> Inl (CheckInFailed e)
              | Inr (cron, alerts, mons, runs) \<Rightarrow>
                  Inr (tx\<lparr>tx_db := db\<lparr>ig_cron := cron\<rparr>,
                          tx_res := (tx_res tx)\<lparr>res_monitors := mons, res_check_ins := runs\<rparr>,
                          tx_jobs := tx_jobs tx @ map (monitorAlertJob lib) alerts\<rparr>)))"

definition session_step :: "'c ingester \<Rightarrow> project_id \<Rightarrow> session list \<Rightarrow> ingest_tx \<Rightarrow> ingest_error + ingest_tx" where
  "session_step lib pid ss tx =
     and_then (collect (session_row_of lib pid) (enumerate 0 ss)) (\<lambda>rows.
       let db = tx_db tx
       in Inr (tx\<lparr>tx_db := db\<lparr>ig_sessions := InsertSessions rows (ig_sessions db)\<rparr>,
                  tx_res := (tx_res tx)\<lparr>res_sessions := length rows\<rparr>\<rparr>))"

definition job_step :: "time \<Rightarrow> ingest_tx \<Rightarrow> ingest_error + ingest_tx" where
  "job_step now tx =
     (let db = tx_db tx; js = job_order (tx_jobs tx)
      in and_then (if js = [] then Inr (ig_jobs db) else or_error JobsRefused (EnqueueJobs now js (ig_jobs db))) (\<lambda>q.
           Inr (tx\<lparr>tx_db := db\<lparr>ig_jobs := q\<rparr>, tx_res := (tx_res tx)\<lparr>res_jobs := length js\<rparr>\<rparr>)))"

definition ingest_writes :: "'c ingester \<Rightarrow> project \<Rightarrow> time \<Rightarrow> envelope \<Rightarrow> prepared list \<Rightarrow> ingest_tx
    \<Rightarrow> ingest_error + ingest_tx" where
  "ingest_writes lib p now env qs tx =
     (let pid = pj_id p; ss = map (clamp_session (now - in_retention lib) now) (en_sessions env)
      in and_then (release_step pid qs ss tx) (\<lambda>tx1.
         and_then (fold_result (issue_step lib p now qs) (group_order qs) tx1) (\<lambda>tx2.
         and_then (event_step lib p now qs tx2) (\<lambda>(rows, tx3).
         and_then (client_report_step pid now (en_client_reports env)
                    (user_report_step lib pid now (en_user_report env) (attachment_step env rows tx3))) (\<lambda>tx4.
         and_then (check_in_step lib pid now (en_check_in env) tx4) (\<lambda>tx5.
         and_then (session_step lib pid ss tx5) (job_step now)))))))"

text \<open>
  \<open>Ingest\<close>: the error, the result and the tables after it. With an error the result only says what
  arrived, and the tables are as before.
\<close>

definition empty_envelope :: "envelope \<Rightarrow> bool" where
  "empty_envelope env \<longleftrightarrow> en_events env = [] \<and> en_sessions env = [] \<and> en_user_report env = None
     \<and> en_client_reports env = [] \<and> en_check_in env = None"

definition Ingest :: "'c ingester \<Rightarrow> project \<Rightarrow> envelope \<Rightarrow> time \<Rightarrow> ingest_tables
    \<Rightarrow> ingest_error option \<times> ingest_result \<times> ingest_tables" where
  "Ingest lib p env now db =
     (let arrived = result0\<lparr>res_received := length (en_events env)\<rparr>;
          arrived' = arrived\<lparr>res_invalid := en_invalid env\<rparr>
      in if empty_envelope env then (None, arrived, db)
         else case and_then (prepare_all lib p now 0 [] (en_events env)) (\<lambda>(prepared, repeated, wrong).
                let qs = drop_resends (et_events (ig_events db)) (pj_id p) prepared
                in ingest_writes lib p now env qs
                     \<lparr>tx_db = db,
                      tx_res = arrived'\<lparr>res_duplicates := repeated + (length prepared - length qs), res_mismatched := wrong\<rparr>,
                      tx_jobs = []\<rparr>) of
                Inl e \<Rightarrow> (Some e, arrived', db)
              | Inr tx \<Rightarrow> (None, tx_res tx, tx_db tx))"

end
