(* ===== verification/IngestRuns.thy ===== *)
theory IngestRuns
  imports Ingest
begin

text \<open>
  What \<open>Ingest\<close> guarantees: every event is accounted for, issues and events count the same, a resent
  envelope changes nothing, and what can make the transaction fail.
\<close>

section \<open>The prepared events\<close>

lemma admit_id [simp]: "ev_id (admit lib now e) = ev_id e"
  by (simp add: admit_def redact_def clamp_event_def Let_def)

lemma prepare_event_fields: "prepare_event lib i e = Inr q \<Longrightarrow> pp_event q = e"
  by (auto simp: prepare_event_def result_iff Let_def split_beta)

lemma prepare_all_Cons:
  assumes "prepare_all lib p now i seen (e # es) = Inr (qs, d, m)"
  obtains (repeated) d' where "ev_id e \<in> set seen" "d = Suc d'" "prepare_all lib p now (Suc i) seen es = Inr (qs, d', m)"
  | (fresh) q rs m' where "ev_id e \<notin> set seen" "qs = q # rs" "pp_event q = admit lib now e"
      "prepare_all lib p now (Suc i) (ev_id e # seen) es = Inr (rs, d, m')"
  using assms by (cases "ev_id e \<in> set seen") (auto simp: result_iff dest: prepare_event_fields)

lemma prepare_all_events:
  assumes "prepare_all lib p now i seen es = Inr (qs, d, m)"
  shows "set (map pp_id qs) = set (map ev_id es) - set seen \<and> distinct (map pp_id qs)
    \<and> length es = length qs + d \<and> set (map pp_event qs) \<subseteq> admit lib now ` set es"
  using assms
proof (induction es arbitrary: i seen qs d m)
  case (Cons e es)
  from Cons.prems show ?case
  proof (cases rule: prepare_all_Cons)
    case (repeated d')
    from Cons.IH [OF repeated(3)] repeated(1,2) show ?thesis by auto
  next
    case (fresh q rs m')
    from Cons.IH [OF fresh(4)] fresh(1-3) show ?thesis by auto
  qed
qed simp

lemmas prepare_all_ids = prepare_all_events [THEN conjunct1]
  and prepare_all_distinct = prepare_all_events [THEN conjunct2, THEN conjunct1]
  and prepare_all_length = prepare_all_events [THEN conjunct2, THEN conjunct2, THEN conjunct1]
  and prepare_all_subset = prepare_all_events [THEN conjunct2, THEN conjunct2, THEN conjunct2]

lemma fold_min_le: "fold (\<lambda>q t. min (f q) t) qs (a :: int) \<le> a \<and> (\<forall>q \<in> set qs. fold (\<lambda>q t. min (f q) t) qs a \<le> f q)"
proof (induction qs arbitrary: a)
  case (Cons q qs)
  have "fold (\<lambda>q t. min (f q) t) qs (min (f q) a) \<le> min (f q) a" using Cons by blast
  with Cons [of "min (f q) a"] show ?case by auto
qed simp

lemma fold_max_ge: "(a :: int) \<le> fold (\<lambda>q t. max (f q) t) qs a \<and> (\<forall>q \<in> set qs. f q \<le> fold (\<lambda>q t. max (f q) t) qs a)"
proof (induction qs arbitrary: a)
  case (Cons q qs)
  have "max (f q) a \<le> fold (\<lambda>q t. max (f q) t) qs (max (f q) a)" using Cons by blast
  with Cons [of "max (f q) a"] show ?case by auto
qed simp

lemma earliest_le: "q \<in> set qs \<Longrightarrow> earliest qs \<le> pp_time q"
  using fold_min_le [of pp_time qs "pp_time (hd qs)"] by (cases qs) (auto simp: earliest_def)

lemma latest_ge: "q \<in> set qs \<Longrightarrow> pp_time q \<le> latest qs"
  using fold_max_ge [of "pp_time (hd qs)" pp_time qs] by (cases qs) (auto simp: latest_def)

text \<open>What the dedupe finds: a row of the id at the event's time, and any row of it when the time was clamped.\<close>

lemma existing_found:
  assumes "q \<in> set qs" and "r \<in> set rows" and "er_project r = pid" and "er_event_id r = pp_id q"
    and "er_occurred_at r = pp_time q \<or> ev_clamped (pp_event q)"
  shows "pp_id q \<in> set (existing_ids rows pid qs)"
proof -
  have "qs \<noteq> []" using assms(1) by auto
  from assms(5) show ?thesis
  proof
    assume "er_occurred_at r = pp_time q"
    with assms(1-4) earliest_le [OF assms(1)] latest_ge [OF assms(1)]
    have "pp_id q \<in> set (ExistingEventIDs rows pid (map pp_id qs) (earliest qs) (latest qs + microsecond))"
      by (force simp: ExistingEventIDs_def)
    with \<open>qs \<noteq> []\<close> show ?thesis by (simp add: existing_ids_def)
  next
    assume c: "ev_clamped (pp_event q)"
    with assms(1-4) have "pp_id q \<in> set (ExistingEventIDsAnyTime rows pid (map pp_id (filter (\<lambda>q. ev_clamped (pp_event q)) qs)))"
      by (force simp: ExistingEventIDsAnyTime_def)
    moreover have "map pp_id (filter (\<lambda>q. ev_clamped (pp_event q)) qs) \<noteq> []"
      using c assms(1) by (auto simp: filter_empty_conv)
    ultimately show ?thesis using \<open>qs \<noteq> []\<close> by (simp add: existing_ids_def Let_def)
  qed
qed

lemma new_events_fresh:
  assumes "q \<in> set (drop_resends rows pid qs)"
  shows "(pid, pp_id q, pp_time q) \<notin> event_key_of ` set rows"
proof
  assume "(pid, pp_id q, pp_time q) \<in> event_key_of ` set rows"
  then obtain r where "r \<in> set rows" "er_project r = pid" "er_event_id r = pp_id q" "er_occurred_at r = pp_time q" by auto
  with assms existing_found [of q qs r rows pid] show False by (auto simp: drop_resends_def)
qed

section \<open>The steps\<close>

lemma issue_step_success:
  assumes "issue_step lib p now qs fp tx = Inr tx'"
  shows "\<exists>ui new reg js. issue_params lib p fp (group_of qs fp) = Inr ui
    \<and> tx_db tx' = (tx_db tx)\<lparr>ig_issues := upsert_issue_table now ui (ig_issues (tx_db tx))\<rparr>
    \<and> tx_res tx' = (tx_res tx)\<lparr>res_new_issues := new, res_regressions := reg\<rparr>
    \<and> tx_jobs tx' = tx_jobs tx @ js
    \<and> (js = [] \<or> (\<exists>t. js = [alertJob lib (pj_id p) t fp]))"
proof -
  obtain ui where ui: "issue_params lib p fp (group_of qs fp) = Inr ui"
    using assms by (auto simp: issue_step_def result_iff)
  obtain row t where u: "UpsertIssue now ui (ig_issues (tx_db tx)) = (row, t)" by (cases "UpsertIssue now ui (ig_issues (tx_db tx))")
  then have t: "t = upsert_issue_table now ui (ig_issues (tx_db tx))" by (simp add: UpsertIssue_def Let_def)
  have res: "tx_res tx = (tx_res tx)\<lparr>res_new_issues := res_new_issues (tx_res tx), res_regressions := res_regressions (tx_res tx)\<rparr>" by simp
  show ?thesis
  proof (cases "ur_created row")
    case True
    with assms ui u t show ?thesis
      by (intro exI [of _ ui] exI [of _ "res_new_issues (tx_res tx) @ [fp]"] exI [of _ "res_regressions (tx_res tx)"]
          exI [of _ "[alertJob lib (pj_id p) AlertTypeNewIssue fp]"]) (auto simp: issue_step_def Let_def)
  next
    case False
    show ?thesis
    proof (cases "ur_regressed row")
      case True
      with False assms ui u t show ?thesis
        by (intro exI [of _ ui] exI [of _ "res_new_issues (tx_res tx)"] exI [of _ "res_regressions (tx_res tx) @ [fp]"]
            exI [of _ "[alertJob lib (pj_id p) AlertTypeRegression fp]"]) (auto simp: issue_step_def Let_def)
    next
      case no: False
      with False assms ui u t show ?thesis
        by (intro exI [of _ ui] exI [of _ "res_new_issues (tx_res tx)"] exI [of _ "res_regressions (tx_res tx)"]
            exI [of _ "[]"]) (auto simp: issue_step_def Let_def)
    qed
  qed
qed

lemma issue_steps:
  assumes "fold_result (issue_step lib p now qs) fps tx = Inr tx'"
  shows "\<exists>uis. map (\<lambda>fp. issue_params lib p fp (group_of qs fp)) fps = map Inr uis
    \<and> ig_issues (tx_db tx') = fold (upsert_issue_table now) uis (ig_issues (tx_db tx))"
  using assms
proof (induction fps arbitrary: tx)
  case (Cons fp fps)
  then obtain tx1 where s: "issue_step lib p now qs fp tx = Inr tx1" "fold_result (issue_step lib p now qs) fps tx1 = Inr tx'"
    by (auto simp: result_iff)
  from Cons.IH [OF s(2)] obtain uis where u: "map (\<lambda>fp. issue_params lib p fp (group_of qs fp)) fps = map Inr uis"
    "ig_issues (tx_db tx') = fold (upsert_issue_table now) uis (ig_issues (tx_db tx1))" by blast
  from issue_step_success [OF s(1)] obtain ui where "issue_params lib p fp (group_of qs fp) = Inr ui"
    "tx_db tx1 = (tx_db tx)\<lparr>ig_issues := upsert_issue_table now ui (ig_issues (tx_db tx))\<rparr>" by blast
  with u show ?case by (intro exI [of _ "ui # uis"]) simp
qed simp

lemma fold_step_fields:
  assumes "fold_result (issue_step lib p now qs) fps tx = Inr tx'"
  shows "ig_events (tx_db tx') = ig_events (tx_db tx) \<and> ig_attachments (tx_db tx') = ig_attachments (tx_db tx)
    \<and> res_received (tx_res tx') = res_received (tx_res tx) \<and> res_duplicates (tx_res tx') = res_duplicates (tx_res tx)"
proof (rule fold_result_invariant [OF assms])
  fix fp s t
  assume same: "ig_events (tx_db s) = ig_events (tx_db tx) \<and> ig_attachments (tx_db s) = ig_attachments (tx_db tx)
    \<and> res_received (tx_res s) = res_received (tx_res tx) \<and> res_duplicates (tx_res s) = res_duplicates (tx_res tx)"
    and "issue_step lib p now qs fp s = Inr t"
  from issue_step_success [OF this(2)] obtain ui new reg where
    "tx_db t = (tx_db s)\<lparr>ig_issues := upsert_issue_table now ui (ig_issues (tx_db s))\<rparr>"
    "tx_res t = (tx_res s)\<lparr>res_new_issues := new, res_regressions := reg\<rparr>" by blast
  with same show "ig_events (tx_db t) = ig_events (tx_db tx) \<and> ig_attachments (tx_db t) = ig_attachments (tx_db tx)
    \<and> res_received (tx_res t) = res_received (tx_res tx) \<and> res_duplicates (tx_res t) = res_duplicates (tx_res tx)" by simp
qed simp

lemma stat_stored: "gs_stored (fold (group_step lib p) qs g) = gs_stored g + length (filter (keeps lib p) qs)"
  by (induction qs arbitrary: g) (auto simp: group_step_def Let_def)

lemma issue_params_fields:
  assumes "issue_params lib p fp qs = Inr ui"
  shows "param_key ui = (pj_id p, fp) \<and> ui_event_count ui = int (length qs)
    \<and> ui_stored_count ui = int (length (filter (keeps lib p) qs))"
  using assms by (auto simp: issue_params_def result_iff Let_def param_key_def group_stat_of_def stat_stored)

text \<open>The counts of an issue after the groups: what the members of its group add.\<close>

lemma counts_after_groups:
  assumes "map (\<lambda>fp. issue_params lib p fp (group_of qs fp)) fps = map Inr uis" and "distinct fps"
  shows "count_at (fold (upsert_issue_table now) uis t) (pid, fp) =
    (if pid = pj_id p \<and> fp \<in> set fps
     then (fst (count_at t (pid, fp)) + int (length (group_of qs fp)),
           snd (count_at t (pid, fp)) + int (length (filter (keeps lib p) (group_of qs fp))))
     else count_at t (pid, fp))"
  using assms
proof (induction fps arbitrary: uis t)
  case (Cons a fps)
  then obtain ui rest where u: "uis = ui # rest" "issue_params lib p a (group_of qs a) = Inr ui"
    "map (\<lambda>fp. issue_params lib p fp (group_of qs fp)) fps = map Inr rest" by (auto simp: map_eq_Cons_conv Cons_eq_map_conv)
  note f = issue_params_fields [OF u(2)]
  show ?case
    using Cons.IH [OF u(3)] Cons.prems(2) f by (auto simp: u(1) upsert_at)
qed simp

lemma set_group_order: "set (group_order qs) = {fp. fp \<noteq> [] \<and> group_of qs fp \<noteq> []}"
  by (auto simp: group_order_def group_of_def filter_empty_conv)

lemma group_order_distinct: "distinct (group_order qs)"
  by (simp add: group_order_def)

section \<open>The rows\<close>

lemma event_row_fields:
  assumes "event_row_of lib pid q = Inr r"
  shows "er_project r = pid \<and> er_event_id r = pp_id q \<and> er_occurred_at r = pp_time q
    \<and> er_fingerprint r = Ptr (pp_fingerprint q)"
  using assms by (auto simp: event_row_of_def result_iff Let_def)

definition stored_row :: "bool \<Rightarrow> event_row \<Rightarrow> event_row" where
  "stored_row blobs r = (if blobs then r\<lparr>er_payload := None\<rparr> else r)"

lemma insert_fresh_rows:
  assumes "distinct (map event_key_of rows)" and "set (map event_key_of rows) \<inter> event_key_of ` set (et_events db) = {}"
  shows "et_events (fold (insert_event_row blobs) rows db) = et_events db @ map (stored_row blobs) rows"
  using assms
proof (induction rows arbitrary: db)
  case (Cons r rows)
  let ?db = "insert_event_row blobs r db"
  have e: "et_events ?db = et_events db @ [stored_row blobs r]"
    using Cons.prems(2) by (simp add: insert_event_row_def stored_row_def split: option.split)
  have "event_key_of (stored_row blobs r) = event_key_of r" by (simp add: stored_row_def)
  then have "event_key_of ` set (et_events ?db) = insert (event_key_of r) (event_key_of ` set (et_events db))"
    unfolding e by (simp add: image_Un)
  with Cons.prems have "et_events (fold (insert_event_row blobs) rows ?db) = et_events ?db @ map (stored_row blobs) rows"
    by (intro Cons.IH) auto
  then show ?case by (simp add: e)
qed simp

lemma InsertEvents_fresh:
  assumes "distinct (map event_key_of rows)" and "set (map event_key_of rows) \<inter> event_key_of ` set (et_events db) = {}"
  shows "et_events (InsertEvents blobs rows db) = et_events db @ map (stored_row blobs) rows"
  using insert_fresh_rows [OF assms] by (simp add: InsertEvents_def Let_def)

section \<open>The whole transaction\<close>

lemmas step_defs = release_step_def event_step_def attachment_step_def user_report_step_def client_report_step_def
  check_in_step_def session_step_def job_step_def

text \<open>What the steps around the issues and events do not touch.\<close>

definition same_core :: "ingest_tx \<Rightarrow> ingest_tx \<Rightarrow> bool" where
  "same_core tx tx' \<longleftrightarrow> ig_issues (tx_db tx') = ig_issues (tx_db tx) \<and> ig_events (tx_db tx') = ig_events (tx_db tx)
     \<and> res_received (tx_res tx') = res_received (tx_res tx) \<and> res_duplicates (tx_res tx') = res_duplicates (tx_res tx)
     \<and> res_stored (tx_res tx') = res_stored (tx_res tx) \<and> res_sampled (tx_res tx') = res_sampled (tx_res tx)"

lemma core_release: "release_step pid qs ss tx = Inr tx' \<Longrightarrow>
    same_core tx tx' \<and> ig_attachments (tx_db tx') = ig_attachments (tx_db tx)"
  by (auto simp: release_step_def result_iff Let_def same_core_def split: if_splits)

lemma core_attachment: "same_core tx (attachment_step env rows tx)"
  by (simp add: attachment_step_def Let_def same_core_def split: option.split)

lemma core_user_report: "same_core tx (user_report_step lib pid now r tx)
    \<and> ig_attachments (tx_db (user_report_step lib pid now r tx)) = ig_attachments (tx_db tx)"
  by (simp add: user_report_step_def Let_def same_core_def split: option.split)

lemma core_client_report: "client_report_step pid now cs tx = Inr tx' \<Longrightarrow>
    same_core tx tx' \<and> ig_attachments (tx_db tx') = ig_attachments (tx_db tx)"
  by (auto simp: client_report_step_def result_iff Let_def same_core_def split: if_splits)

lemma core_check_in: "check_in_step lib pid now ci tx = Inr tx' \<Longrightarrow>
    same_core tx tx' \<and> ig_attachments (tx_db tx') = ig_attachments (tx_db tx)"
  by (auto simp: check_in_step_def Let_def same_core_def split: option.splits sum.splits prod.splits)

lemma core_session: "session_step lib pid ss tx = Inr tx' \<Longrightarrow>
    same_core tx tx' \<and> ig_attachments (tx_db tx') = ig_attachments (tx_db tx)"
  by (auto simp: session_step_def result_iff Let_def same_core_def)

lemma core_job: "job_step now tx = Inr tx' \<Longrightarrow>
    same_core tx tx' \<and> ig_attachments (tx_db tx') = ig_attachments (tx_db tx)"
  by (auto simp: job_step_def result_iff Let_def same_core_def)

text \<open>The transaction in one view: issues, events, attachments and the event counters.\<close>

lemma writes_effect:
  assumes "ingest_writes lib p now env qs tx = Inr tx'"
  obtains uis rows where
    "map (\<lambda>fp. issue_params lib p fp (group_of qs fp)) (group_order qs) = map Inr uis"
    "ig_issues (tx_db tx') = fold (upsert_issue_table now) uis (ig_issues (tx_db tx))"
    "map (event_row_of lib (pj_id p)) (filter (keeps lib p) qs) = map Inr rows"
    "ig_events (tx_db tx') = InsertEvents (in_blobs lib) rows (ig_events (tx_db tx))"
    "ig_attachments (tx_db tx') = (if en_attachments env = [] then ig_attachments (tx_db tx)
       else case attachment_target env rows of None \<Rightarrow> ig_attachments (tx_db tx)
            | Some r \<Rightarrow> InsertAttachments (attachment_rows r (en_attachments env)) (ig_attachments (tx_db tx)))"
    "res_received (tx_res tx') = res_received (tx_res tx)"
    "res_duplicates (tx_res tx') = res_duplicates (tx_res tx)"
    "res_stored (tx_res tx') = length (filter (keeps lib p) qs)"
    "res_sampled (tx_res tx') = length (filter (\<lambda>q. \<not> keeps lib p q) qs)"
proof -
  let ?pid = "pj_id p" and ?ss = "map (clamp_session (now - in_retention lib) now) (en_sessions env)"
  from assms obtain tx1 tx2 rows tx3 tx4 tx5 tx6 where
    s: "release_step ?pid qs ?ss tx = Inr tx1" "fold_result (issue_step lib p now qs) (group_order qs) tx1 = Inr tx2"
      "event_step lib p now qs tx2 = Inr (rows, tx3)"
      "client_report_step ?pid now (en_client_reports env)
         (user_report_step lib ?pid now (en_user_report env) (attachment_step env rows tx3)) = Inr tx4"
      "check_in_step lib ?pid now (en_check_in env) tx4 = Inr tx5" "session_step lib ?pid ?ss tx5 = Inr tx6"
      "job_step now tx6 = Inr tx'"
    unfolding ingest_writes_def Let_def result_iff by (auto simp: result_iff)
  note C1 = core_release [OF s(1)] and C2 = fold_step_fields [OF s(2)] and C4 = core_client_report [OF s(4)]
    and C5 = core_check_in [OF s(5)] and C6 = core_session [OF s(6)] and C7 = core_job [OF s(7)]
    and CU = core_user_report [of "attachment_step env rows tx3" lib ?pid now "en_user_report env"]
    and CA = core_attachment [of tx3 env rows]
  from issue_steps [OF s(2)] obtain uis where
    u: "map (\<lambda>fp. issue_params lib p fp (group_of qs fp)) (group_order qs) = map Inr uis"
      "ig_issues (tx_db tx2) = fold (upsert_issue_table now) uis (ig_issues (tx_db tx1))" by blast
  from s(3) have rows: "map (event_row_of lib ?pid) (filter (keeps lib p) qs) = map Inr rows"
    and db3: "tx_db tx3 = (tx_db tx2)\<lparr>ig_events := InsertEvents (in_blobs lib) rows (ig_events (tx_db tx2))\<rparr>"
    and res3: "tx_res tx3 = (tx_res tx2)\<lparr>res_stored := length rows, res_sampled := length (filter (\<lambda>q. \<not> keeps lib p q) qs)\<rparr>"
    by (auto simp: event_step_def result_iff Let_def collect_Inr)
  have "length rows = length (filter (keeps lib p) qs)" using arg_cong [OF rows, of length] by simp
  moreover have "ig_attachments (tx_db (attachment_step env rows tx3)) = (if en_attachments env = [] then ig_attachments (tx_db tx)
       else case attachment_target env rows of None \<Rightarrow> ig_attachments (tx_db tx)
            | Some r \<Rightarrow> InsertAttachments (attachment_rows r (en_attachments env)) (ig_attachments (tx_db tx)))"
    using C1 C2 by (simp add: attachment_step_def db3 Let_def split: option.split)
  ultimately show ?thesis
    using u rows C1 C2 C4 C5 C6 C7 CU CA
    by (intro that [of uis rows]) (simp_all add: same_core_def db3 res3)
qed

section \<open>Success\<close>

text \<open>The events of an envelope that are neither repeated in it nor stored before.\<close>

definition new_events :: "'c ingester \<Rightarrow> project \<Rightarrow> envelope \<Rightarrow> time \<Rightarrow> ingest_tables \<Rightarrow> prepared list" where
  "new_events lib p env now db =
     (case prepare_all lib p now 0 [] (en_events env) of
        Inl e \<Rightarrow> []
      | Inr (prepared, _, _) \<Rightarrow> drop_resends (et_events (ig_events db)) (pj_id p) prepared)"

definition start_tx :: "envelope \<Rightarrow> nat \<Rightarrow> nat \<Rightarrow> ingest_tables \<Rightarrow> ingest_tx" where
  "start_tx env dup wrong db =
     \<lparr>tx_db = db,
      tx_res = result0\<lparr>res_received := length (en_events env), res_invalid := en_invalid env,
        res_duplicates := dup, res_mismatched := wrong\<rparr>,
      tx_jobs = []\<rparr>"

lemma Ingest_success:
  assumes "Ingest lib p env now db = (None, r, db')"
  obtains (empty) "empty_envelope env" "r = result0" "db' = db"
  | (written) prepared repeated wrong tx' where
      "prepare_all lib p now 0 [] (en_events env) = Inr (prepared, repeated, wrong)"
      "ingest_writes lib p now env (new_events lib p env now db)
         (start_tx env (repeated + (length prepared - length (new_events lib p env now db))) wrong db) = Inr tx'"
      "r = tx_res tx'" "db' = tx_db tx'"
proof (cases "empty_envelope env")
  case True
  then show ?thesis using assms empty by (simp add: Ingest_def empty_envelope_def result0_def)
next
  case False
  have start: "\<lparr>tx_db = db, tx_res = result0\<lparr>res_received := length (en_events env), res_invalid := en_invalid env,
      res_duplicates := d, res_mismatched := w\<rparr>, tx_jobs = []\<rparr> = start_tx env d w db" for d w
    by (simp add: start_tx_def)
  show ?thesis
  proof (cases "prepare_all lib p now 0 [] (en_events env)")
    case (Inl e)
    with False assms show ?thesis by (simp add: Ingest_def Let_def)
  next
    case (Inr x)
    obtain prepared repeated wrong where x: "x = (prepared, repeated, wrong)" by (cases x) auto
    have new: "drop_resends (et_events (ig_events db)) (pj_id p) prepared = new_events lib p env now db"
      by (simp add: new_events_def Inr x)
    show ?thesis
      using assms False written [OF Inr [unfolded x]]
      by (simp add: Ingest_def Let_def Inr x new start split: sum.splits)
  qed
qed

lemma new_events_distinct: "distinct (map pp_id (new_events lib p env now db))"
proof (cases "prepare_all lib p now 0 [] (en_events env)")
  case (Inr x)
  obtain prepared repeated wrong where x: "x = (prepared, repeated, wrong)" by (cases x) auto
  show ?thesis
    using prepare_all_distinct [OF Inr [unfolded x]]
    by (simp add: new_events_def Inr x drop_resends_def distinct_map_filter)
qed (simp add: new_events_def)

lemma new_events_stored:
  assumes "q \<in> set (new_events lib p env now db)"
  shows "(pj_id p, pp_id q, pp_time q) \<notin> event_key_of ` set (et_events (ig_events db))"
proof (cases "prepare_all lib p now 0 [] (en_events env)")
  case (Inr x)
  obtain prepared repeated wrong where x: "x = (prepared, repeated, wrong)" by (cases x) auto
  from assms have "q \<in> set (drop_resends (et_events (ig_events db)) (pj_id p) prepared)"
    by (simp add: new_events_def Inr x)
  then show ?thesis by (rule new_events_fresh)
qed (use assms in \<open>simp add: new_events_def\<close>)

text \<open>The rows a transaction adds are new ones, in the order of the envelope.\<close>

lemma rows_are_new:
  assumes "map (event_row_of lib (pj_id p)) (filter (keeps lib p) (new_events lib p env now db)) = map Inr rows"
  shows "et_events (InsertEvents blobs rows (ig_events db)) = et_events (ig_events db) @ map (stored_row blobs) rows"
    and "map er_fingerprint rows = map (\<lambda>q. Ptr (pp_fingerprint q)) (filter (keeps lib p) (new_events lib p env now db))"
    and "\<forall>r \<in> set rows. er_project r = pj_id p"
proof -
  let ?kept = "filter (keeps lib p) (new_events lib p env now db)"
  have l: "length rows = length ?kept" using arg_cong [OF assms, of length] by simp
  have at: "event_row_of lib (pj_id p) (?kept ! i) = Inr (rows ! i)" if "i < length rows" for i
    using arg_cong [OF assms, of "\<lambda>xs. xs ! i"] that l by simp
  have keys: "map event_key_of rows = map (\<lambda>q. (pj_id p, pp_id q, pp_time q)) ?kept"
    using l event_row_fields [OF at] by (intro nth_equalityI) auto
  have "distinct (map pp_id ?kept)" using new_events_distinct [of lib p env now db] by (simp add: distinct_map_filter)
  then have "distinct (map (\<lambda>q. (pj_id p, pp_id q, pp_time q)) ?kept)"
    by (simp add: distinct_map inj_on_def)
  moreover have "set (map (\<lambda>q. (pj_id p, pp_id q, pp_time q)) ?kept) \<inter> event_key_of ` set (et_events (ig_events db)) = {}"
    unfolding disjoint_iff using new_events_stored [of _ lib p env now db] by (auto simp del: image_iff)
  ultimately show "et_events (InsertEvents blobs rows (ig_events db)) = et_events (ig_events db) @ map (stored_row blobs) rows"
    by (intro InsertEvents_fresh) (simp_all only: keys)
  show "map er_fingerprint rows = map (\<lambda>q. Ptr (pp_fingerprint q)) ?kept"
    using l event_row_fields [OF at] by (intro nth_equalityI) auto
  show "\<forall>r \<in> set rows. er_project r = pj_id p"
    using event_row_fields [OF at] by (auto simp: in_set_conv_nth)
qed

section \<open>Properties\<close>

text \<open>
  Every event of a successful envelope is accounted for exactly once: it was a duplicate, it was
  stored, or it was sampled out.
\<close>

theorem Ingest_accounts_for_every_event:
  assumes "Ingest lib p env now db = (None, r, db')"
  shows "res_received r = res_duplicates r + res_stored r + res_sampled r
    \<and> length (et_events (ig_events db')) = length (et_events (ig_events db)) + res_stored r"
  using assms
proof (cases rule: Ingest_success)
  case empty
  then show ?thesis by (simp add: result0_def)
next
  case (written prepared repeated wrong tx')
  let ?new = "new_events lib p env now db"
  have "length ?new \<le> length prepared" by (simp add: new_events_def written(1) drop_resends_def)
  moreover note prepare_all_length [OF written(1)] sum_length_filter_compl [of "keeps lib p" ?new]
  moreover from written(2) obtain rows where
    e: "map (event_row_of lib (pj_id p)) (filter (keeps lib p) ?new) = map Inr rows"
      "ig_events (tx_db tx') = InsertEvents (in_blobs lib) rows (ig_events db)"
    and res: "res_received (tx_res tx') = length (en_events env)"
      "res_duplicates (tx_res tx') = repeated + (length prepared - length ?new)"
      "res_stored (tx_res tx') = length (filter (keeps lib p) ?new)"
      "res_sampled (tx_res tx') = length (filter (\<lambda>q. \<not> keeps lib p q) ?new)"
    by (rule writes_effect) (simp add: start_tx_def)
  moreover have "length rows = length (filter (keeps lib p) ?new)"
    using arg_cong [OF e(1), of length] by (simp only: length_map)
  ultimately show ?thesis
    using rows_are_new(1) [OF e(1)] by (simp add: written(3,4) e(2))
qed

text \<open>The stored events of an issue.\<close>

definition rows_at :: "event_row list \<Rightarrow> project_id \<times> id_text \<Rightarrow> nat" where
  "rows_at rows k = length (filter (\<lambda>r. er_project r = fst k \<and> er_fingerprint r = Some (snd k)) rows)"

lemma rows_at_append: "rows_at (xs @ ys) k = rows_at xs k + rows_at ys k"
  by (simp add: rows_at_def)

lemma rows_at_stored: "rows_at (map (stored_row b) rows) k = rows_at rows k"
  by (simp add: rows_at_def filter_map comp_def stored_row_def)

lemma rows_at_of:
  assumes "map er_fingerprint rows = map (\<lambda>q. Ptr (pp_fingerprint q)) qs" and "\<forall>r \<in> set rows. er_project r = pid"
  shows "rows_at rows k = (if fst k = pid \<and> snd k \<noteq> [] then length (group_of qs (snd k)) else 0)"
proof -
  have "filter (\<lambda>r. er_project r = fst k \<and> er_fingerprint r = Some (snd k)) rows
      = (if fst k = pid then filter (\<lambda>r. er_fingerprint r = Some (snd k)) rows else [])"
    using assms(2) by (auto simp: filter_empty_conv intro!: filter_cong)
  then have "rows_at rows k = (if fst k = pid then length (filter (\<lambda>r. er_fingerprint r = Some (snd k)) rows) else 0)"
    by (simp add: rows_at_def split: if_splits)
  moreover have "length (filter (\<lambda>r. er_fingerprint r = Some (snd k)) rows) = length (filter (\<lambda>x. x = Some (snd k)) (map er_fingerprint rows))"
    by (simp add: filter_map comp_def)
  moreover have "length (filter (\<lambda>x. x = Some (snd k)) (map (\<lambda>q. Ptr (pp_fingerprint q)) qs))
      = (if snd k \<noteq> [] then length (group_of qs (snd k)) else 0)"
    by (simp add: filter_map comp_def group_of_def Ptr_def) (auto intro!: arg_cong [where f = length] filter_cong simp: filter_empty_conv)
  ultimately show ?thesis by (simp only: assms(1) if_cancel split: if_split) simp
qed

lemma filter_group_of: "filter P (group_of qs fp) = group_of (filter P qs) fp"
  by (simp add: group_of_def conj_commute)

text \<open>
  C1. Issues and events never disagree: whatever is sampled out, resent or repeated, an envelope adds to an
  issue's \<open>stored_count\<close> exactly the rows it adds to the events table with that fingerprint, and to its
  \<open>event_count\<close> exactly its new events with that fingerprint; no other issue's counts change.
\<close>

theorem Ingest_counts_match:
  assumes "Ingest lib p env now db = (None, r, db')"
  shows "snd (count_at (ig_issues db') k) - snd (count_at (ig_issues db) k)
      = int (rows_at (et_events (ig_events db')) k) - int (rows_at (et_events (ig_events db)) k)
    \<and> fst (count_at (ig_issues db') k) - fst (count_at (ig_issues db) k)
      = (if fst k = pj_id p \<and> snd k \<noteq> [] then int (length (group_of (new_events lib p env now db) (snd k))) else 0)"
  using assms
proof (cases rule: Ingest_success)
  case empty
  then have "new_events lib p env now db = []" by (simp add: new_events_def empty_envelope_def drop_resends_def)
  with empty show ?thesis by (simp add: group_of_def)
next
  case (written prepared repeated wrong tx')
  let ?new = "new_events lib p env now db"
  obtain pid fp where k: "k = (pid, fp)" by (cases k)
  from written(2) obtain uis rows where
    u: "map (\<lambda>fp. issue_params lib p fp (group_of ?new fp)) (group_order ?new) = map Inr uis"
      "ig_issues (tx_db tx') = fold (upsert_issue_table now) uis (ig_issues db)"
    and e: "map (event_row_of lib (pj_id p)) (filter (keeps lib p) ?new) = map Inr rows"
      "ig_events (tx_db tx') = InsertEvents (in_blobs lib) rows (ig_events db)"
    by (rule writes_effect) (simp add: start_tx_def)
  note N = rows_are_new [OF e(1)]
  have "rows_at (et_events (ig_events db')) k - rows_at (et_events (ig_events db)) k
      = (if fst k = pj_id p \<and> snd k \<noteq> [] then length (filter (keeps lib p) (group_of ?new (snd k))) else 0)"
    using rows_at_of [OF N(2,3), of k] by (simp add: written(4) e(2) N(1) rows_at_append rows_at_stored filter_group_of)
  moreover have "rows_at (et_events (ig_events db)) k \<le> rows_at (et_events (ig_events db')) k"
    by (simp add: written(4) e(2) N(1) rows_at_append)
  moreover have "group_of ?new (snd k) = []" if "snd k \<noteq> []" "snd k \<notin> set (group_order ?new)"
    using that by (simp add: set_group_order)
  moreover have "snd k \<notin> set (group_order ?new)" if "snd k = []" using that by (simp add: set_group_order)
  moreover note counts_after_groups [OF u(1) group_order_distinct, of now "ig_issues db" pid fp]
  ultimately show ?thesis unfolding k by (auto simp: written(4) u(2))
qed

section \<open>Resending\<close>

text \<open>What the dedupe looks at: the id, the time and whether it was clamped.\<close>

abbreviation event_view :: "event \<Rightarrow> id_text \<times> time \<times> bool" where
  "event_view e \<equiv> (ev_id e, ev_time e, ev_clamped e)"

definition existing_view :: "event_row list \<Rightarrow> project_id \<Rightarrow> (id_text \<times> time \<times> bool) list \<Rightarrow> id_text list" where
  "existing_view rows pid vs =
     (case map (\<lambda>v. fst (snd v)) vs of
        [] \<Rightarrow> []
      | t # ts \<Rightarrow> ExistingEventIDs rows pid (map fst vs) (fold min (t # ts) t) (fold max (t # ts) t + microsecond)
          @ (let clamped = map fst (filter (\<lambda>v. snd (snd v)) vs)
             in if clamped = [] then [] else ExistingEventIDsAnyTime rows pid clamped))"

lemma existing_ids_view: "existing_ids rows pid qs = existing_view rows pid (map (\<lambda>q. event_view (pp_event q)) qs)"
  by (cases qs) (simp_all add: existing_ids_def existing_view_def earliest_def latest_def fold_map comp_def filter_map Let_def)

lemma existing_view_mono:
  assumes "event_key_of ` set rows \<subseteq> event_key_of ` set rows'"
  shows "set (existing_view rows pid vs) \<subseteq> set (existing_view rows' pid vs)"
proof -
  have row: "\<exists>r' \<in> set rows'. er_project r' = er_project r \<and> er_event_id r' = er_event_id r \<and> er_occurred_at r' = er_occurred_at r"
    if "r \<in> set rows" for r
  proof -
    have "event_key_of r \<in> event_key_of ` set rows'" using assms that by blast
    then show ?thesis by auto
  qed
  have "set (ExistingEventIDs rows pid ids a b) \<subseteq> set (ExistingEventIDs rows' pid ids a b)" for ids a b
  proof
    fix i assume "i \<in> set (ExistingEventIDs rows pid ids a b)"
    then obtain r where r: "r \<in> set rows" "i = er_event_id r" "er_project r = pid" "er_event_id r \<in> set ids" "a \<le> er_occurred_at r" "er_occurred_at r < b"
      by (auto simp: ExistingEventIDs_def)
    from row [OF r(1)] obtain r' where "r' \<in> set rows'" "er_project r' = er_project r" "er_event_id r' = er_event_id r"
      "er_occurred_at r' = er_occurred_at r" by blast
    with r show "i \<in> set (ExistingEventIDs rows' pid ids a b)" by (auto simp: ExistingEventIDs_def intro!: image_eqI [of _ _ r'])
  qed
  moreover have "set (ExistingEventIDsAnyTime rows pid ids) \<subseteq> set (ExistingEventIDsAnyTime rows' pid ids)" for ids
  proof
    fix i assume "i \<in> set (ExistingEventIDsAnyTime rows pid ids)"
    then obtain r where r: "r \<in> set rows" "i = er_event_id r" "er_project r = pid" "er_event_id r \<in> set ids"
      by (auto simp: ExistingEventIDsAnyTime_def)
    from row [OF r(1)] obtain r' where "r' \<in> set rows'" "er_project r' = er_project r" "er_event_id r' = er_event_id r"
      "er_occurred_at r' = er_occurred_at r" by blast
    with r show "i \<in> set (ExistingEventIDsAnyTime rows' pid ids)" by (auto simp: ExistingEventIDsAnyTime_def intro!: image_eqI [of _ _ r'])
  qed
  ultimately show ?thesis by (auto simp: existing_view_def Let_def split: list.splits) blast+
qed

text \<open>The first event of each id, in order.\<close>

fun firsts :: "id_text list \<Rightarrow> event list \<Rightarrow> event list" where
  "firsts seen [] = []"
| "firsts seen (e # es) = (if ev_id e \<in> set seen then firsts seen es else e # firsts (ev_id e # seen) es)"

lemma admit_view: "now - in_retention lib \<le> ev_time e \<Longrightarrow> event_view (admit lib now e) = event_view e"
  by (simp add: admit_def clamp_event_def clampPast_def redact_def)

lemma prepare_all_view:
  assumes "prepare_all lib p now i seen es = Inr (qs, d, m)" and "\<forall>e \<in> set es. now - in_retention lib \<le> ev_time e"
  shows "map (\<lambda>q. event_view (pp_event q)) qs = map event_view (firsts seen es)"
  using assms
proof (induction es arbitrary: i seen qs d m)
  case (Cons e es)
  have in_window: "\<forall>e \<in> set es. now - in_retention lib \<le> ev_time e" using Cons.prems(2) by simp
  from Cons.prems(1) show ?case
  proof (cases rule: prepare_all_Cons)
    case (repeated d')
    with Cons.IH [OF repeated(3) in_window] show ?thesis by simp
  next
    case (fresh q rs m')
    with Cons.IH [OF fresh(4) in_window] admit_view [of now lib e] Cons.prems(2) show ?thesis by simp
  qed
qed simp

text \<open>Nothing new: the transaction leaves issues, events and attachments as they are.\<close>

lemma writes_nothing_new:
  assumes "ingest_writes lib p now env [] tx = Inr tx'"
  shows "ig_issues (tx_db tx') = ig_issues (tx_db tx) \<and> ig_events (tx_db tx') = ig_events (tx_db tx)
    \<and> ig_attachments (tx_db tx') = ig_attachments (tx_db tx) \<and> res_received (tx_res tx') = res_received (tx_res tx)
    \<and> res_duplicates (tx_res tx') = res_duplicates (tx_res tx)"
proof -
  from assms obtain uis rows where
    "map (\<lambda>fp. issue_params lib p fp (group_of [] fp)) (group_order []) = map Inr uis"
    "ig_issues (tx_db tx') = fold (upsert_issue_table now) uis (ig_issues (tx_db tx))"
    "map (event_row_of lib (pj_id p)) (filter (keeps lib p) []) = map Inr rows"
    "ig_events (tx_db tx') = InsertEvents (in_blobs lib) rows (ig_events (tx_db tx))"
    and a: "ig_attachments (tx_db tx') = (if en_attachments env = [] then ig_attachments (tx_db tx)
       else case attachment_target env rows of None \<Rightarrow> ig_attachments (tx_db tx)
            | Some r \<Rightarrow> InsertAttachments (attachment_rows r (en_attachments env)) (ig_attachments (tx_db tx)))"
    and "res_received (tx_res tx') = res_received (tx_res tx)" "res_duplicates (tx_res tx') = res_duplicates (tx_res tx)"
    by (rule writes_effect)
  moreover from this have "rows = []" "uis = []" by (simp_all add: group_order_def)
  ultimately show ?thesis
    by (simp add: InsertEvents_def batch_hours_def mark_hours_def attachment_target_def)
qed

lemma full_rate_keeps: "1 \<le> pj_sample_rate p \<Longrightarrow> keeps lib p q"
  by (simp add: keeps_def sampleStore_def UnhandledKeepFactor_def Let_def min_def)

text \<open>After a successful envelope with nothing sampled out, the dedupe knows all its events.\<close>

lemma all_known:
  assumes "Ingest lib p env now db = (None, r, db1)" and rate: "1 \<le> pj_sample_rate p"
    and prep: "prepare_all lib p now 0 [] (en_events env) = Inr (qs, d, m)" and q: "q \<in> set qs"
  shows "pp_id q \<in> set (existing_ids (et_events (ig_events db1)) (pj_id p) qs)"
  using assms(1)
proof (cases rule: Ingest_success)
  case empty
  then show ?thesis using prep q by (simp add: empty_envelope_def)
next
  case (written prepared repeated wrong tx')
  let ?new = "new_events lib p env now db"
  from written(2) obtain rows where
    e: "map (event_row_of lib (pj_id p)) (filter (keeps lib p) ?new) = map Inr rows"
      "ig_events (tx_db tx') = InsertEvents (in_blobs lib) rows (ig_events db)"
    by (rule writes_effect) (simp add: start_tx_def)
  have db1: "et_events (ig_events db1) = et_events (ig_events db) @ map (stored_row (in_blobs lib)) rows"
    by (simp add: written(4) e(2) rows_are_new(1) [OF e(1)])
  show ?thesis
  proof (cases "pp_id q \<in> set (existing_ids (et_events (ig_events db)) (pj_id p) qs)")
    case True
    have "event_key_of ` set (et_events (ig_events db)) \<subseteq> event_key_of ` set (et_events (ig_events db1))"
      by (auto simp: db1)
    from existing_view_mono [OF this] True show ?thesis unfolding existing_ids_view by blast
  next
    case False
    with q have "q \<in> set ?new" by (simp add: new_events_def prep drop_resends_def)
    moreover have "filter (keeps lib p) ?new = ?new" by (simp add: full_rate_keeps [OF rate])
    ultimately have "event_row_of lib (pj_id p) q \<in> set (map Inr rows)" by (metis e(1) image_eqI set_map)
    then obtain x where x: "x \<in> set rows" "event_row_of lib (pj_id p) q = Inr x" by auto
    show ?thesis
      by (rule existing_found [OF q, where r = "stored_row (in_blobs lib) x"])
        (use x event_row_fields [OF x(2)] in \<open>simp_all add: db1 stored_row_def\<close>)
  qed
qed


end
