(* ===== verification/IngestErrors.thy ===== *)
theory IngestErrors
  imports IngestRuns
begin

text \<open>
  What can make \<open>Ingest\<close> fail on an envelope that \<open>Parse\<close> produced: not a panic, not a text outside an
  enum, not a check-in inserted twice, not two jobs with one key.
\<close>

section \<open>Jobs have different keys\<close>

lemma valid_id_length: "valid_id i \<Longrightarrow> length i = 32"
  by (simp add: valid_id_def)

lemma Fingerprint_valid: "Fingerprint e fs \<noteq> [] \<Longrightarrow> valid_id (Fingerprint e fs)"
  using DerivedID_valid by (auto simp: Fingerprint_def Let_def split: if_splits)

lemma prepare_event_fingerprint: "prepare_event lib i e = Inr q \<Longrightarrow> pp_fingerprint q \<noteq> [] \<Longrightarrow> valid_id (pp_fingerprint q)"
  by (auto simp: prepare_event_def result_iff Let_def split_beta Fingerprint_valid)

lemma prepare_all_fingerprints:
  assumes "prepare_all lib p now i seen es = Inr (qs, d, m)" and "q \<in> set qs" and "pp_fingerprint q \<noteq> []"
  shows "valid_id (pp_fingerprint q)"
  using assms(1,2)
proof (induction es arbitrary: i seen qs d m)
  case (Cons e es)
  from Cons.prems(1) show ?case
    by (cases "ev_id e \<in> set seen")
      (use Cons.prems(2) assms(3) prepare_event_fingerprint Cons.IH in \<open>auto simp: result_iff\<close>)
qed simp

lemma alert_args:
  assumes "eq_args (alertJob lib pid t fp) = eq_args (alertJob lib pid t' fp')" and "length fp = length fp'"
  shows "fp = fp'"
  using assms by (simp add: alertJob_def)

lemma symbolicate_args:
  assumes "eq_args (symbolicateJob now pid q) = eq_args (symbolicateJob now pid q')" and "length (pp_id q) = length (pp_id q')"
  shows "pp_id q = pp_id q'"
proof -
  from assms(1) have "(JobTime (pp_time q) @ ''\",\"event\":\"'') @ pp_id q = (JobTime (pp_time q') @ ''\",\"event\":\"'') @ pp_id q'"
    by (simp add: symbolicateJob_def)
  with assms(2) show ?thesis by (metis append_eq_append_conv)
qed

text \<open>The jobs after the issues: one alert per fingerprint, of different fingerprints.\<close>

lemma issue_jobs:
  assumes "fold_result (issue_step lib p now qs) fps tx = Inr tx'" and "distinct fps" and "\<forall>fp \<in> set fps. length fp = 32"
  shows "\<exists>js. tx_jobs tx' = tx_jobs tx @ js \<and> distinct (map enqueue_key js)
    \<and> (\<forall>j \<in> set js. \<exists>t. \<exists>fp \<in> set fps. j = alertJob lib (pj_id p) t fp)"
  using assms
proof (induction fps arbitrary: tx)
  case (Cons fp fps)
  then obtain tx1 where s: "issue_step lib p now qs fp tx = Inr tx1" "fold_result (issue_step lib p now qs) fps tx1 = Inr tx'"
    by (auto simp: result_iff)
  from Cons.IH [OF s(2)] Cons.prems(2,3) obtain js where js: "tx_jobs tx' = tx_jobs tx1 @ js" "distinct (map enqueue_key js)"
    "\<forall>j \<in> set js. \<exists>t. \<exists>fp \<in> set fps. j = alertJob lib (pj_id p) t fp" by auto
  from issue_step_success [OF s(1)] obtain j0 where j0: "tx_jobs tx1 = tx_jobs tx @ j0"
    "j0 = [] \<or> (\<exists>t. j0 = [alertJob lib (pj_id p) t fp])" by blast
  have other: "enqueue_key (alertJob lib (pj_id p) t fp) \<noteq> enqueue_key j" if j: "j \<in> set js" for t j
  proof
    assume k: "enqueue_key (alertJob lib (pj_id p) t fp) = enqueue_key j"
    from js(3) j obtain t' fp' where "fp' \<in> set fps" "j = alertJob lib (pj_id p) t' fp'" by blast
    with k alert_args [of lib "pj_id p" t fp t' fp'] Cons.prems(2,3) show False by auto
  qed
  show ?case
  proof (intro exI [of _ "j0 @ js"] conjI)
    show "tx_jobs tx' = tx_jobs tx @ j0 @ js" by (simp add: js(1) j0(1))
    show "distinct (map enqueue_key (j0 @ js))" using j0(2) js(2) other by auto
    show "\<forall>j \<in> set (j0 @ js). \<exists>t. \<exists>f \<in> set (fp # fps). j = alertJob lib (pj_id p) t f"
    proof
      fix j assume "j \<in> set (j0 @ js)"
      then consider "j \<in> set j0" | "j \<in> set js" by auto
      then show "\<exists>t. \<exists>f \<in> set (fp # fps). j = alertJob lib (pj_id p) t f"
        by cases (use j0(2) in force, use js(3) in force)
    qed
  qed
qed simp

text \<open>All the jobs of a transaction.\<close>

definition job_shape :: "'c ingester \<Rightarrow> project \<Rightarrow> time \<Rightarrow> enqueue_params list \<Rightarrow> bool" where
  "job_shape lib p now js \<longleftrightarrow> (\<exists>as qs ms. js = as @ map (symbolicateJob now (pj_id p)) qs @ map (monitorAlertJob lib) ms
     \<and> distinct (map enqueue_key as) \<and> (\<forall>j \<in> set as. \<exists>t fp. j = alertJob lib (pj_id p) t fp)
     \<and> distinct (map pp_id qs) \<and> (\<forall>q \<in> set qs. length (pp_id q) = 32) \<and> length ms \<le> 1)"

lemma job_shape_distinct:
  assumes "job_shape lib p now js"
  shows "distinct (map enqueue_key js)"
proof -
  from assms obtain as qs ms where j: "js = as @ map (symbolicateJob now (pj_id p)) qs @ map (monitorAlertJob lib) ms"
    "distinct (map enqueue_key as)" "\<forall>j \<in> set as. \<exists>t fp. j = alertJob lib (pj_id p) t fp"
    "distinct (map pp_id qs)" "\<forall>q \<in> set qs. length (pp_id q) = 32" "length ms \<le> 1" unfolding job_shape_def by blast
  have inj: "q = q'" if "q \<in> set qs" "q' \<in> set qs" "enqueue_key (symbolicateJob now (pj_id p) q) = enqueue_key (symbolicateJob now (pj_id p) q')" for q q'
    using that j(4,5) symbolicate_args [of now "pj_id p" q q'] by (auto simp: distinct_map inj_on_def)
  have q: "distinct (map enqueue_key (map (symbolicateJob now (pj_id p)) qs))"
    unfolding map_map using j(4) inj by (auto simp: distinct_map inj_on_def)
  have m: "distinct (map enqueue_key (map (monitorAlertJob lib) ms))" using j(6) by (cases ms) auto
  have alert: "eq_kind j = JobKindAlert" "eq_args j \<noteq> eq_args (monitorAlertJob lib x)" if "j \<in> set as" for j x
    using j(3) that by (auto simp: alertJob_def monitorAlertJob_def split: prod.split)
  have kind: "eq_kind (symbolicateJob now (pj_id p) q) = JobKindSymbolicate" "eq_kind (monitorAlertJob lib x) = JobKindAlert" for q x
    by (simp_all add: symbolicateJob_def monitorAlertJob_def split: prod.split)
  have "set (map enqueue_key as) \<inter> (set (map enqueue_key (map (symbolicateJob now (pj_id p)) qs))
      \<union> set (map enqueue_key (map (monitorAlertJob lib) ms))) = {}"
    using alert kind by (auto simp: disjoint_iff)
  moreover have "set (map enqueue_key (map (symbolicateJob now (pj_id p)) qs)) \<inter> set (map enqueue_key (map (monitorAlertJob lib) ms)) = {}"
    using kind by auto
  ultimately show ?thesis
    unfolding j(1) map_append distinct_append set_append using j(2) q m by (intro conjI)
qed

lemma EnqueueJobs_order: "distinct (map enqueue_key js) \<Longrightarrow> EnqueueJobs now (job_order js) q \<noteq> None"
proof -
  assume d: "distinct (map enqueue_key js)"
  have "mset (map enqueue_key (job_order js)) = mset (map enqueue_key js)"
    by (simp add: job_order_def)
  from mset_eq_imp_distinct_iff [OF this] d have "distinct (map enqueue_key (job_order js))" by (simp only:)
  then show ?thesis by (simp only: EnqueueJobs_def if_True option.distinct(2) not_False_eq_True)
qed

section \<open>The levels and the check-in\<close>

lemma admit_level: "ev_level (admit lib now e) = ev_level e"
  by (simp add: admit_def redact_def clamp_event_def Let_def)

lemma admit_frames: "Frames e \<noteq> None \<Longrightarrow> Frames (admit lib now e) \<noteq> None"
  by (auto simp: admit_def redact_def clamp_event_def Frames_def Let_def split: if_splits)

lemma stat_level: "gs_level (fold (group_step lib p) qs g) \<in> insert (gs_level g) ((\<lambda>q. ev_level (pp_event q)) ` set qs)"
proof (induction qs arbitrary: g)
  case (Cons q qs)
  from Cons [of "group_step lib p q g"] show ?case by (auto simp: group_step_def Let_def split: if_splits)
qed simp

lemma issue_params_level:
  assumes "issue_params lib p fp qs = Inl e" and "qs \<noteq> []"
  shows "\<exists>q \<in> set qs. event_level_of_text (ev_level (pp_event q)) = None"
proof -
  have "event_level_of_text (gs_level (group_stat_of lib p qs)) = None"
    using assms(1) by (auto simp: issue_params_def result_iff Let_def)
  moreover have "gs_level (group_stat_of lib p qs) \<in> (\<lambda>q. ev_level (pp_event q)) ` set qs"
  proof -
    obtain q rs where q: "qs = q # rs" using assms(2) by (cases qs) auto
    then show ?thesis
      unfolding group_stat_of_def
      by (intro stat_level [where qs = qs, THEN subsetD [rotated]]) auto
  qed
  ultimately show ?thesis by force
qed

text \<open>A check-in of an unknown run is inserted under a key no row has.\<close>

lemma sort_key_Nil: "sort_key f xs = [] \<Longrightarrow> xs = []"
  by (metis length_0_conv length_sort)

lemma store_check_in_total: "store_check_in now pid ci st t \<noteq> None"
proof (cases "FindOpenCheckIn t pid (ci_slug ci) (ci_id ci = ZeroCheckInID) (ci_id ci)")
  case None
  then have "filter (\<lambda>c. ck_project c = pid \<and> ck_slug c = ci_slug ci \<and> ck_id c = ci_id ci) t = []" if "ci_id ci \<noteq> ZeroCheckInID"
    using that by (auto simp: FindOpenCheckIn_def split: list.splits dest!: sort_key_Nil)
  then have "(pid, ci_slug ci, ci_id ci, now) \<notin> checkin_key ` set t" if "ci_id ci \<noteq> ZeroCheckInID"
    using that by (fastforce simp: filter_empty_conv)
  then show ?thesis using None by (simp add: store_check_in_def InsertCheckIn_def Let_def)
qed (simp add: store_check_in_def Let_def)

lemma ingest_check_in_errors:
  assumes "ingest_check_in lib now pid ci cs = Inl e" and "checkin_status_of_text (ci_status ci) \<noteq> None"
  shows "\<exists>x. e = StoredSchedule x"
  using assms
  by (auto simp: ingest_check_in_def Let_def split: option.splits prod.splits if_splits sum.splits elim!: notE [OF store_check_in_total])

lemma ingest_check_in_alerts_le:
  assumes "ingest_check_in lib now pid ci cs = Inr (cs', alerts, m, n)"
  shows "length alerts \<le> 1"
  using assms
  by (auto simp: ingest_check_in_def Let_def record_outcome_def transition_alerts_def
      split: option.splits prod.splits if_splits sum.splits)

section \<open>The transaction's errors\<close>

definition expected_error :: "ingest_error \<Rightarrow> bool" where
  "expected_error e \<longleftrightarrow> e = ReleasesRefused \<or> e = ClientReportsRefused \<or> (\<exists>x. e = CheckInFailed (StoredSchedule x))"

text \<open>What the transaction needs of its input.\<close>

definition writable :: "'c ingester \<Rightarrow> envelope \<Rightarrow> prepared list \<Rightarrow> bool" where
  "writable lib env qs \<longleftrightarrow>
     (\<forall>q \<in> set qs. event_level_of_text (ev_level (pp_event q)) \<noteq> None \<and> length (pp_id q) = 32
        \<and> (pp_fingerprint q \<noteq> [] \<longrightarrow> length (pp_fingerprint q) = 32))
     \<and> distinct (map pp_id qs)
     \<and> (\<forall>s \<in> set (en_sessions env). session_status_of_text (se_status s) \<noteq> None)
     \<and> (\<forall>c. en_check_in env = Some c \<longrightarrow> checkin_status_of_text (ci_status c) \<noteq> None)"

lemma issue_fold_error:
  assumes "fold_result (issue_step lib p now qs) fps tx = Inl e"
  shows "\<exists>fp \<in> set fps. issue_params lib p fp (group_of qs fp) = Inl e"
  using assms
proof (induction fps arbitrary: tx)
  case (Cons fp fps)
  then consider "issue_step lib p now qs fp tx = Inl e"
    | tx1 where "fold_result (issue_step lib p now qs) fps tx1 = Inl e" by (auto simp: result_iff)
  then show ?case
  proof cases
    case 1
    then have "issue_params lib p fp (group_of qs fp) = Inl e" by (auto simp: issue_step_def result_iff Let_def split_beta)
    then show ?thesis by simp
  qed (use Cons.IH in auto)
qed simp

lemma issues_total:
  assumes "writable lib env qs"
  shows "fold_result (issue_step lib p now qs) (group_order qs) tx \<noteq> Inl e"
proof
  assume "fold_result (issue_step lib p now qs) (group_order qs) tx = Inl e"
  from issue_fold_error [OF this] obtain fp where fp: "fp \<in> set (group_order qs)" "issue_params lib p fp (group_of qs fp) = Inl e" by blast
  then have "group_of qs fp \<noteq> []" by (simp add: set_group_order)
  from issue_params_level [OF fp(2) this] obtain q where "q \<in> set (group_of qs fp)" "event_level_of_text (ev_level (pp_event q)) = None" by blast
  with assms show False by (auto simp: writable_def group_of_def)
qed

lemma events_total: "writable lib env qs \<Longrightarrow> event_step lib p now qs tx \<noteq> Inl e"
  by (fastforce simp: event_step_def result_iff Let_def writable_def event_row_of_def dest!: collect_Inl)

lemma sessions_total:
  assumes "writable lib env qs"
  shows "session_step lib pid (map (clamp_session past now) (en_sessions env)) tx \<noteq> Inl e"
proof
  assume "session_step lib pid (map (clamp_session past now) (en_sessions env)) tx = Inl e"
  then obtain i s where "(i, s) \<in> set (enumerate 0 (map (clamp_session past now) (en_sessions env)))"
    "session_status_of_text (se_status s) = None"
    by (auto simp: session_step_def result_iff Let_def session_row_of_def dest!: collect_Inl)
  then have "s \<in> set (map (clamp_session past now) (en_sessions env))" by (simp only: in_set_enumerate_eq fst_conv snd_conv) (metis add_0_right diff_zero nth_mem)
  with assms \<open>session_status_of_text (se_status s) = None\<close> show False by (auto simp: writable_def clamp_session_def)
qed

text \<open>The jobs the steps leave behind.\<close>

lemma jobs_of_writes:
  assumes w: "writable lib env qs" and start: "tx_jobs tx = []"
    and s: "release_step (pj_id p) qs ss tx = Inr tx1" "fold_result (issue_step lib p now qs) (group_order qs) tx1 = Inr tx2"
      "event_step lib p now qs tx2 = Inr (rows, tx3)"
      "client_report_step (pj_id p) now (en_client_reports env)
         (user_report_step lib (pj_id p) now (en_user_report env) (attachment_step env rows tx3)) = Inr tx4"
      "check_in_step lib (pj_id p) now (en_check_in env) tx4 = Inr tx5" "session_step lib (pj_id p) ss tx5 = Inr tx6"
  shows "job_shape lib p now (tx_jobs tx6)"
proof -
  have "tx_jobs tx1 = []" using s(1) start by (auto simp: release_step_def result_iff Let_def split: if_splits)
  moreover have "\<forall>fp \<in> set (group_order qs). length fp = 32"
    using w by (auto simp: set_group_order group_of_def writable_def filter_empty_conv)
  ultimately obtain js where js: "tx_jobs tx2 = js" "distinct (map enqueue_key js)"
    "\<forall>j \<in> set js. \<exists>t fp. j = alertJob lib (pj_id p) t fp"
    using issue_jobs [OF s(2) group_order_distinct] by fastforce
  let ?qs = "filter (\<lambda>q. pp_retry q \<and> pp_fingerprint q \<noteq> []) (filter (keeps lib p) qs)"
  have "tx_jobs tx3 = js @ map (symbolicateJob now (pj_id p)) ?qs"
    using s(3) by (auto simp: event_step_def result_iff Let_def js(1))
  moreover have "tx_jobs tx4 = tx_jobs tx3"
    using s(4) by (auto simp: client_report_step_def user_report_step_def attachment_step_def result_iff Let_def
        split: if_splits option.splits)
  moreover have "\<exists>ms. tx_jobs tx5 = tx_jobs tx4 @ map (monitorAlertJob lib) ms \<and> length ms \<le> 1"
  proof (cases "en_check_in env")
    case None
    with s(5) show ?thesis by (intro exI [of _ "[]"]) (simp add: check_in_step_def)
  next
    case (Some c)
    with s(5) obtain cron alerts m n where "ingest_check_in (in_cron lib) now (pj_id p) c (ig_cron (tx_db tx4)) = Inr (cron, alerts, m, n)"
      "tx_jobs tx5 = tx_jobs tx4 @ map (monitorAlertJob lib) alerts"
      by (auto simp: check_in_step_def Let_def split: sum.splits)
    with ingest_check_in_alerts_le show ?thesis by blast
  qed
  moreover have "tx_jobs tx6 = tx_jobs tx5" using s(6) by (auto simp: session_step_def result_iff Let_def)
  moreover have "distinct (map pp_id ?qs)" "\<forall>q \<in> set ?qs. length (pp_id q) = 32"
    using w by (simp_all add: writable_def distinct_map_filter)
  ultimately obtain ms where "tx_jobs tx6 = js @ map (symbolicateJob now (pj_id p)) ?qs @ map (monitorAlertJob lib) ms" "length ms \<le> 1"
    "distinct (map pp_id ?qs)" "\<forall>q \<in> set ?qs. length (pp_id q) = 32" by auto
  with js(2,3) show ?thesis unfolding job_shape_def by blast
qed

text \<open>The only steps that can fail are the releases, the client reports and the check-in.\<close>

lemma failing_step:
  assumes "ingest_writes lib p now env qs tx = Inl e" and w: "writable lib env qs" and start: "tx_jobs tx = []"
  shows "release_step (pj_id p) qs (map (clamp_session (now - in_retention lib) now) (en_sessions env)) tx = Inl e
    \<or> (\<exists>t. client_report_step (pj_id p) now (en_client_reports env) t = Inl e)
    \<or> (\<exists>t. check_in_step lib (pj_id p) now (en_check_in env) t = Inl e)"
proof (rule ccontr)
  assume un: "\<not> ?thesis"
  let ?ss = "map (clamp_session (now - in_retention lib) now) (en_sessions env)"
  note un issues_total [OF w] events_total [OF w] sessions_total [OF w]
  then obtain tx1 tx2 rows tx3 tx4 tx5 tx6 where
    s: "release_step (pj_id p) qs ?ss tx = Inr tx1" "fold_result (issue_step lib p now qs) (group_order qs) tx1 = Inr tx2"
      "event_step lib p now qs tx2 = Inr (rows, tx3)"
      "client_report_step (pj_id p) now (en_client_reports env)
         (user_report_step lib (pj_id p) now (en_user_report env) (attachment_step env rows tx3)) = Inr tx4"
      "check_in_step lib (pj_id p) now (en_check_in env) tx4 = Inr tx5" "session_step lib (pj_id p) ?ss tx5 = Inr tx6"
    and j: "job_step now tx6 = Inl e"
    using assms(1) unfolding ingest_writes_def Let_def result_iff by (fastforce simp: result_iff split: prod.splits)
  from EnqueueJobs_order [OF job_shape_distinct [OF jobs_of_writes [OF w start s]], of now "ig_jobs (tx_db tx6)"] j
  show False by (auto simp: job_step_def result_iff Let_def split: if_splits)
qed

lemma writes_errors:
  assumes "ingest_writes lib p now env qs tx = Inl e" and w: "writable lib env qs" and "tx_jobs tx = []"
  shows "expected_error e"
proof -
  have "expected_error e" if "release_step pid qs ss tx = Inl e" for pid ss using that
    by (auto simp: release_step_def result_iff Let_def expected_error_def split: if_splits)
  moreover have "expected_error e" if "client_report_step pid now cs t = Inl e" for pid cs t using that
    by (auto simp: client_report_step_def result_iff Let_def expected_error_def split: if_splits)
  moreover have "expected_error e" if "check_in_step lib pid now (en_check_in env) t = Inl e" for pid t using that
    w ingest_check_in_errors
    by (auto simp: check_in_step_def Let_def expected_error_def writable_def split: option.splits sum.splits) blast
  ultimately show ?thesis using failing_step [OF assms] by blast
qed

section \<open>The property\<close>

lemma prepare_all_total:
  assumes "\<forall>e \<in> set es. Frames e \<noteq> None"
  shows "prepare_all lib p now i seen es \<noteq> Inl x"
  using assms
proof (induction es arbitrary: i seen)
  case (Cons e es)
  have "Frames (admit lib now e) \<noteq> None" using Cons.prems admit_frames [of e lib now] by simp
  then have "prepare_event lib i (admit lib now e) \<noteq> Inl x"
    by (auto simp: prepare_event_def result_iff Let_def split_beta)
  with Cons show ?case by (auto simp: result_iff)
qed simp

definition storable_event :: "event \<Rightarrow> bool" where
  "storable_event e \<longleftrightarrow> Frames e \<noteq> None \<and> event_level_of_text (ev_level e) \<noteq> None \<and> length (ev_id e) = 32"

lemma writable_drop:
  assumes "prepare_all lib p now 0 [] (en_events env) = Inr (prepared, d, m)" and "\<forall>e \<in> set (en_events env). storable_event e"
    and "\<forall>s \<in> set (en_sessions env). session_status_of_text (se_status s) \<noteq> None"
    and "\<forall>c. en_check_in env = Some c \<longrightarrow> checkin_status_of_text (ci_status c) \<noteq> None"
  shows "writable lib env (drop_resends rows pid prepared)"
proof -
  have ev: "event_level_of_text (ev_level (pp_event q)) \<noteq> None \<and> length (pp_id q) = 32" if q: "q \<in> set prepared" for q
  proof -
    from prepare_all_subset [OF assms(1)] q obtain e where "e \<in> set (en_events env)" "pp_event q = admit lib now e" by auto
    with assms(2) show ?thesis by (auto simp: storable_event_def admit_level)
  qed
  moreover have "length (pp_fingerprint q) = 32" if "q \<in> set prepared" "pp_fingerprint q \<noteq> []" for q
    using prepare_all_fingerprints [OF assms(1) that] by (rule valid_id_length)
  moreover have "distinct (map pp_id prepared)" by (rule prepare_all_distinct [OF assms(1)])
  ultimately show ?thesis using assms(3,4) by (auto simp: writable_def drop_resends_def distinct_map_filter)
qed

lemma parsed_storable:
  assumes "envelope_ok jl t env"
  shows "\<forall>e \<in> set (en_events env). storable_event e"
    and "\<forall>s \<in> set (en_sessions env). session_status_of_text (se_status s) \<noteq> None"
    and "\<forall>c. en_check_in env = Some c \<longrightarrow> checkin_status_of_text (ci_status c) \<noteq> None"
  using assms
  by (auto simp: envelope_ok_def list_all_iff event_ok_def session_ok_def check_in_ok_def storable_event_def valid_id_length)

lemma prepare_all_storable:
  assumes "\<forall>e \<in> set es. storable_event e"
  obtains qs d m where "prepare_all lib p now 0 [] es = Inr (qs, d, m)"
proof -
  have "prepare_all lib p now 0 [] es \<noteq> Inl x" for x
    by (rule prepare_all_total) (use assms in \<open>auto simp: storable_event_def\<close>)
  then obtain y where "prepare_all lib p now 0 [] es = Inr y" by (cases "prepare_all lib p now 0 [] es") auto
  then show ?thesis by (cases y) (auto intro: that)
qed

lemma Ingest_failure:
  assumes "Ingest lib p env now db = (Some e, r, db')" and "prepare_all lib p now 0 [] (en_events env) = Inr (prepared, d, m)"
  obtains res where
    "ingest_writes lib p now env (drop_resends (et_events (ig_events db)) (pj_id p) prepared)
       \<lparr>tx_db = db, tx_res = res, tx_jobs = []\<rparr> = Inl e"
    "r = result0\<lparr>res_received := length (en_events env), res_invalid := en_invalid env\<rparr>" "db' = db"
proof (cases "empty_envelope env")
  case True
  then show ?thesis using assms(1) by (simp add: Ingest_def)
next
  case False
  then show ?thesis using assms(1) by (simp add: Ingest_def Let_def assms(2) that split: sum.splits)
qed


section \<open>Envelopes that succeed, and examples\<close>

lemma plain_envelope_succeeds:
  assumes "\<forall>e \<in> set (en_events env). storable_event e \<and> ev_release e = []" and "en_sessions env = []"
    and "en_client_reports env = []" and "en_check_in env = None"
  shows "\<exists>r db'. Ingest lib p env now db = (None, r, db')"
proof -
  obtain qs d m where prep: "prepare_all lib p now 0 [] (en_events env) = Inr (qs, d, m)"
    by (rule prepare_all_storable [of "en_events env"]) (use assms(1) in auto)
  let ?new = "drop_resends (et_events (ig_events db)) (pj_id p) qs"
  have w: "writable lib env ?new" by (rule writable_drop [OF prep]) (use assms in auto)
  have "ev_release (pp_event q) = []" if "q \<in> set qs" for q
    using prepare_all_subset [OF prep] that assms(1) by (force simp: admit_def redact_def clamp_event_def Let_def)
  then have "fold (\<lambda>q. note_release (ev_release (pp_event q)) (ev_platform (pp_event q)) (pp_time q)) ?new [] = []"
    by (intro fold_invariant [where P = "\<lambda>s. s = []" and Q = "\<lambda>q. q \<in> set qs"])
      (auto simp: note_release_def drop_resends_def)
  then have rel: "mentioned_releases ?new [] = []" by (simp add: mentioned_releases_def)
  have no: "Ingest lib p env now db \<noteq> (Some e, r, db')" for e r db'
  proof
    assume "Ingest lib p env now db = (Some e, r, db')"
    from Ingest_failure [OF this prep] obtain res where
      "ingest_writes lib p now env ?new \<lparr>tx_db = db, tx_res = res, tx_jobs = []\<rparr> = Inl e" by blast
    from failing_step [OF this w] rel show False
      by (simp add: assms release_step_def client_report_step_def check_in_step_def)
  qed
  show ?thesis by (cases "Ingest lib p env now db") (use no in \<open>metis option.exhaust\<close>)
qed

definition example_ingester :: "unit ingester" where
  "example_ingester = \<lparr>in_retention = day, in_redact = False, in_blobs = False,
     in_json = \<lparr>jp_top = (\<lambda>s. None), jp_user = (\<lambda>s. None), jp_write_user = (\<lambda>s. None), jp_write_top = (\<lambda>s. None)\<rparr>,
     in_resolve = None, in_coin = (\<lambda>i. 0), in_sid = (\<lambda>i. []), in_gzip = id, in_frames_json = (\<lambda>fs. []), in_quote = id,
     in_cron = example_lib, in_clock = 0\<rparr>"

definition example_project :: project where
  "example_project = \<lparr>pj_id = 1, pj_slug = ''app'', pj_name = ''App'', pj_platform = None, pj_public_key = ''k'',
     pj_sample_rate = 1, pj_created_at = 0\<rparr>"

definition example_envelope :: envelope where
  "example_envelope = envelope0\<lparr>en_events := [event0\<lparr>ev_id := replicate 32 (CHR ''a''), ev_time := 1000,
     ev_level := ''error'', ev_sdk_fingerprint := [''x'']\<rparr>]\<rparr>"

definition example_tables :: ingest_tables where
  "example_tables = \<lparr>ig_events = \<lparr>et_events = [], et_spool = [], et_dirty = []\<rparr>,
     ig_sessions = \<lparr>st_sessions = [], st_dirty = []\<rparr>, ig_releases = [], ig_issues = [], ig_attachments = [],
     ig_user_reports = [], ig_client_reports = [], ig_cron = \<lparr>cs_monitors = [], cs_checkins = []\<rparr>,
     ig_jobs = \<lparr>jt_rows = [], jt_next = 1\<rparr>\<rparr>"

lemma Ingest_received:
  assumes "Ingest lib p env now db = (None, r, db')"
  shows "res_received r = (if empty_envelope env then 0 else length (en_events env))"
  using assms
proof (cases rule: Ingest_success)
  case (written prepared repeated wrong tx')
  moreover from written(2) have "res_received (tx_res tx') = length (en_events env)"
    by (rule writes_effect) (simp add: start_tx_def)
  moreover have "en_events env = []" if "empty_envelope env" using that by (simp add: empty_envelope_def)
  ultimately show ?thesis by auto
qed (simp add: result0_def)

lemma example_succeeds:
  obtains r db' where "Ingest example_ingester example_project example_envelope now db = (None, r, db')" "res_received r = 1"
proof -
  have "\<exists>r db'. Ingest example_ingester example_project example_envelope now db = (None, r, db')"
    by (rule plain_envelope_succeeds)
      (auto simp: example_envelope_def envelope0_def storable_event_def event0_def Frames_def
        event_level_of_text_def event_level_values_def)
  then obtain r db' where i: "Ingest example_ingester example_project example_envelope now db = (None, r, db')" by blast
  from Ingest_received [OF i] have "res_received r = 1" by (simp add: example_envelope_def empty_envelope_def)
  with i that show ?thesis by blast
qed

lemma Ingest_accounts_for_every_event_witness:
  "\<exists>r db'. Ingest example_ingester example_project example_envelope 2000 example_tables = (None, r, db')
     \<and> 1 = res_duplicates r + res_stored r + res_sampled r \<and> length (et_events (ig_events db')) = res_stored r"
proof -
  obtain r db' where i: "Ingest example_ingester example_project example_envelope 2000 example_tables = (None, r, db')"
    "res_received r = 1" by (rule example_succeeds)
  with Ingest_accounts_for_every_event [OF i(1)] show ?thesis by (auto simp: example_tables_def)
qed

lemma Ingest_counts_match_witness:
  "\<exists>r db'. Ingest example_ingester example_project example_envelope 2000 example_tables = (None, r, db')
     \<and> snd (count_at (ig_issues db') (1, DerivedID ''sdk:x'')) = int (rows_at (et_events (ig_events db')) (1, DerivedID ''sdk:x''))"
proof -
  obtain r db' where i: "Ingest example_ingester example_project example_envelope 2000 example_tables = (None, r, db')"
    by (rule example_succeeds)
  from Ingest_counts_match [OF i, of "(1, DerivedID ''sdk:x'')", THEN conjunct1] i show ?thesis
    by (simp add: example_tables_def rows_at_def count_at_def lookup_by_def)
qed


definition twice_lib :: "unit item_lib" where
  "twice_lib = envelope_lib\<lparr>js_item_header := (\<lambda>s. Some \<lparr>ih_type = ''client_report'', ih_length = Some 1, ih_filename = [],
        ih_content_type = [], ih_attachment_type = []\<rparr>),
     js_client_report := (\<lambda>s. Some [(''r'', ''c'', 1), (''r'', ''c'', 2)])\<rparr>"

lemma twice_parsed:
  obtains c1 c2 where "Parse twice_lib (''{}'' @ newline # render_item (''h'', ''x'')) 5 = envelope0\<lparr>en_client_reports := [c1, c2]\<rparr>"
    "(cr_reason c1, cr_category c1) = (cr_reason c2, cr_category c2)"
proof -
  let ?c = "\<lambda>n. \<lparr>cr_reason = clean ''r'' maxClientReportField, cr_category = clean ''c'' maxClientReportField, cr_quantity = n\<rparr>"
  have h: "trim_space ''h'' = ''h''" by (rule trim_space_fixed) (simp_all add: ascii_def space_char_def is_space_def)
  have f: "framed twice_lib (''h'', ''x'')"
    by (simp add: framed_def h newline_def twice_lib_def envelope_lib_def json_lib.defs)
  have "cutLine (''{}'' @ newline # render_item (''h'', ''x'')) = (''{}'', render_item (''h'', ''x''))"
    by (rule cutLine_append) (simp add: newline_def)
  moreover have "js_envelope_header twice_lib ''{}'' = Some (''{}'', [])" by (simp add: twice_lib_def envelope_lib_def json_lib.defs)
  moreover have "ParseID ''{}'' = None" by (simp add: ParseID_def trim_braces to_lower_ascii ascii_def Let_def)
  ultimately obtain fb where "Parse twice_lib (''{}'' @ newline # render_item (''h'', ''x'')) 5
      = read_items twice_lib ''{}'' fb 5 (render_item (''h'', ''x'') @ []) (envelope0\<lparr>en_event_id := []\<rparr>)"
    by (simp add: Parse_def Let_def)
  moreover have "take_framed twice_lib ''{}'' fb 5 (''h'', ''x'') envelope0 =
      envelope0\<lparr>en_client_reports := [?c 1, ?c 2]\<rparr>" for fb
    by (simp add: take_framed_def take_item_def twice_lib_def parseClientReport_def maxClientReportEntries_def drop_item_def envelope0_def)
  ultimately show ?thesis
    by (intro that [of "?c 1" "?c 2"]) (simp_all add: read_framed [OF f, where rest = "[]", simplified] read_items.simps [of _ _ _ _ "[]"] envelope0_def)
qed


text \<open>
  The lookup without a window is for events whose time was replaced by the server's; but a clock that is
  ahead is replaced only until its time has come. An event stored at the time it arrived, sent again when
  the device's time has passed, keeps the device's time: no longer marked, and not found in its window.
\<close>

lemma clock_ahead_is_counted_again:
  assumes "now + minute < t" and "t \<le> later + minute" and "er_occurred_at r = truncate_time now microsecond"
    and "pp_time q = t" and "\<not> ev_clamped (pp_event q)"
  shows "clampFuture t now = (now, True) \<and> clampFuture t later = (t, False) \<and> existing_ids [r] pid [q] = []"
proof -
  have "truncate_time now microsecond < t" using assms(1) truncate_time_le [of now microsecond] by simp
  then show ?thesis using assms by (simp add: clampFuture_def existing_ids_def earliest_def latest_def ExistingEventIDs_def)
qed

end
