(* ===== verification/Access.thy ===== *)
theory Access
  imports Accounts Sha256 "HOL-Library.Signed_Division"
begin

text \<open>
  \<open>internal/auth/auth.go\<close>, \<open>internal/auth/access.go\<close> and the guards of \<open>internal/web/web.go\<close>: the rate
  limiter, the credentials requests are told apart by, API keys and viewer sessions. A middleware is a
  function from the request to what it answers, or to the request going on; \<open>reply\<close> names the call to
  \<open>net/http\<close> that ends a handler. bcrypt and \<open>url.Parse\<close> are parameters, random tokens arguments.
\<close>

section \<open>Requests and replies\<close>

text \<open>What the code reads of a request; a header or query parameter that is absent reads as the empty text.\<close>

record request =
  rq_method :: string
  rq_path :: string
  rq_uri :: string
  rq_host :: string
  rq_remote :: string
  rq_tls :: bool
  rq_header :: "string \<Rightarrow> string"
  rq_query :: "string \<Rightarrow> string"
  rq_cookie :: "string option"

datatype reply =
    HttpError nat string
  | SeeOther string
  | NoContent

type_synonym headers = "(string \<times> string) list"

section \<open>Text helpers of the standard library\<close>

text \<open>\<open>strings.EqualFold\<close> against an ASCII text: the long s and the Kelvin sign fold to letters.\<close>

definition fold_rune :: "rune \<Rightarrow> rune" where
  "fold_rune r = (if 65 \<le> r \<and> r \<le> 90 then r + 32 else if r = 383 then 115 else if r = 8490 then 107 else r)"

definition equal_fold :: "string \<Rightarrow> string \<Rightarrow> bool" where
  "equal_fold s t \<longleftrightarrow> map fold_rune (runes s) = map fold_rune (runes t)"

text \<open>\<open>strings.Cut\<close> at a text of several bytes.\<close>

fun cut_text :: "string \<Rightarrow> string \<Rightarrow> (string \<times> string) option" where
  "cut_text sep [] = (if sep = [] then Some ([], []) else None)"
| "cut_text sep (c # s) =
     (if has_prefix (c # s) sep then Some ([], drop (length sep) (c # s))
      else map_option (\<lambda>(a, b). (c # a, b)) (cut_text sep s))"

text \<open>\<open>url.QueryEscape\<close>.\<close>

definition unreserved :: "char \<Rightarrow> bool" where
  "unreserved c \<longleftrightarrow> CHR ''a'' \<le> c \<and> c \<le> CHR ''z'' \<or> CHR ''A'' \<le> c \<and> c \<le> CHR ''Z'' \<or> CHR ''0'' \<le> c \<and> c \<le> CHR ''9''
     \<or> c \<in> {CHR ''-'', CHR ''_'', CHR ''.'', CHR ''~''}"

definition upper_hex :: "nat \<Rightarrow> char" where
  "upper_hex d = (if d < 10 then char_of (48 + d) else char_of (55 + d))"

definition QueryEscape :: "string \<Rightarrow> string" where
  "QueryEscape s =
     concat (map (\<lambda>c. if unreserved c then [c] else if c = CHR '' '' then ''+''
       else [CHR ''%'', upper_hex (of_char c div 16), upper_hex (of_char c mod 16)]) s)"

section \<open>Who a request counts for\<close>

definition clientIP :: "request \<Rightarrow> bool \<Rightarrow> string" where
  "clientIP r trust_proxy =
     (let xf = rq_header r ''X-Forwarded-For''
      in if trust_proxy \<and> xf \<noteq> [] then trim_space (after_last_any [CHR '','' ] xf)
         else if CHR '':'' \<in> set (rq_remote r)
              then take (length (rq_remote r) - length (after_last_any [CHR '':''] (rq_remote r)) - 1) (rq_remote r)
              else rq_remote r)"

definition bearer_token :: "request \<Rightarrow> string" where
  "bearer_token r = trim_space (trim_prefix (rq_header r ''Authorization'') ''Bearer'')"

definition BearerCredential :: "request \<Rightarrow> string" where
  "BearerCredential r =
     (let tok = bearer_token r in if tok = [] then [] else ''k:'' @ hex_encode (sha256 (bytes tok)))"

definition IPCredential :: "bool \<Rightarrow> request \<Rightarrow> string" where
  "IPCredential trust_proxy r = ''ip:'' @ clientIP r trust_proxy"

text \<open>\<open>strings.Trim(s, "\"")\<close>.\<close>

definition trim_quotes :: "string \<Rightarrow> string" where
  "trim_quotes s = rev (dropWhile ((=) (CHR 0x22)) (rev (dropWhile ((=) (CHR 0x22)) s)))"

fun sentry_pairs :: "string list \<Rightarrow> string" where
  "sentry_pairs [] = []"
| "sentry_pairs (kv # kvs) =
     (case cut_byte (CHR ''='') (trim_space kv) of
        (k, v, ok) \<Rightarrow> if ok \<and> trim_space k = ''sentry_key'' then trim_quotes (trim_space v) else sentry_pairs kvs)"

definition sentryKeyFrom :: "string \<Rightarrow> string" where
  "sentryKeyFrom h =
     (let h = trim_space h
      in if has_prefix h ''Sentry '' then sentry_pairs (split_byte (CHR '','') (drop 7 h)) else [])"

definition SentryKey :: "request \<Rightarrow> string" where
  "SentryKey r =
     (let a = sentryKeyFrom (rq_header r ''X-Sentry-Auth''); b = sentryKeyFrom (rq_header r ''Authorization'')
      in if a \<noteq> [] then a else if b \<noteq> [] then b else rq_query r ''sentry_key'')"

section \<open>The rate limiter\<close>

text \<open>A nil map is \<open>None\<close>: reading it gives zero, but counting in it panics.\<close>

record limiter =
  lm_window :: int
  lm_counts :: "(string \<rightharpoonup> int) option"

definition limiter0 :: limiter where "limiter0 = \<lparr>lm_window = 0, lm_counts = None\<rparr>"

definition window_of :: "int \<Rightarrow> int" where "window_of now = now - now smod 60"

definition bump :: "string \<Rightarrow> int \<Rightarrow> limiter \<Rightarrow> (int \<times> int \<times> limiter) option" where
  "bump key now l =
     (let w = window_of now;
          l1 = (if w \<noteq> lm_window l then \<lparr>lm_window = w, lm_counts = Some Map.empty\<rparr> else l)
      in case lm_counts l1 of
           None \<Rightarrow> None
         | Some m \<Rightarrow>
             let n = (case m key of None \<Rightarrow> 0 | Some c \<Rightarrow> c) + 1
             in Some (n, w, l1\<lparr>lm_counts := Some (m(key \<mapsto> n))\<rparr>))"

definition bucket :: "(request \<Rightarrow> string) \<Rightarrow> request \<Rightarrow> string" where
  "bucket cred r = (if cred r = [] then ''anon:'' @ clientIP r False else cred r)"

text \<open>The headers it sets, and the refusal if it refuses. \<open>None\<close> is a panic.\<close>

definition RateLimit :: "int \<Rightarrow> (request \<Rightarrow> string) \<Rightarrow> request \<Rightarrow> int \<Rightarrow> limiter
    \<Rightarrow> (headers \<times> reply option \<times> limiter) option" where
  "RateLimit limit cred r now l =
     (if limit \<le> 0 then Some ([], None, l)
      else map_option (\<lambda>(n, window, l').
        let hs = [(''X-RateLimit-Limit'', itoa_int limit),
                  (''X-RateLimit-Remaining'', itoa_int (if limit - n < 0 then 0 else limit - n)),
                  (''X-RateLimit-Reset'', itoa_int (window + 60))]
        in if limit < n
           then (hs @ [(''Retry-After'', itoa_int (window + 60 - now))],
                 Some (HttpError 429 ''{\"error\":\"rate limited\"}''), l')
           else (hs, None, l')) (bump (bucket cred r) now l))"

section \<open>CORS, schemes and origins\<close>

definition CORS :: "string \<Rightarrow> request \<Rightarrow> headers \<times> reply option" where
  "CORS origin r =
     ([(''Access-Control-Allow-Origin'', origin),
       (''Access-Control-Allow-Methods'', ''GET, POST, PUT, PATCH, DELETE, OPTIONS''),
       (''Access-Control-Allow-Headers'', ''Authorization, Content-Type, X-Sentry-Auth, HX-Request'')],
      if rq_method r = ''OPTIONS'' then Some NoContent else None)"

definition Scheme :: "request \<Rightarrow> bool \<Rightarrow> string" where
  "Scheme r trust_proxy =
     (let fp = rq_header r ''X-Forwarded-Proto''
      in if rq_tls r then ''https''
         else if trust_proxy \<and> fp \<noteq> [] \<and> equal_fold (trim_space (hd (split_byte (CHR '','') fp))) ''https'' then ''https''
         else ''http'')"

definition BaseURL :: "request \<Rightarrow> string \<Rightarrow> bool \<Rightarrow> string" where
  "BaseURL r public_url trust_proxy =
     (if public_url \<noteq> [] then trim_suffix public_url ''/'' else Scheme r trust_proxy @ ''://'' @ rq_host r)"

definition DSN :: "string \<Rightarrow> string \<Rightarrow> int \<Rightarrow> string" where
  "DSN base key pid =
     (let s = trim_suffix base ''/'';
          (scheme, host) = (case cut_text ''://'' s of Some x \<Rightarrow> x | None \<Rightarrow> (''http'', s))
      in scheme @ ''://'' @ key @ ''@'' @ host @ ''/'' @ itoa_int pid)"

text \<open>\<open>sameOrigin\<close>: \<open>origin_host\<close> is the host \<open>url.Parse\<close> finds in the \<open>Origin\<close> header, if it parses.\<close>

definition sameOrigin :: "(string \<Rightarrow> string option) \<Rightarrow> request \<Rightarrow> reply option" where
  "sameOrigin origin_host r =
     (let refuse = Some (HttpError 403 ''cross-site request refused''); origin = rq_header r ''Origin''
      in if rq_header r ''Sec-Fetch-Site'' = ''cross-site'' then refuse
         else if origin \<noteq> [] \<and> origin \<noteq> ''null''
         then (case origin_host origin of
                 None \<Rightarrow> refuse
               | Some h \<Rightarrow> if equal_fold h (rq_host r) then None else refuse)
         else None)"

definition requireHX :: "request \<Rightarrow> reply option" where
  "requireHX r =
     (if rq_header r ''HX-Request'' \<noteq> ''true'' then Some (HttpError 403 ''htmx request required'') else None)"

section \<open>API keys\<close>

record actor =
  ac_user :: int
  ac_key :: int
  ac_name :: string

definition actor0 :: actor where "actor0 = \<lparr>ac_user = 0, ac_key = 0, ac_name = []\<rparr>"

definition KeyPrefix :: string where "KeyPrefix = ''cc_''"

text \<open>\<open>NewToken\<close> and \<open>NewProjectKey\<close>: the hexadecimal text of 32 (or 16) random bytes.\<close>

definition NewToken :: "nat list \<Rightarrow> string" where "NewToken rnd = hex_encode rnd"

definition HashToken :: "string \<Rightarrow> string" where "HashToken tok = of_bytes (sha256 (bytes tok))"

definition new_api_key :: "time \<Rightarrow> nat list \<Rightarrow> string \<Rightarrow> int option \<Rightarrow> auth_tables
    \<Rightarrow> (api_key \<times> string \<times> auth_tables) option" where
  "new_api_key now rnd name created_by t =
     (let secret = KeyPrefix @ NewToken rnd
      in map_option (\<lambda>(k, t'). (k, secret, t'))
           (CreateAPIKey now name (HashToken secret) (take (length KeyPrefix + 8) secret) created_by t))"

definition unauthorized :: reply where
  "unauthorized = HttpError 401 ''{\"error\":\"unauthorized\"}''"

definition APIKey :: "time \<Rightarrow> request \<Rightarrow> auth_tables \<Rightarrow> (reply + actor) \<times> auth_tables" where
  "APIKey now r t =
     (let tok = bearer_token r
      in if tok = [] then (Inl unauthorized, t)
         else case GetAPIKeyByHash t (HashToken tok) of
                None \<Rightarrow> (Inl unauthorized, t)
              | Some k \<Rightarrow> (Inr \<lparr>ac_user = 0, ac_key = ak_id k, ac_name = ak_name k\<rparr>, TouchAPIKey now (ak_id k) t))"

section \<open>Viewer sessions\<close>

definition SessionTTL :: duration where "SessionTTL = 30 * 24 * hour"

record cookie =
  co_value :: string
  co_max_age :: int
  co_secure :: bool

definition session_cookie :: "request \<Rightarrow> bool \<Rightarrow> string \<Rightarrow> int \<Rightarrow> cookie" where
  "session_cookie r trust_proxy v max_age =
     \<lparr>co_value = v, co_max_age = max_age, co_secure = (Scheme r trust_proxy = ''https'')\<rparr>"

definition Login :: "bool \<Rightarrow> time \<Rightarrow> nat list \<Rightarrow> request \<Rightarrow> int \<Rightarrow> auth_tables \<Rightarrow> (cookie \<times> auth_tables) option" where
  "Login trust_proxy now rnd r user t =
     (let tok = NewToken rnd
      in map_option (\<lambda>t'. (session_cookie r trust_proxy tok (SessionTTL div second), t'))
           (CreateUserSession (HashToken tok) user (now + SessionTTL) t))"

definition Logout :: "bool \<Rightarrow> request \<Rightarrow> auth_tables \<Rightarrow> cookie \<times> auth_tables" where
  "Logout trust_proxy r t =
     (session_cookie r trust_proxy [] (- 1),
      case rq_cookie r of
        None \<Rightarrow> t
      | Some v \<Rightarrow> if v = [] then t else DeleteUserSession (HashToken v) t)"

text \<open>The user of the request's cookie.\<close>

definition session_user :: "time \<Rightarrow> request \<Rightarrow> auth_tables \<Rightarrow> user option" where
  "session_user now r t =
     (case rq_cookie r of
        None \<Rightarrow> None
      | Some v \<Rightarrow> if v = [] then None else GetUserSession now t (HashToken v))"

definition user_actor :: "user \<Rightarrow> actor" where
  "user_actor u = \<lparr>ac_user = usr_id u, ac_key = 0, ac_name = usr_email u\<rparr>"

definition Identify :: "time \<Rightarrow> request \<Rightarrow> auth_tables \<Rightarrow> actor" where
  "Identify now r t = (case session_user now r t of None \<Rightarrow> actor0 | Some u \<Rightarrow> user_actor u)"

definition Session :: "time \<Rightarrow> request \<Rightarrow> auth_tables \<Rightarrow> headers \<times> (reply + actor)" where
  "Session now r t =
     (case session_user now r t of
        Some u \<Rightarrow> ([], Inr (user_actor u))
      | None \<Rightarrow>
          let to = (if CountUsers t = 0 then ''/setup''
                    else if rq_method r = ''GET'' \<and> rq_path r \<noteq> ''/'' then ''/login?next='' @ QueryEscape (rq_uri r)
                    else ''/login'')
          in if rq_header r ''HX-Request'' = ''true''
             then ([(''HX-Redirect'', to)], Inl (HttpError 401 ''sign in required''))
             else ([], Inl (SeeOther to)))"

section \<open>What the limiter lets pass\<close>

text \<open>A run of requests, each with the second it was taken at: which of them go on.\<close>

fun serve_all :: "int \<Rightarrow> (request \<Rightarrow> string) \<Rightarrow> (request \<times> int) list \<Rightarrow> limiter \<Rightarrow> bool list option" where
  "serve_all limit cred [] l = Some []"
| "serve_all limit cred ((r, now) # rs) l =
     (case RateLimit limit cred r now l of
        None \<Rightarrow> None
      | Some (hs, refusal, l') \<Rightarrow> map_option ((#) (refusal = None)) (serve_all limit cred rs l'))"

definition asks :: "(request \<Rightarrow> string) \<Rightarrow> string \<Rightarrow> int \<Rightarrow> request \<times> int \<Rightarrow> bool" where
  "asks cred k w x \<longleftrightarrow> bucket cred (fst x) = k \<and> window_of (snd x) = w"

definition counted :: "limiter \<Rightarrow> string \<Rightarrow> int \<Rightarrow> int" where
  "counted l k w =
     (if w \<noteq> lm_window l then 0
      else case lm_counts l of None \<Rightarrow> 0 | Some m \<Rightarrow> (case m k of None \<Rightarrow> 0 | Some c \<Rightarrow> c))"

lemma window_of_mono: "0 \<le> a \<Longrightarrow> a \<le> b \<Longrightarrow> window_of a \<le> window_of b"
proof -
  have e: "window_of t = 60 * (t div 60)" if "0 \<le> t" for t
    using that by (cases "t = 0") (simp_all add: window_of_def signed_modulo_int_def minus_mod_eq_mult_div)
  assume "0 \<le> a" "a \<le> b"
  then show ?thesis by (simp add: e zdiv_mono1)
qed

lemma window_of_pos: "60 \<le> now \<Longrightarrow> 60 \<le> window_of now"
  using window_of_mono [of 60 now] by (simp add: window_of_def)

lemma bump_counts:
  assumes "60 \<le> now" and "lm_counts l \<noteq> None \<or> lm_window l = 0"
  obtains l' where "bump key now l = Some (counted l key (window_of now) + 1, window_of now, l')"
    "lm_window l' = window_of now" "lm_counts l' \<noteq> None"
    "\<And>k w. counted l' k w = (if w = window_of now then counted l k w + (if k = key then 1 else 0) else 0)"
proof -
  let ?w = "window_of now"
  let ?m = "if ?w \<noteq> lm_window l then Map.empty else the (lm_counts l)"
  let ?l' = "\<lparr>lm_window = ?w, lm_counts = Some (?m(key \<mapsto> counted l key ?w + 1))\<rparr>"
  have "lm_counts l \<noteq> None \<or> ?w \<noteq> lm_window l" using assms window_of_pos [of now] by force
  then have "bump key now l = Some (counted l key ?w + 1, ?w, ?l')"
    by (cases "?w = lm_window l") (auto simp: bump_def counted_def Let_def)
  moreover have "counted ?l' k w = (if w = ?w then counted l k w + (if k = key then 1 else 0) else 0)" for k w
    using \<open>lm_counts l \<noteq> None \<or> ?w \<noteq> lm_window l\<close> by (auto simp: counted_def split: option.split)
  ultimately show ?thesis by (intro that [of ?l']) simp_all
qed

lemma RateLimit_verdict:
  assumes "bump (bucket cred r) now l = Some (n, w, l')" and "0 < limit"
  shows "\<exists>hs refusal. RateLimit limit cred r now l = Some (hs, refusal, l') \<and> (refusal = None) = (n \<le> limit)"
  using assms by (cases "limit < n") (simp_all add: RateLimit_def Let_def)

lemma serve_all_exact:
  assumes "0 < limit" and "sorted (map snd rs)" and "\<forall>x \<in> set rs. 60 \<le> snd x \<and> lm_window l \<le> window_of (snd x)"
    and "lm_counts l \<noteq> None \<or> lm_window l = 0"
  shows "\<exists>oks. serve_all limit cred rs l = Some oks \<and> length oks = length rs
    \<and> int (length (filter (\<lambda>(x, ok). ok \<and> asks cred k w x) (zip rs oks)))
      = min limit (counted l k w + int (length (filter (asks cred k w) rs))) - min limit (counted l k w)"
  using assms(2-)
proof (induction rs arbitrary: l)
  case (Cons x rs)
  obtain r now where x: "x = (r, now)" by (cases x)
  have now: "60 \<le> now" using Cons.prems(2) by (simp add: x)
  let ?key = "bucket cred r" and ?w = "window_of now"
  obtain l' where l': "bump ?key now l = Some (counted l ?key ?w + 1, ?w, l')" "lm_window l' = ?w" "lm_counts l' \<noteq> None"
    "\<And>k w. counted l' k w = (if w = ?w then counted l k w + (if k = ?key then 1 else 0) else 0)"
    by (rule bump_counts [OF now Cons.prems(3)]) blast
  have later: "?w \<le> window_of (snd y)" if "y \<in> set rs" for y
    using window_of_mono [of now "snd y"] Cons.prems(1) now that by (auto simp: x)
  then obtain oks where oks: "serve_all limit cred rs l' = Some oks" "length oks = length rs"
    "int (length (filter (\<lambda>(x, ok). ok \<and> asks cred k w x) (zip rs oks)))
      = min limit (counted l' k w + int (length (filter (asks cred k w) rs))) - min limit (counted l' k w)"
    using Cons.IH [of l'] Cons.prems(1,2) l'(2,3) by auto
  obtain hs refusal where rl: "RateLimit limit cred r now l = Some (hs, refusal, l')"
    "(refusal = None) = (counted l ?key ?w + 1 \<le> limit)"
    using RateLimit_verdict [OF l'(1) \<open>0 < limit\<close>] by blast
  have none: "filter (asks cred k w) rs = []" if "w < ?w"
    using that later by (force simp: asks_def filter_empty_conv)
  have zero: "counted l k w = 0" if "?w < w" using that Cons.prems(2) by (simp add: counted_def x)
  have run: "serve_all limit cred (x # rs) l = Some ((refusal = None) # oks)" by (simp add: x rl(1) oks(1))
  have head: "asks cred k w x \<longleftrightarrow> ?key = k \<and> ?w = w" for k w by (simp add: asks_def x)
  consider "w < ?w" | "?w < w" | "w = ?w" by linarith
  then show ?case
  proof cases
    case 1
    then have "filter (\<lambda>(x, ok). ok \<and> asks cred k w x) (zip rs oks) = []"
      using none by (auto simp: filter_empty_conv dest: set_zip_leftD)
    with 1 none show ?thesis by (simp add: run oks(2) head)
  next
    case 2
    with oks(2,3) zero l'(4) show ?thesis by (simp add: run head)
  next
    case 3
    show ?thesis
    proof (cases "?key = k")
      case True
      with 3 oks(2,3) rl(2) l'(4) show ?thesis by (auto simp: run head min_def)
    next
      case False
      with 3 oks(2,3) l'(4) show ?thesis by (simp add: run head)
    qed
  qed
qed simp

text \<open>
  C12. The limiter is exact: while the clock does not go back, of the requests of one credential in one
  minute exactly the first \<open>limit\<close> go on, whatever other credentials do, and nothing panics.
\<close>

theorem RateLimit_exact:
  assumes "0 < limit" and "sorted (map snd rs)" and "list_all (\<lambda>x. 60 \<le> snd x) rs"
  shows "\<exists>oks. serve_all limit cred rs limiter0 = Some oks \<and> length oks = length rs
    \<and> length (filter (\<lambda>(x, ok). ok \<and> asks cred k w x) (zip rs oks))
      = min (nat limit) (length (filter (asks cred k w) rs))"
proof -
  have "\<forall>x \<in> set rs. 60 \<le> snd x \<and> lm_window limiter0 \<le> window_of (snd x)"
    using assms(3) window_of_pos by (force simp: list_all_iff limiter0_def)
  moreover have "lm_counts limiter0 \<noteq> None \<or> lm_window limiter0 = 0" by (simp add: limiter0_def)
  moreover have "counted limiter0 k w = 0" by (simp add: counted_def limiter0_def)
  ultimately show ?thesis using serve_all_exact [OF assms(1,2), of limiter0 cred k w] assms(1) by fastforce
qed

definition example_request :: request where
  "example_request = \<lparr>rq_method = ''POST'', rq_path = ''/api/1/envelope/'', rq_uri = ''/api/1/envelope/'', rq_host = ''h'',
     rq_remote = ''10.0.0.1:5'', rq_tls = False, rq_header = (\<lambda>h. []), rq_query = (\<lambda>k. []), rq_cookie = None\<rparr>"

lemma RateLimit_exact_witness:
  "\<exists>oks. serve_all 1 (\<lambda>r. ''k'') [(example_request, 60), (example_request, 61), (example_request, 120)] limiter0 = Some oks
     \<and> length (filter (\<lambda>(x, ok). ok \<and> asks (\<lambda>r. ''k'') ''k'' 60 x)
         (zip [(example_request, 60), (example_request, 61), (example_request, 120)] oks)) = 1"
  using RateLimit_exact [of 1 "[(example_request, 60), (example_request, 61), (example_request, 120)]" "\<lambda>r. ''k''" "''k''" 60]
  by (auto simp: asks_def bucket_def window_of_def)

text \<open>
  \<open>now\<close> is read before the lock is taken: a request that read it just before the minute and takes the lock
  just after another one's resets the window twice, and the count of the new minute starts over.
\<close>

lemma late_lock_resets_the_count:
  "serve_all 1 (\<lambda>r. ''k'') [(example_request, 120), (example_request, 119), (example_request, 120)] limiter0
   = Some [True, True, True]"
  by (simp add: RateLimit_def bump_def bucket_def window_of_def limiter0_def Let_def)

section \<open>Credentials\<close>

definition token_text :: "string \<Rightarrow> bool" where
  "token_text s \<longleftrightarrow> ascii s \<and> (\<forall>c \<in> set s. \<not> space_char c \<and> c \<notin> {CHR '','', CHR ''='', CHR 0x22})"

lemma split_byte_join:
  "(\<forall>x \<in> set (x # xs). CHR '','' \<notin> set x) \<Longrightarrow>
    split_byte (CHR '','') (join '', '' (x # xs)) = x # map ((#) (CHR '' '')) xs"
proof (induction xs arbitrary: x)
  case (Cons y ys)
  have "split_byte (CHR '','') (CHR '' '' # join '', '' (y # ys)) = (CHR '' '' # y) # map ((#) (CHR '' '')) ys"
    using Cons.IH [of y] Cons.prems by simp
  with Cons.prems show ?case by (simp add: split_byte_append)
qed (simp add: split_byte_free)

lemma trim_space_solid:
  assumes "ascii s" and "\<forall>c \<in> set s. \<not> space_char c"
  shows "trim_space s = s" and "trim_space (CHR '' '' # s) = s"
proof -
  have "s = [] \<or> \<not> space_char (hd s) \<and> \<not> space_char (last s)" using assms(2) by (metis hd_in_set last_in_set)
  with assms(1) show "trim_space s = s" by (rule trim_space_fixed)
  have "dropWhile space_char xs = xs" if "set xs \<subseteq> set s" for xs using that assms(2) by (cases xs) auto
  from this [of s] this [of "rev s"] have "dropWhile space_char s = s" "dropWhile space_char (rev s) = rev s" by simp_all
  moreover have "space_char (CHR '' '')" by (simp add: space_char_def is_space_def)
  moreover have "ascii (CHR '' '' # s)" using assms(1) by (simp add: ascii_def)
  ultimately show "trim_space (CHR '' '' # s) = s" by (simp add: trim_space_ascii)
qed

abbreviation pair_text :: "string \<times> string \<Rightarrow> string" where
  "pair_text p \<equiv> fst p @ ''='' @ snd p"

lemma token_pair:
  assumes "token_text (fst p)" and "token_text (snd p)"
  shows "ascii (pair_text p)" "\<forall>c \<in> set (pair_text p). \<not> space_char c" "CHR '','' \<notin> set (pair_text p)"
    "cut_byte (CHR ''='') (pair_text p) = (fst p, snd p, True)" "trim_quotes (snd p) = snd p"
proof -
  show "ascii (pair_text p)" "\<forall>c \<in> set (pair_text p). \<not> space_char c" "CHR '','' \<notin> set (pair_text p)"
    using assms by (auto simp: token_text_def ascii_def space_char_def is_space_def)
  show "cut_byte (CHR ''='') (pair_text p) = (fst p, snd p, True)"
  proof -
    have "CHR ''='' \<notin> set (fst p)" using assms(1) by (auto simp: token_text_def)
    then show ?thesis by (simp add: cut_byte_split)
  qed
  have "dropWhile ((=) (CHR 0x22)) xs = xs" if "set xs \<subseteq> set (snd p)" for xs
    using that assms(2) by (cases xs) (auto simp: token_text_def)
  from this [of "snd p"] this [of "rev (snd p)"] show "trim_quotes (snd p) = snd p" by (simp add: trim_quotes_def)
qed

lemma join_solid:
  assumes "xs \<noteq> []" and "\<forall>x \<in> set xs. ascii x \<and> x \<noteq> [] \<and> (\<forall>c \<in> set x. \<not> space_char c)"
  shows "join '', '' xs \<noteq> [] \<and> ascii (join '', '' xs) \<and> \<not> space_char (last (join '', '' xs))"
  using assms
proof (induction "'', ''" xs rule: join.induct)
  case (2 x)
  then show ?case by (cases x rule: rev_cases) auto
qed (auto simp: ascii_def)

lemma sentry_pairs_tokens:
  assumes "list_all (\<lambda>p. token_text (fst p) \<and> token_text (snd p)) ps"
  shows "sentry_pairs (map pair_text ps) = (case map_of ps ''sentry_key'' of None \<Rightarrow> [] | Some v \<Rightarrow> v)"
    and "sentry_pairs (map (\<lambda>p. CHR '' '' # pair_text p) ps) = (case map_of ps ''sentry_key'' of None \<Rightarrow> [] | Some v \<Rightarrow> v)"
  using assms
proof (induction ps)
  case (Cons p ps)
  {
    case 1
    then show ?case using Cons.IH token_pair [of p] trim_space_solid [of "pair_text p"] trim_space_solid [of "fst p"]
        trim_space_solid [of "snd p"]
      by (cases p) (auto simp: token_text_def)
  next
    case 2
    then show ?case using Cons.IH token_pair [of p] trim_space_solid [of "pair_text p"] trim_space_solid [of "fst p"]
        trim_space_solid [of "snd p"]
      by (cases p) (auto simp: token_text_def)
  }
qed simp_all

text \<open>
  C1. The key of an SDK's \<open>X-Sentry-Auth\<close> header is read whatever the order of its pairs: from
  \<open>Sentry a=b, ..., sentry_key=k, ...\<close> the value of the first \<open>sentry_key\<close>, and nothing when there is none.
\<close>

theorem sentryKeyFrom_reads_key:
  assumes "list_all (\<lambda>p. token_text (fst p) \<and> token_text (snd p)) ps"
  shows "sentryKeyFrom (''Sentry '' @ join '', '' (map (\<lambda>p. fst p @ ''='' @ snd p) ps))
    = (case map_of ps ''sentry_key'' of None \<Rightarrow> [] | Some v \<Rightarrow> v)"
proof (cases ps)
  case Nil
  have "trim_space ''Sentry '' = ''Sentry''" by (simp add: trim_space_ascii ascii_def space_char_def is_space_def)
  with Nil show ?thesis by (simp add: sentryKeyFrom_def has_prefix_def)
next
  case (Cons p qs)
  let ?j = "join '', '' (map pair_text ps)"
  have parts: "\<forall>x \<in> set (map pair_text ps). ascii x \<and> x \<noteq> [] \<and> (\<forall>c \<in> set x. \<not> space_char c) \<and> CHR '','' \<notin> set x"
    using assms token_pair(1-3) by (fastforce simp: list_all_iff)
  have "?j \<noteq> [] \<and> ascii ?j \<and> \<not> space_char (last ?j)"
    by (rule join_solid) (use parts Cons in auto)
  then have "trim_space (''Sentry '' @ ?j) = ''Sentry '' @ ?j"
    by (intro trim_space_fixed) (auto simp: ascii_def space_char_def is_space_def)
  moreover have "split_byte (CHR '','') ?j = pair_text p # map (\<lambda>p. CHR '' '' # pair_text p) qs"
    using split_byte_join [of "pair_text p" "map pair_text qs"] parts Cons by (simp add: comp_def)
  moreover have "sentry_pairs (pair_text p # map (\<lambda>p. CHR '' '' # pair_text p) qs)
      = (case map_of ps ''sentry_key'' of None \<Rightarrow> [] | Some v \<Rightarrow> v)"
    using sentry_pairs_tokens(2) [of qs] sentry_pairs_tokens(1) [of "[p]"] assms Cons
      token_pair [of p] trim_space_solid [of "pair_text p"] trim_space_solid [of "fst p"] trim_space_solid [of "snd p"]
    by (cases p) (auto simp: token_text_def)
  ultimately show ?thesis by (simp add: sentryKeyFrom_def has_prefix_def Let_def)
qed

lemma sentryKeyFrom_reads_key_witness:
  "sentryKeyFrom (''Sentry '' @ join '', '' (map (\<lambda>p. fst p @ ''='' @ snd p)
     [(''sentry_version'', ''7''), (''sentry_key'', ''0a'')])) = ''0a''"
  by (subst sentryKeyFrom_reads_key) (simp_all add: token_text_def ascii_def space_char_def is_space_def)

section \<open>API keys and sessions\<close>

lemma digit_char_solid: "d < 16 \<Longrightarrow> of_char (digit_char d) < (128 :: nat) \<and> \<not> space_char (digit_char d)"
  by (auto simp: digit_char_def space_char_def is_space_def)

lemma hex_encode_solid:
  "\<forall>b \<in> set bs. b < 256 \<Longrightarrow> ascii (hex_encode bs) \<and> (\<forall>c \<in> set (hex_encode bs). \<not> space_char c)"
  by (induction bs) (auto simp: hex_encode_def hex_byte_def ascii_def digit_char_solid)

lemma bearer_secret:
  assumes "rq_header r ''Authorization'' = ''Bearer '' @ KeyPrefix @ NewToken rnd" and "\<forall>b \<in> set rnd. b < 256"
  shows "bearer_token r = KeyPrefix @ NewToken rnd"
proof -
  have "trim_space (CHR '' '' # KeyPrefix @ NewToken rnd) = KeyPrefix @ NewToken rnd"
    by (rule trim_space_solid)
      (use hex_encode_solid [OF assms(2)] in \<open>auto simp: KeyPrefix_def NewToken_def ascii_def space_char_def is_space_def\<close>)
  then show ?thesis by (simp add: bearer_token_def assms(1) trim_prefix_def has_prefix_def)
qed

lemma find_appended: "h \<notin> f ` set xs \<Longrightarrow> f y = h \<Longrightarrow> find (\<lambda>x. f x = h \<and> P x) (xs @ [y]) = (if P y then Some y else None)"
  by (induction xs) auto

lemma find_after_update:
  assumes "h \<notin> f ` set xs" and "f y = h" and "\<And>x. f (g x) = f x"
  shows "find (\<lambda>x. f x = h \<and> P x) (update_where q g (xs @ [y])) = (if P (if q y then g y else y) then Some (if q y then g y else y) else None)"
proof -
  have "h \<notin> f ` set (update_where q g xs)" using assms(1,3) by (auto simp: update_where_def)
  from find_appended [OF this, of "if q y then g y else y" P] show ?thesis
    using assms(2,3) by (simp add: update_where_def)
qed



definition example_auth :: auth_tables where
  "example_auth = \<lparr>au_users = [\<lparr>usr_id = 1, usr_email = ''a@b.c'', usr_name = [], usr_password_hash = [], usr_created_at = 0\<rparr>],
     au_next = 2, au_sessions = [], au_keys = [], au_next_key = 1\<rparr>"



end
