(* ===== verification/IngestHttp.thy ===== *)
theory IngestHttp
  imports IngestErrors Access
begin

text \<open>
  The handlers of \<open>internal/ingest/ingest.go\<close> around \<open>Ingest\<close>: the key of a request, its body with its
  encoding and limits, and the answer. The gzip and zlib readers are parameters that turn a stream - the
  bytes it yields, and whether it ends in an error - into the decoded stream, or refuse its header.
\<close>

section \<open>The body\<close>

definition MaxBody :: nat where "MaxBody = 20 * 2 ^ 20"

type_synonym byte_stream = "string \<times> bool"

record decoders =
  dc_gzip :: "byte_stream \<Rightarrow> byte_stream option"
  dc_zlib :: "byte_stream \<Rightarrow> byte_stream option"

text \<open>\<open>http.MaxBytesReader\<close>, and \<open>io.ReadAll\<close> of an \<open>io.LimitReader\<close>.\<close>

definition max_bytes :: "nat \<Rightarrow> string \<Rightarrow> byte_stream" where
  "max_bytes n body = (take n body, n < length body)"

definition read_limited :: "nat \<Rightarrow> byte_stream \<Rightarrow> string option" where
  "read_limited n s = (if n \<le> length (fst s) then Some (take n (fst s)) else if snd s then None else Some (fst s))"

definition readBody :: "decoders \<Rightarrow> string \<Rightarrow> string \<Rightarrow> string + string" where
  "readBody dec encoding body =
     (let wire = max_bytes MaxBody body; e = to_lower (trim_space encoding)
      in case (if e = [] \<or> e = ''identity'' then Inr wire
               else if e = ''gzip'' then or_error ''invalid gzip body'' (dc_gzip dec wire)
               else if e = ''deflate'' then or_error ''invalid deflate body'' (dc_zlib dec wire)
               else Inl ''unsupported content-encoding'') of
           Inl m \<Rightarrow> Inl m
         | Inr rd \<Rightarrow>
             (case read_limited (MaxBody + 1) rd of
                None \<Rightarrow> Inl ''body too large or truncated''
              | Some b \<Rightarrow> if MaxBody < length b then Inl ''body too large'' else Inr b))"

section \<open>The handlers\<close>

record ingest_server =
  sv_cache :: key_cache
  sv_projects :: project_tables
  sv_tables :: ingest_tables

datatype ingest_reply = Refused nat string | Accepted string

definition firstEventID :: "envelope \<Rightarrow> string" where
  "firstEventID env = (case en_events env of [] \<Rightarrow> [] | e # _ \<Rightarrow> ev_id e)"

text \<open>\<open>json.Encoder\<close> writes a map with its keys in order and a newline after it.\<close>

definition ok_body :: "ingest_result \<Rightarrow> string \<Rightarrow> string" where
  "ok_body res i =
     ''{\"attachments\":'' @ itoa (res_attachments res) @ '',\"id\":\"'' @ i @ ''\",\"invalid\":'' @ itoa (res_invalid res)
     @ '',\"mismatched\":'' @ itoa (res_mismatched res) @ '',\"received\":'' @ itoa (res_received res)
     @ '',\"sessions\":'' @ itoa (res_sessions res) @ '',\"stored\":'' @ itoa (res_stored res) @ ''}'' @ [newline]"

definition error_body :: "string \<Rightarrow> string" where
  "error_body m = ''{\"error\":\"'' @ m @ ''\"}''"

definition answer_ingest :: "'c ingester \<Rightarrow> project \<Rightarrow> envelope \<Rightarrow> time \<Rightarrow> ingest_server \<Rightarrow> ingest_reply \<times> ingest_server" where
  "answer_ingest lib p env now sv =
     (case Ingest lib p env now (sv_tables sv) of
        (Some e, res, db) \<Rightarrow> (Refused 500 (error_body ''internal''), sv\<lparr>sv_tables := db\<rparr>)
      | (None, res, db) \<Rightarrow> (Accepted (ok_body res (firstEventID env)), sv\<lparr>sv_tables := db\<rparr>))"

text \<open>The steps the two handlers share: the project of the key, then the body.\<close>

definition with_body :: "decoders \<Rightarrow> string \<Rightarrow> request \<Rightarrow> string \<Rightarrow> time \<Rightarrow> ingest_server
    \<Rightarrow> (project \<Rightarrow> string \<Rightarrow> ingest_server \<Rightarrow> ingest_reply \<times> ingest_server) \<Rightarrow> ingest_reply \<times> ingest_server" where
  "with_body dec path_project r body now sv handle =
     (case Project now path_project (SentryKey r) (sv_cache sv) (sv_projects sv) of
        (None, c, t) \<Rightarrow> (Refused 401 (error_body ''unauthorized''), sv\<lparr>sv_cache := c, sv_projects := t\<rparr>)
      | (Some p, c, t) \<Rightarrow>
          (let sv' = sv\<lparr>sv_cache := c, sv_projects := t\<rparr>
           in case readBody dec (rq_header r ''Content-Encoding'') body of
                Inl m \<Rightarrow> (Refused 413 (error_body m), sv')
              | Inr b \<Rightarrow> handle p b sv'))"

definition serveEnvelope :: "decoders \<Rightarrow> 'c item_lib \<Rightarrow> 'c ingester \<Rightarrow> string \<Rightarrow> request \<Rightarrow> string \<Rightarrow> time
    \<Rightarrow> ingest_server \<Rightarrow> ingest_reply \<times> ingest_server" where
  "serveEnvelope dec items lib path_project r body now sv =
     with_body dec path_project r body now sv (\<lambda>p b sv'.
       let env = Parse items b now
       in if MaxEvents < length (en_events env) then (Refused 413 (error_body ''too many events''), sv')
          else answer_ingest lib p env now sv')"

definition serveStore :: "decoders \<Rightarrow> 'c item_lib \<Rightarrow> 'c ingester \<Rightarrow> string \<Rightarrow> request \<Rightarrow> string \<Rightarrow> time
    \<Rightarrow> ingest_server \<Rightarrow> ingest_reply \<times> ingest_server" where
  "serveStore dec items lib path_project r body now sv =
     with_body dec path_project r body now sv (\<lambda>p b sv'.
       answer_ingest lib p
         (envelope0\<lparr>en_events := (case ParseEvent items [] now b now of None \<Rightarrow> [] | Some ev \<Rightarrow> [ev])\<rparr>) now sv')"

section \<open>What a client can rely on\<close>

lemma Ingest_error_undone: "Ingest lib p env now db = (Some e, res, db') \<Longrightarrow> db' = db"
  by (auto simp: Ingest_def Let_def split: if_splits sum.splits)

lemma readBody_bounded: "readBody dec enc body = Inr b \<Longrightarrow> length b \<le> MaxBody"
  by (auto simp: readBody_def Let_def split: sum.splits option.splits if_splits)

text \<open>
  C4. A client can trust the answer: a refusal (401, 413 or 500) left every ingest table as it was, so the
  SDK may send the envelope again; an acceptance means the key named the project, the decoded body was
  within 20 MB and 500 events, and the whole envelope was written, with the counts the answer shows.
\<close>

theorem serveEnvelope_all_or_nothing:
  "case serveEnvelope dec items lib path_project r body now sv of
      (Refused n m, sv') \<Rightarrow> sv_tables sv' = sv_tables sv \<and> n \<in> {401, 413, 500}
    | (Accepted j, sv') \<Rightarrow>
        (\<exists>p b res. fst (Project now path_project (SentryKey r) (sv_cache sv) (sv_projects sv)) = Some p
           \<and> readBody dec (rq_header r ''Content-Encoding'') body = Inr b \<and> length b \<le> MaxBody
           \<and> length (en_events (Parse items b now)) \<le> MaxEvents
           \<and> Ingest lib p (Parse items b now) now (sv_tables sv) = (None, res, sv_tables sv')
           \<and> j = ok_body res (firstEventID (Parse items b now)))"
proof -
  obtain q c t where p: "Project now path_project (SentryKey r) (sv_cache sv) (sv_projects sv) = (q, c, t)" by (metis prod_cases3)
  show ?thesis
  proof (cases q)
    case None
    with p show ?thesis by (simp add: serveEnvelope_def with_body_def)
  next
    case (Some pr)
    show ?thesis
    proof (cases "readBody dec (rq_header r ''Content-Encoding'') body")
      case (Inl m)
      with p Some show ?thesis by (simp add: serveEnvelope_def with_body_def Let_def)
    next
      case (Inr b)
      obtain e res db where i: "Ingest lib pr (Parse items b now) now (sv_tables sv) = (e, res, db)" by (metis prod_cases3)
      with p Some Inr readBody_bounded [OF Inr] Ingest_error_undone [of lib pr "Parse items b now" now "sv_tables sv" _ res db]
      show ?thesis
        by (cases e) (simp_all add: serveEnvelope_def with_body_def answer_ingest_def Let_def not_less)
    qed
  qed
qed

end
