(* ===== verification/SignIn.thy ===== *)
theory SignIn
  imports Access
begin

text \<open>
  \<open>internal/web/account.go\<close>: signing in and out, the first user, and the account page with its users and
  API keys. bcrypt and \<open>url.Parse\<close> are parameters; a form that does not parse is \<open>None\<close>; the rendered
  pages are named with what the code passes to them.
\<close>

section \<open>Answers\<close>

record sign_in_lib =
  sl_hash :: "string \<Rightarrow> string option"
  sl_check :: "string \<Rightarrow> string \<Rightarrow> bool"
  sl_dummy :: string
  sl_local_url :: "string \<Rightarrow> bool"

datatype page = LoginPage string string | SetupPage string | AccountPage "user list" "api_key list" string string

datatype answer =
    Replies reply
  | Shows nat page
  | SignsIn cookie string
  | SignsOut cookie string

type_synonym form = "string \<Rightarrow> string"

definition internal_error :: answer where "internal_error = Replies (HttpError 500 ''internal error'')"
definition bad_form :: answer where "bad_form = Replies (HttpError 400 ''bad form'')"
definition not_found :: answer where "not_found = Replies (HttpError 404 ''404 page not found'')"

section \<open>Signing in and out\<close>

text \<open>\<open>sl_local_url\<close>: \<open>url.Parse\<close> takes the text and finds no scheme and no host in it.\<close>

definition safeNext :: "sign_in_lib \<Rightarrow> string \<Rightarrow> string" where
  "safeNext lib s =
     (if \<not> has_prefix s ''/'' \<or> has_prefix s ''//'' \<or> has_prefix s [CHR ''/'', CHR 0x5C] then ''/''
      else if \<not> sl_local_url lib s then ''/'' else s)"

definition loginPage :: "sign_in_lib \<Rightarrow> actor \<Rightarrow> request \<Rightarrow> auth_tables \<Rightarrow> answer" where
  "loginPage lib me r t =
     (if CountUsers t = 0 then Replies (SeeOther ''/setup'')
      else if ac_name me \<noteq> [] then Replies (SeeOther ''/'')
      else Shows 200 (LoginPage (safeNext lib (rq_query r ''next'')) []))"

definition normal_email :: "string \<Rightarrow> string" where
  "normal_email s = to_lower (trim_space s)"

definition login :: "sign_in_lib \<Rightarrow> bool \<Rightarrow> time \<Rightarrow> nat list \<Rightarrow> request \<Rightarrow> form option \<Rightarrow> auth_tables
    \<Rightarrow> answer \<times> auth_tables" where
  "login lib trust_proxy now rnd r form t =
     (case form of
        None \<Rightarrow> (bad_form, t)
      | Some get \<Rightarrow>
          (let to = safeNext lib (get ''next'');
               u = GetUserByEmail t (normal_email (get ''email''));
               hash = (case u of None \<Rightarrow> sl_dummy lib | Some v \<Rightarrow> usr_password_hash v);
               wrong = (Shows 401 (LoginPage to ''Wrong email or password.''), t)
           in if \<not> sl_check lib hash (get ''password'') then wrong
              else case u of
                     None \<Rightarrow> wrong
                   | Some v \<Rightarrow>
                       (case Login trust_proxy now rnd r (usr_id v) t of
                          None \<Rightarrow> (internal_error, t)
                        | Some (c, t') \<Rightarrow> (SignsIn c to, t'))))"

definition logout :: "bool \<Rightarrow> request \<Rightarrow> auth_tables \<Rightarrow> answer \<times> auth_tables" where
  "logout trust_proxy r t = (case Logout trust_proxy r t of (c, t') \<Rightarrow> (SignsOut c ''/login'', t'))"

section \<open>Creating users\<close>

datatype creation = Created user | Exists | Problem string | Failed

definition createUser :: "sign_in_lib \<Rightarrow> time \<Rightarrow> string \<Rightarrow> string \<Rightarrow> string \<Rightarrow> bool \<Rightarrow> auth_tables
    \<Rightarrow> creation \<times> auth_tables" where
  "createUser lib now email name password first t =
     (let email = normal_email email; name = trim_space name
      in if CHR ''@'' \<notin> set email \<or> 254 < length email then (Problem ''A valid email is required.'', t)
         else if length password < 10 then (Problem ''The password needs at least 10 characters.'', t)
         else case sl_hash lib password of
                None \<Rightarrow> (Failed, t)
              | Some hash \<Rightarrow>
                  if first
                  then (case CreateFirstUser now email name hash t of
                          (None, t') \<Rightarrow> (Exists, t') | (Some u, t') \<Rightarrow> (Created u, t'))
                  else (case CreateUser now email name hash t of
                          None \<Rightarrow> (Problem ''That email already has an account.'', t)
                        | Some (u, t') \<Rightarrow> (Created u, t')))"

definition setupPage :: "auth_tables \<Rightarrow> answer" where
  "setupPage t = (if 0 < CountUsers t then Replies (SeeOther ''/login'') else Shows 200 (SetupPage []))"

definition setup_user :: "sign_in_lib \<Rightarrow> bool \<Rightarrow> time \<Rightarrow> nat list \<Rightarrow> request \<Rightarrow> form option \<Rightarrow> auth_tables
    \<Rightarrow> answer \<times> auth_tables" where
  "setup_user lib trust_proxy now rnd r form t =
     (case form of
        None \<Rightarrow> (bad_form, t)
      | Some get \<Rightarrow>
          (case createUser lib now (get ''email'') (get ''name'') (get ''password'') True t of
             (Failed, t') \<Rightarrow> (internal_error, t')
           | (Exists, t') \<Rightarrow> (Replies (SeeOther ''/login''), t')
           | (Problem m, t') \<Rightarrow> (Shows 400 (SetupPage m), t')
           | (Created u, t') \<Rightarrow>
               (case Login trust_proxy now rnd r (usr_id u) t' of
                  None \<Rightarrow> (internal_error, t')
                | Some (c, t2) \<Rightarrow> (SignsIn c ''/'', t2))))"

section \<open>The account page\<close>

definition accountPage :: "string \<Rightarrow> string \<Rightarrow> auth_tables \<Rightarrow> answer" where
  "accountPage secret problem t = Shows 200 (AccountPage (ListUsers t) (ListAPIKeys t) secret problem)"

definition accountUserAdd :: "sign_in_lib \<Rightarrow> time \<Rightarrow> form option \<Rightarrow> auth_tables \<Rightarrow> answer \<times> auth_tables" where
  "accountUserAdd lib now form t =
     (case form of
        None \<Rightarrow> (bad_form, t)
      | Some get \<Rightarrow>
          (case createUser lib now (get ''email'') (get ''name'') (get ''password'') False t of
             (Failed, t') \<Rightarrow> (internal_error, t')
           | (Problem m, t') \<Rightarrow> (accountPage [] m t', t')
           | (_, t') \<Rightarrow> (Replies (SeeOther ''/account''), t')))"

definition accountUserDelete :: "actor \<Rightarrow> string \<Rightarrow> auth_tables \<Rightarrow> answer \<times> auth_tables" where
  "accountUserDelete me path_id t =
     (case atoi path_id of
        None \<Rightarrow> (not_found, t)
      | Some i \<Rightarrow>
          if i = ac_user me then (Replies (HttpError 400 ''you cannot remove your own account''), t)
          else (Replies (SeeOther ''/account''), snd (DeleteUser i t)))"

definition accountKeyCreate :: "actor \<Rightarrow> time \<Rightarrow> nat list \<Rightarrow> form option \<Rightarrow> auth_tables \<Rightarrow> answer \<times> auth_tables" where
  "accountKeyCreate me now rnd form t =
     (case form of
        None \<Rightarrow> (bad_form, t)
      | Some get \<Rightarrow>
          (let name = trim_space (get ''name'')
           in if name = [] \<or> 80 < length name
              then (accountPage [] ''The key needs a name (what will use it).'' t, t)
              else case new_api_key now rnd name (Some (ac_user me)) t of
                     None \<Rightarrow> (internal_error, t)
                   | Some (k, secret, t') \<Rightarrow> (accountPage secret [] t', t')))"

definition accountKeyRevoke :: "time \<Rightarrow> string \<Rightarrow> auth_tables \<Rightarrow> answer \<times> auth_tables" where
  "accountKeyRevoke now path_id t =
     (case atoi path_id of
        None \<Rightarrow> (not_found, t)
      | Some i \<Rightarrow> (Replies (SeeOther ''/account''), snd (RevokeAPIKey now i t)))"

text \<open>\<open>actorName\<close>: who is recorded as having changed an issue.\<close>

definition actorName :: "actor \<Rightarrow> string option" where
  "actorName me = (if ac_name me \<noteq> [] then Some (ac_name me) else None)"

section \<open>Properties\<close>

definition signs_in_as :: "sign_in_lib \<Rightarrow> form \<Rightarrow> auth_tables \<Rightarrow> user \<Rightarrow> bool" where
  "signs_in_as lib get t u \<longleftrightarrow>
     GetUserByEmail t (normal_email (get ''email'')) = Some u \<and> sl_check lib (usr_password_hash u) (get ''password'')"

lemma Login_session:
  "Login tp now rnd r i t = Some (c, t') \<Longrightarrow>
    au_sessions t' = au_sessions t @ [\<lparr>uz_token_hash = HashToken (co_value c), uz_user = i, uz_expires_at = now + SessionTTL\<rparr>]"
  by (auto simp: Login_def CreateUserSession_def session_cookie_def Let_def split: if_splits)

text \<open>
  C15. Signing in takes the password: whoever is signed in gave the password of an existing account and
  gets a session of that account only; anyone else finds the tables as they were, and a wrong password
  is answered exactly as an unknown address - the answer depends on the form alone, so it does not tell
  which accounts exist.
\<close>

theorem login_needs_password:
  "case login lib tp now rnd r (Some get) t of
      (SignsIn c to, t') \<Rightarrow>
        (\<exists>u. signs_in_as lib get t u \<and> to = safeNext lib (get ''next'')
           \<and> au_sessions t' = au_sessions t @ [\<lparr>uz_token_hash = HashToken (co_value c), uz_user = usr_id u,
                                               uz_expires_at = now + SessionTTL\<rparr>])
    | (a, t') \<Rightarrow> t' = t
        \<and> a = (if \<exists>u. signs_in_as lib get t u then internal_error
               else Shows 401 (LoginPage (safeNext lib (get ''next'')) ''Wrong email or password.''))"
proof (cases "GetUserByEmail t (normal_email (get ''email''))")
  case None
  then show ?thesis by (simp add: login_def signs_in_as_def [abs_def] Let_def)
next
  case (Some u)
  show ?thesis
  proof (cases "sl_check lib (usr_password_hash u) (get ''password'')")
    case True
    then show ?thesis
    proof (cases "Login tp now rnd r (usr_id u) t")
      case None
      with Some True show ?thesis by (simp add: login_def signs_in_as_def [abs_def] internal_error_def Let_def)
    next
      case l: (Some x)
      obtain c t' where x: "x = (c, t')" by (cases x)
      with l Some True Login_session [of tp now rnd r "usr_id u" t c t'] show ?thesis
        by (simp add: login_def signs_in_as_def [abs_def] Let_def)
    qed
  qed (use Some in \<open>simp add: login_def signs_in_as_def [abs_def] Let_def\<close>)
qed

text \<open>
  A user cannot remove the own account, but two users can remove each other: both requests pass the
  session check before either deletion. No user is left, and the public setup page is open again.
\<close>

lemma users_remove_each_other:
  assumes "au_users t = [a, b]" and "usr_id a \<noteq> usr_id b" and "- (2 ^ 63) \<le> usr_id a" "usr_id a < 2 ^ 63"
    and "- (2 ^ 63) \<le> usr_id b" "usr_id b < 2 ^ 63"
  shows "setupPage (snd (accountUserDelete (user_actor b) (itoa_int (usr_id a))
           (snd (accountUserDelete (user_actor a) (itoa_int (usr_id b)) t)))) = Shows 200 (SetupPage [])"
  using assms by (simp add: accountUserDelete_def atoi_itoa user_actor_def DeleteUser_def delete_where_def setupPage_def CountUsers_def)

end
