(* ===== verification/Alerts.thy ===== *)
theory Alerts
  imports Monitors Accounts EventStore Rollup Envelope Access
begin

text \<open>
  \<open>internal/alerts/alerts.go\<close> with its tables (\<open>internal/store/alerts.go\<close>, \<open>internal/store/push.go\<close>): the rules
  with their cooldown, spikes, the check of ignored issues, who is notified and with what text, and which
  webhook addresses are refused. Encoding JSON and the outcome of an HTTP call are parameters; a mean is a
  rational (the division by 24 and the product with 3 are exact enough in 64-bit floats to compare the same).
\<close>

section \<open>The tables\<close>

record alert_rule =
  ar_project :: project_id
  ar_type :: AlertType
  ar_enabled :: bool
  ar_cooldown :: int
  ar_last_triggered :: "time option"

abbreviation rule_key :: "alert_rule \<Rightarrow> project_id \<times> AlertType" where
  "rule_key r \<equiv> (ar_project r, ar_type r)"

record alert_channel =
  ch_id :: int
  ch_project :: project_id
  ch_kind :: ChannelKind
  ch_config :: string
  ch_created_at :: time

record push_device =
  pd_id :: int
  pd_api_key :: int
  pd_token :: string
  pd_platform :: string
  pd_created_at :: time

record alert_tables =
  al_rules :: "alert_rule list"
  al_channels :: "alert_channel list"
  al_next_channel :: int
  al_devices :: "push_device list"
  al_next_device :: int
  al_subscriptions :: "(int \<times> project_id) list"

definition GetAlertRule :: "alert_rule list \<Rightarrow> project_id \<Rightarrow> AlertType \<Rightarrow> alert_rule option" where
  "GetAlertRule t pid typ = lookup_by rule_key (pid, typ) t"

definition ListAlertRules :: "alert_rule list \<Rightarrow> project_id \<Rightarrow> alert_rule list" where
  "ListAlertRules t pid =
     concat (map (\<lambda>typ. filter (\<lambda>r. ar_project r = pid \<and> ar_type r = typ) t) alert_type_values)"

definition UpsertAlertRule :: "project_id \<Rightarrow> AlertType \<Rightarrow> bool \<Rightarrow> int \<Rightarrow> alert_rule list \<Rightarrow> alert_rule list" where
  "UpsertAlertRule pid typ enabled cooldown t =
     upsert rule_key (\<lambda>old new. old\<lparr>ar_enabled := ar_enabled new, ar_cooldown := ar_cooldown new\<rparr>)
       \<lparr>ar_project = pid, ar_type = typ, ar_enabled = enabled, ar_cooldown = cooldown, ar_last_triggered = None\<rparr> t"

definition EnsureAlertRules :: "project_id \<Rightarrow> int \<Rightarrow> alert_rule list \<Rightarrow> alert_rule list" where
  "EnsureAlertRules pid cooldown t =
     fold (\<lambda>typ. insert_nothing rule_key
             \<lparr>ar_project = pid, ar_type = typ, ar_enabled = True, ar_cooldown = cooldown, ar_last_triggered = None\<rparr>)
       [AlertTypeNewIssue, AlertTypeRegression, AlertTypeUnhandledSpike, AlertTypeEscalating, AlertTypeMonitorFailed,
        AlertTypeMonitorRecovered] t"

definition claimable_rule :: "time \<Rightarrow> project_id \<Rightarrow> AlertType \<Rightarrow> alert_rule \<Rightarrow> bool" where
  "claimable_rule now pid typ r \<longleftrightarrow> rule_key r = (pid, typ) \<and> ar_enabled r
     \<and> (case ar_last_triggered r of None \<Rightarrow> True | Some t \<Rightarrow> t < now - ar_cooldown r * minute)"

text \<open>\<open>ClaimAlertRule\<close>: the time of the last alert before the claim; \<open>None\<close> when no row matches.\<close>

definition ClaimAlertRule :: "time \<Rightarrow> project_id \<Rightarrow> AlertType \<Rightarrow> alert_rule list \<Rightarrow> time option option \<times> alert_rule list" where
  "ClaimAlertRule now pid typ t =
     (map_option ar_last_triggered (find (claimable_rule now pid typ) t),
      update_where (claimable_rule now pid typ) (\<lambda>r. r\<lparr>ar_last_triggered := Some now\<rparr>) t)"

definition UnclaimAlertRule :: "project_id \<Rightarrow> AlertType \<Rightarrow> time option \<Rightarrow> alert_rule list \<Rightarrow> alert_rule list" where
  "UnclaimAlertRule pid typ previous t =
     update_where (\<lambda>r. rule_key r = (pid, typ)) (\<lambda>r. r\<lparr>ar_last_triggered := previous\<rparr>) t"

definition ListAlertChannels :: "alert_tables \<Rightarrow> project_id \<Rightarrow> alert_channel list" where
  "ListAlertChannels t pid = sort_key ch_id (filter (\<lambda>c. ch_project c = pid) (al_channels t))"

definition CreateAlertChannel :: "time \<Rightarrow> project_id \<Rightarrow> ChannelKind \<Rightarrow> string \<Rightarrow> alert_tables
    \<Rightarrow> alert_channel \<times> alert_tables" where
  "CreateAlertChannel now pid kind config t =
     (let c = \<lparr>ch_id = al_next_channel t, ch_project = pid, ch_kind = kind, ch_config = config, ch_created_at = now\<rparr>
      in (c, t\<lparr>al_channels := al_channels t @ [c], al_next_channel := al_next_channel t + 1\<rparr>))"

definition DeleteAlertChannel :: "project_id \<Rightarrow> int \<Rightarrow> alert_tables \<Rightarrow> nat \<times> alert_tables" where
  "DeleteAlertChannel pid i t =
     (let hit = (\<lambda>c. ch_project c = pid \<and> ch_id c = i)
      in (length (filter hit (al_channels t)), t\<lparr>al_channels := delete_where hit (al_channels t)\<rparr>))"

definition UpsertPushDevice :: "time \<Rightarrow> int \<Rightarrow> string \<Rightarrow> string \<Rightarrow> alert_tables \<Rightarrow> alert_tables" where
  "UpsertPushDevice now key token platform t =
     t\<lparr>al_devices := upsert pd_token (\<lambda>old new. old\<lparr>pd_api_key := pd_api_key new, pd_platform := pd_platform new\<rparr>)
         \<lparr>pd_id = al_next_device t, pd_api_key = key, pd_token = token, pd_platform = platform, pd_created_at = now\<rparr> (al_devices t),
       al_next_device := al_next_device t + 1\<rparr>"

text \<open>A deleted device takes its subscriptions with it.\<close>

definition DeletePushDevice :: "int \<Rightarrow> int \<Rightarrow> alert_tables \<Rightarrow> nat \<times> alert_tables" where
  "DeletePushDevice key i t =
     (let hit = (\<lambda>d. pd_api_key d = key \<and> pd_id d = i); gone = map pd_id (filter hit (al_devices t))
      in (length gone, t\<lparr>al_devices := delete_where hit (al_devices t),
                        al_subscriptions := delete_where (\<lambda>s. fst s \<in> set gone) (al_subscriptions t)\<rparr>))"

definition owns_device :: "alert_tables \<Rightarrow> int \<Rightarrow> int \<Rightarrow> bool" where
  "owns_device t key i \<longleftrightarrow> list_ex (\<lambda>d. pd_id d = i \<and> pd_api_key d = key) (al_devices t)"

definition SubscribePush :: "int \<Rightarrow> int \<Rightarrow> project_id \<Rightarrow> alert_tables \<Rightarrow> bool \<times> alert_tables" where
  "SubscribePush key i pid t =
     (if owns_device t key i
      then (True, t\<lparr>al_subscriptions := insert_nothing (\<lambda>s. s) (i, pid) (al_subscriptions t)\<rparr>) else (False, t))"

definition UnsubscribePush :: "int \<Rightarrow> int \<Rightarrow> project_id \<Rightarrow> alert_tables \<Rightarrow> nat \<times> alert_tables" where
  "UnsubscribePush key i pid t =
     (let hit = (\<lambda>s. s = (i, pid) \<and> owns_device t key i)
      in (length (filter hit (al_subscriptions t)), t\<lparr>al_subscriptions := delete_where hit (al_subscriptions t)\<rparr>))"

definition ListPushSubscribers :: "alert_tables \<Rightarrow> project_id \<Rightarrow> push_device list" where
  "ListPushSubscribers t pid = filter (\<lambda>d. (pd_id d, pid) \<in> set (al_subscriptions t)) (al_devices t)"

section \<open>The message\<close>

record payload =
  py_type :: AlertType
  py_project :: string
  py_slug :: string
  py_title :: string
  py_fingerprint :: string
  py_level :: string
  py_event_count :: int
  py_first_release :: "string option"
  py_last_release :: "string option"
  py_more :: "int option"
  py_recent :: "int option"
  py_baseline :: "int option"
  py_url :: string

definition payload0 :: payload where
  "payload0 = \<lparr>py_type = AlertTypeNewIssue, py_project = [], py_slug = [], py_title = [], py_fingerprint = [], py_level = [],
     py_event_count = 0, py_first_release = None, py_last_release = None, py_more = None, py_recent = None,
     py_baseline = None, py_url = []\<rparr>"

text \<open>\<open>strconv\<close>'s \<open>%.1f\<close> of \<open>baseline / 24\<close>: the nearest tenth, a tie to the even one.\<close>

definition tenths :: "nat \<Rightarrow> nat" where
  "tenths b = (let q = 10 * b div 24; r = 10 * b mod 24 in if 12 < r \<or> r = 12 \<and> odd q then q + 1 else q)"

definition mean_text :: "int \<Rightarrow> string" where
  "mean_text b =
     (let t = tenths (nat \<bar>b\<bar>); s = itoa (t div 10) @ ''.'' @ itoa (t mod 10) in if b < 0 then ''-'' @ s else s)"

definition middle_dot :: string where "middle_dot = of_bytes [194, 183]"

definition slackEscape :: "string \<Rightarrow> string" where
  "slackEscape s = concat (map (\<lambda>c. if c = CHR ''&'' then ''&amp;'' else if c = CHR ''<'' then ''&lt;''
     else if c = CHR ''>'' then ''&gt;'' else [c]) s)"

definition headline :: "AlertType \<Rightarrow> string" where
  "headline typ = (case typ of
       AlertTypeNewIssue \<Rightarrow> ''New issue''
     | AlertTypeRegression \<Rightarrow> ''Regression''
     | AlertTypeUnhandledSpike \<Rightarrow> ''Unhandled error spike''
     | AlertTypeEscalating \<Rightarrow> ''Escalating''
     | AlertTypeMonitorFailed \<Rightarrow> ''Monitor failed''
     | AlertTypeMonitorRecovered \<Rightarrow> ''Monitor recovered'')"

definition chatText :: "payload \<Rightarrow> (string \<Rightarrow> string) \<Rightarrow> string" where
  "chatText p escape_title =
     headline (py_type p) @ '' in '' @ py_project p @ [newline] @ escape_title (py_title p)
     @ (if py_type p \<in> {AlertTypeUnhandledSpike, AlertTypeMonitorFailed, AlertTypeMonitorRecovered} then []
        else [newline] @ py_level p @ '' '' @ middle_dot @ '' '' @ itoa_int (py_event_count p) @ '' events''
             @ (case py_last_release p of
                  None \<Rightarrow> []
                | Some r \<Rightarrow> if r = [] then [] else '' '' @ middle_dot @ '' release '' @ r))
     @ (case (py_recent p, py_baseline p) of
          (Some r, Some b) \<Rightarrow>
            if py_type p = AlertTypeEscalating
            then [newline] @ itoa_int r @ '' in the last hour (was '' @ mean_text b @ ''/h when ignored)'' else []
        | _ \<Rightarrow> [])
     @ (case py_more p of None \<Rightarrow> [] | Some n \<Rightarrow> [newline] @ ''+'' @ itoa_int n @ '' more new issues since the last alert'')
     @ (if py_url p = [] then [] else newline # py_url p)"

definition TelegramText :: "payload \<Rightarrow> string" where "TelegramText p = chatText p (\<lambda>s. s)"
definition SlackText :: "payload \<Rightarrow> string" where "SlackText p = chatText p slackEscape"

section \<open>Sending\<close>

text \<open>
  \<open>nl_post\<close>: whether a POST to the target with the body is answered with 2xx; \<open>nl_push\<close>: whether FCM takes
  the message with this title and body for the device. \<open>nl_config\<close> reads the \<open>url\<close> and \<open>chat_id\<close> of a channel.
\<close>

record notify_lib =
  nl_public_url :: string
  nl_telegram_token :: string
  nl_config :: "string \<Rightarrow> (string \<times> string) option"
  nl_payload_json :: "payload \<Rightarrow> string"
  nl_slack_json :: "string \<Rightarrow> string"
  nl_telegram_json :: "string \<Rightarrow> string \<Rightarrow> string"
  nl_post :: "string \<Rightarrow> string \<Rightarrow> bool"
  nl_push :: "push_device \<Rightarrow> string \<Rightarrow> string \<Rightarrow> payload \<Rightarrow> bool"

definition TelegramAPI :: string where "TelegramAPI = ''https://api.telegram.org''"

definition send :: "notify_lib \<Rightarrow> alert_channel \<Rightarrow> payload \<Rightarrow> bool" where
  "send lib ch p =
     (case nl_config lib (ch_config ch) of
        None \<Rightarrow> False
      | Some (url, chat) \<Rightarrow>
          (case ch_kind ch of
             ChannelKindWebhook \<Rightarrow> url \<noteq> [] \<and> nl_post lib url (nl_payload_json lib p)
           | ChannelKindSlack \<Rightarrow> url \<noteq> [] \<and> nl_post lib url (nl_slack_json lib (SlackText p))
           | ChannelKindTelegram \<Rightarrow> nl_telegram_token lib \<noteq> [] \<and> chat \<noteq> []
               \<and> nl_post lib (TelegramAPI @ ''/bot'' @ nl_telegram_token lib @ ''/sendMessage'')
                   (nl_telegram_json lib chat (TelegramText p))))"

definition sendPush :: "notify_lib \<Rightarrow> push_device \<Rightarrow> payload \<Rightarrow> bool" where
  "sendPush lib d p = (case cut_byte newline (TelegramText p) of (title, body, _) \<Rightarrow> nl_push lib d title body p)"

definition notify :: "notify_lib \<Rightarrow> alert_tables \<Rightarrow> project_id \<Rightarrow> payload \<Rightarrow> nat" where
  "notify lib t pid p =
     length (filter (\<lambda>c. send lib c p) (ListAlertChannels t pid))
     + length (filter (\<lambda>d. sendPush lib d p) (ListPushSubscribers t pid))"

text \<open>\<open>deliver\<close>: the tables after it, and whether something was delivered.\<close>

definition deliver :: "notify_lib \<Rightarrow> time \<Rightarrow> project_id \<Rightarrow> AlertType \<Rightarrow> (time option \<Rightarrow> payload) \<Rightarrow> alert_tables
    \<Rightarrow> bool \<times> alert_tables" where
  "deliver lib now pid typ build t =
     (case ClaimAlertRule now pid typ (al_rules t) of
        (None, _) \<Rightarrow> (False, t)
      | (Some previous, rules) \<Rightarrow>
          (let t' = t\<lparr>al_rules := rules\<rparr>
           in if notify lib t' pid (build previous) = 0
              then (False, t'\<lparr>al_rules := UnclaimAlertRule pid typ previous rules\<rparr>)
              else (True, t')))"

text \<open>\<open>url.PathEscape\<close>.\<close>

definition PathEscape :: "string \<Rightarrow> string" where
  "PathEscape s =
     concat (map (\<lambda>c. if unreserved c \<or> c \<in> {CHR ''$'', CHR ''&'', CHR ''+'', CHR ''='', CHR '':'', CHR ''@''} then [c]
       else [CHR ''%'', upper_hex (of_char c div 16), upper_hex (of_char c mod 16)]) s)"

definition link :: "notify_lib \<Rightarrow> string \<Rightarrow> string \<Rightarrow> string" where
  "link lib slug path = nl_public_url lib @ ''/p/'' @ PathEscape slug @ path"

section \<open>The alerts\<close>

text \<open>A rule of a project that is gone violates its foreign key, so without the project nothing is ensured.\<close>

datatype alert_error = UnknownType | NoProject project_id

definition defaultCooldown :: int where "defaultCooldown = 60"

definition EnsureRules :: "project_id \<Rightarrow> alert_tables \<Rightarrow> alert_tables" where
  "EnsureRules pid t = t\<lparr>al_rules := EnsureAlertRules pid defaultCooldown (al_rules t)\<rparr>"

definition issue_payload :: "notify_lib \<Rightarrow> AlertType \<Rightarrow> project \<Rightarrow> issue \<Rightarrow> string \<Rightarrow> payload" where
  "issue_payload lib typ p i path_id =
     payload0\<lparr>py_type := typ, py_project := pj_name p, py_slug := pj_slug p, py_title := is_title i,
       py_fingerprint := is_fingerprint i, py_level := event_level_text (is_level i), py_event_count := is_event_count i,
       py_first_release := is_first_release i, py_last_release := is_last_release i,
       py_url := link lib (pj_slug p) (''/issues/'' @ PathEscape path_id)\<rparr>"

definition Issue :: "notify_lib \<Rightarrow> time \<Rightarrow> issues \<Rightarrow> project_tables \<Rightarrow> project_id \<Rightarrow> AlertType \<Rightarrow> string \<Rightarrow> alert_tables
    \<Rightarrow> alert_error + bool \<times> alert_tables" where
  "Issue lib now is ps pid typ fingerprint t =
     (if typ \<noteq> AlertTypeNewIssue \<and> typ \<noteq> AlertTypeRegression then Inl UnknownType
      else case ParseID fingerprint of
             None \<Rightarrow> Inr (False, t)
           | Some fp \<Rightarrow>
               (case GetIssue is pid fp of
                  None \<Rightarrow> Inr (False, t)
                | Some i \<Rightarrow>
                    and_then (or_error (NoProject pid) (GetProjectByID ps pid)) (\<lambda>p.
                      Inr (deliver lib now pid typ (\<lambda>previous.
                        let base = issue_payload lib typ p i fingerprint
                        in case previous of
                             None \<Rightarrow> base
                           | Some since \<Rightarrow>
                               let more = int (CountNewIssues is pid since)
                               in if typ = AlertTypeNewIssue \<and> 1 < more then base\<lparr>py_more := Some (more - 1)\<rparr> else base) t))))"

section \<open>Spikes\<close>

definition MinSpikeUnhandled :: int where "MinSpikeUnhandled = 10"
definition SpikeFactor :: rat where "SpikeFactor = 3"

definition IsSpike :: "int \<Rightarrow> int \<Rightarrow> bool" where
  "IsSpike recent baseline \<longleftrightarrow> MinSpikeUnhandled \<le> recent \<and> SpikeFactor * (of_int baseline / 24) \<le> of_int recent"

text \<open>\<open>UnhandledSpikeInputs\<close>: the projects and the rolled hours joined; the order of SQL's rows is not fixed.\<close>

definition UnhandledSpikeInputs :: "project_id list \<Rightarrow> event_row list \<Rightarrow> event_stat list \<Rightarrow> time \<Rightarrow> time \<Rightarrow> time
    \<Rightarrow> (project_id \<times> int \<times> int) list" where
  "UnhandledSpikeInputs pids es stats recent_from base_from base_to =
     (let in_base = filter (\<lambda>s. base_from \<le> es_bucket s \<and> es_bucket s < base_to) stats;
          recent = (\<lambda>p. if p \<in> set pids
            then int (length (filter (\<lambda>e. er_project e = p \<and> recent_from \<le> er_occurred_at e \<and> er_handled e = Some False) es)) else 0);
          base = (\<lambda>p. int (sum_list (map es_unhandled (filter (\<lambda>s. es_project s = p) in_base))))
      in filter (\<lambda>(p, r, b). 0 < r \<or> 0 < b) (map (\<lambda>p. (p, recent p, base p)) (remdups (pids @ map es_project in_base))))"

definition spike :: "notify_lib \<Rightarrow> time \<Rightarrow> project_tables \<Rightarrow> project_id \<Rightarrow> int \<Rightarrow> int \<Rightarrow> alert_tables
    \<Rightarrow> alert_error option \<times> alert_tables" where
  "spike lib now ps pid recent baseline t =
     (case GetProjectByID ps pid of
        None \<Rightarrow> (Some (NoProject pid), t)
      | Some p \<Rightarrow>
          (None, snd (deliver lib now pid AlertTypeUnhandledSpike (\<lambda>_.
                payload0\<lparr>py_type := AlertTypeUnhandledSpike, py_project := pj_name p, py_slug := pj_slug p,
                  py_title := ''Unhandled error spike: '' @ itoa_int recent @ '' unhandled errors in the last hour (baseline ''
                    @ mean_text baseline @ ''/h)'',
                  py_level := ''fatal'', py_recent := Some recent, py_baseline := Some baseline,
                  py_url := link lib (pj_slug p) ''?handled=false&range=1h''\<rparr>) (EnsureRules pid t))))"

definition spike_step :: "notify_lib \<Rightarrow> time \<Rightarrow> project_tables \<Rightarrow> project_id \<times> int \<times> int
    \<Rightarrow> alert_error list \<times> alert_tables \<Rightarrow> alert_error list \<times> alert_tables" where
  "spike_step lib now ps x acc =
     (case (x, acc) of
        ((pid, recent, baseline), (errs, t)) \<Rightarrow>
          if \<not> IsSpike recent baseline then acc
          else (case spike lib now ps pid recent baseline t of
                  (None, t') \<Rightarrow> (errs, t') | (Some e, t') \<Rightarrow> (errs @ [e], t')))"

definition CheckSpikes :: "notify_lib \<Rightarrow> time \<Rightarrow> project_tables \<Rightarrow> event_row list \<Rightarrow> event_stat list \<Rightarrow> alert_tables
    \<Rightarrow> alert_error list \<times> alert_tables" where
  "CheckSpikes lib now ps es stats t =
     (let recent_from = now - hour; base_to = truncate_time recent_from hour
      in fold (spike_step lib now ps)
           (UnhandledSpikeInputs (map pj_id (pt_projects ps)) es stats recent_from (base_to - 24 * hour) base_to) ([], t))"

section \<open>Ignored issues\<close>

definition escalate :: "notify_lib \<Rightarrow> time \<Rightarrow> project_tables \<Rightarrow> issue \<Rightarrow> int \<Rightarrow> int \<Rightarrow> alert_tables
    \<Rightarrow> alert_error option \<times> alert_tables" where
  "escalate lib now ps i recent baseline t =
     (case GetProjectByID ps (is_project i) of
        None \<Rightarrow> (Some (NoProject (is_project i)), t)
      | Some p \<Rightarrow>
          (None, snd (deliver lib now (is_project i) AlertTypeEscalating
               (\<lambda>_. (issue_payload lib AlertTypeEscalating p i (is_fingerprint i))\<lparr>py_recent := Some recent, py_baseline := Some baseline\<rparr>)
               (EnsureRules (is_project i) t))))"

record ignored_state =
  gn_errors :: "alert_error list"
  gn_issues :: issues
  gn_alerts :: alert_tables

definition escalate_step :: "notify_lib \<Rightarrow> time \<Rightarrow> project_tables \<Rightarrow> project_id \<times> id_text \<times> int \<times> int
    \<Rightarrow> ignored_state \<Rightarrow> ignored_state" where
  "escalate_step lib now ps x s =
     (case x of (pid, fp, baseline, recent) \<Rightarrow>
        if \<not> IsSpike recent baseline then s
        else (case EscalateIssue now pid fp (gn_issues s) of
                (None, _) \<Rightarrow> s
              | (Some i, is) \<Rightarrow>
                  (case escalate lib now ps i recent baseline (gn_alerts s) of
                     (err, t) \<Rightarrow>
                       s\<lparr>gn_errors := gn_errors s @ (case err of None \<Rightarrow> [] | Some e \<Rightarrow> [e]), gn_issues := is, gn_alerts := t\<rparr>)))"

definition CheckIgnored :: "notify_lib \<Rightarrow> time \<Rightarrow> project_tables \<Rightarrow> event_row list \<Rightarrow> issues \<Rightarrow> alert_tables \<Rightarrow> ignored_state" where
  "CheckIgnored lib now ps es is t =
     (let is1 = snd (UnignoreDue now is)
      in fold (escalate_step lib now ps) (EscalationInputs is1 es (now - hour))
           \<lparr>gn_errors = [], gn_issues = is1, gn_alerts = t\<rparr>)"

section \<open>Monitors\<close>

text \<open>\<open>Monitor\<close> of \<open>internal/alerts/monitors.go\<close>: the delivery of a monitor's alert.\<close>

definition Monitor :: "notify_lib \<Rightarrow> time \<Rightarrow> monitors \<Rightarrow> project_tables \<Rightarrow> project_id \<Rightarrow> AlertType \<Rightarrow> string \<Rightarrow> alert_tables
    \<Rightarrow> alert_error + bool \<times> alert_tables" where
  "Monitor lib now ms ps pid typ slug t =
     (if typ \<noteq> AlertTypeMonitorFailed \<and> typ \<noteq> AlertTypeMonitorRecovered then Inl UnknownType
      else case GetMonitor ms pid slug of
             None \<Rightarrow> Inr (False, t)
           | Some m \<Rightarrow>
               and_then (or_error (NoProject pid) (GetProjectByID ps pid)) (\<lambda>p.
                     Inr (deliver lib now pid typ (\<lambda>_. payload0\<lparr>py_type := typ, py_project := pj_name p, py_slug := pj_slug p,
                       py_title := (if typ = AlertTypeMonitorFailed
                         then mo_slug m @ '': '' @ itoa_int (mo_failures m) @ '' consecutive failed check-ins (threshold ''
                                @ itoa_int (mo_failure_threshold m) @ '')''
                         else mo_slug m @ '': recovered after '' @ itoa_int (mo_successes m) @ '' consecutive successful check-ins''),
                       py_url := link lib (pj_slug p) (''/monitors/'' @ PathEscape (mo_slug m))\<rparr>) (EnsureRules pid t))))"

section \<open>The cooldown\<close>

lemma rule_lookup_update:
  assumes "\<And>r. rule_key (f r) = rule_key r"
  shows "GetAlertRule (update_where P f t) pid typ = map_option (\<lambda>r. if P r then f r else r) (GetAlertRule t pid typ)"
proof -
  have "rule_key (if P x then f x else x) = rule_key x" for x using assms by simp
  then show ?thesis by (induction t) (simp_all add: GetAlertRule_def lookup_by_def update_where_def del: prod.inject)
qed

text \<open>Claiming and giving back restores the rules.\<close>

lemma unclaim_claim:
  assumes "unique_by rule_key t" and r: "GetAlertRule t pid typ = Some r" and "claimable_rule now pid typ r"
  shows "UnclaimAlertRule pid typ (ar_last_triggered r)
           (update_where (claimable_rule now pid typ) (\<lambda>r. r\<lparr>ar_last_triggered := Some now\<rparr>) t) = t"
proof -
  have mem: "r \<in> set t" "rule_key r = (pid, typ)"
    using lookup_by_Some [of rule_key "(pid, typ)" t r] r by (simp_all add: GetAlertRule_def)
  have only: "x = r" if "x \<in> set t" "rule_key x = (pid, typ)" for x
    using unique_by_same [OF assms(1) that(1) mem(1)] that(2) mem(2) by simp
  have off: "\<not> claimable_rule now pid typ x" if "rule_key x \<noteq> (pid, typ)" for x using that by (auto simp: claimable_rule_def)
  have "map (\<lambda>x. let y = (if claimable_rule now pid typ x then x\<lparr>ar_last_triggered := Some now\<rparr> else x)
             in if rule_key y = (pid, typ) then y\<lparr>ar_last_triggered := ar_last_triggered r\<rparr> else y) t = map (\<lambda>x. x) t"
  proof (rule map_cong [OF refl])
    fix x assume x: "x \<in> set t"
    show "(let y = (if claimable_rule now pid typ x then x\<lparr>ar_last_triggered := Some now\<rparr> else x)
             in if rule_key y = (pid, typ) then y\<lparr>ar_last_triggered := ar_last_triggered r\<rparr> else y) = x"
    proof (cases "rule_key x = (pid, typ)")
      case True
      with only [OF x] assms(3) mem(2) show ?thesis by simp
    next
      case False
      with off [OF False] show ?thesis by (simp add: Let_def del: prod.inject)
    qed
  qed
  then show ?thesis by (simp add: UnclaimAlertRule_def update_where_def comp_def Let_def)
qed

lemma claim_found:
  assumes "unique_by rule_key t" and r: "GetAlertRule t pid typ = Some r"
  shows "find (claimable_rule now pid typ) t = (if claimable_rule now pid typ r then Some r else None)"
proof -
  have mem: "r \<in> set t" "rule_key r = (pid, typ)"
    using lookup_by_Some [of rule_key "(pid, typ)" t r] r by (simp_all add: GetAlertRule_def)
  have only: "x = r" if "x \<in> set t" "claimable_rule now pid typ x" for x
    using unique_by_same [OF assms(1) that(1) mem(1)] that(2) mem(2) by (simp add: claimable_rule_def)
  show ?thesis
  proof (cases "find (claimable_rule now pid typ) t")
    case None
    with mem(1) show ?thesis by (auto simp: find_None_iff)
  next
    case (Some x)
    then have "x \<in> set t" "claimable_rule now pid typ x" by (auto simp: find_Some_iff)
    with only Some show ?thesis by auto
  qed
qed

lemma deliver_rule:
  assumes d: "deliver lib now pid typ build t = (ok, t')" and u: "unique_by rule_key (al_rules t)"
    and r: "GetAlertRule (al_rules t) pid typ = Some r"
  shows "if ok then claimable_rule now pid typ r \<and> GetAlertRule (al_rules t') pid typ = Some (r\<lparr>ar_last_triggered := Some now\<rparr>)
             \<and> unique_by rule_key (al_rules t')
         else t' = t"
proof (cases "claimable_rule now pid typ r")
  case False
  then show ?thesis using d by (simp add: deliver_def ClaimAlertRule_def claim_found [OF u r])
next
  case True
  let ?rules = "update_where (claimable_rule now pid typ) (\<lambda>r. r\<lparr>ar_last_triggered := Some now\<rparr>) (al_rules t)"
  have "GetAlertRule ?rules pid typ = Some (r\<lparr>ar_last_triggered := Some now\<rparr>)"
    using True by (simp add: rule_lookup_update r)
  moreover have "unique_by rule_key ?rules" by (rule unique_update_where [OF _ u]) simp
  moreover note unclaim_claim [OF u r True]
  ultimately show ?thesis
    using d True by (auto simp: deliver_def ClaimAlertRule_def claim_found [OF u r] Let_def split: if_splits)
qed

text \<open>
  A run of attempts to deliver alerts of one project and type - by whichever replica, whatever the
  channels answer - and the times of those that were delivered.
\<close>

fun deliveries :: "project_id \<Rightarrow> AlertType \<Rightarrow> (notify_lib \<times> time \<times> (time option \<Rightarrow> payload)) list \<Rightarrow> alert_tables
    \<Rightarrow> time list \<times> alert_tables" where
  "deliveries pid typ [] t = ([], t)"
| "deliveries pid typ ((lib, now, build) # xs) t =
     (case deliver lib now pid typ build t of
        (ok, t1) \<Rightarrow> (case deliveries pid typ xs t1 of (ts, t2) \<Rightarrow> (if ok then now # ts else ts, t2)))"


definition example_rule :: alert_rule where
  "example_rule = \<lparr>ar_project = 1, ar_type = AlertTypeNewIssue, ar_enabled = True, ar_cooldown = 60, ar_last_triggered = None\<rparr>"

definition example_alerts :: alert_tables where
  "example_alerts = \<lparr>al_rules = [example_rule], al_channels = [\<lparr>ch_id = 1, ch_project = 1, ch_kind = ChannelKindWebhook,
     ch_config = [], ch_created_at = 0\<rparr>], al_next_channel = 2, al_devices = [], al_next_device = 1, al_subscriptions = []\<rparr>"

definition example_notify :: "bool \<Rightarrow> notify_lib" where
  "example_notify up = \<lparr>nl_public_url = [], nl_telegram_token = [], nl_config = (\<lambda>c. Some (''u'', [])),
     nl_payload_json = (\<lambda>p. []), nl_slack_json = id, nl_telegram_json = (\<lambda>a b. []), nl_post = (\<lambda>u b. up),
     nl_push = (\<lambda>d a b p. False)\<rparr>"

definition example_attempts :: "(notify_lib \<times> time \<times> (time option \<Rightarrow> payload)) list" where
  "example_attempts = [(example_notify False, 0, \<lambda>_. payload0), (example_notify True, 5, \<lambda>_. payload0),
     (example_notify True, 6, \<lambda>_. payload0), (example_notify True, 2 * hour, \<lambda>_. payload0)]"


section \<open>The check of ignored issues\<close>

definition escalates :: "time \<Rightarrow> event_row list \<Rightarrow> issue \<Rightarrow> bool" where
  "escalates now es i \<longleftrightarrow> escalating_ignored i
     \<and> IsSpike (int (length (filter (\<lambda>e. er_project e = is_project i \<and> er_fingerprint e = Some (is_fingerprint i)
                                 \<and> now - hour \<le> er_occurred_at e) es)))
         (case is_ignore_baseline i of None \<Rightarrow> 0 | Some n \<Rightarrow> n)"

lemma escalate_step_issues:
  "gn_issues (escalate_step lib now ps (pid, fp, baseline, recent) s)
   = update_where (\<lambda>i. issue_key i = (pid, fp) \<and> escalating_ignored i \<and> IsSpike recent baseline) (clear_ignore now) (gn_issues s)"
proof (cases "IsSpike recent baseline")
  case True
  let ?hit = "\<lambda>i. issue_key i = (pid, fp) \<and> escalating_ignored i"
  show ?thesis
  proof (cases "find ?hit (gn_issues s)")
    case None
    then have "EscalateIssue now pid fp (gn_issues s) = (None, update_where ?hit (clear_ignore now) (gn_issues s))"
      by (simp add: EscalateIssue_def Let_def del: prod.inject)
    moreover have "update_where ?hit (clear_ignore now) (gn_issues s) = gn_issues s"
      using None by (auto simp: update_where_def find_None_iff intro!: map_idI)
    ultimately show ?thesis using True by (simp add: escalate_step_def)
  next
    case (Some i)
    then have "EscalateIssue now pid fp (gn_issues s) = (Some (clear_ignore now i), update_where ?hit (clear_ignore now) (gn_issues s))"
      by (simp add: EscalateIssue_def Let_def del: prod.inject)
    with True show ?thesis by (simp add: escalate_step_def split_beta)
  qed
qed (simp add: escalate_step_def update_where_def)

lemma clear_ignore_simps: "issue_key (clear_ignore now i) = issue_key i" "\<not> escalating_ignored (clear_ignore now i)"
  by (simp_all add: clear_ignore_def escalating_ignored_def)

lemma escalate_fold_issues:
  "gn_issues (fold (escalate_step lib now ps) xs s)
   = update_where (\<lambda>i. escalating_ignored i \<and> (\<exists>b r. (is_project i, is_fingerprint i, b, r) \<in> set xs \<and> IsSpike r b))
       (clear_ignore now) (gn_issues s)"
proof (induction xs arbitrary: s)
  case (Cons x xs)
  obtain pid fp b r where x: "x = (pid, fp, b, r)" by (cases x) auto
  let ?hit = "\<lambda>i. issue_key i = (pid, fp) \<and> escalating_ignored i \<and> IsSpike r b"
  let ?more = "\<lambda>xs i. escalating_ignored i \<and> (\<exists>b r. (is_project i, is_fingerprint i, b, r) \<in> set xs \<and> IsSpike r b)"
  have first: "?hit i \<Longrightarrow> ?more (x # xs) i" for i by (auto simp: x)
  have later: "\<not> ?hit i \<Longrightarrow> ?more (x # xs) i \<longleftrightarrow> ?more xs i" for i by (auto simp: x)
  have "(if ?more xs (if ?hit i then clear_ignore now i else i) then clear_ignore now (if ?hit i then clear_ignore now i else i)
         else if ?hit i then clear_ignore now i else i) = (if ?more (x # xs) i then clear_ignore now i else i)" for i
  proof (cases "?hit i")
    case True
    with first [OF True] show ?thesis by (simp only: if_True clear_ignore_simps(2) simp_thms if_False)
  next
    case False
    with later [OF False] show ?thesis by (simp only: if_False)
  qed
  then have "update_where (?more xs) (clear_ignore now) (update_where ?hit (clear_ignore now) t)
      = update_where (?more (x # xs)) (clear_ignore now) t" for t
    by (simp only: update_where_def map_map comp_def)
  then show ?case by (simp only: fold_simps x Cons.IH escalate_step_issues)
qed (simp add: update_where_def)

lemma escalation_inputs:
  "(\<exists>b r. (pid, fp, b, r) \<in> set (EscalationInputs js es (now - hour)) \<and> IsSpike r b)
    \<longleftrightarrow> (\<exists>j \<in> set js. issue_key j = (pid, fp) \<and> escalates now es j)"
proof
  assume "\<exists>b r. (pid, fp, b, r) \<in> set (EscalationInputs js es (now - hour)) \<and> IsSpike r b"
  then obtain j b r where "j \<in> set js" "escalating_ignored j" "issue_key j = (pid, fp)" "IsSpike r b"
    "b = (case is_ignore_baseline j of None \<Rightarrow> 0 | Some n \<Rightarrow> n)"
    "r = int (length (filter (\<lambda>e. er_project e = is_project j \<and> er_fingerprint e = Some (is_fingerprint j)
                               \<and> now - hour \<le> er_occurred_at e) es))"
    unfolding EscalationInputs_def by auto
  then show "\<exists>j \<in> set js. issue_key j = (pid, fp) \<and> escalates now es j" unfolding escalates_def by blast
next
  assume "\<exists>j \<in> set js. issue_key j = (pid, fp) \<and> escalates now es j"
  then obtain j where j: "j \<in> set js" "issue_key j = (pid, fp)" "escalates now es j" by blast
  let ?b = "case is_ignore_baseline j of None \<Rightarrow> 0 | Some n \<Rightarrow> n"
  let ?r = "int (length (filter (\<lambda>e. er_project e = is_project j \<and> er_fingerprint e = Some (is_fingerprint j)
                               \<and> now - hour \<le> er_occurred_at e) es))"
  have "(pid, fp, ?b, ?r) \<in> set (EscalationInputs js es (now - hour))"
    using j unfolding EscalationInputs_def by (auto simp: escalates_def intro!: image_eqI [of _ _ j])
  moreover have "IsSpike ?r ?b" using j(3) by (simp add: escalates_def)
  ultimately show "\<exists>b r. (pid, fp, b, r) \<in> set (EscalationInputs js es (now - hour)) \<and> IsSpike r b" by blast
qed


definition example_ignored :: issue where
  "example_ignored = (excluded_issue 30 example_upsert)\<lparr>is_status := IssueStatusIgnored, is_ignore_until := Some 40\<rparr>"


section \<open>Webhook targets\<close>

text \<open>
  \<open>netip.Addr\<close>: the four bytes of an IPv4 address, or the sixteen of an IPv6 one with its zone. \<open>Unmap\<close>
  takes an IPv4 address out of \<open>::ffff:0:0/96\<close>, whatever its zone.
\<close>

datatype ip_addr = V4 "nat list" | V6 "nat list" string

definition Unmap :: "ip_addr \<Rightarrow> ip_addr" where
  "Unmap ip = (case ip of
      V6 bs z \<Rightarrow> if take 12 bs = replicate 10 0 @ [255, 255] then V4 (drop 12 bs) else ip
    | V4 _ \<Rightarrow> ip)"

definition IsLoopback :: "ip_addr \<Rightarrow> bool" where
  "IsLoopback ip = (case ip of V4 bs \<Rightarrow> bs ! 0 = 127 | V6 bs z \<Rightarrow> bs = replicate 15 0 @ [1])"

definition IsLinkLocalUnicast :: "ip_addr \<Rightarrow> bool" where
  "IsLinkLocalUnicast ip = (case ip of V4 bs \<Rightarrow> bs ! 0 = 169 \<and> bs ! 1 = 254 | V6 bs z \<Rightarrow> bs ! 0 = 254 \<and> bs ! 1 div 64 = 2)"

definition IsLinkLocalMulticast :: "ip_addr \<Rightarrow> bool" where
  "IsLinkLocalMulticast ip = (case ip of
      V4 bs \<Rightarrow> bs ! 0 = 224 \<and> bs ! 1 = 0 \<and> bs ! 2 = 0 | V6 bs z \<Rightarrow> bs ! 0 = 255 \<and> bs ! 1 mod 16 = 2)"

definition IsMulticast :: "ip_addr \<Rightarrow> bool" where
  "IsMulticast ip = (case ip of V4 bs \<Rightarrow> bs ! 0 div 16 = 14 | V6 bs z \<Rightarrow> bs ! 0 = 255)"

definition IsInterfaceLocalMulticast :: "ip_addr \<Rightarrow> bool" where
  "IsInterfaceLocalMulticast ip = (case ip of V4 bs \<Rightarrow> False | V6 bs z \<Rightarrow> bs ! 0 = 255 \<and> bs ! 1 mod 16 = 1)"

definition IsUnspecified :: "ip_addr \<Rightarrow> bool" where
  "IsUnspecified ip \<longleftrightarrow> ip = V4 [0, 0, 0, 0] \<or> ip = V6 (replicate 16 0) []"

definition IsPrivate :: "ip_addr \<Rightarrow> bool" where
  "IsPrivate ip = (case ip of
      V4 bs \<Rightarrow> bs ! 0 = 10 \<or> bs ! 0 = 172 \<and> bs ! 1 div 16 = 1 \<or> bs ! 0 = 192 \<and> bs ! 1 = 168
    | V6 bs z \<Rightarrow> bs ! 0 div 2 = 126)"

datatype url_error = NotHttp | Blocked | BlockedPrivate

definition CheckWebhookAddr :: "ip_addr \<Rightarrow> bool \<Rightarrow> url_error option" where
  "CheckWebhookAddr addr allow_private =
     (let ip = Unmap addr
      in if IsLoopback ip \<or> IsLinkLocalUnicast ip \<or> IsLinkLocalMulticast ip \<or> IsUnspecified ip \<or> IsMulticast ip
            \<or> IsInterfaceLocalMulticast ip then Some Blocked
         else if IsPrivate ip \<and> \<not> allow_private then Some BlockedPrivate
         else None)"

text \<open>\<open>url_parts\<close>: scheme, host and host name of a URL that parses; \<open>parse_addr\<close>: \<open>netip.ParseAddr\<close>.\<close>

definition ValidateWebhookURL :: "(string \<Rightarrow> (string \<times> string \<times> string) option) \<Rightarrow> (string \<Rightarrow> ip_addr option) \<Rightarrow> string \<Rightarrow> bool
    \<Rightarrow> url_error option" where
  "ValidateWebhookURL url_parts parse_addr raw allow_private =
     (case url_parts (trim_space raw) of
        None \<Rightarrow> Some NotHttp
      | Some (scheme, host, name) \<Rightarrow>
          if scheme \<noteq> ''http'' \<and> scheme \<noteq> ''https'' \<or> host = [] then Some NotHttp
          else if equal_fold name ''localhost'' \<or> has_suffix (to_lower name) ''.localhost'' then Some Blocked
          else (case parse_addr (rev (dropWhile (\<lambda>c. c \<in> set ''[]'') (rev (dropWhile (\<lambda>c. c \<in> set ''[]'') name)))) of
                  None \<Rightarrow> None
                | Some ip \<Rightarrow> CheckWebhookAddr ip allow_private))"

text \<open>\<open>ChannelConfig\<close>: the setting of a channel as entered; \<open>to_json\<close> writes the one-member object.\<close>

datatype channel_error = BadURL url_error | NoChatID | BadKind

definition ChannelConfig :: "(string \<Rightarrow> (string \<times> string \<times> string) option) \<Rightarrow> (string \<Rightarrow> ip_addr option)
    \<Rightarrow> (string \<Rightarrow> string \<Rightarrow> string) \<Rightarrow> string \<Rightarrow> (string \<Rightarrow> string) \<Rightarrow> bool \<Rightarrow> channel_error + string" where
  "ChannelConfig url_parts parse_addr to_json kind get allow_private =
     (if kind = ''webhook'' \<or> kind = ''slack''
      then (let u = trim_space (get ''url'')
            in case ValidateWebhookURL url_parts parse_addr u allow_private of
                 Some e \<Rightarrow> Inl (BadURL e) | None \<Rightarrow> Inr (to_json ''url'' u))
      else if kind = ''telegram''
      then (let i = trim_space (get ''chat_id'') in if i = [] then Inl NoChatID else Inr (to_json ''chat_id'' i))
      else Inl BadKind)"

text \<open>
  The unspecified address with a zone is not \<open>IsUnspecified\<close> (the zone is part of the value), so
  \<open>[::%lo]\<close> passes, although a connection to it reaches this host.
\<close>

lemma zoned_unspecified_passes: "CheckWebhookAddr (V6 (replicate 16 0) ''lo'') False = None"
  by code_simp

end
