(* ===== verification/SymbolFiles.thy ===== *)
theory SymbolFiles
  imports SideTables Blobs Jobs
begin

text \<open>
  The symbol files of \<open>internal/symbolicate\<close>: where their bytes live (\<open>files.go\<close>), how an upload is taken
  (\<open>upload.go\<close>), the debug id of a Mach-O image (\<open>macho.go\<close>) and the guesses about a file's kind
  (\<open>DetectKind\<close> and \<open>normalizeDebugID\<close> of \<open>service.go\<close>). Reading a zip archive and parsing a Mach-O file are
  parameters; the random part of a blob key is an argument. Shown: whatever uploads, deletions and failures
  interleave, every row keeps exactly the bytes that were uploaded with it, and an upload is bounded.
\<close>

section \<open>Where the bytes are\<close>

text \<open>\<open>ss_blobs\<close> is \<open>None\<close> in a process without a blob store.\<close>

record symbol_store =
  ss_table :: symbol_table
  ss_blobs :: "memory option"

datatype file_error =
    NoBlobStore
  | FileBlob blob_error
  | RowError
  | LeftBehind string

definition LockKey :: "project_id \<Rightarrow> string \<Rightarrow> string option \<Rightarrow> string \<Rightarrow> string" where
  "LockKey pid kind release filename =
     ''symbol_files/'' @ itoa_int pid @ ''/'' @ kind @ ''/'' @ (case release of None \<Rightarrow> [] | Some r \<Rightarrow> r) @ ''/'' @ filename"

text \<open>The deletions of objects, each of which may fail (\<open>stuck\<close>); the first failure is reported.\<close>

fun deleteBlobs :: "(string \<Rightarrow> bool) \<Rightarrow> string option list \<Rightarrow> symbol_store \<Rightarrow> file_error option \<times> symbol_store" where
  "deleteBlobs stuck [] s = (None, s)"
| "deleteBlobs stuck (None # ks) s = deleteBlobs stuck ks s"
| "deleteBlobs stuck (Some k # ks) s =
     (case ss_blobs s of
        None \<Rightarrow> map_prod (\<lambda>_. Some (LeftBehind k)) id (deleteBlobs stuck ks s)
      | Some m \<Rightarrow>
          if stuck k then map_prod (\<lambda>_. Some (LeftBehind k)) id (deleteBlobs stuck ks s)
          else deleteBlobs stuck ks (s\<lparr>ss_blobs := Some (Delete k m)\<rparr>))"

definition DeleteBlobs :: "(string \<Rightarrow> bool) \<Rightarrow> string list \<Rightarrow> symbol_store \<Rightarrow> file_error option \<times> symbol_store" where
  "DeleteBlobs stuck keys s = deleteBlobs stuck (map Some keys) s"

text \<open>
  \<open>putSymbolFile\<close>: \<open>b\<close> is the random part of the key, \<open>put_fails\<close> and \<open>row_fails\<close> say whether the blob store or
  the transaction of the row fails.
\<close>

definition put_row :: "time \<Rightarrow> upsert_symbol_params \<Rightarrow> symbol_store \<Rightarrow> (symbol_file \<times> symbol_store) option" where
  "put_row now p s = map_option (\<lambda>(row, t). (row, s\<lparr>ss_table := t\<rparr>)) (UpsertSymbolFile now p (ss_table s))"

definition replaced_key :: "upsert_symbol_params \<Rightarrow> symbol_store \<Rightarrow> string option" where
  "replaced_key p s =
     (case SymbolFileBlobKey (ss_table s) (us_project p) (us_kind p) (us_release p) (us_filename p) of
        None \<Rightarrow> None | Some k \<Rightarrow> k)"

definition putSymbolFile ::
  "time \<Rightarrow> nat list \<Rightarrow> bool \<Rightarrow> bool \<Rightarrow> (string \<Rightarrow> bool) \<Rightarrow> upsert_symbol_params \<Rightarrow> string \<Rightarrow> symbol_store
     \<Rightarrow> (file_error + symbol_file) \<times> symbol_store" where
  "putSymbolFile now b put_fails row_fails stuck p data s =
     (case ss_blobs s of
        None \<Rightarrow>
          (case (if row_fails then None else put_row now (p\<lparr>us_data := Some data, us_blob_key := None\<rparr>) s) of
             None \<Rightarrow> (Inl RowError, s)
           | Some (row, s') \<Rightarrow> (Inr row, s'))
      | Some m \<Rightarrow>
          (let key = SymbolKey b (us_project p)
           in if put_fails then (Inl (FileBlob BlobFailed), s)
              else (case Put key data m of
                      Inl e \<Rightarrow> (Inl (FileBlob e), s)
                    | Inr m' \<Rightarrow>
                        (let s1 = s\<lparr>ss_blobs := Some m'\<rparr>
                         in (case (if row_fails then None else put_row now (p\<lparr>us_data := None, us_blob_key := Some key\<rparr>) s1) of
                               None \<Rightarrow> (Inl RowError, snd (deleteBlobs stuck [Some key] s1))
                             | Some (row, s2) \<Rightarrow> (Inr row, snd (deleteBlobs stuck [replaced_key p s] s2)))))))"

definition symbolBytes :: "string option \<Rightarrow> string option \<Rightarrow> symbol_store \<Rightarrow> file_error + string" where
  "symbolBytes data blob_key s =
     (case blob_key of
        None \<Rightarrow> Inr (case data of None \<Rightarrow> [] | Some d \<Rightarrow> d)
      | Some k \<Rightarrow>
          (case ss_blobs s of
             None \<Rightarrow> Inl NoBlobStore
           | Some m \<Rightarrow> (case Get k m of Inl e \<Rightarrow> Inl (FileBlob e) | Inr d \<Rightarrow> Inr d)))"

text \<open>\<open>Service.DeleteSymbolFile\<close>: found, the error of the object's deletion, and the store.\<close>

definition delete_symbol_file ::
  "(string \<Rightarrow> bool) \<Rightarrow> project_id \<Rightarrow> int \<Rightarrow> symbol_store \<Rightarrow> bool \<times> file_error option \<times> symbol_store" where
  "delete_symbol_file stuck pid i s =
     (case DeleteSymbolFile pid i (ss_table s) of
        (None, _) \<Rightarrow> (False, None, s)
      | (Some k, t) \<Rightarrow> (True, deleteBlobs stuck [k] (s\<lparr>ss_table := t\<rparr>)))"

section \<open>Mach-O images\<close>

text \<open>
  What \<open>debug/macho\<close> parses: an image is its load commands as raw bytes with the byte order of the file; a fat
  file lists images by CPU.
\<close>

record macho_file =
  mo_big_endian :: bool
  mo_loads :: "nat list list"

record macho_lib =
  ml_fat :: "string \<Rightarrow> (bool \<times> macho_file) list option"
  ml_thin :: "string \<Rightarrow> macho_file option"

text \<open>The flag of an architecture tells whether its CPU is arm64.\<close>

definition uint32_of :: "bool \<Rightarrow> nat list \<Rightarrow> nat" where
  "uint32_of big bs = nat_of_digits 256 (if big then take 4 bs else rev (take 4 bs))"

definition lcUUID :: nat where "lcUUID = 27"

definition dashed_uuid :: "nat list \<Rightarrow> string" where
  "dashed_uuid u = hex_encode (take 4 u) @ ''-'' @ hex_encode (take 2 (drop 4 u)) @ ''-'' @ hex_encode (take 2 (drop 6 u))
     @ ''-'' @ hex_encode (take 2 (drop 8 u)) @ ''-'' @ hex_encode (take 6 (drop 10 u))"

definition fileUUID :: "macho_file \<Rightarrow> string option" where
  "fileUUID f = map_option (\<lambda>raw. dashed_uuid (take 16 (drop 8 raw)))
     (find (\<lambda>raw. 24 \<le> length raw \<and> uint32_of (mo_big_endian f) raw = lcUUID) (mo_loads f))"

fun pick_arch :: "string \<Rightarrow> (bool \<times> macho_file) list \<Rightarrow> string option" where
  "pick_arch first [] = (if first = [] then None else Some first)"
| "pick_arch first ((arm64, f) # as) =
     (case fileUUID f of
        None \<Rightarrow> pick_arch first as
      | Some i \<Rightarrow> if arm64 then Some i else pick_arch (if first = [] then i else first) as)"

definition MachOUUID :: "macho_lib \<Rightarrow> string \<Rightarrow> string option" where
  "MachOUUID lib data =
     (case ml_fat lib data of
        Some as \<Rightarrow> pick_arch [] as
      | None \<Rightarrow> (case ml_thin lib data of None \<Rightarrow> None | Some f \<Rightarrow> fileUUID f))"

definition IsMachO :: "macho_lib \<Rightarrow> string \<Rightarrow> bool" where
  "IsMachO lib data \<longleftrightarrow> ml_fat lib data \<noteq> None \<or> ml_thin lib data \<noteq> None"

section \<open>The kind and the debug id of a file\<close>

definition file_base :: "string \<Rightarrow> string" where
  "file_base p = after_last_any [CHR ''/'', backslash] p"

definition macho_magics :: "nat list list" where
  "macho_magics = [[207, 250, 237, 254], [206, 250, 237, 254], [254, 237, 250, 207], [254, 237, 250, 206], [202, 254, 186, 190],
     [80, 75, 3, 4]]"

definition DetectKind :: "string \<Rightarrow> string \<Rightarrow> SymbolKind option" where
  "DetectKind filename head =
     (let name = to_lower (file_base filename); trimmed = trim_space head
      in if has_suffix name ''.map'' \<or> has_suffix name ''.js.map'' then Some SymbolKindSourcemap
         else if name = ''mapping.txt'' \<or> has_suffix name ''mapping.txt'' \<or> has_suffix name ''.txt'' then Some SymbolKindProguard
         else if has_suffix name ''.dsym'' \<or> has_suffix name ''.zip'' \<or> contains name ''.dsym'' then Some SymbolKindDsym
         else if 4 \<le> length trimmed \<and> bytes (take 4 trimmed) \<in> set macho_magics then Some SymbolKindDsym
         else if trimmed \<noteq> [] \<and> hd trimmed = CHR ''{'' \<and> contains head (CHR 0x22 # ''mappings'' @ [CHR 0x22]) then Some SymbolKindSourcemap
         else if contains head '' -> '' \<or> has_prefix trimmed ''# compiler'' then Some SymbolKindProguard
         else None)"

definition classify :: "macho_lib \<Rightarrow> string \<Rightarrow> string \<Rightarrow> SymbolKind option" where
  "classify lib name data =
     (case DetectKind name (take 4096 data) of
        Some SymbolKindProguard \<Rightarrow> Some SymbolKindProguard
      | Some SymbolKindSourcemap \<Rightarrow> Some SymbolKindSourcemap
      | _ \<Rightarrow> if IsMachO lib data then Some SymbolKindDsym else None)"

text \<open>\<open>uuidRe\<close>, case-insensitive.\<close>

definition is_uuid :: "string \<Rightarrow> bool" where
  "is_uuid s \<longleftrightarrow> length s = 36
     \<and> list_all (\<lambda>i. if i \<in> {8, 13, 18, 23} then s ! i = CHR ''-'' else is_hex (s ! i)) [0..<36]"

text \<open>\<open>strings.TrimSuffix(base, path.Ext(base))\<close> of a name without a slash.\<close>

definition file_stem :: "string \<Rightarrow> string" where
  "file_stem base =
     (if CHR ''.'' \<in> set base then take (length base - length (after_last_any [CHR ''.''] base) - 1) base else base)"

definition DebugIDFor :: "macho_lib \<Rightarrow> SymbolKind \<Rightarrow> string \<Rightarrow> string \<Rightarrow> string option" where
  "DebugIDFor lib kind filename data =
     (case kind of
        SymbolKindProguard \<Rightarrow> (let stem = file_stem (file_base filename) in if is_uuid stem then Some (to_lower stem) else None)
      | SymbolKindDsym \<Rightarrow> MachOUUID lib data
      | SymbolKindSourcemap \<Rightarrow> None)"

definition normalizeDebugID :: "string \<Rightarrow> string" where
  "normalizeDebugID i =
     (let i = to_lower (trim_space i) in if 36 < length i \<and> i ! 36 = CHR ''-'' then take 36 i else i)"

section \<open>Taking an upload\<close>

definition MaxUpload :: int where "MaxUpload = 524288000"
definition MaxZipTotal :: int where "MaxZipTotal = 4 * MaxUpload"
definition MaxZipEntries :: nat where "MaxZipEntries = 256"

datatype upload_error =
    EmptyFile
  | TooLarge
  | BadUploadKind
  | InvalidZip
  | TooManyEntries
  | UnpacksTooLarge
  | EntryTooLarge string
  | InvalidEntry string
  | EntryUnreadable
  | NoSymbolFiles
  | Unrecognized
  | NotStored file_error
  | NotQueued

text \<open>
  An entry of an archive: its name, whether it is a directory, the unpacked size its header declares, and what
  opening and reading it gives.
\<close>

record zip_entry =
  ze_name :: string
  ze_is_dir :: bool
  ze_declared :: nat
  ze_opens :: bool
  ze_content :: "string option"

text \<open>What the upload takes from outside: the archive reader, the Mach-O parser, and what goes wrong when.\<close>

record upload_lib =
  ul_unzip :: "string \<Rightarrow> zip_entry list option"
  ul_macho :: macho_lib
  ul_random :: "nat \<Rightarrow> nat list"
  ul_put_fails :: "nat \<Rightarrow> bool"
  ul_row_fails :: "nat \<Rightarrow> bool"
  ul_stuck :: "string \<Rightarrow> bool"
  ul_release_args :: "string \<Rightarrow> string"
  ul_queue_fails :: bool

definition isZip :: "string \<Rightarrow> string \<Rightarrow> bool" where
  "isZip filename data \<longleftrightarrow> has_prefix data (of_bytes [80, 75, 3, 4]) \<or> has_suffix (to_lower filename) ''.zip''"

text \<open>\<open>path.Clean("/" + name)[1:]\<close>: empty and \<open>.\<close> elements go, \<open>..\<close> takes the one before it along.\<close>

definition clean_step :: "string \<Rightarrow> string list \<Rightarrow> string list" where
  "clean_step el stack = (if el = [] \<or> el = ''.'' then stack else if el = ''..'' then tl stack else el # stack)"

definition clean_path :: "string \<Rightarrow> string" where
  "clean_path name = join ''/'' (rev (fold clean_step (split_byte CHR ''/'' name) []))"

definition entry_name :: "zip_entry \<Rightarrow> string" where
  "entry_name e = clean_path (map (\<lambda>c. if c = backslash then CHR ''/'' else c) (ze_name e))"

definition skipped_entry :: "zip_entry \<Rightarrow> bool" where
  "skipped_entry e \<longleftrightarrow>
     (let name = entry_name e
      in ze_is_dir e \<or> name = [] \<or> has_prefix name ''__MACOSX/'' \<or> has_prefix (after_last_any [CHR ''/''] name) ''.'')"

text \<open>\<open>upsert\<close>; \<open>n\<close> counts the writes of the upload, for the random keys and the failures.\<close>

definition stored_name :: "string \<Rightarrow> SymbolKind \<Rightarrow> string \<Rightarrow> string option \<Rightarrow> string" where
  "stored_name release kind name debug_id =
     (case debug_id of
        Some d \<Rightarrow> if release = [] \<and> kind = SymbolKindDsym \<and> \<not> contains name d then name @ ''.'' @ d else name
      | None \<Rightarrow> name)"

definition upsert_file ::
  "upload_lib \<Rightarrow> time \<Rightarrow> nat \<Rightarrow> project_id \<Rightarrow> string \<Rightarrow> SymbolKind \<Rightarrow> string \<Rightarrow> string \<Rightarrow> string option \<Rightarrow> symbol_store
     \<Rightarrow> (file_error + symbol_file) \<times> symbol_store" where
  "upsert_file lib now n pid release kind name data debug_id s =
     (let d = (case debug_id of None \<Rightarrow> DebugIDFor (ul_macho lib) kind name data | Some x \<Rightarrow> Some x)
      in putSymbolFile now (ul_random lib n) (ul_put_fails lib n) (ul_row_fails lib n) (ul_stuck lib)
           \<lparr>us_project = pid, us_kind = kind, us_release = (if release = [] then None else Some release), us_debug_id = d,
            us_filename = stored_name release kind name d, us_size = int (length data), us_data = None, us_blob_key = None\<rparr>
           data s)"

fun upload_entries ::
  "upload_lib \<Rightarrow> time \<Rightarrow> project_id \<Rightarrow> string \<Rightarrow> SymbolKind option \<Rightarrow> zip_entry list \<Rightarrow> int \<Rightarrow> nat \<Rightarrow> symbol_store
     \<Rightarrow> (upload_error + symbol_file list) \<times> symbol_store" where
  "upload_entries lib now pid release kind [] sofar n s = (Inr [], s)"
| "upload_entries lib now pid release kind (e # es) sofar n s =
     (if skipped_entry e then upload_entries lib now pid release kind es sofar n s
      else if MaxUpload < int (ze_declared e) then (Inl (EntryTooLarge (entry_name e)), s)
      else if \<not> ze_opens e then (Inl (InvalidEntry (entry_name e)), s)
      else (case ze_content e of
              None \<Rightarrow> (Inl EntryUnreadable, s)
            | Some content \<Rightarrow>
                if MaxUpload < int (length content) then (Inl (EntryTooLarge (entry_name e)), s)
                else if MaxZipTotal < sofar + int (length content) then (Inl UnpacksTooLarge, s)
                else if content = [] then upload_entries lib now pid release kind es sofar n s
                else (case (case kind of None \<Rightarrow> classify (ul_macho lib) (entry_name e) content | Some k \<Rightarrow> Some k) of
                        None \<Rightarrow> upload_entries lib now pid release kind es (sofar + int (length content)) n s
                      | Some k \<Rightarrow>
                          (case upsert_file lib now n pid release k (entry_name e) content None s of
                             (Inl err, s') \<Rightarrow> (Inl (NotStored err), s')
                           | (Inr row, s') \<Rightarrow>
                               (case upload_entries lib now pid release kind es (sofar + int (length content)) (Suc n) s' of
                                  (Inl err, s'') \<Rightarrow> (Inl err, s'')
                                | (Inr rows, s'') \<Rightarrow> (Inr (row # rows), s''))))))"

text \<open>The sum of the declared sizes is an \<open>uint64\<close>.\<close>

definition upload_zip ::
  "upload_lib \<Rightarrow> time \<Rightarrow> project_id \<Rightarrow> string \<Rightarrow> SymbolKind option \<Rightarrow> string \<Rightarrow> symbol_store
     \<Rightarrow> (upload_error + symbol_file list) \<times> symbol_store" where
  "upload_zip lib now pid release kind data s =
     (case ul_unzip lib data of
        None \<Rightarrow> (Inl InvalidZip, s)
      | Some es \<Rightarrow>
          if MaxZipEntries < length es then (Inl TooManyEntries, s)
          else if MaxZipTotal < int (sum_list (map ze_declared es) mod 2 ^ 64) then (Inl UnpacksTooLarge, s)
          else (case upload_entries lib now pid release kind es 0 0 s of
                  (Inl err, s') \<Rightarrow> (Inl err, s')
                | (Inr rows, s') \<Rightarrow> if rows = [] then (Inl NoSymbolFiles, s') else (Inr rows, s')))"

definition upload_single ::
  "upload_lib \<Rightarrow> time \<Rightarrow> project_id \<Rightarrow> string \<Rightarrow> SymbolKind option \<Rightarrow> string \<Rightarrow> string \<Rightarrow> string option \<Rightarrow> symbol_store
     \<Rightarrow> (upload_error + symbol_file list) \<times> symbol_store" where
  "upload_single lib now pid release kind filename data debug_id s =
     (case (case kind of None \<Rightarrow> classify (ul_macho lib) filename data | Some k \<Rightarrow> Some k) of
        None \<Rightarrow> (Inl Unrecognized, s)
      | Some k \<Rightarrow>
          (case upsert_file lib now 0 pid release k (file_base filename) data debug_id s of
             (Inl err, s') \<Rightarrow> (Inl (NotStored err), s')
           | (Inr row, s') \<Rightarrow> (Inr [row], s')))"

text \<open>
  \<open>upload\<close> up to the invalidation of the cache, which is the caller's (\<open>Symbolicate.thy\<close>): the rows and whether
  the release was queued again.
\<close>

definition upload ::
  "upload_lib \<Rightarrow> time \<Rightarrow> project_id \<Rightarrow> string \<Rightarrow> string \<Rightarrow> string \<Rightarrow> string \<Rightarrow> string option \<Rightarrow> symbol_store \<times> jobs_table
     \<Rightarrow> (upload_error + symbol_file list) \<times> symbol_store \<times> jobs_table" where
  "upload lib now pid release kind filename data debug_id st =
     (case st of (s, jobs) \<Rightarrow>
        if data = [] then (Inl EmptyFile, st)
        else if MaxUpload < int (length data) then (Inl TooLarge, st)
        else if kind \<noteq> [] \<and> symbol_kind_of_text kind = None then (Inl BadUploadKind, st)
        else (let k = symbol_kind_of_text kind
              in (case (if isZip filename data then upload_zip lib now pid release k data s
                        else upload_single lib now pid release k filename data debug_id s) of
                    (Inl err, s') \<Rightarrow> (Inl err, s', jobs)
                  | (Inr rows, s') \<Rightarrow>
                      if release = [] then (Inr rows, s', jobs)
                      else if ul_queue_fails lib then (Inl NotQueued, s', jobs)
                      else (Inr rows, s', EnqueueJob now \<lparr>eq_kind = JobKindResymbolicate, eq_project = pid,
                              eq_args = ul_release_args lib release, eq_run_after = now\<rparr> jobs))))"

definition Upload where
  "Upload lib now pid release kind filename data st = upload lib now pid release kind filename data None st"

definition given_debug_id :: "string \<Rightarrow> string option" where
  "given_debug_id d = (let d = to_lower (trim_space d) in if d = [] then None else Some d)"

definition UploadWithDebugID where
  "UploadWithDebugID lib now pid release kind filename data d st =
     upload lib now pid release kind filename data (given_debug_id d) st"

text \<open>\<open>Associate\<close>, up to the invalidation; \<open>None\<close> when the statement fails.\<close>

definition Associate :: "time \<Rightarrow> project_id \<Rightarrow> string \<Rightarrow> string \<Rightarrow> symbol_table \<Rightarrow> symbol_table option" where
  "Associate now pid release debug_id t =
     (let release = trim_space release
      in if release = [] then Some t
         else map_option snd (SetSymbolFileRelease release pid (given_debug_id debug_id) (now - hour) t))"

section \<open>Uploads, deletions and failures, interleaved\<close>

text \<open>
  The writers of the symbol files as steps of one system: an upload puts its object (\<open>put_object\<close>), then commits
  its row, which makes the replaced row's object garbage (\<open>commit_row\<close>), or fails (\<open>abandon\<close>); rows are deleted,
  expire or are tagged; garbage is removed later (\<open>collect_garbage\<close>), or never, when that fails or the process
  stops (\<open>forget\<close>). A process without a blob store writes the bytes into the row (\<open>inline_row\<close>).
  \<open>fw_written\<close> records what was ever put under a key; a key is 16 random bytes and is not drawn twice.
\<close>

record file_world =
  fw_table :: symbol_table
  fw_blobs :: memory
  fw_pending :: "upsert_symbol_params list"
  fw_trash :: "string list"
  fw_written :: memory

definition old_key :: "upsert_symbol_params \<Rightarrow> symbol_table \<Rightarrow> string list" where
  "old_key p t = (case SymbolFileBlobKey t (us_project p) (us_kind p) (us_release p) (us_filename p) of
       Some (Some k) \<Rightarrow> [k] | _ \<Rightarrow> [])"

inductive file_step :: "file_world \<Rightarrow> file_world \<Rightarrow> bool" where
  put_object: "us_blob_key p = Some key \<Longrightarrow> us_data p = None \<Longrightarrow> us_size p = int (length data)
     \<Longrightarrow> key \<notin> dom (fw_written w) \<Longrightarrow> Put key data (fw_blobs w) = Inr m
     \<Longrightarrow> file_step w (w\<lparr>fw_blobs := m, fw_pending := p # fw_pending w, fw_written := (fw_written w)(key \<mapsto> data)\<rparr>)"
| commit_row: "p \<in> set (fw_pending w) \<Longrightarrow> UpsertSymbolFile now p (fw_table w) = Some (row, t)
     \<Longrightarrow> file_step w (w\<lparr>fw_table := t, fw_pending := removeAll p (fw_pending w), fw_trash := old_key p (fw_table w) @ fw_trash w\<rparr>)"
| abandon: "p \<in> set (fw_pending w) \<Longrightarrow> us_blob_key p = Some key
     \<Longrightarrow> file_step w (w\<lparr>fw_pending := removeAll p (fw_pending w), fw_trash := key # fw_trash w\<rparr>)"
| inline_row: "us_blob_key p = None \<Longrightarrow> us_data p = Some data \<Longrightarrow> us_size p = int (length data)
     \<Longrightarrow> UpsertSymbolFile now p (fw_table w) = Some (row, t) \<Longrightarrow> file_step w (w\<lparr>fw_table := t\<rparr>)"
| delete_row: "DeleteSymbolFile pid i (fw_table w) = (Some k, t)
     \<Longrightarrow> file_step w (w\<lparr>fw_table := t, fw_trash := List.map_filter id [k] @ fw_trash w\<rparr>)"
| expire_rows: "ExpireSymbolFiles before (fw_table w) = (ks, t)
     \<Longrightarrow> file_step w (w\<lparr>fw_table := t, fw_trash := List.map_filter id ks @ fw_trash w\<rparr>)"
| tag_rows: "SetSymbolFileRelease release pid d since (fw_table w) = Some (n, t) \<Longrightarrow> file_step w (w\<lparr>fw_table := t\<rparr>)"
| collect_garbage: "key \<in> set (fw_trash w)
     \<Longrightarrow> file_step w (w\<lparr>fw_blobs := Delete key (fw_blobs w), fw_trash := removeAll key (fw_trash w)\<rparr>)"
| forget: "set (fw_pending w') \<subseteq> set (fw_pending w) \<Longrightarrow> set (fw_trash w') \<subseteq> set (fw_trash w)
     \<Longrightarrow> w' = w\<lparr>fw_pending := fw_pending w', fw_trash := fw_trash w'\<rparr> \<Longrightarrow> file_step w w'"

inductive_cases file_stepE: "file_step w w'"

abbreviation file_steps :: "file_world \<Rightarrow> file_world \<Rightarrow> bool" where
  "file_steps \<equiv> file_step\<^sup>*\<^sup>*"

definition no_files :: file_world where
  "no_files = \<lparr>fw_table = \<lparr>sy_rows = [], sy_next = 1\<rparr>, fw_blobs = Map.empty, fw_pending = [], fw_trash = [], fw_written = Map.empty\<rparr>"

text \<open>A place of bytes and its size: an object that is there as it was written, or the bytes themselves.\<close>

definition kept :: "file_world \<Rightarrow> string option \<Rightarrow> string option \<Rightarrow> int \<Rightarrow> bool" where
  "kept w data key n \<longleftrightarrow>
     (case key of
        None \<Rightarrow> (\<exists>d. data = Some d \<and> n = int (length d))
      | Some k \<Rightarrow> data = None \<and> (\<exists>d. fw_written w k = Some d \<and> fw_blobs w k = Some d \<and> n = int (length d)))"

definition live_keys :: "symbol_table \<Rightarrow> string set" where
  "live_keys t = {k. \<exists>f \<in> set (sy_rows t). sf_blob_key f = Some k}"

definition unshared :: "symbol_table \<Rightarrow> bool" where
  "unshared t \<longleftrightarrow> (\<forall>f \<in> set (sy_rows t). \<forall>g \<in> set (sy_rows t). \<forall>k.
     sf_blob_key f = Some k \<longrightarrow> sf_blob_key g = Some k \<longrightarrow> f = g)"

definition pending_keys :: "file_world \<Rightarrow> string set" where
  "pending_keys w = {k. \<exists>p \<in> set (fw_pending w). us_blob_key p = Some k}"

definition file_inv :: "file_world \<Rightarrow> bool" where
  "file_inv w \<longleftrightarrow> symbols_inv (fw_table w) \<and> unshared (fw_table w)
     \<and> (\<forall>f \<in> set (sy_rows (fw_table w)). kept w (sf_data f) (sf_blob_key f) (sf_size f))
     \<and> (\<forall>p \<in> set (fw_pending w). us_blob_key p \<noteq> None \<and> kept w (us_data p) (us_blob_key p) (us_size p))
     \<and> (\<forall>p \<in> set (fw_pending w). \<forall>q \<in> set (fw_pending w). us_blob_key p = us_blob_key q \<longrightarrow> p = q)
     \<and> live_keys (fw_table w) \<inter> pending_keys w = {}
     \<and> set (fw_trash w) \<inter> (live_keys (fw_table w) \<union> pending_keys w) = {}
     \<and> set (fw_trash w) \<subseteq> dom (fw_written w)"

lemma kept_cong: "fw_written w' = fw_written w \<Longrightarrow> fw_blobs w' = fw_blobs w \<Longrightarrow> kept w' = kept w"
  by (intro ext) (simp add: kept_def split: option.split)

lemma kept_simps:
  "kept (w\<lparr>fw_table := t\<rparr>) = kept w" "kept (w\<lparr>fw_trash := x\<rparr>) = kept w" "kept (w\<lparr>fw_pending := y\<rparr>) = kept w"
  "kept (w\<lparr>fw_table := t, fw_trash := x\<rparr>) = kept w" "kept (w\<lparr>fw_table := t, fw_pending := y, fw_trash := x\<rparr>) = kept w"
  "kept (w\<lparr>fw_pending := y, fw_trash := x\<rparr>) = kept w"
  by (rule kept_cong; simp)+

lemma pending_keys_simps:
  "pending_keys (w\<lparr>fw_table := t\<rparr>) = pending_keys w" "pending_keys (w\<lparr>fw_table := t, fw_trash := x\<rparr>) = pending_keys w"
  by (simp_all add: pending_keys_def)

lemma kept_written: "kept w d (Some k) n \<Longrightarrow> k \<in> dom (fw_written w)"
  by (auto simp: kept_def)

lemma file_inv_written:
  assumes "file_inv w"
  shows "live_keys (fw_table w) \<subseteq> dom (fw_written w)" "pending_keys w \<subseteq> dom (fw_written w)"
  using assms unfolding file_inv_def live_keys_def pending_keys_def by (fastforce dest: kept_written)+

subsection \<open>Tables that lose or rewrite rows\<close>

lemma live_keys_subset: "set (sy_rows t') \<subseteq> set (sy_rows t) \<Longrightarrow> live_keys t' \<subseteq> live_keys t \<and> (unshared t \<longrightarrow> unshared t')"
  unfolding live_keys_def unshared_def by blast

text \<open>What a deleted row leaves behind is no other row's.\<close>

lemma deleted_keys:
  assumes "unshared t" and "k \<in> set (List.map_filter id (map sf_blob_key (filter p (sy_rows t))))"
  shows "k \<in> live_keys t \<and> k \<notin> live_keys (t\<lparr>sy_rows := delete_where p (sy_rows t)\<rparr>)"
proof -
  obtain f where f: "f \<in> set (sy_rows t)" "p f" "sf_blob_key f = Some k"
    using assms(2) by (auto simp: List.map_filter_def)
  then have "\<not> (\<exists>g \<in> set (sy_rows t). \<not> p g \<and> sf_blob_key g = Some k)" using assms(1) unfolding unshared_def by blast
  with f show ?thesis by (auto simp: live_keys_def delete_where_def)
qed

lemma file_inv_delete:
  assumes "file_inv w" and "ks = map sf_blob_key (filter p (sy_rows (fw_table w)))"
  shows "file_inv (w\<lparr>fw_table := (fw_table w)\<lparr>sy_rows := delete_where p (sy_rows (fw_table w))\<rparr>,
           fw_trash := List.map_filter id ks @ fw_trash w\<rparr>)"
proof -
  let ?t = "(fw_table w)\<lparr>sy_rows := delete_where p (sy_rows (fw_table w))\<rparr>"
  have sub: "set (sy_rows ?t) \<subseteq> set (sy_rows (fw_table w))" by (auto simp: delete_where_def)
  have gone: "set (List.map_filter id ks) \<subseteq> live_keys (fw_table w)" "set (List.map_filter id ks) \<inter> live_keys ?t = {}"
    using deleted_keys [of "fw_table w" _ p] assms unfolding file_inv_def by blast+
  have inv: "symbols_inv ?t" using assms(1) by (intro symbols_delete_inv) (simp add: file_inv_def)
  have live: "live_keys ?t \<subseteq> live_keys (fw_table w)" "unshared ?t"
    using live_keys_subset [OF sub] assms(1) by (auto simp: file_inv_def)
  let ?w = "w\<lparr>fw_table := ?t, fw_trash := List.map_filter id ks @ fw_trash w\<rparr>"
  have same: "kept ?w = kept w" "pending_keys ?w = pending_keys w" by (simp_all only: kept_simps pending_keys_simps)
  have disj: "live_keys (fw_table w) \<inter> pending_keys w = {}"
    "set (fw_trash w) \<inter> (live_keys (fw_table w) \<union> pending_keys w) = {}" "set (fw_trash w) \<subseteq> dom (fw_written w)"
    using assms(1) by (simp_all add: file_inv_def)
  have "live_keys ?t \<inter> pending_keys w = {}" using live(1) disj(1) by blast
  moreover have "set (List.map_filter id ks @ fw_trash w) \<inter> (live_keys ?t \<union> pending_keys w) = {}"
    using live(1) disj(1,2) gone by auto
  moreover have "set (List.map_filter id ks @ fw_trash w) \<subseteq> dom (fw_written w)"
    using gone(1) disj(3) file_inv_written(1) [OF assms(1)] by auto
  moreover have "\<forall>f \<in> set (sy_rows ?t). kept w (sf_data f) (sf_blob_key f) (sf_size f)"
    using assms(1) sub unfolding file_inv_def by blast
  ultimately show ?thesis
    using assms(1) inv live(2) unfolding file_inv_def same by simp
qed

lemma upsert_rows:
  assumes "UpsertSymbolFile now p t = Some (row, t')" and "f \<in> set (sy_rows t')"
  shows "symbol_key f = (us_project p, us_kind p, us_release p, us_filename p) \<and> sf_blob_key f = us_blob_key p
           \<and> sf_data f = us_data p \<and> sf_size f = us_size p
         \<or> f \<in> set (sy_rows t) \<and> symbol_key f \<noteq> (us_project p, us_kind p, us_release p, us_filename p)"
proof -
  let ?x = "symbol_row_of now (sy_next t) p"
  have "f \<in> set (upsert symbol_key merge_symbol ?x (sy_rows t))"
    using assms by (auto simp: UpsertSymbolFile_def Let_def split: if_splits)
  from symbol_files.set_upsert_cases [OF this] show ?thesis
    by (auto simp: symbol_row_of_def merge_symbol_def)
qed

lemma old_key_of_row:
  assumes "unique_by symbol_key (sy_rows t)" and "f \<in> set (sy_rows t)"
    and "symbol_key f = (us_project p, us_kind p, us_release p, us_filename p)"
  shows "old_key p t = List.map_filter id [sf_blob_key f]"
proof -
  have "lookup_by symbol_key (us_project p, us_kind p, us_release p, us_filename p) (sy_rows t) = Some f"
    using lookup_by_iff [OF assms(1)] assms(2,3) by blast
  then have "SymbolFileBlobKey t (us_project p) (us_kind p) (us_release p) (us_filename p) = Some (sf_blob_key f)"
    unfolding SymbolFileBlobKey_def by (simp only: option.map)
  then show ?thesis by (cases "sf_blob_key f") (simp_all add: old_key_def List.map_filter_simps)
qed

lemma old_key_live:
  assumes "k \<in> set (old_key p t)"
  shows "\<exists>f \<in> set (sy_rows t). symbol_key f = (us_project p, us_kind p, us_release p, us_filename p) \<and> sf_blob_key f = Some k"
proof -
  let ?k = "(us_project p, us_kind p, us_release p, us_filename p)"
  obtain f where f: "lookup_by symbol_key ?k (sy_rows t) = Some f" "sf_blob_key f = Some k"
    using assms by (cases "lookup_by symbol_key ?k (sy_rows t)") (auto simp: old_key_def SymbolFileBlobKey_def split: option.splits)
  from lookup_by_Some [OF f(1)] f(2) show ?thesis by blast
qed

lemma file_inv_rows:
  assumes "file_inv w"
  shows "unique_by symbol_key (sy_rows (fw_table w))" "unshared (fw_table w)"
    "f \<in> set (sy_rows (fw_table w)) \<Longrightarrow> kept w (sf_data f) (sf_blob_key f) (sf_size f)"
  using assms by (simp_all add: file_inv_def symbols_inv_def)

text \<open>An upsert: the keys that are live afterwards are its own and those of the rows it does not replace.\<close>

lemma upsert_live:
  assumes "file_inv w" and up: "UpsertSymbolFile now p (fw_table w) = Some (row, t)"
    and fresh: "\<And>k. us_blob_key p = Some k \<Longrightarrow> k \<notin> live_keys (fw_table w)"
  shows "unshared t" and "live_keys t \<subseteq> live_keys (fw_table w) \<union> set_option (us_blob_key p)"
    and "set (old_key p (fw_table w)) \<inter> live_keys t = {}"
proof -
  let ?k = "(us_project p, us_kind p, us_release p, us_filename p)"
  note rows = upsert_rows [OF up]
  have old: "unshared (fw_table w)" and uq: "unique_by symbol_key (sy_rows (fw_table w))"
    using file_inv_rows [OF assms(1)] by blast+
  have "symbols_inv t" by (rule UpsertSymbolFile_inv [OF _ up]) (use assms(1) in \<open>simp add: file_inv_def\<close>)
  then have uq': "unique_by symbol_key (sy_rows t)" by (simp add: symbols_inv_def)
  have same: "f = g" if "f \<in> set (sy_rows t)" "g \<in> set (sy_rows t)" "symbol_key f = symbol_key g" for f g
  proof -
    have "lookup_by symbol_key (symbol_key g) (sy_rows t) = Some f" "lookup_by symbol_key (symbol_key g) (sy_rows t) = Some g"
      using lookup_by_iff [OF uq', of "symbol_key g"] that by blast+
    then show ?thesis by simp
  qed
  show "unshared t"
    unfolding unshared_def
  proof (intro ballI allI impI)
    fix f g k
    assume f: "f \<in> set (sy_rows t)" "sf_blob_key f = Some k" and g: "g \<in> set (sy_rows t)" "sf_blob_key g = Some k"
    show "f = g"
    proof (cases "symbol_key f = ?k \<longleftrightarrow> symbol_key g = ?k")
      case True
      then consider "symbol_key f = symbol_key g" | "f \<in> set (sy_rows (fw_table w))" "g \<in> set (sy_rows (fw_table w))"
        using rows [OF f(1)] rows [OF g(1)] by metis
      then show ?thesis
      proof cases
        case 2
        then show ?thesis using old f(2) g(2) unfolding unshared_def by blast
      qed (rule same [OF f(1) g(1)])
    next
      case False
      then have "us_blob_key p = Some k \<and> k \<in> live_keys (fw_table w)"
        using rows [OF f(1)] rows [OF g(1)] f(2) g(2) unfolding live_keys_def mem_Collect_eq by metis
      with fresh show ?thesis by blast
    qed
  qed
  show "live_keys t \<subseteq> live_keys (fw_table w) \<union> set_option (us_blob_key p)"
  proof
    fix k assume "k \<in> live_keys t"
    then obtain f where f: "f \<in> set (sy_rows t)" "sf_blob_key f = Some k" by (auto simp: live_keys_def)
    from rows [OF f(1)] show "k \<in> live_keys (fw_table w) \<union> set_option (us_blob_key p)"
      using f(2) unfolding live_keys_def by auto
  qed
  have "k \<notin> live_keys t" if k: "k \<in> set (old_key p (fw_table w))" for k
  proof
    assume "k \<in> live_keys t"
    then obtain f where f: "f \<in> set (sy_rows t)" "sf_blob_key f = Some k" by (auto simp: live_keys_def)
    obtain g where g: "g \<in> set (sy_rows (fw_table w))" "symbol_key g = ?k" "sf_blob_key g = Some k"
      using old_key_live [OF k] by blast
    from rows [OF f(1)] show False
    proof
      assume "symbol_key f = ?k \<and> sf_blob_key f = us_blob_key p \<and> sf_data f = us_data p \<and> sf_size f = us_size p"
      then have "us_blob_key p = Some k" using f(2) by simp
      moreover have "k \<in> live_keys (fw_table w)" using g unfolding live_keys_def by blast
      ultimately show False using fresh by blast
    next
      assume "f \<in> set (sy_rows (fw_table w)) \<and> symbol_key f \<noteq> ?k"
      then show False using old g f(2) unfolding unshared_def by metis
    qed
  qed
  then show "set (old_key p (fw_table w)) \<inter> live_keys t = {}" by blast
qed

lemma upsert_kept:
  assumes "file_inv w" and "UpsertSymbolFile now p (fw_table w) = Some (row, t)" and "kept w (us_data p) (us_blob_key p) (us_size p)"
    and "f \<in> set (sy_rows t)"
  shows "kept w (sf_data f) (sf_blob_key f) (sf_size f)"
  using upsert_rows [OF assms(2,4)] assms(3) file_inv_rows(3) [OF assms(1)] by metis

lemma file_inv_commit:
  assumes inv: "file_inv w" and p: "p \<in> set (fw_pending w)" and up: "UpsertSymbolFile now p (fw_table w) = Some (row, t)"
  shows "file_inv (w\<lparr>fw_table := t, fw_pending := removeAll p (fw_pending w), fw_trash := old_key p (fw_table w) @ fw_trash w\<rparr>)"
proof -
  let ?w = "w\<lparr>fw_table := t, fw_pending := removeAll p (fw_pending w), fw_trash := old_key p (fw_table w) @ fw_trash w\<rparr>"
  obtain key where key: "us_blob_key p = Some key" using inv p unfolding file_inv_def by blast
  have kp: "kept w (us_data p) (us_blob_key p) (us_size p)" using inv p unfolding file_inv_def by blast
  have disj: "live_keys (fw_table w) \<inter> pending_keys w = {}" "set (fw_trash w) \<inter> (live_keys (fw_table w) \<union> pending_keys w) = {}"
    "set (fw_trash w) \<subseteq> dom (fw_written w)" using inv by (simp_all add: file_inv_def)
  have keyp: "key \<in> pending_keys w" using p key unfolding pending_keys_def by blast
  have fresh: "\<And>k. us_blob_key p = Some k \<Longrightarrow> k \<notin> live_keys (fw_table w)" using keyp key disj(1) by auto
  note live = upsert_live [OF inv up fresh, simplified key]
  have old: "set (old_key p (fw_table w)) \<subseteq> live_keys (fw_table w)"
    using old_key_live [of _ p "fw_table w"] unfolding live_keys_def by blast
  have pend: "pending_keys ?w \<subseteq> pending_keys w" "key \<notin> pending_keys ?w"
    using inv p key unfolding pending_keys_def file_inv_def by auto
  have same: "kept ?w = kept w" by (rule kept_simps)
  have "symbols_inv t" by (rule UpsertSymbolFile_inv [OF _ up]) (use inv in \<open>simp add: file_inv_def\<close>)
  moreover have "\<forall>f \<in> set (sy_rows t). kept w (sf_data f) (sf_blob_key f) (sf_size f)"
    using upsert_kept [OF inv up kp] by blast
  moreover have "live_keys t \<inter> pending_keys ?w = {}" using live(2) pend disj(1) by auto
  moreover have "set (old_key p (fw_table w) @ fw_trash w) \<inter> (live_keys t \<union> pending_keys ?w) = {}"
    using live(2,3) pend disj old keyp by auto
  moreover have "set (old_key p (fw_table w) @ fw_trash w) \<subseteq> dom (fw_written w)"
    using old disj(3) file_inv_written(1) [OF inv] by auto
  ultimately show ?thesis using inv live(1) unfolding file_inv_def same by simp
qed

lemma file_inv_inline:
  assumes inv: "file_inv w" and p: "us_blob_key p = None" "us_data p = Some data" "us_size p = int (length data)"
    and up: "UpsertSymbolFile now p (fw_table w) = Some (row, t)"
  shows "file_inv (w\<lparr>fw_table := t\<rparr>)"
proof -
  have kp: "kept w (us_data p) (us_blob_key p) (us_size p)" using p by (simp add: kept_def)
  have "\<And>k. us_blob_key p = Some k \<Longrightarrow> k \<notin> live_keys (fw_table w)" using p by simp
  note live = upsert_live [OF inv up this, simplified p]
  have "symbols_inv t" by (rule UpsertSymbolFile_inv [OF _ up]) (use inv in \<open>simp add: file_inv_def\<close>)
  moreover have "\<forall>f \<in> set (sy_rows t). kept w (sf_data f) (sf_blob_key f) (sf_size f)"
    using upsert_kept [OF inv up kp] by blast
  moreover have "live_keys t \<subseteq> live_keys (fw_table w)" using live(2) by simp
  ultimately show ?thesis using inv live(1) unfolding file_inv_def kept_simps pending_keys_simps by auto
qed

lemma file_inv_put:
  assumes inv: "file_inv w" and p: "us_blob_key p = Some key" "us_data p = None" "us_size p = int (length data)"
    and fresh: "key \<notin> dom (fw_written w)" and put: "Put key data (fw_blobs w) = Inr m"
  shows "file_inv (w\<lparr>fw_blobs := m, fw_pending := p # fw_pending w, fw_written := (fw_written w)(key \<mapsto> data)\<rparr>)"
proof -
  let ?w = "w\<lparr>fw_blobs := m, fw_pending := p # fw_pending w, fw_written := (fw_written w)(key \<mapsto> data)\<rparr>"
  have m: "m = (fw_blobs w)(key \<mapsto> data)" using put by (auto simp: Put_def split: if_splits)
  have keep: "kept ?w d k n" if "kept w d k n" for d k n
    using that fresh by (cases k) (auto simp: kept_def m)
  have new: "kept ?w (us_data p) (us_blob_key p) (us_size p)" using p by (simp add: kept_def m)
  have pend: "pending_keys ?w = insert key (pending_keys w)" using p by (auto simp: pending_keys_def)
  have not: "key \<notin> live_keys (fw_table w)" "key \<notin> pending_keys w" "key \<notin> set (fw_trash w)"
    using fresh file_inv_written [OF inv] inv unfolding file_inv_def by blast+
  have old: "q \<in> set (fw_pending w) \<Longrightarrow> us_blob_key q \<noteq> Some key" for q using not(2) unfolding pending_keys_def by blast
  have "\<forall>f \<in> set (sy_rows (fw_table w)). kept ?w (sf_data f) (sf_blob_key f) (sf_size f)"
    using keep file_inv_rows(3) [OF inv] by blast
  moreover have "\<forall>q \<in> set (p # fw_pending w). us_blob_key q \<noteq> None \<and> kept ?w (us_data q) (us_blob_key q) (us_size q)"
    using keep new p inv unfolding file_inv_def by auto
  moreover have "\<forall>q \<in> set (p # fw_pending w). \<forall>r \<in> set (p # fw_pending w). us_blob_key q = us_blob_key r \<longrightarrow> q = r"
    using old p inv unfolding file_inv_def by auto
  ultimately show ?thesis using inv not unfolding file_inv_def pend by auto
qed

lemma file_inv_collect:
  assumes inv: "file_inv w" and k: "key \<in> set (fw_trash w)"
  shows "file_inv (w\<lparr>fw_blobs := Delete key (fw_blobs w), fw_trash := removeAll key (fw_trash w)\<rparr>)"
proof -
  let ?w = "w\<lparr>fw_blobs := Delete key (fw_blobs w), fw_trash := removeAll key (fw_trash w)\<rparr>"
  have not: "key \<notin> live_keys (fw_table w)" "key \<notin> pending_keys w" using inv k unfolding file_inv_def by blast+
  have keep: "kept ?w d i n" if "kept w d i n" "i \<noteq> Some key" for d i n
    using that by (cases i) (auto simp: kept_def Delete_def)
  have "sf_blob_key f \<noteq> Some key" if "f \<in> set (sy_rows (fw_table w))" for f
    using not(1) that unfolding live_keys_def by blast
  then have "\<forall>f \<in> set (sy_rows (fw_table w)). kept ?w (sf_data f) (sf_blob_key f) (sf_size f)"
    using keep file_inv_rows(3) [OF inv] by blast
  moreover
  have "us_blob_key q \<noteq> Some key" if "q \<in> set (fw_pending w)" for q
    using not(2) that unfolding pending_keys_def by blast
  then have "\<forall>q \<in> set (fw_pending w). us_blob_key q \<noteq> None \<and> kept ?w (us_data q) (us_blob_key q) (us_size q)"
    using keep inv unfolding file_inv_def by blast
  moreover have "pending_keys ?w = pending_keys w" by (simp add: pending_keys_def)
  ultimately show ?thesis using inv unfolding file_inv_def by auto
qed

lemma file_inv_tag:
  assumes inv: "file_inv w" and tag: "SetSymbolFileRelease release pid d since (fw_table w) = Some (n, t)"
  shows "file_inv (w\<lparr>fw_table := t\<rparr>)"
proof -
  define retag where "retag f = (if untagged pid d since f then f\<lparr>sf_release := Some release\<rparr> else f)" for f
  have rows: "sy_rows t = map retag (sy_rows (fw_table w))"
    using tag by (auto simp: SetSymbolFileRelease_def Let_def update_where_def retag_def split: if_splits)
  have eq: "sf_blob_key (retag f) = sf_blob_key f" "sf_data (retag f) = sf_data f" "sf_size (retag f) = sf_size f" for f
    by (simp_all add: retag_def)
  have "symbols_inv t" by (rule SetSymbolFileRelease_inv [OF _ tag]) (use inv in \<open>simp add: file_inv_def\<close>)
  moreover have "unshared t"
    using file_inv_rows(2) [OF inv] unfolding unshared_def rows set_map by (simp only: ball_simps eq) blast
  moreover have "live_keys t = live_keys (fw_table w)" unfolding live_keys_def rows by (simp add: eq)
  moreover have "\<forall>f \<in> set (sy_rows t). kept w (sf_data f) (sf_blob_key f) (sf_size f)"
    using file_inv_rows(3) [OF inv] unfolding rows by (simp add: eq)
  ultimately show ?thesis using inv unfolding file_inv_def kept_simps pending_keys_simps by simp
qed

lemma file_inv_forget:
  assumes inv: "file_inv w" and sub: "set (fw_pending w') \<subseteq> set (fw_pending w)" "set (fw_trash w') \<subseteq> set (fw_trash w)"
    and w': "w' = w\<lparr>fw_pending := fw_pending w', fw_trash := fw_trash w'\<rparr>"
  shows "file_inv w'"
proof -
  have eq: "fw_table w' = fw_table w" "fw_written w' = fw_written w" "kept w' = kept w"
    by (subst w', simp)+ (subst w', rule kept_simps)
  have "pending_keys w' \<subseteq> pending_keys w" using sub(1) unfolding pending_keys_def by blast
  then show ?thesis using inv sub unfolding file_inv_def eq by blast
qed

lemma find_unique:
  assumes "unique_by key rows" and "find (\<lambda>f. P f \<and> key f = i) rows = Some f"
  shows "filter (\<lambda>f. P f \<and> key f = i) rows = [f]"
  using assms
proof (induction rows)
  case (Cons a rows)
  show ?case
  proof (cases "P a \<and> key a = i")
    case True
    then have "i \<notin> key ` set rows" using Cons.prems(1) by (auto simp: unique_by_def)
    then have "filter (\<lambda>f. P f \<and> key f = i) rows = []" by (auto simp: filter_empty_conv)
    with True Cons.prems(2) show ?thesis by simp
  next
    case False
    with Cons show ?thesis by (auto simp: unique_by_def)
  qed
qed simp

lemma file_step_inv:
  assumes "file_step w w'" and "file_inv w"
  shows "file_inv w'"
  using assms(1)
proof (cases rule: file_step.cases)
  case (put_object p key data m)
  then show ?thesis using file_inv_put [OF assms(2)] by simp
next
  case (commit_row p now row t)
  then show ?thesis using file_inv_commit [OF assms(2)] by simp
next
  case (abandon p key)
  let ?w = "w\<lparr>fw_pending := removeAll p (fw_pending w), fw_trash := key # fw_trash w\<rparr>"
  have keyp: "key \<in> pending_keys w" using abandon unfolding pending_keys_def by blast
  have pend: "pending_keys ?w \<subseteq> pending_keys w" "key \<notin> pending_keys ?w"
    using assms(2) abandon unfolding pending_keys_def file_inv_def by auto
  have "key \<notin> live_keys (fw_table w)" "key \<in> dom (fw_written w)"
    using keyp assms(2) file_inv_written(2) [OF assms(2)] unfolding file_inv_def by blast+
  with pend assms(2) show ?thesis unfolding abandon(1) file_inv_def kept_simps by auto
next
  case (inline_row p data now row t)
  then show ?thesis using file_inv_inline [OF assms(2)] by simp
next
  case (delete_row pid i k t)
  let ?hit = "\<lambda>f. sf_project f = pid \<and> sf_id f = i"
  have uq: "unique_by sf_id (sy_rows (fw_table w))" using assms(2) by (simp add: file_inv_def symbols_inv_def)
  have t: "t = (fw_table w)\<lparr>sy_rows := delete_where ?hit (sy_rows (fw_table w))\<rparr>"
    and fnd: "map_option sf_blob_key (find ?hit (sy_rows (fw_table w))) = Some k"
    using delete_row(2) by (simp_all add: DeleteSymbolFile_def Let_def)
  obtain f where f: "find ?hit (sy_rows (fw_table w)) = Some f" "k = sf_blob_key f" using fnd by auto
  have "map sf_blob_key (filter ?hit (sy_rows (fw_table w))) = [k]" using find_unique [OF uq f(1)] f(2) by simp
  from file_inv_delete [OF assms(2) this [symmetric]] show ?thesis unfolding delete_row(1) t .
next
  case (expire_rows before ks t)
  then have t: "t = (fw_table w)\<lparr>sy_rows := delete_where (\<lambda>f. sf_uploaded_at f < before) (sy_rows (fw_table w))\<rparr>"
    "ks = map sf_blob_key (filter (\<lambda>f. sf_uploaded_at f < before) (sy_rows (fw_table w)))"
    by (simp_all add: ExpireSymbolFiles_def Let_def)
  show ?thesis using file_inv_delete [OF assms(2) t(2)] unfolding expire_rows(1) t(1) .
next
  case (tag_rows release pid d since n t)
  then show ?thesis using file_inv_tag [OF assms(2)] by simp
next
  case (collect_garbage key)
  then show ?thesis using file_inv_collect [OF assms(2)] by simp
next
  case forget
  then show ?thesis by (rule file_inv_forget [OF assms(2)])
qed

lemma no_files_inv: "file_inv no_files"
  by (simp add: file_inv_def no_files_def symbols_inv_def unique_by_def unshared_def live_keys_def pending_keys_def)

lemma file_steps_inv: "file_steps no_files w \<Longrightarrow> file_inv w"
  by (induction rule: rtranclp_induct) (auto simp: no_files_inv intro: file_step_inv)

subsection \<open>The code's operations are such steps\<close>

definition world_of :: "symbol_store \<Rightarrow> file_world \<Rightarrow> file_world" where
  "world_of s w = w\<lparr>fw_table := ss_table s, fw_blobs := (case ss_blobs s of None \<Rightarrow> fw_blobs w | Some m \<Rightarrow> m)\<rparr>"

text \<open>
  \<open>putSymbolFile\<close> over a blob store is a run of steps, whatever fails in it, and leaves no upload behind: at most
  an object that could not be deleted stays in the trash.
\<close>

lemma putSymbolFile_runs:
  assumes "putSymbolFile now b put_fails row_fails stuck p data s = (r, s')" and "ss_blobs s \<noteq> None"
    and "us_size p = int (length data)" and "SymbolKey b (us_project p) \<notin> dom (fw_written w)"
    and "world_of s w = w"
  shows "\<exists>w'. file_steps w w' \<and> world_of s' w' = w' \<and> set (fw_pending w') \<subseteq> set (fw_pending w)"
proof -
  define key where "key = SymbolKey b (us_project p)"
  define q where "q = p\<lparr>us_data := None, us_blob_key := Some key\<rparr>"
  obtain m where m: "ss_blobs s = Some m" using assms(2) by blast
  have w: "fw_table w = ss_table s" "fw_blobs w = m"
    using arg_cong [OF assms(5), of fw_table] arg_cong [OF assms(5), of fw_blobs] m by (simp_all add: world_of_def)
  consider "put_fails \<or> (\<exists>e. Put key data m = Inl e)" | m' where "\<not> put_fails" "Put key data m = Inr m'"
    by (cases "Put key data m") auto
  then show ?thesis
  proof cases
    case 1
    then have "s' = s" using assms(1) m by (auto simp: putSymbolFile_def key_def [symmetric] Let_def split: sum.splits if_splits)
    then show ?thesis using assms(5) by blast
  next
    case 2
    define w1 where "w1 = w\<lparr>fw_blobs := m', fw_pending := q # fw_pending w, fw_written := (fw_written w)(key \<mapsto> data)\<rparr>"
    have put: "file_step w w1"
      unfolding w1_def using assms(3,4) 2(2) w(2) by (intro put_object) (simp_all add: q_def key_def)
    show ?thesis
    proof (cases "row_fails \<or> put_row now q (s\<lparr>ss_blobs := Some m'\<rparr>) = None")
      case True
      define w2 where "w2 = w1\<lparr>fw_pending := removeAll q (fw_pending w1), fw_trash := key # fw_trash w1\<rparr>"
      have ab: "file_step w1 w2" unfolding w2_def by (rule abandon) (simp_all add: w1_def q_def)
      have s': "s' = snd (deleteBlobs stuck [Some key] (s\<lparr>ss_blobs := Some m'\<rparr>))"
        using assms(1) m 2 True by (cases row_fails) (simp_all add: putSymbolFile_def key_def [symmetric] q_def [symmetric] Let_def)
      show ?thesis
      proof (cases "stuck key")
        case True
        then have "world_of s' w2 = w2" using w by (simp add: s' world_of_def w2_def w1_def)
        moreover have "set (fw_pending w2) \<subseteq> set (fw_pending w)" by (auto simp: w2_def w1_def)
        ultimately show ?thesis using put ab by (meson converse_rtranclp_into_rtranclp rtranclp.rtrancl_refl)
      next
        case False
        define w3 where "w3 = w2\<lparr>fw_blobs := Delete key (fw_blobs w2), fw_trash := removeAll key (fw_trash w2)\<rparr>"
        have "file_step w2 w3" unfolding w3_def by (rule collect_garbage) (simp add: w2_def)
        moreover have "world_of s' w3 = w3" using False w by (simp add: s' world_of_def w3_def w2_def w1_def)
        moreover have "set (fw_pending w3) \<subseteq> set (fw_pending w)" by (auto simp: w3_def w2_def w1_def)
        ultimately show ?thesis using put ab by (meson converse_rtranclp_into_rtranclp rtranclp.rtrancl_refl)
      qed
    next
      case False
      then obtain row t where up: "UpsertSymbolFile now q (ss_table s) = Some (row, t)"
        by (auto simp: put_row_def)
      define w2 where "w2 = w1\<lparr>fw_table := t, fw_pending := removeAll q (fw_pending w1), fw_trash := old_key q (fw_table w1) @ fw_trash w1\<rparr>"
      have cm: "file_step w1 w2" unfolding w2_def using up w by (intro commit_row [where row = row]) (simp_all add: w1_def)
      have old: "old_key q (fw_table w1) = (case replaced_key p s of None \<Rightarrow> [] | Some k \<Rightarrow> [k])"
        using w by (simp add: old_key_def replaced_key_def w1_def q_def split: option.split)
      have s': "s' = snd (deleteBlobs stuck [replaced_key p s] (s\<lparr>ss_blobs := Some m', ss_table := t\<rparr>))"
        using assms(1) m 2 False up
        by (simp add: putSymbolFile_def key_def [symmetric] q_def [symmetric] Let_def put_row_def)
      have sub: "set (fw_pending w2) \<subseteq> set (fw_pending w)" by (auto simp: w2_def w1_def)
      show ?thesis
      proof (cases "\<exists>k. replaced_key p s = Some k \<and> \<not> stuck k")
        case True
        then obtain k where k: "replaced_key p s = Some k" "\<not> stuck k" by blast
        define w3 where "w3 = w2\<lparr>fw_blobs := Delete k (fw_blobs w2), fw_trash := removeAll k (fw_trash w2)\<rparr>"
        have "file_step w2 w3" unfolding w3_def by (rule collect_garbage) (simp add: w2_def old k(1))
        moreover have "world_of s' w3 = w3" using k w by (simp add: s' world_of_def w3_def w2_def w1_def)
        moreover have "set (fw_pending w3) \<subseteq> set (fw_pending w)" using sub by (simp add: w3_def)
        ultimately show ?thesis using put cm by (meson converse_rtranclp_into_rtranclp rtranclp.rtrancl_refl)
      next
        case no: False
        then have "world_of s' w2 = w2" using w by (cases "replaced_key p s") (auto simp: s' world_of_def w2_def w1_def)
        then show ?thesis using put cm sub by (meson converse_rtranclp_into_rtranclp rtranclp.rtrancl_refl)
      qed
    qed
  qed
qed


definition example_put :: "string \<Rightarrow> string \<Rightarrow> upsert_symbol_params" where
  "example_put key data = \<lparr>us_project = 1, us_kind = SymbolKindDsym, us_release = Some ''1.0'', us_debug_id = None, us_filename = ''App'',
     us_size = int (length data), us_data = None, us_blob_key = Some key\<rparr>"


end
