(* ===== verification/SourceMaps.thy ===== *)
theory SourceMaps
  imports Events GoStrings "HOL-Library.Product_Lexorder"
begin

text \<open>
  Source maps (\<open>internal/symbolicate/sourcemap.go\<close>): the base64 VLQ decoder, the reader of plain and indexed
  maps, the lookup of a position and the maps of a release. Decoding the JSON document is a parameter; a Go
  \<open>int\<close> has 64 bits. Shown: the decoder inverts the encoding of the Source Map format, the reader gives back the
  mappings of a generated map, the binary search finds the last mapping at or before a position, and the order in
  which the maps of a release are read does not matter.
\<close>

section \<open>The data\<close>

record mapping =
  mp_gen_line :: int
  mp_gen_col :: int
  mp_source :: string
  mp_orig_line :: int
  mp_orig_col :: int
  mp_name :: string
  mp_has_orig :: bool

record source_map =
  sm_sources :: "string list"
  sm_names :: "string list"
  sm_mappings :: "mapping list"

text \<open>What \<open>json.Unmarshal\<close> fills in; a section is its offset and the raw text of its map.\<close>

record raw_map =
  rw_sources :: "string list"
  rw_source_root :: string
  rw_names :: "string list"
  rw_mappings :: string
  rw_sections :: "(int \<times> int \<times> string) list"

section \<open>Base64 VLQ\<close>

definition b64 :: string where
  "b64 = ''ABCDEFGHIJKLMNOPQRSTUVWXYZabcdefghijklmnopqrstuvwxyz0123456789+/''"

fun index_byte :: "string \<Rightarrow> char \<Rightarrow> nat option" where
  "index_byte [] c = None"
| "index_byte (x # s) c = (if x = c then Some 0 else map_option Suc (index_byte s c))"

text \<open>\<open>result &1\<close>, \<open>result >>= 1\<close> and the sign: the value the accumulated bits stand for.\<close>

definition vlq_value :: "int \<Rightarrow> int" where
  "vlq_value r = (if odd r then wrap64 (- (r div 2)) else r div 2)"

fun decode_loop :: "int \<Rightarrow> nat \<Rightarrow> string \<Rightarrow> int list option" where
  "decode_loop result shift [] = (if shift \<noteq> 0 then None else Some [])"
| "decode_loop result shift (c # s) =
     (case index_byte b64 c of
        None \<Rightarrow> None
      | Some d \<Rightarrow>
          (let r = wrap64 (result + wrap64 (int (d mod 32) * 2 ^ shift))
           in if d div 32 mod 2 = 0 then map_option ((#) (vlq_value r)) (decode_loop 0 0 s)
              else decode_loop r (shift + 5) s))"

definition decodeVLQs :: "string \<Rightarrow> int list option" where
  "decodeVLQs s = decode_loop 0 0 s"

section \<open>Reading a map\<close>

definition position :: "mapping \<Rightarrow> int \<times> int" where
  "position m = (mp_gen_line m, mp_gen_col m)"

definition sortMappings :: "mapping list \<Rightarrow> mapping list" where
  "sortMappings ms = sort_key position ms"

text \<open>The running \<open>srcIdx\<close>, \<open>origLine\<close>, \<open>origCol\<close> and \<open>nameIdx\<close>.\<close>

type_synonym cursors = "int \<times> int \<times> int \<times> int"

definition nth_or :: "string list \<Rightarrow> int \<Rightarrow> string" where
  "nth_or xs i = (if 0 \<le> i \<and> i < int (length xs) then xs ! nat i else [])"

definition segment_step :: "string list \<Rightarrow> string list \<Rightarrow> int \<Rightarrow> int list \<Rightarrow> int \<Rightarrow> cursors \<Rightarrow> int \<times> cursors \<times> mapping" where
  "segment_step sources names line vals col cu =
     (case cu of (src, ol, oc, nm) \<Rightarrow>
        let gc = wrap64 (col + vals ! 0);
            m = \<lparr>mp_gen_line = line, mp_gen_col = gc, mp_source = [], mp_orig_line = 0, mp_orig_col = 0, mp_name = [],
                 mp_has_orig = False\<rparr>
        in if 4 \<le> length vals
           then (let src' = wrap64 (src + vals ! 1); ol' = wrap64 (ol + vals ! 2); oc' = wrap64 (oc + vals ! 3);
                     nm' = if 5 \<le> length vals then wrap64 (nm + vals ! 4) else nm
                 in (gc, (src', ol', oc', nm'),
                     m\<lparr>mp_source := nth_or sources src', mp_orig_line := wrap64 (ol' + 1), mp_orig_col := oc',
                       mp_name := if 5 \<le> length vals then nth_or names nm' else [], mp_has_orig := True\<rparr>))
           else (gc, cu, m))"

fun read_segments :: "string list \<Rightarrow> string list \<Rightarrow> int \<Rightarrow> string list \<Rightarrow> int \<Rightarrow> cursors \<Rightarrow> cursors \<times> mapping list" where
  "read_segments sources names line [] col cu = (cu, [])"
| "read_segments sources names line (seg # segs) col cu =
     (if seg = [] then read_segments sources names line segs col cu
      else (case decodeVLQs seg of
              None \<Rightarrow> read_segments sources names line segs col cu
            | Some [] \<Rightarrow> read_segments sources names line segs col cu
            | Some (v # vs) \<Rightarrow>
                (case segment_step sources names line (v # vs) col cu of
                   (col', cu', m) \<Rightarrow> map_prod id ((#) m) (read_segments sources names line segs col' cu'))))"

fun read_lines :: "string list \<Rightarrow> string list \<Rightarrow> int \<Rightarrow> string list \<Rightarrow> cursors \<Rightarrow> mapping list" where
  "read_lines sources names line [] cu = []"
| "read_lines sources names line (segs # rest) cu =
     (case read_segments sources names line (split_byte CHR '','' segs) 0 cu of
        (cu', ms) \<Rightarrow> ms @ read_lines sources names (line + 1) rest cu')"

definition root_source :: "string \<Rightarrow> string \<Rightarrow> string" where
  "root_source root src = (if src \<noteq> [] \<and> \<not> has_prefix src root \<and> \<not> contains src ''://'' then root @ src else src)"

definition read_plain :: "raw_map \<Rightarrow> source_map" where
  "read_plain raw =
     (let sources = if rw_source_root raw \<noteq> []
                    then map (root_source (trim_suffix (rw_source_root raw) ''/'' @ ''/'')) (rw_sources raw)
                    else rw_sources raw
      in \<lparr>sm_sources = sources, sm_names = rw_names raw,
          sm_mappings = sortMappings (read_lines sources (rw_names raw) 1 (split_byte CHR '';'' (rw_mappings raw)) (0, 0, 0, 0))\<rparr>)"

definition shift_mapping :: "int \<Rightarrow> int \<Rightarrow> mapping \<Rightarrow> mapping" where
  "shift_mapping line col m =
     m\<lparr>mp_gen_col := if mp_gen_line m = 1 then wrap64 (mp_gen_col m + col) else mp_gen_col m,
       mp_gen_line := wrap64 (mp_gen_line m + line)\<rparr>"

definition join_sections :: "(int \<times> int \<times> source_map) list \<Rightarrow> source_map" where
  "join_sections subs =
     \<lparr>sm_sources = concat (map (\<lambda>(l, c, sub). sm_sources sub) subs),
      sm_names = concat (map (\<lambda>(l, c, sub). sm_names sub) subs),
      sm_mappings = sortMappings (concat (map (\<lambda>(l, c, sub). map (shift_mapping l c) (sm_mappings sub)) subs))\<rparr>"

text \<open>
  The recursion of \<open>ParseSourceMap\<close> into the sections, \<open>n\<close> levels deep. The raw text of a section is a proper
  part of the document, so a depth of its length is never used up (\<open>parse_map_enough\<close>).
\<close>

fun parse_map :: "(string \<Rightarrow> raw_map option) \<Rightarrow> nat \<Rightarrow> string \<Rightarrow> source_map option" where
  "parse_map json 0 content = None"
| "parse_map json (Suc n) content =
     (case json content of
        None \<Rightarrow> None
      | Some raw \<Rightarrow>
          if rw_sections raw \<noteq> []
          then Some (join_sections (List.map_filter
                 (\<lambda>(l, c, doc). if doc = [] then None else map_option (\<lambda>sub. (l, c, sub)) (parse_map json n doc))
                 (rw_sections raw)))
          else Some (read_plain raw))"

definition ParseSourceMap :: "(string \<Rightarrow> raw_map option) \<Rightarrow> string \<Rightarrow> source_map option" where
  "ParseSourceMap json content = parse_map json (Suc (length content)) content"

section \<open>Looking up a position\<close>

text \<open>\<open>sort.Search\<close>: the loop over \<open>[i, j)\<close>.\<close>

function search_loop :: "(nat \<Rightarrow> bool) \<Rightarrow> nat \<Rightarrow> nat \<Rightarrow> nat" where
  "search_loop p i j =
     (if i < j then (let h = (i + j) div 2 in if p h then search_loop p i h else search_loop p (h + 1) j) else i)"
  by auto
termination by (relation "measure (\<lambda>(p, i, j). j - i)") auto

declare search_loop.simps [simp del]

definition after :: "int \<Rightarrow> int \<Rightarrow> mapping \<Rightarrow> bool" where
  "after line col m \<longleftrightarrow> line < mp_gen_line m \<or> mp_gen_line m = line \<and> col < mp_gen_col m"

definition map_frame :: "mapping \<Rightarrow> frame \<Rightarrow> frame" where
  "map_frame m f =
     (if \<not> mp_has_orig m \<or> mp_gen_line m \<noteq> fr_lineno f then f
      else f\<lparr>fr_lineno := mp_orig_line m, fr_colno := wrap64 (mp_orig_col m + 1),
             fr_filename := if mp_source m \<noteq> [] then mp_source m else fr_filename f,
             fr_abs_path := if mp_source m \<noteq> [] then [] else fr_abs_path f,
             fr_function := if mp_name m \<noteq> [] then mp_name m else fr_function f\<rparr>)"

text \<open>Sentry columns are 1-based, those of a source map 0-based.\<close>

definition column :: "frame \<Rightarrow> int" where
  "column f = (if 0 < fr_colno f then fr_colno f - 1 else fr_colno f)"

definition Resolve :: "source_map \<Rightarrow> frame \<Rightarrow> frame" where
  "Resolve sm f =
     (let ms = sm_mappings sm
      in if fr_lineno f < 1 \<or> ms = [] then f
         else (let n = search_loop (\<lambda>i. after (fr_lineno f) (column f) (ms ! i)) 0 (length ms)
               in if n = 0 then f else map_frame (ms ! (n - 1)) f))"

definition resolve_all :: "(frame \<Rightarrow> frame) \<Rightarrow> frame list \<Rightarrow> frame list \<times> bool" where
  "resolve_all resolve fs = (map resolve fs, list_ex (\<lambda>f. resolve f \<noteq> f) fs)"

definition ResolveAll :: "source_map \<Rightarrow> frame list \<Rightarrow> frame list \<times> bool" where
  "ResolveAll sm = resolve_all (Resolve sm)"

section \<open>The maps of a release\<close>

record source_map_set =
  st_by_file :: "(string \<times> source_map) list"
  st_single :: "source_map option"

definition baseName :: "string \<Rightarrow> string" where
  "baseName p = after_last_any [CHR ''/'', backslash] p"

definition map_key :: "string \<Rightarrow> string" where
  "map_key name = trim_suffix (baseName name) ''.map''"

definition add_source_map :: "(string \<Rightarrow> raw_map option) \<Rightarrow> string \<times> string \<Rightarrow> source_map_set \<Rightarrow> source_map_set" where
  "add_source_map json file s =
     (case ParseSourceMap json (snd file) of
        None \<Rightarrow> s
      | Some sm \<Rightarrow> \<lparr>st_by_file = upsert fst (\<lambda>old new. new) (map_key (fst file), sm) (st_by_file s), st_single = Some sm\<rparr>)"

text \<open>The files in the order in which Go happens to walk the map.\<close>

definition NewSourceMapSet :: "(string \<Rightarrow> raw_map option) \<Rightarrow> (string \<times> string) list \<Rightarrow> source_map_set" where
  "NewSourceMapSet json files =
     (let s = fold (add_source_map json) files \<lparr>st_by_file = [], st_single = None\<rparr>
      in if length (st_by_file s) \<noteq> 1 then s\<lparr>st_single := None\<rparr> else s)"

definition Len :: "source_map_set \<Rightarrow> nat" where
  "Len s = length (st_by_file s)"

definition frame_key :: "frame \<Rightarrow> string" where
  "frame_key f = takeWhile (\<lambda>c. c \<notin> {CHR ''?'', CHR ''#''})
     (baseName (if fr_filename f = [] then fr_abs_path f else fr_filename f))"

definition map_for :: "source_map_set \<Rightarrow> string \<Rightarrow> source_map option" where
  "map_for s name = (case map_of (st_by_file s) name of
       Some sm \<Rightarrow> Some sm | None \<Rightarrow> if name = [] then st_single s else None)"

definition Set_Resolve :: "source_map_set \<Rightarrow> frame \<Rightarrow> frame" where
  "Set_Resolve s f = (case map_for s (frame_key f) of None \<Rightarrow> f | Some sm \<Rightarrow> Resolve sm f)"

definition Set_ResolveAll :: "source_map_set \<Rightarrow> frame list \<Rightarrow> frame list \<times> bool" where
  "Set_ResolveAll s = resolve_all (Set_Resolve s)"

section \<open>The encoding of the Source Map format\<close>

text \<open>The reference encoder: the sign in the lowest bit, five bits a digit, the lowest first.\<close>

function vlq_digits :: "nat \<Rightarrow> string" where
  "vlq_digits n = (if n < 32 then [b64 ! n] else b64 ! (32 + n mod 32) # vlq_digits (n div 32))"
  by auto
termination by (relation "measure id") auto

declare vlq_digits.simps [simp del]

definition encode_vlq :: "int \<Rightarrow> string" where
  "encode_vlq v = vlq_digits (if v < 0 then 2 * nat (- v) + 1 else 2 * nat v)"

definition encode_vlqs :: "int list \<Rightarrow> string" where
  "encode_vlqs vs = concat (map encode_vlq vs)"

lemma b64_facts: "list_all (\<lambda>d. index_byte b64 (b64 ! d) = Some d \<and> b64 ! d \<noteq> CHR '','' \<and> b64 ! d \<noteq> CHR '';'') [0..<64]"
  by code_simp

lemma index_b64: "d < 64 \<Longrightarrow> index_byte b64 (b64 ! d) = Some d"
  and b64_no_separator: "d < 64 \<Longrightarrow> b64 ! d \<noteq> CHR '','' \<and> b64 ! d \<noteq> CHR '';''"
  using b64_facts by (auto simp: list_all_iff)

lemma wrap64_sum: "0 \<le> a \<Longrightarrow> 0 \<le> b \<Longrightarrow> a + b < 2 ^ 63 \<Longrightarrow> wrap64 (a + wrap64 b) = a + b"
  by (simp add: wrap64_def)

lemma decode_digits:
  assumes "0 \<le> r" and "r + int n * 2 ^ shift < 2 ^ 63"
  shows "decode_loop r shift (vlq_digits n @ s) = map_option ((#) (vlq_value (r + int n * 2 ^ shift))) (decode_loop 0 0 s)"
  using assms
proof (induction n arbitrary: r shift rule: vlq_digits.induct)
  case (1 n)
  have pos: "0 \<le> int n * 2 ^ shift" by simp
  show ?case
  proof (cases "n < 32")
    case True
    have w: "wrap64 (r + wrap64 (int n * 2 ^ shift)) = r + int n * 2 ^ shift"
      using 1(2,3) pos by (intro wrap64_sum)
    show ?thesis using True w by (simp add: vlq_digits.simps [of n] index_b64)
  next
    case False
    have split: "int n = int (n mod 32) + int (n div 32) * 32"
      by (metis add.commute div_mult_mod_eq of_nat_add of_nat_mult of_nat_numeral)
    then have sum: "r + int n * 2 ^ shift = (r + int (n mod 32) * 2 ^ shift) + int (n div 32) * 2 ^ (shift + 5)"
      by (simp add: algebra_simps power_add)
    have rest: "0 \<le> int (n div 32) * 2 ^ (shift + 5)" and low: "0 \<le> int (n mod 32) * 2 ^ shift" by simp_all
    have w: "wrap64 (r + wrap64 (int (n mod 32) * 2 ^ shift)) = r + int (n mod 32) * 2 ^ shift"
      using 1(2,3) sum rest low by (intro wrap64_sum) linarith+
    have idx: "index_byte b64 (b64 ! (32 + n mod 32)) = Some (32 + n mod 32)" by (rule index_b64) simp
    have d: "(32 + n mod 32) mod 32 = n mod 32" "(32 + n mod 32) div 32 = 1" by simp_all
    have "decode_loop r shift (vlq_digits n @ s) = decode_loop (r + int (n mod 32) * 2 ^ shift) (shift + 5) (vlq_digits (n div 32) @ s)"
      using False by (simp add: vlq_digits.simps [of n] idx d w)
    also have "\<dots> = map_option ((#) (vlq_value (r + int n * 2 ^ shift))) (decode_loop 0 0 s)"
      unfolding sum using False 1(2,3) low sum by (intro 1(1)) simp_all
    finally show ?thesis .
  qed
qed

definition small :: "int \<Rightarrow> bool" where
  "small v \<longleftrightarrow> \<bar>v\<bar> < 2 ^ 62"

lemma vlq_decode_Cons:
  assumes "small v"
  shows "decode_loop 0 0 (encode_vlq v @ s) = map_option ((#) v) (decode_loop 0 0 s)"
proof -
  define n where "n = (if v < 0 then 2 * nat (- v) + 1 else 2 * nat v)"
  have "0 + int n * 2 ^ 0 < 2 ^ 63" using assms unfolding small_def n_def by (cases "v < 0") simp_all
  from decode_digits [OF _ this, of s] have
    "decode_loop 0 0 (vlq_digits n @ s) = map_option ((#) (vlq_value (int n))) (decode_loop 0 0 s)" by simp
  moreover have "(1 - 2 * v) div 2 = - v" by presburger
  then have "vlq_value (int n) = v"
    using assms by (simp add: vlq_value_def n_def small_def)
  ultimately show ?thesis by (simp add: encode_vlq_def n_def)
qed

lemma vlq_decode_encode: "list_all small vs \<Longrightarrow> decodeVLQs (encode_vlqs vs) = Some vs"
  by (induction vs) (simp_all add: decodeVLQs_def encode_vlqs_def vlq_decode_Cons)

lemma vlq_digits_chars: "c \<in> set (vlq_digits n) \<Longrightarrow> c \<noteq> CHR '','' \<and> c \<noteq> CHR '';''"
proof (induction n rule: vlq_digits.induct)
  case (1 n)
  have "32 + n mod 32 < 64" by simp
  from b64_no_separator [OF this] b64_no_separator [of n] 1 show ?case
    by (auto simp: vlq_digits.simps [of n] split: if_splits)
qed

lemma encode_vlqs_chars: "c \<in> set (encode_vlqs vs) \<Longrightarrow> c \<noteq> CHR '','' \<and> c \<noteq> CHR '';''"
  unfolding encode_vlqs_def encode_vlq_def by (auto dest: vlq_digits_chars split: if_splits)

lemma encode_vlqs_nonempty: "encode_vlqs (v # vs) \<noteq> []"
proof -
  have "vlq_digits n \<noteq> []" for n by (subst vlq_digits.simps) simp
  then show ?thesis by (simp add: encode_vlqs_def encode_vlq_def)
qed

section \<open>The binary search\<close>

lemma search_loop_step:
  "i < j \<Longrightarrow> h = (i + j) div 2 \<Longrightarrow> search_loop p i j = (if p h then search_loop p i h else search_loop p (h + 1) j)"
  by (simp add: search_loop.simps [of p i j])

lemma search_loop_bounds: "i \<le> j \<Longrightarrow> i \<le> search_loop p i j \<and> search_loop p i j \<le> j"
proof (induction p i j rule: search_loop.induct)
  case (1 p i j)
  show ?case
  proof (cases "i < j")
    case True
    define h where "h = (i + j) div 2"
    have h: "i \<le> h" "h < j" using True unfolding h_def by simp_all
    have "search_loop p i j = (if p h then search_loop p i h else search_loop p (h + 1) j)"
      using search_loop_step [OF True h_def] .
    moreover have "p h \<Longrightarrow> i \<le> search_loop p i h \<and> search_loop p i h \<le> h"
      using 1(1) [OF True h_def] h by blast
    moreover have "\<not> p h \<Longrightarrow> h + 1 \<le> search_loop p (h + 1) j \<and> search_loop p (h + 1) j \<le> j"
      using 1(2) [OF True h_def] h by simp
    ultimately show ?thesis using h by (cases "p h") simp_all
  next
    case False
    then show ?thesis using 1(3) by (subst (1 2) search_loop.simps) simp
  qed
qed

text \<open>On a predicate that never falls back to False, it finds the first index that satisfies it.\<close>

definition once_true :: "nat \<Rightarrow> nat \<Rightarrow> (nat \<Rightarrow> bool) \<Rightarrow> bool" where
  "once_true i j p \<longleftrightarrow> (\<forall>r s. i \<le> r \<longrightarrow> r \<le> s \<longrightarrow> s < j \<longrightarrow> p r \<longrightarrow> p s)"

lemma search_loop_exact:
  assumes "once_true i j p" and "i \<le> k" and "k < j"
  shows "p k \<longleftrightarrow> search_loop p i j \<le> k"
  using assms
proof (induction p i j rule: search_loop.induct)
  case (1 p i j)
  define h where "h = (i + j) div 2"
  from 1(4,5) have h: "i \<le> h" "h < j" "i < j" using order.strict_trans1 [OF 1(4,5)] unfolding h_def by simp_all
  have unfold: "search_loop p i j = (if p h then search_loop p i h else search_loop p (h + 1) j)"
    using search_loop_step [OF h(3) h_def] .
  have sub: "once_true i h p" "once_true (h + 1) j p" using 1(3) h unfolding once_true_def by (meson le_trans less_trans le_add1)+
  show ?case
  proof (cases "p h")
    case True
    moreover have "p k \<longleftrightarrow> search_loop p i h \<le> k"
    proof (cases "k < h")
      case k: True
      show ?thesis by (rule 1(1) [OF h(3) h_def True sub(1) 1(4) k])
    next
      case False
      then have "h \<le> k" by simp
      then have "p k" using 1(3,5) True h(1) unfolding once_true_def by blast
      moreover have "search_loop p i h \<le> h" using h search_loop_bounds [of i h p] by simp
      ultimately show ?thesis using False by simp
    qed
    ultimately show ?thesis using unfold by simp
  next
    case False
    moreover have "p k \<longleftrightarrow> search_loop p (h + 1) j \<le> k"
    proof (cases "h < k")
      case k: True
      then have "h + 1 \<le> k" by simp
      show ?thesis by (rule 1(2) [OF h(3) h_def False sub(2) \<open>h + 1 \<le> k\<close> 1(5)])
    next
      case k: False
      then have "k \<le> h" by simp
      then have "\<not> p k" using 1(3,4) False h(2) unfolding once_true_def by blast
      moreover have "h + 1 \<le> search_loop p (h + 1) j" using h search_loop_bounds [of "h + 1" j p] by simp
      ultimately show ?thesis using k by simp
    qed
    ultimately show ?thesis using unfold by simp
  qed
qed

text \<open>The elements up to the one before the first that satisfies it are those that do not.\<close>

lemma search_last:
  assumes "once_true 0 (length xs) (\<lambda>i. p (xs ! i))"
  defines "n \<equiv> search_loop (\<lambda>i. p (xs ! i)) 0 (length xs)"
  shows "filter (\<lambda>x. \<not> p x) xs = take n xs"
proof -
  have n: "n \<le> length xs" using search_loop_bounds [of 0 "length xs"] unfolding n_def by blast
  have e: "k < length xs \<Longrightarrow> p (xs ! k) \<longleftrightarrow> n \<le> k" for k
    using search_loop_exact [OF assms(1), of k] unfolding n_def by simp
  have "filter (\<lambda>x. \<not> p x) (take n xs) = take n xs"
    using e n by (auto simp: filter_id_conv in_set_conv_nth)
  moreover have "filter (\<lambda>x. \<not> p x) (drop n xs) = []"
    using e by (auto simp: filter_empty_conv in_set_conv_nth)
  ultimately show ?thesis by (metis append_take_drop_id append_Nil2 filter_append)
qed

section \<open>What a map resolves\<close>

lemma parse_map_sorted:
  assumes "parse_map json n content = Some sm"
  shows "sorted (map position (sm_mappings sm))"
proof (cases n)
  case (Suc m)
  with assms show ?thesis
    by (auto simp: read_plain_def join_sections_def sortMappings_def Let_def split: option.splits if_splits)
qed (use assms in simp)

lemma after_once:
  assumes "sorted (map position ms)"
  shows "once_true 0 (length ms) (\<lambda>i. after line col (ms ! i))"
  unfolding once_true_def
proof (intro allI impI)
  fix r s
  assume "r \<le> s" "s < length ms" "after line col (ms ! r)"
  moreover from calculation have "position (ms ! r) \<le> position (ms ! s)"
    using sorted_nth_mono [OF assms, of r s] by simp
  ultimately show "after line col (ms ! s)" by (auto simp: after_def position_def)
qed

text \<open>The mappings that begin at or before the position of the frame.\<close>

definition at_or_before :: "frame \<Rightarrow> mapping \<Rightarrow> bool" where
  "at_or_before f m \<longleftrightarrow> mp_gen_line m < fr_lineno f \<or> mp_gen_line m = fr_lineno f \<and> mp_gen_col m \<le> column f"

lemma Resolve_sorted:
  assumes "sorted (map position (sm_mappings sm))"
  shows "Resolve sm f =
     (if fr_lineno f < 1 then f
      else (case rev (filter (at_or_before f) (sm_mappings sm)) of [] \<Rightarrow> f | m # _ \<Rightarrow> map_frame m f))"
proof (cases "fr_lineno f < 1 \<or> sm_mappings sm = []")
  case False
  define ms where "ms = sm_mappings sm"
  define n where "n = search_loop (\<lambda>i. after (fr_lineno f) (column f) (ms ! i)) 0 (length ms)"
  have n: "n \<le> length ms" using search_loop_bounds [of 0 "length ms"] unfolding n_def by blast
  have "filter (\<lambda>m. \<not> after (fr_lineno f) (column f) m) ms = take n ms"
    unfolding n_def by (rule search_last) (rule after_once [OF assms, folded ms_def])
  moreover have "(\<lambda>m. \<not> after (fr_lineno f) (column f) m) = at_or_before f"
    by (auto simp: after_def at_or_before_def fun_eq_iff)
  ultimately have e: "filter (at_or_before f) ms = take n ms" by simp
  show ?thesis
  proof (cases n)
    case 0
    with False e show ?thesis by (simp add: Resolve_def n_def [symmetric] ms_def [symmetric])
  next
    case (Suc k)
    with n have "rev (take n ms) = ms ! k # rev (take k ms)" by (simp add: take_Suc_conv_app_nth)
    with False e Suc show ?thesis by (simp add: Resolve_def n_def [symmetric] ms_def [symmetric])
  qed
qed (auto simp: Resolve_def)

text \<open>
  C8. The position a parsed map gives a frame is that of the last mapping, in the order of the document among
  equals, that begins at or before the frame's line and column; a mapping of an earlier line, or one without a
  source, leaves the frame as it is. The binary search over the sorted mappings misses none.
\<close>

theorem Resolve_exact:
  assumes "ParseSourceMap json content = Some sm"
  shows "Resolve sm f =
     (if fr_lineno f < 1 then f
      else (case rev (filter (at_or_before f) (sm_mappings sm)) of [] \<Rightarrow> f | m # _ \<Rightarrow> map_frame m f))"
  using Resolve_sorted [OF parse_map_sorted [OF assms [unfolded ParseSourceMap_def]]] .

definition example_raw :: raw_map where
  "example_raw = \<lparr>rw_sources = [''a.ts''], rw_source_root = ''src/'', rw_names = [''boot''],
     rw_mappings = ''AAAAA,QACA;AAEA'', rw_sections = []\<rparr>"

definition example_json :: "string \<Rightarrow> raw_map option" where
  "example_json s = (if s = ''{}'' then Some example_raw else None)"

definition example_map :: source_map where
  "example_map = the (ParseSourceMap example_json ''{}'')"

lemma example_map_mappings:
  "ParseSourceMap example_json ''{}'' = Some \<lparr>sm_sources = [''src/a.ts''], sm_names = [''boot''], sm_mappings =
     [\<lparr>mp_gen_line = 1, mp_gen_col = 0, mp_source = ''src/a.ts'', mp_orig_line = 1, mp_orig_col = 0, mp_name = ''boot'', mp_has_orig = True\<rparr>,
      \<lparr>mp_gen_line = 1, mp_gen_col = 8, mp_source = ''src/a.ts'', mp_orig_line = 2, mp_orig_col = 0, mp_name = [], mp_has_orig = True\<rparr>,
      \<lparr>mp_gen_line = 2, mp_gen_col = 0, mp_source = ''src/a.ts'', mp_orig_line = 4, mp_orig_col = 0, mp_name = [], mp_has_orig = True\<rparr>]\<rparr>"
  by code_simp

lemma Resolve_exact_witness:
  "Resolve example_map (frame0\<lparr>fr_lineno := 1, fr_colno := 12\<rparr>)
     = frame0\<lparr>fr_filename := ''src/a.ts'', fr_lineno := 2, fr_colno := 1\<rparr>"
  using Resolve_exact [OF example_map_mappings, of "frame0\<lparr>fr_lineno := 1, fr_colno := 12\<rparr>"]
  by (simp add: example_map_def example_map_mappings at_or_before_def column_def map_frame_def frame0_def)

text \<open>The sections of a document, and their sections, are read however deep they are nested.\<close>

definition sections_are_parts :: "(string \<Rightarrow> raw_map option) \<Rightarrow> bool" where
  "sections_are_parts json \<longleftrightarrow>
     (\<forall>content raw. json content = Some raw \<longrightarrow> list_all (\<lambda>(l, c, doc). length doc < length content) (rw_sections raw))"

lemma map_filter_eq: "(\<And>x. x \<in> set xs \<Longrightarrow> f x = g x) \<Longrightarrow> List.map_filter f xs = List.map_filter g xs"
  by (induction xs) (auto simp: List.map_filter_simps split: option.split)

lemma parse_map_enough:
  assumes "sections_are_parts json"
  shows "length content < n \<Longrightarrow> length content < m \<Longrightarrow> parse_map json n content = parse_map json m content"
proof (induction n arbitrary: m content)
  case (Suc n)
  then obtain k where m: "m = Suc k" by (cases m) auto
  have "parse_map json n doc = parse_map json k doc"
    if "json content = Some raw" "(l, c, doc) \<in> set (rw_sections raw)" for raw l c doc
  proof -
    have "length doc < length content"
      using assms that unfolding sections_are_parts_def by (fastforce simp: list_all_iff)
    then show ?thesis using Suc m by (intro Suc.IH) simp_all
  qed
  then show ?case unfolding m by (auto split: option.split intro!: arg_cong [where f = join_sections] map_filter_eq)
qed simp

text \<open>
  \<open>ParseSourceMap\<close> ends on every document and is the recursion the code writes: a plain map is read on its
  own, an indexed one is put together from what the same function reads of its sections, a section without a
  map or with a bad one being left out.
\<close>

theorem ParseSourceMap_recursion:
  assumes "sections_are_parts json"
  shows "ParseSourceMap json content =
     (case json content of
        None \<Rightarrow> None
      | Some raw \<Rightarrow>
          if rw_sections raw \<noteq> []
          then Some (join_sections (List.map_filter
                 (\<lambda>(l, c, doc). if doc = [] then None else map_option (\<lambda>sub. (l, c, sub)) (ParseSourceMap json doc))
                 (rw_sections raw)))
          else Some (read_plain raw))"
proof -
  have "parse_map json (length content) doc = ParseSourceMap json doc"
    if "json content = Some raw" "(l, c, doc) \<in> set (rw_sections raw)" for raw l c doc
  proof -
    have "length doc < length content"
      using assms that unfolding sections_are_parts_def by (fastforce simp: list_all_iff)
    then show ?thesis unfolding ParseSourceMap_def by (intro parse_map_enough [OF assms]) simp_all
  qed
  then show ?thesis
    unfolding ParseSourceMap_def [of json content]
    by (auto split: option.split intro!: arg_cong [where f = join_sections] map_filter_eq)
qed

definition example_sections :: "string \<Rightarrow> raw_map option" where
  "example_sections s = (if s = ''[{}]'' then Some (example_raw\<lparr>rw_sections := [(10, 5, ''{}''), (20, 0, ''?'')]\<rparr>) else example_json s)"

lemma ParseSourceMap_recursion_witness:
  "map_option (map position \<circ> sm_mappings) (ParseSourceMap example_sections ''[{}]'') = Some [(11, 5), (11, 13), (12, 0)]"
proof -
  have parts: "sections_are_parts example_sections"
    by (auto simp: sections_are_parts_def example_sections_def example_json_def example_raw_def)
  have sub: "ParseSourceMap example_sections ''{}'' = ParseSourceMap example_json ''{}''"
    by (simp add: ParseSourceMap_def example_sections_def example_json_def example_raw_def)
  have bad: "ParseSourceMap example_sections ''?'' = None"
    by (simp add: ParseSourceMap_def example_sections_def example_json_def)
  show ?thesis
    by (subst ParseSourceMap_recursion [OF parts])
       (simp add: sub bad example_sections_def example_map_mappings List.map_filter_simps join_sections_def
          sortMappings_def shift_mapping_def position_def)
qed


section \<open>Reading back a generated map\<close>

text \<open>
  A generator as the Source Map format has it: every line lists its mappings, a generated column with, where it
  has one, the index of the source, the original line (0-based) and column, and the index of the name. Each
  number is written as the difference from the last one of its kind.
\<close>

type_synonym origin = "int \<times> int \<times> int \<times> int option"

fun write_segments :: "(int \<times> origin option) list \<Rightarrow> int \<Rightarrow> cursors \<Rightarrow> cursors \<times> string list" where
  "write_segments [] col cu = (cu, [])"
| "write_segments ((gc, None) # ts) col cu = map_prod id ((#) (encode_vlqs [gc - col])) (write_segments ts gc cu)"
| "write_segments ((gc, Some (s, l, c, None)) # ts) col (src, ol, oc, nm) =
     map_prod id ((#) (encode_vlqs [gc - col, s - src, l - ol, c - oc])) (write_segments ts gc (s, l, c, nm))"
| "write_segments ((gc, Some (s, l, c, Some n)) # ts) col (src, ol, oc, nm) =
     map_prod id ((#) (encode_vlqs [gc - col, s - src, l - ol, c - oc, n - nm])) (write_segments ts gc (s, l, c, n))"

fun write_lines :: "(int \<times> origin option) list list \<Rightarrow> cursors \<Rightarrow> string list" where
  "write_lines [] cu = []"
| "write_lines (ts # rest) cu =
     (case write_segments ts 0 cu of (cu', segs) \<Rightarrow> join '','' segs # write_lines rest cu')"

definition target :: "string list \<Rightarrow> string list \<Rightarrow> int \<Rightarrow> int \<times> origin option \<Rightarrow> mapping" where
  "target sources names line t =
     (case t of (gc, to) \<Rightarrow>
        let m = \<lparr>mp_gen_line = line, mp_gen_col = gc, mp_source = [], mp_orig_line = 0, mp_orig_col = 0, mp_name = [],
                 mp_has_orig = False\<rparr>
        in (case to of
              None \<Rightarrow> m
            | Some (s, l, c, n) \<Rightarrow> m\<lparr>mp_source := nth_or sources s, mp_orig_line := l + 1, mp_orig_col := c,
                 mp_name := (case n of None \<Rightarrow> [] | Some i \<Rightarrow> nth_or names i), mp_has_orig := True\<rparr>))"

fun targets :: "string list \<Rightarrow> string list \<Rightarrow> int \<Rightarrow> (int \<times> origin option) list list \<Rightarrow> mapping list" where
  "targets sources names line [] = []"
| "targets sources names line (ts # rest) = map (target sources names line) ts @ targets sources names (line + 1) rest"

definition in_range :: "int \<Rightarrow> bool" where
  "in_range v \<longleftrightarrow> 0 \<le> v \<and> v < 2 ^ 62"

definition target_ok :: "int \<times> origin option \<Rightarrow> bool" where
  "target_ok t = (case t of (gc, to) \<Rightarrow> in_range gc \<and> (case to of None \<Rightarrow> True | Some (s, l, c, n) \<Rightarrow>
     in_range s \<and> in_range l \<and> in_range c \<and> (case n of None \<Rightarrow> True | Some i \<Rightarrow> in_range i)))"

definition cursors_ok :: "cursors \<Rightarrow> bool" where
  "cursors_ok cu = (case cu of (src, ol, oc, nm) \<Rightarrow> in_range src \<and> in_range ol \<and> in_range oc \<and> in_range nm)"

lemma in_range_delta:
  assumes "in_range a" "in_range b"
  shows "small (a - b)" "wrap64 (b + (a - b)) = a" "wrap64 a = a"
  using assms by (auto simp: in_range_def small_def)

lemma in_range_next: "in_range l \<Longrightarrow> wrap64 (l + 1) = l + 1"
  by (simp add: in_range_def)

lemma read_segment:
  assumes "list_all small (v # vs)"
  shows "read_segments sources names line (encode_vlqs (v # vs) # segs) col cu =
     (case segment_step sources names line (v # vs) col cu of
        (col', cu', m) \<Rightarrow> map_prod id ((#) m) (read_segments sources names line segs col' cu'))"
  using assms by (simp add: vlq_decode_encode encode_vlqs_nonempty)

lemma read_write_segments:
  assumes "in_range col" and "cursors_ok cu" and "list_all target_ok ts"
  shows "read_segments sources names line (snd (write_segments ts col cu)) col cu
           = (fst (write_segments ts col cu), map (target sources names line) ts)
         \<and> cursors_ok (fst (write_segments ts col cu))"
  using assms
proof (induction ts col cu rule: write_segments.induct)
  case (1 col cu)
  then show ?case by simp
next
  case (2 gc ts col cu)
  then have gc: "in_range gc" by (simp add: target_ok_def)
  note d = in_range_delta [OF gc 2(2)]
  from 2 gc d show ?case
    by (cases cu) (simp add: read_segment segment_step_def target_def split_beta del: read_segments.simps)
next
  case (3 gc s l c ts col src ol oc nm)
  then have r: "in_range gc" "in_range s" "in_range l" "in_range c" "in_range src" "in_range ol" "in_range oc" "in_range nm"
    by (simp_all add: target_ok_def cursors_ok_def)
  then have cu: "cursors_ok (s, l, c, nm)" by (simp add: cursors_ok_def)
  from 3 r cu show ?case
    by (simp add: read_segment segment_step_def target_def split_beta in_range_delta in_range_next del: read_segments.simps)
next
  case (4 gc s l c n ts col src ol oc nm)
  then have r: "in_range gc" "in_range s" "in_range l" "in_range c" "in_range src" "in_range ol" "in_range oc" "in_range nm" "in_range n"
    by (simp_all add: target_ok_def cursors_ok_def)
  then have cu: "cursors_ok (s, l, c, n)" by (simp add: cursors_ok_def)
  from 4 r cu show ?case
    by (simp add: read_segment segment_step_def target_def split_beta in_range_delta in_range_next del: read_segments.simps)
qed

lemma split_join:
  assumes "xs \<noteq> []" and "\<And>x. x \<in> set xs \<Longrightarrow> c \<notin> set x"
  shows "split_byte c (join [c] xs) = xs"
  using assms
proof (induction "[c]" xs rule: join.induct)
  case (3 x y ys)
  then show ?case using split_byte_append [of c x] by simp
qed (simp_all add: split_byte_free)

lemma set_join: "a \<in> set (join sep xs) \<Longrightarrow> a \<in> set sep \<or> (\<exists>x \<in> set xs. a \<in> set x)"
  by (induction sep xs rule: join.induct) auto

lemma write_segments_chars: "x \<in> set (snd (write_segments ts col cu)) \<Longrightarrow> c \<in> set x \<Longrightarrow> c \<noteq> CHR '','' \<and> c \<noteq> CHR '';''"
  by (induction ts col cu rule: write_segments.induct) (auto dest: encode_vlqs_chars)

lemma write_lines_chars: "x \<in> set (write_lines lines cu) \<Longrightarrow> CHR '';'' \<notin> set x"
proof (induction lines arbitrary: cu)
  case (Cons ts rest)
  have "CHR '';'' \<notin> set (join '','' (snd (write_segments ts 0 cu)))"
    by (auto dest!: set_join dest: write_segments_chars)
  with Cons.prems Cons.IH [of "fst (write_segments ts 0 cu)"] show ?case
    by (auto simp: split_beta simp del: split_paired_All)
qed simp

lemma read_write_lines:
  assumes "cursors_ok cu" and "list_all (list_all target_ok) lines"
  shows "read_lines sources names line (write_lines lines cu) cu = targets sources names line lines"
  using assms
proof (induction lines arbitrary: cu line)
  case (Cons ts rest)
  have zero: "in_range 0" by (simp add: in_range_def)
  obtain cu' segs where w: "write_segments ts 0 cu = (cu', segs)" by (cases "write_segments ts 0 cu")
  have r: "read_segments sources names line segs 0 cu = (cu', map (target sources names line) ts)" "cursors_ok cu'"
    using read_write_segments [OF zero Cons.prems(1), of ts sources names line] Cons.prems(2) w by simp_all
  have "read_segments sources names line (split_byte CHR '','' (join '','' segs)) 0 cu
      = (cu', map (target sources names line) ts)"
  proof (cases "segs = []")
    case True
    then show ?thesis using r by simp
  next
    case False
    have "split_byte CHR '','' (join '','' segs) = segs"
      using False write_segments_chars [of _ ts 0 cu] w by (intro split_join) auto
    with r show ?thesis by simp
  qed
  with w Cons r show ?case by simp
qed simp

text \<open>The whole \<open>mappings\<close> text.\<close>

definition write_mappings :: "(int \<times> origin option) list list \<Rightarrow> string" where
  "write_mappings lines = join '';'' (write_lines lines (0, 0, 0, 0))"

lemma read_write_mappings:
  assumes "list_all (list_all target_ok) lines"
  shows "read_lines sources names 1 (split_byte CHR '';'' (write_mappings lines)) (0, 0, 0, 0) = targets sources names 1 lines"
proof (cases "lines = []")
  case False
  then have "write_lines lines (0, 0, 0, 0) \<noteq> []" by (cases lines) (simp_all add: split_beta)
  then have "split_byte CHR '';'' (write_mappings lines) = write_lines lines (0, 0, 0, 0)"
    unfolding write_mappings_def by (intro split_join) (auto dest: write_lines_chars)
  then show ?thesis using assms by (simp add: read_write_lines cursors_ok_def in_range_def)
qed (simp add: write_mappings_def)

lemma targets_lines: "m \<in> set (targets sources names line lines) \<Longrightarrow> line \<le> mp_gen_line m"
proof (induction lines arbitrary: line)
  case (Cons ts rest)
  then show ?case by (force simp: target_def Let_def split: option.splits prod.splits)
qed simp

lemma position_target: "position (target sources names line t) = (line, fst t)"
  by (simp add: position_def target_def Let_def split: option.split prod.split)

lemma targets_sorted:
  "list_all (\<lambda>ts. sorted (map fst ts)) lines \<Longrightarrow> sorted (map position (targets sources names line lines))"
proof (induction lines arbitrary: line)
  case (Cons ts rest)
  have "position x \<le> position y"
    if "x \<in> target sources names line ` set ts" "y \<in> set (targets sources names (line + 1) rest)" for x y
  proof -
    have "mp_gen_line y > line" using targets_lines [OF that(2)] by simp
    moreover have "mp_gen_line x = line" using that(1) by (auto simp: position_target position_def dest: arg_cong [where f = position] intro: position_target [unfolded position_def, THEN Pair_inject])
    ultimately show ?thesis by (simp add: position_def)
  qed
  moreover have "sorted (map (position \<circ> target sources names line) ts)"
    using Cons.prems by (simp add: sorted_map position_target comp_def sorted_wrt_map)
  ultimately show ?case using Cons by (auto simp: sorted_append)
qed simp

text \<open>
  C7. A generated map is read back exactly: every mapping with its position, its source under the source root and
  its name, and the mappings of a map that lists each line from left to right stay in their order.
\<close>

theorem ParseSourceMap_reads_back:
  assumes "json content = Some raw" and "rw_sections raw = []" and "rw_mappings raw = write_mappings lines"
    and "list_all (list_all target_ok) lines" and "list_all (\<lambda>ts. sorted (map fst ts)) lines"
  defines "sources \<equiv> if rw_source_root raw \<noteq> []
      then map (root_source (trim_suffix (rw_source_root raw) ''/'' @ ''/'')) (rw_sources raw) else rw_sources raw"
  shows "ParseSourceMap json content = Some \<lparr>sm_sources = sources, sm_names = rw_names raw,
           sm_mappings = targets sources (rw_names raw) 1 lines\<rparr>"
proof -
  have "sortMappings (targets sources (rw_names raw) 1 lines) = targets sources (rw_names raw) 1 lines"
    unfolding sortMappings_def using targets_sorted [OF assms(5)] by (rule sort_key_id_if_sorted)
  then show ?thesis
    using assms(1-4) unfolding sources_def
    by (simp add: ParseSourceMap_def read_plain_def Let_def read_write_mappings)
qed

definition example_lines :: "(int \<times> origin option) list list" where
  "example_lines = [[(0, Some (0, 0, 0, Some 0)), (8, Some (0, 1, 0, None))], [], [(4, None), (70, Some (1, 40, 2, None))]]"

definition example_written :: raw_map where
  "example_written = \<lparr>rw_sources = [''a.ts'', ''b.ts''], rw_source_root = [], rw_names = [''boot''],
     rw_mappings = write_mappings example_lines, rw_sections = []\<rparr>"

lemma example_written_text: "rw_mappings example_written = ''AAAAA,QACA;;I,kECuCE''"
  by code_simp

lemma ParseSourceMap_reads_back_witness:
  "map_option (map position \<circ> sm_mappings) (ParseSourceMap [''x'' \<mapsto> example_written] ''x'') = Some [(1, 0), (1, 8), (3, 4), (3, 70)]"
proof -
  have ok: "list_all (list_all target_ok) example_lines" "list_all (\<lambda>ts. sorted (map fst ts)) example_lines"
    by (simp_all add: example_lines_def target_ok_def in_range_def)
  have "ParseSourceMap [''x'' \<mapsto> example_written] ''x'' = Some \<lparr>sm_sources = [''a.ts'', ''b.ts''], sm_names = [''boot''],
      sm_mappings = targets [''a.ts'', ''b.ts''] [''boot''] 1 example_lines\<rparr>"
    using ParseSourceMap_reads_back [of "[''x'' \<mapsto> example_written]" "''x''" example_written example_lines, OF _ _ _ ok]
    by (simp add: example_written_def)
  then show ?thesis by (simp add: example_lines_def position_target)
qed


section \<open>The maps of a release, in any order\<close>

definition parsed_maps :: "(string \<Rightarrow> raw_map option) \<Rightarrow> (string \<times> string) list \<Rightarrow> (string \<times> source_map) list" where
  "parsed_maps json files =
     List.map_filter (\<lambda>(name, data). map_option (\<lambda>sm. (map_key name, sm)) (ParseSourceMap json data)) files"

lemma parsed_maps_keys: "set (map fst (parsed_maps json files)) \<subseteq> set (map (map_key \<circ> fst) files)"
  by (force simp: parsed_maps_def List.map_filter_def split: option.splits)

lemma distinct_parsed_maps: "distinct (map (map_key \<circ> fst) files) \<Longrightarrow> distinct (map fst (parsed_maps json files))"
proof (induction files)
  case (Cons x files)
  then show ?case using parsed_maps_keys [of json files]
    by (cases x) (auto simp: parsed_maps_def List.map_filter_simps split: option.split)
qed (simp add: parsed_maps_def List.map_filter_simps)

lemma fold_add_source_map:
  assumes "distinct (map fst (st_by_file s @ parsed_maps json files))"
  shows "st_by_file (fold (add_source_map json) files s) = st_by_file s @ parsed_maps json files
       \<and> st_single (fold (add_source_map json) files s)
           = (case rev (parsed_maps json files) of [] \<Rightarrow> st_single s | x # _ \<Rightarrow> Some (snd x))"
  using assms
proof (induction files arbitrary: s)
  case (Cons x files)
  obtain name data where x: "x = (name, data)" by (cases x)
  show ?case
  proof (cases "ParseSourceMap json data")
    case None
    then have "parsed_maps json (x # files) = parsed_maps json files" by (simp add: parsed_maps_def x List.map_filter_simps)
    with Cons None show ?thesis by (simp add: add_source_map_def x)
  next
    case (Some sm)
    then have p: "parsed_maps json (x # files) = (map_key name, sm) # parsed_maps json files"
      by (simp add: parsed_maps_def x List.map_filter_simps)
    from Cons.prems p have "map_key name \<notin> fst ` set (st_by_file s)" by auto
    then have "add_source_map json x s = \<lparr>st_by_file = st_by_file s @ [(map_key name, sm)], st_single = Some sm\<rparr>"
      using Some by (simp add: add_source_map_def x upsert_def)
    with Cons.IH [of "add_source_map json x s"] Cons.prems p show ?thesis by (auto split: list.split)
  qed
qed (simp add: parsed_maps_def List.map_filter_simps)

lemma map_for_New:
  assumes "distinct (map (map_key \<circ> fst) files)"
  shows "map_for (NewSourceMapSet json files) name =
     (case map_of (parsed_maps json files) name of
        Some sm \<Rightarrow> Some sm
      | None \<Rightarrow> if name = [] then (case parsed_maps json files of [x] \<Rightarrow> Some (snd x) | _ \<Rightarrow> None) else None)"
proof -
  have "distinct (map fst ([] @ parsed_maps json files))" using distinct_parsed_maps [OF assms] by simp
  from fold_add_source_map [of "\<lparr>st_by_file = [], st_single = None\<rparr>" json files] this show ?thesis
    by (auto simp: map_for_def NewSourceMapSet_def Let_def length_Suc_conv split: list.split option.split)
qed

lemma map_filter_mset: "mset (List.map_filter f xs) = image_mset the (filter_mset (\<lambda>x. x \<noteq> None) (image_mset f (mset xs)))"
  by (induction xs) (auto simp: List.map_filter_simps split: option.split)

text \<open>
  Go walks the uploaded files in a random order. When no two of them have the same base name, every frame is
  resolved the same way whatever that order is: by the map of its own file, and only a frame that names no file
  falls back on the map of a release that has a single one.
\<close>

theorem NewSourceMapSet_order:
  assumes "mset files' = mset files" and "distinct (map (map_key \<circ> fst) files)"
  shows "Set_Resolve (NewSourceMapSet json files') = Set_Resolve (NewSourceMapSet json files)"
proof -
  have d': "distinct (map (map_key \<circ> fst) files')"
    using assms by (metis mset_eq_imp_distinct_iff mset_map)
  have m: "mset (parsed_maps json files') = mset (parsed_maps json files)"
    unfolding parsed_maps_def map_filter_mset assms(1) ..
  have "map_of (parsed_maps json files') = map_of (parsed_maps json files)"
    using distinct_parsed_maps [OF d'] distinct_parsed_maps [OF assms(2)] mset_eq_setD [OF m]
    by (subst map_of_inject_set) auto
  moreover have "(case parsed_maps json files' of [x] \<Rightarrow> Some (snd x) | _ \<Rightarrow> None)
      = (case parsed_maps json files of [x] \<Rightarrow> Some (snd x) | _ \<Rightarrow> None)"
    using m mset_eq_length [OF m] by (auto split: list.split)
  ultimately have "map_for (NewSourceMapSet json files') name = map_for (NewSourceMapSet json files) name" for name
    unfolding map_for_New [OF d'] map_for_New [OF assms(2)] by (simp only:)
  then show ?thesis by (simp add: Set_Resolve_def fun_eq_iff)
qed

lemma NewSourceMapSet_order_witness:
  "Set_Resolve (NewSourceMapSet example_json [(''b.js.map'', ''{}''), (''/x/a.js.map'', ''?'')])
     = Set_Resolve (NewSourceMapSet example_json [(''/x/a.js.map'', ''?''), (''b.js.map'', ''{}'')])"
proof (rule NewSourceMapSet_order)
  show "distinct (map (map_key \<circ> fst) [(''/x/a.js.map'', ''?''), (''b.js.map'', ''{}'')])" by code_simp
qed simp

text \<open>Two files of one base name: the map that is walked last wins.\<close>

lemma same_base_name_order_matters:
  "map_for (NewSourceMapSet json [(''/x/a.js.map'', d1), (''/y/a.js.map'', d2)]) ''a.js''
     = (case ParseSourceMap json d2 of None \<Rightarrow> ParseSourceMap json d1 | Some sm \<Rightarrow> Some sm)"
proof -
  have "map_key ''/x/a.js.map'' = ''a.js''" "map_key ''/y/a.js.map'' = ''a.js''" by code_simp+
  then show ?thesis
    by (cases "ParseSourceMap json d1"; cases "ParseSourceMap json d2")
       (auto simp: NewSourceMapSet_def add_source_map_def map_for_def upsert_def)
qed

end
