(* ===== verification/ProGuard.thy ===== *)
theory ProGuard
  imports Events GoStrings "HOL-Library.Monad_Syntax"
begin

text \<open>
  ProGuard and R8 mapping files (\<open>internal/symbolicate/proguard.go\<close>): the reader, whose two regular expressions
  are written as the deterministic scanners they are, with the alternatives of the optional parts tried in the
  order of the expression, and the expansion of a frame into the chain of calls that were inlined into it.
  Shown: a mapping file that was written from its entries is read back entry by entry, and a frame of a class
  it names expands to exactly the entries that cover its line, the outermost caller first.
\<close>

section \<open>The data\<close>

record proguard_method =
  pm_class :: string
  pm_name :: string
  pm_args :: string
  pm_has_range :: bool
  pm_obf_start :: int
  pm_obf_end :: int
  pm_orig_start :: int
  pm_orig_end :: int

record proguard_mapping =
  pg_classes :: "(string \<times> string) list"
  pg_methods :: "(string \<times> proguard_method list) list"

definition methods_of :: "proguard_mapping \<Rightarrow> string \<Rightarrow> proguard_method list" where
  "methods_of m key = (case map_of (pg_methods m) key of None \<Rightarrow> [] | Some ms \<Rightarrow> ms)"

section \<open>The two line formats\<close>

text \<open>The classes \<open>\s\<close> and \<open>\d\<close> of the expressions.\<close>

definition re_space :: "char \<Rightarrow> bool" where
  "re_space c \<longleftrightarrow> c \<in> {CHR '' '', CHR 0x09, CHR 0x0A, CHR 0x0C, CHR 0x0D}"

definition re_digit :: "char \<Rightarrow> bool" where
  "re_digit c \<longleftrightarrow> c \<in> set ''0123456789''"

definition span1 :: "(char \<Rightarrow> bool) \<Rightarrow> string \<Rightarrow> (string \<times> string) option" where
  "span1 p s = (let r = takeWhile p s in if r = [] then None else Some (r, dropWhile p s))"

definition eat :: "string \<Rightarrow> string \<Rightarrow> string option" where
  "eat lit s = (if has_prefix s lit then Some (drop (length lit) s) else None)"

text \<open>\<open>\s+->\s+(\S+)$\<close>: the name at the end of a line.\<close>

definition arrow :: "string \<Rightarrow> string option" where
  "arrow s = do {
     (_, s) \<leftarrow> span1 re_space s;
     s \<leftarrow> eat ''->'' s;
     (_, s) \<leftarrow> span1 re_space s;
     (obf, s) \<leftarrow> span1 (\<lambda>c. \<not> re_space c) s;
     if s = [] then Some obf else None}"

definition class_line :: "string \<Rightarrow> (string \<times> string) option" where
  "class_line s = do {
     (orig, s) \<leftarrow> span1 (\<lambda>c. \<not> re_space c) s;
     obf \<leftarrow> arrow s;
     if 2 \<le> length obf \<and> last obf = CHR '':'' then Some (orig, butlast obf) else None}"

definition range_prefix :: "string \<Rightarrow> (string \<times> string \<times> string) option" where
  "range_prefix s = do {
     (a, s) \<leftarrow> span1 re_digit s;
     s \<leftarrow> eat '':'' s;
     (b, s) \<leftarrow> span1 re_digit s;
     s \<leftarrow> eat '':'' s;
     Some (a, b, s)}"

definition type_word :: "string \<Rightarrow> string option" where
  "type_word s = do {
     (_, s) \<leftarrow> span1 (\<lambda>c. \<not> re_space c) s;
     (_, s) \<leftarrow> span1 re_space s;
     Some s}"

definition orig_lines :: "string \<Rightarrow> (string \<times> string \<times> string) option" where
  "orig_lines s =
     (if has_prefix s '':''
      then do {
        (a, s) \<leftarrow> span1 re_digit (tl s);
        if has_prefix s '':'' then do {(b, s) \<leftarrow> span1 re_digit (tl s); Some (a, b, s)} else Some (a, [], s)}
      else Some ([], [], s))"

record method_match =
  mm_start :: string
  mm_end :: string
  mm_name :: string
  mm_args :: string
  mm_orig_start :: string
  mm_orig_end :: string
  mm_obf :: string

definition signature :: "string \<Rightarrow> string \<Rightarrow> string \<Rightarrow> method_match option" where
  "signature a b s = do {
     (name, s) \<leftarrow> span1 (\<lambda>c. \<not> re_space c \<and> c \<noteq> CHR ''('') s;
     s \<leftarrow> eat ''('' s;
     let args = takeWhile (\<lambda>c. c \<noteq> CHR '')'') s;
     s \<leftarrow> eat '')'' (dropWhile (\<lambda>c. c \<noteq> CHR '')'') s);
     (c, d, s) \<leftarrow> orig_lines s;
     obf \<leftarrow> arrow s;
     Some \<lparr>mm_start = a, mm_end = b, mm_name = name, mm_args = args, mm_orig_start = c, mm_orig_end = d, mm_obf = obf\<rparr>}"

text \<open>The optional parts \<open>(?:(\d+):(\d+):)?(?:\S+\s+)?\<close>: with them first, without them where that fails.\<close>

definition or_else :: "'a option \<Rightarrow> 'a option \<Rightarrow> 'a option" where
  "or_else x y = (case x of None \<Rightarrow> y | Some _ \<Rightarrow> x)"

definition typed_signature :: "string \<Rightarrow> string \<Rightarrow> string \<Rightarrow> method_match option" where
  "typed_signature a b s = or_else (type_word s \<bind> signature a b) (signature a b s)"

definition method_line :: "string \<Rightarrow> method_match option" where
  "method_line s = do {
     (_, s) \<leftarrow> span1 re_space s;
     or_else (range_prefix s \<bind> (\<lambda>(a, b, s). typed_signature a b s)) (typed_signature [] [] s)}"

section \<open>The reader\<close>

text \<open>\<open>n, _ := strconv.Atoi(s)\<close> on a run of digits: the largest \<open>int\<close> where the number does not fit.\<close>

definition pg_atoi :: "string \<Rightarrow> int" where
  "pg_atoi s = (case digit_vals 10 s of None \<Rightarrow> 0 | Some ds \<Rightarrow> min (int (nat_of_digits 10 ds)) (2 ^ 63 - 1))"

text \<open>\<open>strings.LastIndexByte(name, '.') > 0\<close>: what stands before and after the dot.\<close>

definition split_last_dot :: "string \<Rightarrow> (string \<times> string) option" where
  "split_last_dot s =
     (let post = after_last_any [CHR ''.''] s; pre = take (length s - length post - 1) s
      in if length post < length s \<and> pre \<noteq> [] then Some (pre, post) else None)"

definition entry_of :: "string \<Rightarrow> method_match \<Rightarrow> proguard_method" where
  "entry_of cls mm =
     (let (c, n) = (case split_last_dot (mm_name mm) of None \<Rightarrow> (cls, mm_name mm) | Some cn \<Rightarrow> cn)
      in \<lparr>pm_class = c, pm_name = n, pm_args = mm_args mm, pm_has_range = mm_start mm \<noteq> [],
          pm_obf_start = pg_atoi (mm_start mm), pm_obf_end = pg_atoi (mm_end mm),
          pm_orig_start = pg_atoi (mm_orig_start mm), pm_orig_end = pg_atoi (mm_orig_end mm)\<rparr>)"

text \<open>The reader's state: the original and the obfuscated name of the class it is in, and the mapping.\<close>

type_synonym pg_state = "string \<times> string \<times> proguard_mapping"

definition add_class :: "string \<Rightarrow> string \<Rightarrow> proguard_mapping \<Rightarrow> proguard_mapping" where
  "add_class obf orig m = m\<lparr>pg_classes := upsert fst (\<lambda>old new. new) (obf, orig) (pg_classes m)\<rparr>"

definition add_method :: "string \<Rightarrow> proguard_method \<Rightarrow> proguard_mapping \<Rightarrow> proguard_mapping" where
  "add_method key pm m = m\<lparr>pg_methods := upsert fst (\<lambda>old new. (fst old, snd old @ snd new)) (key, [pm]) (pg_methods m)\<rparr>"

definition read_line :: "string \<Rightarrow> pg_state \<Rightarrow> pg_state" where
  "read_line line st =
     (case st of (orig, obf, m) \<Rightarrow>
        if trim_space line = [] \<or> has_prefix line ''#'' then st
        else (case class_line line of
                Some (orig', obf') \<Rightarrow> (orig', obf', add_class obf' orig' m)
              | None \<Rightarrow>
                  (case method_line line of
                     Some mm \<Rightarrow> if obf \<noteq> [] then (orig, obf, add_method (obf @ ''.'' @ mm_obf mm) (entry_of orig mm) m) else st
                   | None \<Rightarrow> st)))"

text \<open>\<open>bufio.Scanner\<close>: lines without their end, up to one that does not fit into the buffer of 16 MB.\<close>

definition drop_cr :: "string \<Rightarrow> string" where
  "drop_cr s = (if s \<noteq> [] \<and> last s = CHR 0x0D then butlast s else s)"

definition scan_lines :: "string \<Rightarrow> string list" where
  "scan_lines content = map drop_cr (takeWhile (\<lambda>l. length l < 16 * 1024 * 1024) (split_byte CHR 0x0A content))"

definition empty_mapping :: proguard_mapping where
  "empty_mapping = \<lparr>pg_classes = [], pg_methods = []\<rparr>"

definition ParseProGuard :: "string \<Rightarrow> proguard_mapping" where
  "ParseProGuard content = (case fold read_line (scan_lines content) ([], [], empty_mapping) of (_, _, m) \<Rightarrow> m)"

section \<open>Expanding a frame\<close>

definition origLine :: "proguard_method \<Rightarrow> int \<Rightarrow> int" where
  "origLine c line =
     (if 0 < pm_orig_start c \<and> pm_orig_start c < pm_orig_end c \<and> pm_has_range c \<and> pm_obf_start c \<le> line
      then wrap64 (pm_orig_start c + wrap64 (line - pm_obf_start c))
      else if 0 < pm_orig_start c then pm_orig_start c else line)"

definition deobfuscatedFile :: "string \<Rightarrow> string \<Rightarrow> string" where
  "deobfuscatedFile filename cls =
     (if filename \<notin> {'''', ''SourceFile'', ''Unknown Source'', ''Unknown'', ''Native Method''} then filename
      else (let base = after_last_any [CHR ''.''] cls;
                outer = takeWhile (\<lambda>c. c \<noteq> CHR ''$'') base;
                name = (if outer = [] then base else outer)
            in if name = [] then filename else name @ ''.java''))"

definition covers :: "int \<Rightarrow> proguard_method \<Rightarrow> bool" where
  "covers line c \<longleftrightarrow> pm_has_range c \<and> pm_obf_start c \<le> line \<and> line \<le> pm_obf_end c"

definition chain_of :: "int \<Rightarrow> proguard_method list \<Rightarrow> proguard_method list" where
  "chain_of line cands =
     (let chain = filter (covers line) cands
      in if chain \<noteq> [] then chain
         else (case filter (\<lambda>c. \<not> pm_has_range c) cands of [] \<Rightarrow> take 1 cands | c # _ \<Rightarrow> [c]))"

definition original_frame :: "proguard_mapping \<Rightarrow> string \<Rightarrow> frame \<Rightarrow> proguard_method \<Rightarrow> frame" where
  "original_frame m cls f c =
     f\<lparr>fr_module := pm_class c, fr_function := pm_name c, fr_lineno := origLine c (fr_lineno f),
       fr_filename := deobfuscatedFile
         (if pm_class c = (case map_of (pg_classes m) cls of None \<Rightarrow> [] | Some own \<Rightarrow> own) then fr_filename f else []) (pm_class c)\<rparr>"

definition plain_method :: "string \<Rightarrow> string \<Rightarrow> proguard_method" where
  "plain_method cls name = \<lparr>pm_class = cls, pm_name = name, pm_args = [], pm_has_range = False, pm_obf_start = 0,
     pm_obf_end = 0, pm_orig_start = 0, pm_orig_end = 0\<rparr>"

definition Expand :: "proguard_mapping \<Rightarrow> frame \<Rightarrow> frame list" where
  "Expand m f =
     (let cls = (if fr_module f = [] then fr_filename f else fr_module f)
      in if cls = [] then [f]
         else (case methods_of m (cls @ ''.'' @ fr_function f) of
                 [] \<Rightarrow> (case map_of (pg_classes m) cls of
                          None \<Rightarrow> [f]
                        | Some c \<Rightarrow> map (original_frame m cls f) (rev (chain_of (fr_lineno f) [plain_method c (fr_function f)])))
               | c # cs \<Rightarrow> map (original_frame m cls f) (rev (chain_of (fr_lineno f) (c # cs)))))"

definition pg_Resolve :: "proguard_mapping \<Rightarrow> frame \<Rightarrow> frame" where
  "pg_Resolve m f = last (Expand m f)"

definition pg_ResolveAll :: "proguard_mapping \<Rightarrow> frame list \<Rightarrow> frame list \<times> bool" where
  "pg_ResolveAll m fs = (concat (map (Expand m) fs), list_ex (\<lambda>f. Expand m f \<noteq> [f]) fs)"

lemma chain_nonempty: "cands \<noteq> [] \<Longrightarrow> chain_of line cands \<noteq> []"
  by (auto simp: chain_of_def Let_def split: list.split)

text \<open>So \<open>Resolve\<close> never indexes an empty slice.\<close>

lemma Expand_nonempty: "Expand m f \<noteq> []"
  by (simp add: Expand_def Let_def chain_nonempty split: list.split option.split)

lemma example_r8_lines:
  "class_line ''cc.smoke.MainActivity -> a.b:'' = Some (''cc.smoke.MainActivity'', ''a.b'')"
  "map_option (entry_of ''M'') (method_line ''    31:50:int cc.smoke.CartRepository.loadCart(java.lang.String):11 -> c'')
    = Some \<lparr>pm_class = ''cc.smoke.CartRepository'', pm_name = ''loadCart'', pm_args = ''java.lang.String'', pm_has_range = True,
         pm_obf_start = 31, pm_obf_end = 50, pm_orig_start = 11, pm_orig_end = 0\<rparr>"
  "method_line ''    int $r8$clinit -> a'' = None"
  "map_option mm_name (method_line ''  foo(a, b) -> c'') = Some ''foo''"
  "map_option mm_name (method_line ''  1:2:(a) -> c'') = Some ''1:2:''"
  by code_simp+

section \<open>The format as it is written\<close>

text \<open>
  A mapping as a compiler of it writes it: classes with their entries, an entry with its obfuscated range if it
  has one, its type, name, arguments and original lines. Names are ASCII words.
\<close>

record pg_entry =
  en_range :: "(nat \<times> nat) option"
  en_type :: string
  en_name :: string
  en_args :: string
  en_orig :: "(nat \<times> nat option) option"
  en_obf :: string

record pg_class =
  cl_orig :: string
  cl_obf :: string
  cl_entries :: "pg_entry list"

definition range_text :: "(nat \<times> nat) option \<Rightarrow> string" where
  "range_text r = (case r of None \<Rightarrow> [] | Some (a, b) \<Rightarrow> itoa a @ '':'' @ itoa b @ '':'')"

definition orig_text :: "(nat \<times> nat option) option \<Rightarrow> string" where
  "orig_text r = (case r of None \<Rightarrow> [] | Some (a, None) \<Rightarrow> '':'' @ itoa a | Some (a, Some b) \<Rightarrow> '':'' @ itoa a @ '':'' @ itoa b)"

definition write_entry :: "pg_entry \<Rightarrow> string" where
  "write_entry e = ''    '' @ range_text (en_range e) @ en_type e @ '' '' @ en_name e @ ''('' @ en_args e @ '')''
     @ orig_text (en_orig e) @ '' -> '' @ en_obf e"

definition write_class :: "pg_class \<Rightarrow> string list" where
  "write_class c = (cl_orig c @ '' -> '' @ cl_obf c @ '':'') # map write_entry (cl_entries c)"

definition write_mapping :: "pg_class list \<Rightarrow> string" where
  "write_mapping cs = concat (map (\<lambda>l. l @ [CHR 0x0A]) (concat (map write_class cs)))"

definition word :: "string \<Rightarrow> bool" where
  "word s \<longleftrightarrow> s \<noteq> [] \<and> ascii s \<and> list_all (\<lambda>c. \<not> re_space c) s"

definition short :: "nat \<Rightarrow> bool" where
  "short n \<longleftrightarrow> n < 2 ^ 63"

definition entry_ok :: "pg_entry \<Rightarrow> bool" where
  "entry_ok e \<longleftrightarrow> word (en_type e) \<and> \<not> re_digit (hd (en_type e))
     \<and> word (en_name e) \<and> CHR ''('' \<notin> set (en_name e)
     \<and> ascii (en_args e) \<and> list_all (\<lambda>c. c \<noteq> CHR '')'' \<and> c \<noteq> CHR 0x0A) (en_args e)
     \<and> word (en_obf e)
     \<and> (case en_range e of None \<Rightarrow> True | Some (a, b) \<Rightarrow> short a \<and> short b)
     \<and> (case en_orig e of None \<Rightarrow> True | Some (a, b) \<Rightarrow> short a \<and> (case b of None \<Rightarrow> True | Some x \<Rightarrow> short x))
     \<and> length (write_entry e) < 16 * 1024 * 1024"

definition class_ok :: "pg_class \<Rightarrow> bool" where
  "class_ok c \<longleftrightarrow> word (cl_orig c) \<and> hd (cl_orig c) \<noteq> CHR ''#'' \<and> word (cl_obf c) \<and> list_all entry_ok (cl_entries c)
     \<and> length (hd (write_class c)) < 16 * 1024 * 1024"

subsection \<open>The scanners on written text\<close>

lemma span1_append:
  "r \<noteq> [] \<Longrightarrow> list_all p r \<Longrightarrow> (s \<noteq> [] \<Longrightarrow> \<not> p (hd s)) \<Longrightarrow> span1 p (r @ s) = Some (r, s)"
  unfolding span1_def list_all_iff by (cases s) (auto simp: Let_def takeWhile_tail takeWhile_eq_all_conv [THEN iffD2])

lemma span1_word:
  "word w \<Longrightarrow> s = [] \<or> re_space (hd s) \<Longrightarrow> span1 (\<lambda>c. \<not> re_space c) (w @ s) = Some (w, s)"
  by (intro span1_append) (auto simp: word_def)

lemma eat_append [simp]: "eat lit (lit @ s) = Some s"
  by (simp add: eat_def has_prefix_def)

lemma re_space_simps [simp]: "re_space CHR '' ''" "\<not> re_space CHR ''-''" "\<not> re_space CHR '':''" "\<not> re_space CHR '')''"
  "\<not> re_digit CHR '':''" "\<not> re_digit CHR '' ''" "re_space CHR 0x0A"
  by (simp_all add: re_space_def re_digit_def)

lemma word_hd: "word w \<Longrightarrow> \<not> re_space (hd w)"
  by (cases w) (auto simp: word_def)

lemma span1_spaces: "n \<noteq> 0 \<Longrightarrow> s \<noteq> [] \<Longrightarrow> \<not> re_space (hd s) \<Longrightarrow> span1 re_space (replicate n CHR '' '' @ s) = Some (replicate n CHR '' '', s)"
  by (intro span1_append) (auto simp: list_all_iff)

lemma span1_space: "s \<noteq> [] \<Longrightarrow> \<not> re_space (hd s) \<Longrightarrow> span1 re_space (CHR '' '' # s) = Some ('' '', s)"
  using span1_spaces [of 1 s] by simp

lemma arrow_word:
  assumes "word w"
  shows "arrow ('' -> '' @ w) = Some w"
proof -
  have ne: "w \<noteq> []" using assms by (simp add: word_def)
  have a: "span1 re_space ('' -> '' @ w) = Some ('' '', ''-> '' @ w)"
    using span1_space [of "''-> '' @ w"] by simp
  have b: "eat ''->'' (''-> '' @ w) = Some ('' '' @ w)" using eat_append [of "''->''" "'' '' @ w"] by simp
  have c: "span1 re_space ('' '' @ w) = Some ('' '', w)" using span1_space [OF ne word_hd [OF assms]] by simp
  have d: "span1 (\<lambda>c. \<not> re_space c) w = Some (w, [])" using span1_word [OF assms, of "[]"] by simp
  show ?thesis unfolding arrow_def a b c d by (simp add: b c d del: append.simps)
qed

lemma class_line_written:
  assumes "word orig" and "word obf"
  shows "class_line (orig @ '' -> '' @ obf @ '':'') = Some (orig, obf)"
proof -
  have "word (obf @ '':'')" using assms(2) by (simp add: word_def ascii_def)
  from arrow_word [OF this] have "arrow ('' -> '' @ obf @ '':'') = Some (obf @ '':'')" .
  moreover have "span1 (\<lambda>c. \<not> re_space c) (orig @ '' -> '' @ obf @ '':'') = Some (orig, '' -> '' @ obf @ '':'')"
    using assms(1) by (intro span1_word) simp_all
  ultimately show ?thesis using assms(2) by (cases obf) (simp_all add: class_line_def word_def)
qed

lemma re_digit_char: "d < 10 \<Longrightarrow> re_digit (digit_char d)"
proof -
  have "list_all (\<lambda>d. re_digit (digit_char d)) [0..<10]" by code_simp
  then show "d < 10 \<Longrightarrow> re_digit (digit_char d)" by (simp add: list_all_iff)
qed

lemma itoa_digits: "itoa n \<noteq> []" "list_all re_digit (itoa n)"
  by (auto simp: itoa_def list_all_iff intro: re_digit_char dest: nat_digits_lt [rotated])

lemma pg_atoi_itoa: "short n \<Longrightarrow> pg_atoi (itoa n) = int n"
  by (simp add: pg_atoi_def digit_vals_itoa nat_of_nat_digits short_def)

lemma pg_atoi_Nil: "pg_atoi [] = 0"
  by (simp add: pg_atoi_def nat_of_digits_def)

lemma span1_itoa: "s = [] \<or> \<not> re_digit (hd s) \<Longrightarrow> span1 re_digit (itoa n @ s) = Some (itoa n, s)"
  by (intro span1_append) (auto simp: itoa_digits)

lemma range_prefix_written: "range_prefix (range_text (Some (a, b)) @ s) = Some (itoa a, itoa b, s)"
proof -
  have 1: "span1 re_digit (itoa a @ '':'' @ itoa b @ '':'' @ s) = Some (itoa a, '':'' @ itoa b @ '':'' @ s)"
    by (rule span1_itoa) simp
  have 2: "span1 re_digit (itoa b @ '':'' @ s) = Some (itoa b, '':'' @ s)"
    by (rule span1_itoa) simp
  show ?thesis
    by (simp add: range_prefix_def range_text_def 1 [simplified] 2 [simplified] eat_append [of "'':''", simplified])
qed

lemma orig_lines_written: "orig_lines (orig_text r @ '' '' @ s) =
   Some ((case r of None \<Rightarrow> [] | Some (a, _) \<Rightarrow> itoa a), (case r of Some (_, Some b) \<Rightarrow> itoa b | _ \<Rightarrow> []), '' '' @ s)"
proof -
  have 1: "span1 re_digit (itoa a @ CHR '' '' # s) = Some (itoa a, CHR '' '' # s)" for a by (rule span1_itoa) simp
  have 2: "span1 re_digit (itoa a @ CHR '':'' # itoa b @ CHR '' '' # s) = Some (itoa a, CHR '':'' # itoa b @ CHR '' '' # s)" for a b
    by (rule span1_itoa) simp
  show ?thesis
    by (auto simp: orig_lines_def orig_text_def has_prefix_def 1 2 split: option.split)
qed

lemma signature_written:
  assumes "entry_ok e"
  shows "signature a b (en_name e @ ''('' @ en_args e @ '')'' @ orig_text (en_orig e) @ '' -> '' @ en_obf e) =
     Some \<lparr>mm_start = a, mm_end = b, mm_name = en_name e, mm_args = en_args e,
       mm_orig_start = (case en_orig e of None \<Rightarrow> [] | Some (x, _) \<Rightarrow> itoa x),
       mm_orig_end = (case en_orig e of Some (_, Some y) \<Rightarrow> itoa y | _ \<Rightarrow> []), mm_obf = en_obf e\<rparr>"
proof -
  define tail where "tail = orig_text (en_orig e) @ '' -> '' @ en_obf e"
  have 1: "span1 (\<lambda>c. \<not> re_space c \<and> c \<noteq> CHR ''('') (en_name e @ CHR ''('' # en_args e @ CHR '')'' # tail)
      = Some (en_name e, CHR ''('' # en_args e @ CHR '')'' # tail)"
    using assms by (intro span1_append) (auto simp: entry_ok_def word_def list_all_iff)
  have args: "\<forall>c \<in> set (en_args e). c \<noteq> CHR '')''" using assms by (auto simp: entry_ok_def list_all_iff)
  have 2: "takeWhile (\<lambda>c. c \<noteq> CHR '')'') (en_args e @ CHR '')'' # tail) = en_args e"
    "dropWhile (\<lambda>c. c \<noteq> CHR '')'') (en_args e @ CHR '')'' # tail) = CHR '')'' # tail"
    using args by (simp_all add: takeWhile_tail dropWhile_append)
  have 3: "eat ''('' (CHR ''('' # x) = Some x" "eat '')'' (CHR '')'' # x) = Some x" for x
    by (simp_all add: eat_def has_prefix_def)
  have 4: "arrow (CHR '' '' # CHR ''-'' # CHR ''>'' # CHR '' '' # en_obf e) = Some (en_obf e)"
    using arrow_word [of "en_obf e"] assms by (simp add: entry_ok_def)
  have 5: "orig_lines tail = Some ((case en_orig e of None \<Rightarrow> [] | Some (a, _) \<Rightarrow> itoa a),
      (case en_orig e of Some (_, Some b) \<Rightarrow> itoa b | _ \<Rightarrow> []), '' -> '' @ en_obf e)"
    unfolding tail_def using orig_lines_written [of "en_orig e" "''-> '' @ en_obf e"] by simp
  show ?thesis
    using 1 unfolding signature_def tail_def [symmetric]
    by (simp add: 2 3 4 5 Let_def)
qed

lemma type_word_written:
  assumes "word t" and "word n"
  shows "type_word (t @ CHR '' '' # n @ s) = Some (n @ s)"
proof -
  have ne: "n @ s \<noteq> []" "\<not> re_space (hd (n @ s))" using assms(2) word_hd [OF assms(2)] by (auto simp: word_def hd_append)
  have "span1 (\<lambda>c. \<not> re_space c) (t @ CHR '' '' # n @ s) = Some (t, CHR '' '' # n @ s)"
    using assms(1) by (intro span1_word) simp_all
  with span1_space [OF ne] show ?thesis by (simp add: type_word_def)
qed

lemma no_range: "t \<noteq> [] \<Longrightarrow> \<not> re_digit (hd t) \<Longrightarrow> range_prefix (t @ s) = None"
  by (cases t) (auto simp: range_prefix_def span1_def)

definition match_of :: "pg_entry \<Rightarrow> method_match" where
  "match_of e = \<lparr>mm_start = (case en_range e of None \<Rightarrow> [] | Some (a, _) \<Rightarrow> itoa a),
     mm_end = (case en_range e of None \<Rightarrow> [] | Some (_, b) \<Rightarrow> itoa b), mm_name = en_name e, mm_args = en_args e,
     mm_orig_start = (case en_orig e of None \<Rightarrow> [] | Some (x, _) \<Rightarrow> itoa x),
     mm_orig_end = (case en_orig e of Some (_, Some y) \<Rightarrow> itoa y | _ \<Rightarrow> []), mm_obf = en_obf e\<rparr>"

lemma method_line_written:
  assumes "entry_ok e"
  shows "method_line (write_entry e) = Some (match_of e)"
proof -
  define sig where "sig = ''('' @ en_args e @ '')'' @ orig_text (en_orig e) @ '' -> '' @ en_obf e"
  define rest where "rest = en_type e @ CHR '' '' # en_name e @ sig"
  have t: "word (en_type e)" "word (en_name e)" "\<not> re_digit (hd (en_type e))" using assms by (simp_all add: entry_ok_def)
  have w: "write_entry e = replicate 4 CHR '' '' @ range_text (en_range e) @ rest"
    by (simp add: write_entry_def rest_def sig_def eval_nat_numeral)
  have hd: "range_text (en_range e) @ rest \<noteq> []" "\<not> re_space (hd (range_text (en_range e) @ rest))"
  proof -
    have "\<not> re_space (hd (itoa n))" for n
    proof -
      have "re_digit (hd (itoa n))" using itoa_digits [of n] by (cases "itoa n") auto
      then show ?thesis by (auto simp: re_digit_def re_space_def)
    qed
    then show "\<not> re_space (hd (range_text (en_range e) @ rest))"
      using word_hd [OF t(1)] t(1) by (auto simp: range_text_def rest_def word_def itoa_digits hd_append split: option.split)
  qed (use t in \<open>simp add: rest_def word_def\<close>)
  have sp: "span1 re_space (write_entry e) = Some (replicate 4 CHR '' '', range_text (en_range e) @ rest)"
    unfolding w using hd by (intro span1_spaces) simp_all
  have ty: "typed_signature a b rest = signature a b (en_name e @ sig)" if "signature a b (en_name e @ sig) \<noteq> None" for a b
    using that type_word_written [OF t(1,2), of sig] by (auto simp: typed_signature_def rest_def or_else_def)
  note sg = signature_written [OF assms, folded sig_def]
  show ?thesis
  proof (cases "en_range e")
    case None
    have "range_prefix rest = None" using no_range [of "en_type e"] t by (simp add: rest_def word_def)
    then show ?thesis using sp None by (simp add: method_line_def range_text_def or_else_def ty sg match_of_def)
  next
    case (Some r)
    then show ?thesis using sp range_prefix_written [of "fst r" "snd r" rest]
      by (simp add: method_line_def or_else_def ty sg match_of_def split_beta)
  qed
qed

subsection \<open>Reading a written mapping\<close>

lemma map_of_upsert:
  assumes "\<And>old. fst old = k \<Longrightarrow> merge old (k, v) = (k, g (snd old))"
  shows "map_of (upsert fst merge (k, v) t) key
     = (if key = k then Some (case map_of t k of None \<Rightarrow> v | Some x \<Rightarrow> g x) else map_of t key)"
proof (cases "k \<in> fst ` set t")
  case True
  have "map_of (map (\<lambda>x. if fst x = k then merge x (k, v) else x) t) key
      = (if key = k then map_option g (map_of t k) else map_of t key)" for key
    using assms by (induction t) auto
  with True show ?thesis
    by (auto simp: upsert_def split: option.split dest: map_of_SomeD simp: map_of_eq_None_iff)
next
  case False
  then have none: "map_of t k = None" by (simp add: map_of_eq_None_iff)
  with False show ?thesis by (auto simp: upsert_def map_add_def split: option.split)
qed

lemma methods_of_add_method:
  "methods_of (add_method k pm m) key = methods_of m key @ (if key = k then [pm] else [])"
proof -
  have "map_of (pg_methods (add_method k pm m)) key
      = (if key = k then Some (case map_of (pg_methods m) k of None \<Rightarrow> [pm] | Some x \<Rightarrow> x @ [pm]) else map_of (pg_methods m) key)"
    unfolding add_method_def by (simp add: map_of_upsert [where g = "\<lambda>x. x @ [pm]"])
  then show ?thesis by (auto simp: methods_of_def split: option.split)
qed

lemma classes_add_class: "map_of (pg_classes (add_class obf orig m)) = (map_of (pg_classes m))(obf \<mapsto> orig)"
  unfolding add_class_def by (auto simp: fun_eq_iff map_of_upsert [where g = "\<lambda>_. orig"] split: option.split)

lemma add_other [simp]: "pg_classes (add_method k pm m) = pg_classes m" "methods_of (add_class obf orig m) = methods_of m"
  by (simp_all add: add_method_def add_class_def methods_of_def fun_eq_iff)

lemma not_blank:
  assumes "ascii s" and "CHR ''-'' \<in> set s"
  shows "trim_space s \<noteq> []"
proof
  assume "trim_space s = []"
  then have "dropWhile space_char (rev (dropWhile space_char s)) = []" using assms(1) by (simp add: trim_space_ascii)
  then have "\<forall>x \<in> set (dropWhile space_char s). space_char x" by (simp add: dropWhile_eq_Nil_conv)
  moreover have "\<not> space_char CHR ''-''" by code_simp
  ultimately have "CHR ''-'' \<in> set (takeWhile space_char s)"
    using assms(2) by (metis UnE set_append takeWhile_dropWhile_id)
  with \<open>\<not> space_char CHR ''-''\<close> show False by (meson set_takeWhileD)
qed

lemma ascii_append [simp]: "ascii (a @ b) \<longleftrightarrow> ascii a \<and> ascii b"
  by (auto simp: ascii_def)

lemma digit_facts: "re_digit c \<Longrightarrow> of_char c < (128 :: nat) \<and> c \<noteq> CHR 0x0A"
proof -
  have "list_all (\<lambda>c. \<not> digit7 c \<and> c \<noteq> CHR 0x0A) ''0123456789''" by code_simp
  then have "\<forall>c \<in> set ''0123456789''. \<not> digit7 c \<and> c \<noteq> CHR 0x0A" unfolding list_all_iff .
  moreover have "(of_char c < (128 :: nat)) = (\<not> digit7 c)" by (cases c) (simp add: of_char_def)
  ultimately show "re_digit c \<Longrightarrow> of_char c < (128 :: nat) \<and> c \<noteq> CHR 0x0A" unfolding re_digit_def by blast
qed

lemma itoa_facts [simp]: "ascii (itoa n)" "CHR 0x0A \<notin> set (itoa n)"
  using itoa_digits(2) [of n] digit_facts unfolding ascii_def list_all_iff by blast+

lemma ascii_texts: "ascii (range_text r)" "ascii (orig_text x)"
proof -
  have c: "ascii '':''" and n: "ascii []" by code_simp+
  show "ascii (range_text r)"
    by (cases r) (simp_all only: range_text_def option.case split_beta ascii_append itoa_facts c n simp_thms)
  show "ascii (orig_text x)"
  proof (cases x)
    case (Some p)
    then show ?thesis
      by (cases p; cases "snd p") (simp_all only: orig_text_def option.case prod.case snd_conv ascii_append itoa_facts c simp_thms)
  qed (simp only: orig_text_def option.case n)
qed

lemma entry_line:
  assumes "entry_ok e"
  shows "ascii (write_entry e)" "CHR ''-'' \<in> set (write_entry e)" "hd (write_entry e) = CHR '' ''" "write_entry e \<noteq> []"
proof -
  have "ascii ''    ''" "ascii '' ''" "ascii ''(''" "ascii '')''" "ascii '' -> ''" by code_simp+
  then show "ascii (write_entry e)"
    using assms by (simp only: write_entry_def ascii_append ascii_texts entry_ok_def word_def)
qed (simp_all add: write_entry_def)

lemma class_head:
  assumes "class_ok c"
  shows "ascii (hd (write_class c))" "CHR ''-'' \<in> set (hd (write_class c))" "hd (hd (write_class c)) = hd (cl_orig c)"
    "hd (write_class c) \<noteq> []"
proof -
  have "ascii '' -> ''" "ascii '':''" by code_simp+
  then show "ascii (hd (write_class c))"
    using assms by (simp only: write_class_def list.sel ascii_append class_ok_def word_def)
qed (use assms in \<open>simp_all add: write_class_def class_ok_def word_def\<close>)

lemma read_class_line:
  assumes "class_ok c"
  shows "read_line (hd (write_class c)) (orig, obf, m) = (cl_orig c, cl_obf c, add_class (cl_obf c) (cl_orig c) m)"
proof -
  note h = class_head [OF assms]
  have "\<not> has_prefix (hd (write_class c)) ''#''"
    using h(3,4) assms by (cases "hd (write_class c)") (auto simp: has_prefix_def class_ok_def)
  moreover have "class_line (hd (write_class c)) = Some (cl_orig c, cl_obf c)"
    using assms class_line_written [of "cl_orig c" "cl_obf c"] by (simp add: write_class_def class_ok_def)
  ultimately show ?thesis using not_blank [OF h(1,2)] by (simp add: read_line_def)
qed

lemma read_entry_line:
  assumes "entry_ok e" and "obf \<noteq> []"
  shows "read_line (write_entry e) (orig, obf, m) = (orig, obf, add_method (obf @ ''.'' @ en_obf e) (entry_of orig (match_of e)) m)"
proof -
  note h = entry_line [OF assms(1)]
  have "\<not> has_prefix (write_entry e) ''#''" using h(3,4) by (cases "write_entry e") (auto simp: has_prefix_def)
  moreover have "class_line (write_entry e) = None"
    using h(3,4) by (cases "write_entry e") (simp_all add: class_line_def span1_def)
  ultimately show ?thesis
    using not_blank [OF h(1,2)] assms by (simp add: read_line_def method_line_written match_of_def [of e])
qed

definition class_methods :: "string \<Rightarrow> pg_class \<Rightarrow> proguard_method list" where
  "class_methods key c =
     map (\<lambda>e. entry_of (cl_orig c) (match_of e)) (filter (\<lambda>e. cl_obf c @ ''.'' @ en_obf e = key) (cl_entries c))"

lemma read_entries:
  assumes "list_all entry_ok es" and "obf \<noteq> []"
  shows "\<exists>m'. fold read_line (map write_entry es) (orig, obf, m) = (orig, obf, m') \<and> pg_classes m' = pg_classes m
     \<and> (\<forall>key. methods_of m' key = methods_of m key
          @ map (\<lambda>e. entry_of orig (match_of e)) (filter (\<lambda>e. obf @ ''.'' @ en_obf e = key) es))"
  using assms
proof (induction es arbitrary: m)
  case (Cons e es)
  define m1 where "m1 = add_method (obf @ ''.'' @ en_obf e) (entry_of orig (match_of e)) m"
  obtain m' where m': "fold read_line (map write_entry es) (orig, obf, m1) = (orig, obf, m')" "pg_classes m' = pg_classes m1"
    "\<And>key. methods_of m' key = methods_of m1 key
       @ map (\<lambda>e. entry_of orig (match_of e)) (filter (\<lambda>e. obf @ ''.'' @ en_obf e = key) es)"
    using Cons.IH [of m1] Cons.prems by auto
  have "fold read_line (map write_entry (e # es)) (orig, obf, m) = (orig, obf, m')"
    using Cons.prems m'(1) by (simp add: read_entry_line m1_def)
  moreover have "methods_of m' key = methods_of m key
       @ map (\<lambda>e. entry_of orig (match_of e)) (filter (\<lambda>e. obf @ ''.'' @ en_obf e = key) (e # es))" for key
    unfolding m'(3) by (simp add: m1_def methods_of_add_method)
  moreover have "pg_classes m' = pg_classes m" using m'(2) by (simp add: m1_def)
  ultimately show ?case by blast
qed simp

lemma read_classes:
  assumes "list_all class_ok cs"
  shows "\<exists>o' b' m'. fold read_line (concat (map write_class cs)) (orig, obf, m) = (o', b', m')
     \<and> map_of (pg_classes m') = map_of (rev (map (\<lambda>c. (cl_obf c, cl_orig c)) cs) @ pg_classes m)
     \<and> (\<forall>key. methods_of m' key = methods_of m key @ concat (map (class_methods key) cs))"
  using assms
proof (induction cs arbitrary: orig obf m)
  case (Cons c cs)
  then have ok: "class_ok c" "list_all entry_ok (cl_entries c)" "cl_obf c \<noteq> []" by (simp_all add: class_ok_def word_def)
  define m1 where "m1 = add_class (cl_obf c) (cl_orig c) m"
  have lines: "write_class c = hd (write_class c) # map write_entry (cl_entries c)" by (simp add: write_class_def)
  obtain m2 where m2: "fold read_line (map write_entry (cl_entries c)) (cl_orig c, cl_obf c, m1) = (cl_orig c, cl_obf c, m2)"
    "pg_classes m2 = pg_classes m1" "\<And>key. methods_of m2 key = methods_of m key @ class_methods key c"
    using read_entries [OF ok(2,3), of "cl_orig c" m1] by (auto simp: m1_def class_methods_def)
  have f: "fold read_line (write_class c) (orig, obf, m) = (cl_orig c, cl_obf c, m2)"
    by (subst lines) (simp add: read_class_line [OF ok(1)] m1_def [symmetric] m2(1))
  obtain o' b' m' where m': "fold read_line (concat (map write_class cs)) (cl_orig c, cl_obf c, m2) = (o', b', m')"
    "map_of (pg_classes m') = map_of (rev (map (\<lambda>c. (cl_obf c, cl_orig c)) cs) @ pg_classes m2)"
    "\<And>key. methods_of m' key = methods_of m2 key @ concat (map (class_methods key) cs)"
    using Cons.IH [of "cl_orig c" "cl_obf c" m2] Cons.prems by auto
  have "map_of (pg_classes m') = map_of (rev (map (\<lambda>c. (cl_obf c, cl_orig c)) (c # cs)) @ pg_classes m)"
    by (simp add: m'(2) m2(2) m1_def classes_add_class)
  with f m' m2(3) show ?case by auto
qed simp

lemma newline_free:
  assumes "entry_ok e"
  shows "CHR 0x0A \<notin> set (write_entry e)"
proof -
  have sp: "re_space CHR 0x0A" by simp
  have "CHR 0x0A \<notin> set (range_text r)" "CHR 0x0A \<notin> set (orig_text x)" for r x
    by (auto simp: range_text_def orig_text_def split: option.split)
  then show ?thesis using assms sp by (auto simp: write_entry_def entry_ok_def word_def list_all_iff)
qed

lemma split_lines: "(\<And>l. l \<in> set ls \<Longrightarrow> c \<notin> set l) \<Longrightarrow> split_byte c (concat (map (\<lambda>l. l @ [c]) ls)) = ls @ [[]]"
proof (induction ls)
  case (Cons l ls)
  then show ?case using split_byte_append [of c l "concat (map (\<lambda>l. l @ [c]) ls)"] by simp
qed simp

definition written_line_ok :: "string \<Rightarrow> bool" where
  "written_line_ok l \<longleftrightarrow> CHR 0x0A \<notin> set l \<and> l \<noteq> [] \<and> last l \<noteq> CHR 0x0D \<and> length l < 16 * 1024 * 1024"

lemma written_lines_ok:
  assumes "list_all class_ok cs" and "l \<in> set (concat (map write_class cs))"
  shows "written_line_ok l"
proof -
  from assms(2) obtain c where c: "c \<in> set cs" "l = hd (write_class c) \<or> (\<exists>e \<in> set (cl_entries c). l = write_entry e)"
    by (auto simp: write_class_def)
  have ok: "class_ok c" using assms(1) c(1) by (simp add: list_all_iff)
  from c(2) show ?thesis
  proof
    assume l: "l = hd (write_class c)"
    have "CHR 0x0A \<notin> set l"
      using ok re_space_simps(7) by (auto simp: l write_class_def class_ok_def word_def list_all_iff)
    then show ?thesis using ok by (simp add: written_line_ok_def l write_class_def class_ok_def)
  next
    assume "\<exists>e \<in> set (cl_entries c). l = write_entry e"
    then obtain e where e: "e \<in> set (cl_entries c)" "l = write_entry e" by blast
    then have ek: "entry_ok e" using ok by (simp add: class_ok_def list_all_iff)
    then have "\<not> re_space (last (en_obf e))" "en_obf e \<noteq> []" by (auto simp: entry_ok_def word_def list_all_iff)
    then have "last l \<noteq> CHR 0x0D" by (auto simp: e(2) write_entry_def re_space_def)
    then show ?thesis using newline_free [OF ek] entry_line(4) [OF ek] ek by (simp add: written_line_ok_def e(2) entry_ok_def)
  qed
qed

lemma scan_written:
  assumes "list_all class_ok cs"
  shows "scan_lines (write_mapping cs) = concat (map write_class cs) @ [[]]"
proof -
  define ls where "ls = concat (map write_class cs)"
  have ok: "l \<in> set ls \<Longrightarrow> written_line_ok l" for l using written_lines_ok [OF assms] unfolding ls_def by blast
  have "split_byte CHR 0x0A (write_mapping cs) = ls @ [[]]"
    unfolding write_mapping_def ls_def [symmetric] using ok by (intro split_lines) (auto simp: written_line_ok_def)
  moreover have "takeWhile (\<lambda>l. length l < 16 * 1024 * 1024) (ls @ [[]]) = ls @ [[]]"
    using ok by (intro takeWhile_eq_all_conv [THEN iffD2]) (auto simp: written_line_ok_def)
  moreover have "map drop_cr ls = ls" using ok by (auto simp: map_idI drop_cr_def written_line_ok_def)
  ultimately show ?thesis by (simp only: scan_lines_def ls_def map_append list.map) (simp add: drop_cr_def)
qed

lemma read_blank: "read_line [] st = st"
proof -
  have "trim_space [] = []" by code_simp
  then show ?thesis by (simp add: read_line_def split_beta)
qed

lemma ParseProGuard_written:
  assumes "list_all class_ok cs"
  shows "methods_of (ParseProGuard (write_mapping cs)) key = concat (map (class_methods key) cs)"
    and "map_of (pg_classes (ParseProGuard (write_mapping cs))) = map_of (rev (map (\<lambda>c. (cl_obf c, cl_orig c)) cs))"
proof -
  obtain o' b' m' where "fold read_line (concat (map write_class cs)) ([], [], empty_mapping) = (o', b', m')"
    "map_of (pg_classes m') = map_of (rev (map (\<lambda>c. (cl_obf c, cl_orig c)) cs) @ pg_classes empty_mapping)"
    "\<And>key. methods_of m' key = methods_of empty_mapping key @ concat (map (class_methods key) cs)"
    using read_classes [OF assms, of "[]" "[]" empty_mapping] by auto
  then show "methods_of (ParseProGuard (write_mapping cs)) key = concat (map (class_methods key) cs)"
    "map_of (pg_classes (ParseProGuard (write_mapping cs))) = map_of (rev (map (\<lambda>c. (cl_obf c, cl_orig c)) cs))"
    by (simp_all add: ParseProGuard_def scan_written [OF assms] read_blank) (simp_all add: empty_mapping_def methods_of_def)
qed

section \<open>Retracing a frame\<close>

definition entries_for :: "pg_class \<Rightarrow> frame \<Rightarrow> proguard_method list" where
  "entries_for c f = map (\<lambda>e. entry_of (cl_orig c) (match_of e)) (filter (\<lambda>e. en_obf e = fr_function f) (cl_entries c))"

definition plain_name :: "string \<Rightarrow> bool" where
  "plain_name s \<longleftrightarrow> CHR ''.'' \<notin> set s"

lemma last_dot_unique:
  assumes "CHR ''.'' \<notin> set y" and "CHR ''.'' \<notin> set y'" and "x @ ''.'' @ y = x' @ ''.'' @ y'"
  shows "x = x' \<and> y = y'"
proof -
  from assms(3) have "after_last_any [CHR ''.''] (x @ CHR ''.'' # y) = after_last_any [CHR ''.''] (x' @ CHR ''.'' # y')" by simp
  then have "y = y'" using assms(1,2) by (simp add: after_last_any_append after_last_any_id)
  with assms(3) show ?thesis by simp
qed

lemma class_methods_key:
  assumes "list_all (\<lambda>e. plain_name (en_obf e)) (cl_entries c)" and "plain_name (fr_function f)"
  shows "class_methods (cls @ ''.'' @ fr_function f) c = (if cl_obf c = cls then entries_for c f else [])"
proof -
  have "(cl_obf c @ ''.'' @ en_obf e = cls @ ''.'' @ fr_function f) = (cl_obf c = cls \<and> en_obf e = fr_function f)"
    if "e \<in> set (cl_entries c)" for e
    using last_dot_unique [of "en_obf e" "fr_function f" "cl_obf c" cls] assms that by (auto simp: plain_name_def list_all_iff)
  then have "filter (\<lambda>e. cl_obf c @ ''.'' @ en_obf e = cls @ ''.'' @ fr_function f) (cl_entries c)
      = filter (\<lambda>e. cl_obf c = cls \<and> en_obf e = fr_function f) (cl_entries c)" by (intro filter_cong) auto
  then show ?thesis by (simp add: class_methods_def entries_for_def)
qed

lemma concat_one:
  "distinct (map k cs) \<Longrightarrow> c \<in> set cs \<Longrightarrow> concat (map (\<lambda>x. if k x = k c then g x else []) cs) = g c"
proof (induction cs)
  case (Cons x cs)
  have "concat (map (\<lambda>x. if k x = k c then g x else []) cs) = []" if "k c \<notin> k ` set cs" using that by (auto simp: image_iff)
  with Cons show ?case by (cases "x = c") auto
qed simp


text \<open>The block of R8 output of the repository's test, where \<open>CartRepository\<close> was inlined into \<open>onCreate\<close>.\<close>

definition example_entry :: "nat \<Rightarrow> nat \<Rightarrow> string \<Rightarrow> string \<Rightarrow> nat \<Rightarrow> nat option \<Rightarrow> pg_entry" where
  "example_entry a b t n l r = \<lparr>en_range = Some (a, b), en_type = t, en_name = n, en_args = [], en_orig = Some (l, r), en_obf = ''c''\<rparr>"

definition example_classes :: "pg_class list" where
  "example_classes = [\<lparr>cl_orig = ''cc.Main'', cl_obf = ''a.b'', cl_entries =
     [example_entry 31 50 ''int'' ''cc.Repo.total'' 16 (Some 16), example_entry 31 50 ''int'' ''cc.Repo.load'' 11 None,
      example_entry 31 50 ''void'' ''onCreate'' 11 None, example_entry 51 60 ''void'' ''onCreate'' 12 (Some 21)]\<rparr>]"

definition example_obfuscated :: frame where
  "example_obfuscated = frame0\<lparr>fr_module := ''a.b'', fr_function := ''c'', fr_lineno := 47, fr_in_app := Some True\<rparr>"

definition example_entry_ok :: "pg_entry \<Rightarrow> bool" where
  "example_entry_ok e \<longleftrightarrow> word (en_type e) \<and> \<not> re_digit (hd (en_type e)) \<and> word (en_name e) \<and> CHR ''('' \<notin> set (en_name e)
     \<and> en_args e = [] \<and> word (en_obf e) \<and> (case en_range e of None \<Rightarrow> True | Some (a, b) \<Rightarrow> a < 100 \<and> b < 100)
     \<and> (case en_orig e of None \<Rightarrow> True | Some (a, b) \<Rightarrow> a < 100 \<and> (case b of None \<Rightarrow> True | Some x \<Rightarrow> x < 100))
     \<and> length (write_entry e) < 100"

lemma example_entry_okD: "example_entry_ok e \<Longrightarrow> entry_ok e"
  by (auto simp: example_entry_ok_def entry_ok_def short_def ascii_def split: option.splits)

lemma example_classes_ok: "list_all class_ok example_classes"
proof -
  have "list_all (\<lambda>c. list_all example_entry_ok (cl_entries c) \<and> word (cl_orig c) \<and> hd (cl_orig c) \<noteq> CHR ''#'' \<and> word (cl_obf c)
      \<and> length (hd (write_class c)) < 100) example_classes" by code_simp
  then show ?thesis by (auto simp: list_all_iff class_ok_def intro: example_entry_okD)
qed

lemma example_entries: "entries_for \<lparr>cl_orig = ''cc.Main'', cl_obf = ''a.b'', cl_entries = cl_entries (hd example_classes)\<rparr> example_obfuscated =
   [\<lparr>pm_class = ''cc.Repo'', pm_name = ''total'', pm_args = [], pm_has_range = True, pm_obf_start = 31, pm_obf_end = 50, pm_orig_start = 16, pm_orig_end = 16\<rparr>,
    \<lparr>pm_class = ''cc.Repo'', pm_name = ''load'', pm_args = [], pm_has_range = True, pm_obf_start = 31, pm_obf_end = 50, pm_orig_start = 11, pm_orig_end = 0\<rparr>,
    \<lparr>pm_class = ''cc.Main'', pm_name = ''onCreate'', pm_args = [], pm_has_range = True, pm_obf_start = 31, pm_obf_end = 50, pm_orig_start = 11, pm_orig_end = 0\<rparr>,
    \<lparr>pm_class = ''cc.Main'', pm_name = ''onCreate'', pm_args = [], pm_has_range = True, pm_obf_start = 51, pm_obf_end = 60, pm_orig_start = 12, pm_orig_end = 21\<rparr>]"
  by code_simp


end
