(* ===== verification/Symbolicate.thy ===== *)
theory Symbolicate
  imports SymbolFiles SourceMaps ProGuard Packs IngestRuns
begin

text \<open>
  The symbolication service (\<open>internal/symbolicate/service.go\<close>) and its sidecar client (\<open>dsym.go\<close>): the cache of
  parsed mappings with its revalidation, the choice of a mapping or of a dSYM for an event, the resolution of
  native frames, and the job that symbolicates a stored event and moves it to its issue. A database call that
  fails is a view \<open>None\<close>; the clock readings and the views of a cache lookup are its arguments. Shown: how
  old a served mapping can be, that a move of an event keeps the counts of both issues, and what the sidecar
  path can change of a frame.
\<close>

section \<open>Mappings and their versions\<close>

datatype any_mapping = ProGuardMap proguard_mapping | SourceMapsOf source_map_set

text \<open>\<open>sl_walk\<close>: the order in which Go walks the map of files; \<open>sl_json\<close> decodes a source map.\<close>

record symbol_lib =
  sl_json :: "string \<Rightarrow> raw_map option"
  sl_walk :: "(string \<times> string) list \<Rightarrow> (string \<times> string) list"

type_synonym cache_key = "project_id \<times> SymbolKind \<times> string"

record cache_entry =
  ce_mapping :: "any_mapping option"
  ce_loaded_at :: time
  ce_checked_at :: time
  ce_version :: string

type_synonym mapping_cache = "(cache_key \<times> cache_entry) list"

definition missTTL :: duration where "missTTL = 60 * second"
definition revalidateTTL :: duration where "revalidateTTL = 60 * second"
definition cacheMax :: nat where "cacheMax = 64"
definition ReleaseMax :: nat where "ReleaseMax = 2000"
definition debugPrefix :: string where "debugPrefix = ''debug:''"

definition versionOf :: "nat \<Rightarrow> time \<Rightarrow> string" where
  "versionOf n upl = (if n = 0 then ''0/0'' else itoa n @ ''/'' @ itoa_int (upl div 1000))"

definition key_parts :: "string \<Rightarrow> string \<times> string" where
  "key_parts key = (if has_prefix key debugPrefix then (trim_prefix key debugPrefix, []) else ([], key))"

definition version :: "symbol_store \<Rightarrow> cache_key \<Rightarrow> string" where
  "version s k = (case k of (pid, kind, key) \<Rightarrow> case key_parts key of (d, rel) \<Rightarrow>
     case SymbolFilesVersion (ss_table s) pid kind d rel of (n, upl) \<Rightarrow> versionOf n upl)"

definition parseFiles :: "symbol_lib \<Rightarrow> SymbolKind \<Rightarrow> (string \<times> string) list \<Rightarrow> any_mapping option" where
  "parseFiles lib kind files =
     (case kind of
        SymbolKindProguard \<Rightarrow>
          (let m = ParseProGuard (concat (map (\<lambda>(name, data). data @ [CHR 0x0A]) files))
           in if pg_classes m = [] then None else Some (ProGuardMap m))
      | SymbolKindSourcemap \<Rightarrow>
          (let by_name = fold (\<lambda>f. upsert fst (\<lambda>old new. new) f) files [];
               set = NewSourceMapSet (sl_json lib) (sl_walk lib by_name)
           in if Len set = 0 then None else Some (SourceMapsOf set))
      | SymbolKindDsym \<Rightarrow> None)"

text \<open>The rows behind a key.\<close>

definition files_of :: "symbol_store \<Rightarrow> cache_key \<Rightarrow> symbol_file list" where
  "files_of s k = (case k of (pid, kind, key) \<Rightarrow>
     if has_prefix key debugPrefix
     then (case SymbolFileByDebugID (ss_table s) pid (Some (trim_prefix key debugPrefix)) of
             None \<Rightarrow> [] | Some f \<Rightarrow> if sf_kind f \<noteq> kind then [] else [f])
     else SymbolFilesForRelease (ss_table s) pid kind key)"

text \<open>The zero \<open>time.Time\<close> is before every upload.\<close>

definition latest_upload :: "symbol_file list \<Rightarrow> time" where
  "latest_upload fs = fold (\<lambda>f t. if t < sf_uploaded_at f then sf_uploaded_at f else t) fs zero_time"

datatype load_error = DBFailed | FileFailed file_error | GaveUp

definition fetchOnce :: "symbol_lib \<Rightarrow> symbol_store option \<Rightarrow> cache_key \<Rightarrow> load_error + any_mapping option \<times> string" where
  "fetchOnce lib view k =
     (case view of
        None \<Rightarrow> Inl DBFailed
      | Some s \<Rightarrow>
          (let fs = files_of s k; v = versionOf (length fs) (latest_upload fs)
           in if fs = [] then Inr (None, v)
              else (case collect (\<lambda>f. symbolBytes (sf_data f) (sf_blob_key f) s) fs of
                      Inl e \<Rightarrow> Inl (FileFailed e)
                    | Inr datas \<Rightarrow> Inr (parseFiles lib (fst (snd k)) (zip (map sf_filename fs) datas), v))))"

text \<open>Once more when an object was replaced between the row and its bytes.\<close>

definition fetch :: "symbol_lib \<Rightarrow> symbol_store option \<Rightarrow> symbol_store option \<Rightarrow> cache_key
    \<Rightarrow> load_error + any_mapping option \<times> string" where
  "fetch lib view1 view2 k =
     (if fetchOnce lib view1 k = Inl (FileFailed (FileBlob ErrNotFound)) then fetchOnce lib view2 k else fetchOnce lib view1 k)"

section \<open>The cache\<close>

text \<open>
  What a lookup meets: the time it starts, the view its version check reads and the time after it, the views of
  the two attempts to fetch, the time the entry is stored, and whether the caller stopped waiting.
\<close>

record load_env =
  le_now :: time
  le_version :: "symbol_store option"
  le_checked :: time
  le_fetch1 :: "symbol_store option"
  le_fetch2 :: "symbol_store option"
  le_stored :: time
  le_gave_up :: bool

definition put_entry :: "cache_key \<Rightarrow> cache_entry \<Rightarrow> mapping_cache \<Rightarrow> mapping_cache" where
  "put_entry k e c = upsert fst (\<lambda>old new. new) (k, e) c"

fun oldest_from :: "cache_key \<times> cache_entry \<Rightarrow> mapping_cache \<Rightarrow> cache_key \<times> cache_entry" where
  "oldest_from x [] = x"
| "oldest_from x (y # ys) = oldest_from (if ce_loaded_at (snd y) < ce_loaded_at (snd x) then y else x) ys"

definition evictOldest :: "mapping_cache \<Rightarrow> mapping_cache" where
  "evictOldest c = (case c of [] \<Rightarrow> [] | x # xs \<Rightarrow> delete_where (\<lambda>y. fst y = fst (oldest_from x xs)) c)"

text \<open>Whether the cached entry is served, and the cache after the check.\<close>

definition serve_entry :: "load_env \<Rightarrow> cache_key \<Rightarrow> cache_entry \<Rightarrow> mapping_cache \<Rightarrow> bool \<times> mapping_cache" where
  "serve_entry env k e c =
     (if ce_mapping e = None then (le_now env - ce_loaded_at e < missTTL, c)
      else if le_now env - ce_checked_at e < revalidateTTL then (True, c)
      else (case le_version env of
              None \<Rightarrow> (True, c)
            | Some s \<Rightarrow> if version s k = ce_version e then (True, put_entry k (e\<lparr>ce_checked_at := le_checked env\<rparr>) c) else (False, c)))"

definition load_fresh :: "symbol_lib \<Rightarrow> load_env \<Rightarrow> cache_key \<Rightarrow> mapping_cache
    \<Rightarrow> (load_error + any_mapping option) \<times> mapping_cache" where
  "load_fresh lib env k c =
     (case fetch lib (le_fetch1 env) (le_fetch2 env) k of
        Inl e \<Rightarrow> (Inl (if le_gave_up env then GaveUp else e), c)
      | Inr (m, v) \<Rightarrow>
          (let c' = (if cacheMax \<le> length c then evictOldest c else c);
               e = \<lparr>ce_mapping = m, ce_loaded_at = le_stored env, ce_checked_at = le_stored env, ce_version = v\<rparr>
           in (if le_gave_up env then Inl GaveUp else Inr m, put_entry k e c')))"

definition load :: "symbol_lib \<Rightarrow> load_env \<Rightarrow> cache_key \<Rightarrow> mapping_cache \<Rightarrow> (load_error + any_mapping option) \<times> mapping_cache" where
  "load lib env k c =
     (case map_of c k of
        None \<Rightarrow> load_fresh lib env k c
      | Some e \<Rightarrow> (case serve_entry env k e c of
                     (True, c') \<Rightarrow> (Inr (ce_mapping e), c')
                   | (False, c') \<Rightarrow> load_fresh lib env k c'))"

definition Invalidate :: "project_id \<Rightarrow> string \<Rightarrow> mapping_cache \<Rightarrow> mapping_cache" where
  "Invalidate pid release c =
     delete_where (\<lambda>((p, kind, key), e). p = pid \<and> (key = release \<or> has_prefix key debugPrefix)) c"

section \<open>Choosing a mapping\<close>

definition wantsProGuard :: "event \<Rightarrow> bool" where
  "wantsProGuard ev \<longleftrightarrow> ev_platform ev \<in> {''android'', ''java'', ''kotlin''}
     \<or> list_ex (\<lambda>im. im_type im = ''proguard'') (ev_images ev)"

definition event_frames :: "event \<Rightarrow> frame list" where
  "event_frames ev = (case Frames ev of None \<Rightarrow> [] | Some fs \<Rightarrow> fs)"

definition wantsSourceMap :: "event \<Rightarrow> bool" where
  "wantsSourceMap ev \<longleftrightarrow> ev_platform ev \<in> {''javascript'', ''node'', ''react-native''}
     \<or> list_ex (\<lambda>f. 0 < fr_colno f \<and> fr_instr_addr f = []) (event_frames ev)"

text \<open>The lookups of an event run one after the other, each with its own environment.\<close>

type_synonym loader = "cache_key \<Rightarrow> mapping_cache \<times> nat \<Rightarrow> (load_error + any_mapping option) \<times> mapping_cache \<times> nat"

definition load_next :: "symbol_lib \<Rightarrow> (nat \<Rightarrow> load_env) \<Rightarrow> loader" where
  "load_next lib envs k st = (case st of (c, n) \<Rightarrow> case load lib (envs n) k c of (r, c') \<Rightarrow> (r, c', Suc n))"

definition as_proguard :: "any_mapping option \<Rightarrow> proguard_mapping option" where
  "as_proguard m = (case m of Some (ProGuardMap p) \<Rightarrow> Some p | _ \<Rightarrow> None)"

definition as_source_maps :: "any_mapping option \<Rightarrow> source_map_set option" where
  "as_source_maps m = (case m of Some (SourceMapsOf s) \<Rightarrow> Some s | _ \<Rightarrow> None)"

fun proguard_by_image :: "loader \<Rightarrow> project_id \<Rightarrow> debug_image list \<Rightarrow> mapping_cache \<times> nat
    \<Rightarrow> (load_error + proguard_mapping option) \<times> mapping_cache \<times> nat" where
  "proguard_by_image ld pid [] st = (Inr None, st)"
| "proguard_by_image ld pid (im # ims) st =
     (if im_type im \<noteq> ''proguard'' \<or> im_debug_id im = [] then proguard_by_image ld pid ims st
      else (case ld (pid, SymbolKindProguard, debugPrefix @ normalizeDebugID (im_debug_id im)) st of
              (Inl e, st') \<Rightarrow> (Inl e, st')
            | (Inr m, st') \<Rightarrow> (case as_proguard m of None \<Rightarrow> proguard_by_image ld pid ims st' | Some p \<Rightarrow> (Inr (Some p), st'))))"

definition proguardFor :: "loader \<Rightarrow> project_id \<Rightarrow> event \<Rightarrow> mapping_cache \<times> nat
    \<Rightarrow> (load_error + proguard_mapping option) \<times> mapping_cache \<times> nat" where
  "proguardFor ld pid ev st =
     (case proguard_by_image ld pid (ev_images ev) st of
        (Inr None, st') \<Rightarrow>
          if ev_release ev = [] then (Inr None, st')
          else (case ld (pid, SymbolKindProguard, ev_release ev) st' of
                  (Inl e, st'') \<Rightarrow> (Inl e, st'')
                | (Inr m, st'') \<Rightarrow> (Inr (as_proguard m), st''))
      | r \<Rightarrow> r)"

definition sourceMapsFor :: "loader \<Rightarrow> project_id \<Rightarrow> string \<Rightarrow> mapping_cache \<times> nat
    \<Rightarrow> (load_error + source_map_set option) \<times> mapping_cache \<times> nat" where
  "sourceMapsFor ld pid release st =
     (case ld (pid, SymbolKindSourcemap, release) st of
        (Inl e, st') \<Rightarrow> (Inl e, st')
      | (Inr m, st') \<Rightarrow> (Inr (as_source_maps m), st'))"

text \<open>What a resolver changed, if anything.\<close>

definition changed_frames :: "frame list \<times> bool \<Rightarrow> frame list option" where
  "changed_frames r = (if snd r then Some (fst r) else None)"

definition inline_proguard :: "loader \<Rightarrow> project_id \<Rightarrow> event \<Rightarrow> mapping_cache \<times> nat
    \<Rightarrow> (load_error + frame list option) \<times> mapping_cache \<times> nat" where
  "inline_proguard ld pid ev st =
     (if \<not> wantsProGuard ev then (Inr None, st)
      else (case proguardFor ld pid ev st of
              (Inl e, st') \<Rightarrow> (Inl e, st')
            | (Inr None, st') \<Rightarrow> (Inr None, st')
            | (Inr (Some m), st') \<Rightarrow> (Inr (changed_frames (pg_ResolveAll m (event_frames ev))), st')))"

definition inline_source_maps :: "loader \<Rightarrow> project_id \<Rightarrow> event \<Rightarrow> mapping_cache \<times> nat
    \<Rightarrow> (load_error + frame list option) \<times> mapping_cache \<times> nat" where
  "inline_source_maps ld pid ev st =
     (if \<not> wantsSourceMap ev \<or> ev_release ev = [] then (Inr None, st)
      else (case sourceMapsFor ld pid (ev_release ev) st of
              (Inl e, st') \<Rightarrow> (Inl e, st')
            | (Inr None, st') \<Rightarrow> (Inr None, st')
            | (Inr (Some s), st') \<Rightarrow> (Inr (changed_frames (Set_ResolveAll s (event_frames ev))), st')))"

definition Inline :: "loader \<Rightarrow> project_id \<Rightarrow> event \<Rightarrow> mapping_cache \<times> nat
    \<Rightarrow> (load_error + frame list option) \<times> mapping_cache \<times> nat" where
  "Inline ld pid ev st =
     (if event_frames ev = [] then (Inr None, st)
      else (case inline_proguard ld pid ev st of
              (Inr None, st') \<Rightarrow> inline_source_maps ld pid ev st'
            | r \<Rightarrow> r))"

section \<open>The sidecar's client\<close>

record dsym_result =
  ds_function :: string
  ds_filename :: string
  ds_lineno :: int

definition Resolved :: "dsym_result \<Rightarrow> bool" where
  "Resolved r \<longleftrightarrow> ds_function r \<notin> {[], ''??'', ''?''}"

text \<open>The sidecar behind its two requests: \<open>'x\<close> is its state.\<close>

datatype ask_reply = UnknownSymbol | AskFailed | Answer "dsym_result list"

record 'x sidecar_lib =
  dl_ask :: "string \<Rightarrow> (address \<times> string) list \<Rightarrow> 'x \<Rightarrow> ask_reply \<times> 'x"
  dl_put :: "string \<Rightarrow> string \<Rightarrow> 'x \<Rightarrow> bool \<times> 'x"

definition MaxDSYMFrames :: nat where "MaxDSYMFrames = 200"

datatype symbol_error = LookupFailed load_error | SidecarFailed | NotCached | StillUnknown | TxFailed | BadPayload

text \<open>\<open>loaded\<close> is what the loader would return, \<open>None\<close> a nil loader.\<close>

definition DSYM_Resolve :: "'x sidecar_lib \<Rightarrow> string \<Rightarrow> (load_error + string) option \<Rightarrow> (address \<times> string) list \<Rightarrow> 'x
    \<Rightarrow> (symbol_error + dsym_result list) \<times> 'x" where
  "DSYM_Resolve lib key loaded addrs x =
     (let as = take MaxDSYMFrames addrs
      in (case dl_ask lib key as x of
            (AskFailed, x1) \<Rightarrow> (Inl SidecarFailed, x1)
          | (Answer rs, x1) \<Rightarrow> (Inr rs, x1)
          | (UnknownSymbol, x1) \<Rightarrow>
              (case loaded of
                 None \<Rightarrow> (Inl NotCached, x1)
               | Some (Inl e) \<Rightarrow> (Inl (LookupFailed e), x1)
               | Some (Inr data) \<Rightarrow>
                   (case dl_put lib key data x1 of
                      (False, x2) \<Rightarrow> (Inl SidecarFailed, x2)
                    | (True, x2) \<Rightarrow>
                        (case dl_ask lib key as x2 of
                           (AskFailed, x3) \<Rightarrow> (Inl SidecarFailed, x3)
                         | (Answer rs, x3) \<Rightarrow> (Inr rs, x3)
                         | (UnknownSymbol, x3) \<Rightarrow> (Inl StillUnknown, x3))))))"

section \<open>Native frames\<close>

definition isNative :: "event \<Rightarrow> bool" where
  "isNative ev \<longleftrightarrow> ev_images ev \<noteq> [] \<and> list_ex (\<lambda>f. fr_instr_addr f \<noteq> []) (event_frames ev)"

fun image_at :: "nat \<Rightarrow> string \<Rightarrow> debug_image list \<Rightarrow> nat option" where
  "image_at i a [] = None"
| "image_at i a (im # ims) = (if im_image_addr im = a then Some i else image_at (Suc i) a ims)"

definition findImage :: "event \<Rightarrow> frame \<Rightarrow> address \<Rightarrow> nat option" where
  "findImage ev f addr =
     (case (if fr_image_addr f = [] then None else image_at 0 (fr_image_addr f) (ev_images ev)) of
        Some i \<Rightarrow> Some i | None \<Rightarrow> ImageFor ev addr)"

text \<open>The frames to look up: their index, address and img.\<close>

definition frame_lookup :: "event \<Rightarrow> nat \<times> frame \<Rightarrow> (nat \<times> address \<times> nat) option" where
  "frame_lookup ev fi =
     (case fi of (i, f) \<Rightarrow>
        if fr_instr_addr f = [] \<or> fr_function f \<noteq> [] then None
        else (case ParseHex (fr_instr_addr f) of
                None \<Rightarrow> None
              | Some a \<Rightarrow> map_option (\<lambda>im. (i, a, im)) (findImage ev f a)))"

definition frame_lookups :: "event \<Rightarrow> (nat \<times> address \<times> nat) list" where
  "frame_lookups ev = List.map_filter (frame_lookup ev) (enumerate 0 (event_frames ev))"

definition image_lookups :: "event \<Rightarrow> nat \<Rightarrow> (nat \<times> address) list" where
  "image_lookups ev im = map (\<lambda>(i, a, _). (i, a)) (filter (\<lambda>(_, _, j). j = im) (frame_lookups ev))"

text \<open>\<open>SymbolKey\<close> of the sidecar: the row and its upload time in seconds.\<close>

definition symbol_file_key :: "symbol_file \<Rightarrow> string" where
  "symbol_file_key f = itoa_int (sf_id f) @ ''-'' @ itoa_int (sf_uploaded_at f div second)"

definition dsym_matches :: "string \<Rightarrow> symbol_file \<Rightarrow> bool" where
  "dsym_matches want f \<longleftrightarrow>
     (let name = to_lower (trim_suffix (file_base (sf_filename f)) ''.dsym'')
      in want \<noteq> [] \<and> (name = want \<or> has_prefix name (want @ ''.'')))"

text \<open>
  \<open>dsymFile\<close>: \<open>view1\<close> answers the query by debug id, \<open>view2\<close> the one by release, which is asked once per event
  (\<open>loaded\<close> keeps its answer).
\<close>

definition dsym_by_id :: "symbol_store option \<Rightarrow> project_id \<Rightarrow> debug_image \<Rightarrow> load_error + symbol_file option" where
  "dsym_by_id view pid img =
     (if im_debug_id img = [] then Inr None
      else (case view of
              None \<Rightarrow> Inl DBFailed
            | Some s \<Rightarrow> (case SymbolFileByDebugID (ss_table s) pid (Some (normalizeDebugID (im_debug_id img))) of
                           None \<Rightarrow> Inr None
                         | Some f \<Rightarrow> Inr (if sf_kind f = SymbolKindDsym then Some f else None))))"

definition dsym_by_name :: "debug_image \<Rightarrow> symbol_file list \<Rightarrow> symbol_file option" where
  "dsym_by_name img fs =
     (let want = to_lower (file_base (im_code_file img))
      in case find (dsym_matches want) fs of
           Some f \<Rightarrow> Some f
         | None \<Rightarrow> if want = [] \<and> length fs = 1 then Some (hd fs) else None)"

definition dsymFile :: "symbol_store option \<Rightarrow> symbol_store option \<Rightarrow> project_id \<Rightarrow> string \<Rightarrow> debug_image \<Rightarrow> symbol_file list option
    \<Rightarrow> (load_error + symbol_file option) \<times> symbol_file list option" where
  "dsymFile view1 view2 pid release img loaded =
     (case dsym_by_id view1 pid img of
        Inl e \<Rightarrow> (Inl e, loaded)
      | Inr (Some f) \<Rightarrow> (Inr (Some f), loaded)
      | Inr None \<Rightarrow>
          if release = [] then (Inr None, loaded)
          else (case (case loaded of
                        Some fs \<Rightarrow> Some fs
                      | None \<Rightarrow> map_option (\<lambda>s. SymbolFilesForRelease (ss_table s) pid SymbolKindDsym release) view2) of
                  None \<Rightarrow> (Inl DBFailed, loaded)
                | Some fs \<Rightarrow> (Inr (dsym_by_name img fs), Some fs)))"

text \<open>\<open>symbolFileBytes\<close>: the row is read again when its object was replaced.\<close>

definition row_bytes :: "symbol_store option \<Rightarrow> int \<Rightarrow> load_error + string" where
  "row_bytes view i =
     (case view of
        None \<Rightarrow> Inl DBFailed
      | Some s \<Rightarrow> (case SymbolFileData (ss_table s) i of
                     None \<Rightarrow> Inl DBFailed
                   | Some (data, key) \<Rightarrow> (case symbolBytes data key s of Inl e \<Rightarrow> Inl (FileFailed e) | Inr d \<Rightarrow> Inr d)))"

definition symbolFileBytes :: "symbol_store option \<Rightarrow> symbol_store option \<Rightarrow> int \<Rightarrow> load_error + string" where
  "symbolFileBytes view1 view2 i =
     (if row_bytes view1 i = Inl (FileFailed (FileBlob ErrNotFound)) then row_bytes view2 i else row_bytes view1 i)"

definition native_frame :: "string \<Rightarrow> dsym_result \<Rightarrow> frame \<Rightarrow> frame" where
  "native_frame mname r f =
     (let g = f\<lparr>fr_function := ds_function r, fr_lineno := ds_lineno r\<rparr>;
          h = (if ds_filename r \<noteq> [] \<and> ds_filename r \<noteq> ''??''
               then g\<lparr>fr_filename := file_base (ds_filename r), fr_abs_path := ds_filename r\<rparr> else g)
      in if fr_package f = [] then h\<lparr>fr_package := mname\<rparr> else h)"

definition place_result :: "string \<Rightarrow> (nat \<times> address) \<times> dsym_result \<Rightarrow> frame list \<times> bool \<Rightarrow> frame list \<times> bool" where
  "place_result mname lr st =
     (case lr of ((i, a), r) \<Rightarrow> case st of (out, resolved) \<Rightarrow>
        if Resolved r then (out[i := native_frame mname r (out ! i)], True) else st)"

text \<open>
  The images of an event in the order Go walks the map of them (\<open>de_walk\<close>), and the four database views an image
  needs: by debug id, by release, and the two attempts at the bytes.
\<close>

record dsym_env =
  de_debug_id :: "nat \<Rightarrow> symbol_store option"
  de_release :: "nat \<Rightarrow> symbol_store option"
  de_bytes1 :: "nat \<Rightarrow> symbol_store option"
  de_bytes2 :: "nat \<Rightarrow> symbol_store option"
  de_walk :: "nat list \<Rightarrow> nat list"

definition last_lookups :: "event \<Rightarrow> nat \<Rightarrow> (nat \<times> address) list" where
  "last_lookups ev im = (let lks = image_lookups ev im in drop (length lks - MaxDSYMFrames) lks)"

definition resolve_image ::
  "'x sidecar_lib \<Rightarrow> dsym_env \<Rightarrow> event \<Rightarrow> bool \<Rightarrow> nat \<Rightarrow> symbol_file \<Rightarrow> frame list \<times> bool \<Rightarrow> 'x
     \<Rightarrow> (symbol_error + frame list \<times> bool) \<times> 'x" where
  "resolve_image lib env ev may_send im file out x =
     (let img = ev_images ev ! im;
          base = (case ParseHex (im_image_addr img) of None \<Rightarrow> 0 | Some b \<Rightarrow> b);
          mname = file_base (im_code_file img);
          lks = last_lookups ev im;
          loaded = (if may_send then Some (symbolFileBytes (de_bytes1 env im) (de_bytes2 env im) (sf_id file)) else None)
      in (case DSYM_Resolve lib (symbol_file_key file) loaded (map (\<lambda>(i, a). (a - base, mname)) lks) x of
            (Inl e, x') \<Rightarrow> (Inl e, x')
          | (Inr rs, x') \<Rightarrow> (Inr (fold (place_result mname) (zip lks rs) out), x')))"

fun resolve_images ::
  "'x sidecar_lib \<Rightarrow> dsym_env \<Rightarrow> project_id \<Rightarrow> event \<Rightarrow> bool \<Rightarrow> nat list \<Rightarrow> symbol_file list option \<Rightarrow> frame list \<times> bool \<Rightarrow> 'x
     \<Rightarrow> (symbol_error + frame list \<times> bool) \<times> 'x" where
  "resolve_images lib env pid ev may_send [] loaded out x = (Inr out, x)"
| "resolve_images lib env pid ev may_send (im # ims) loaded out x =
     (case dsymFile (de_debug_id env im) (de_release env im) pid (ev_release ev) (ev_images ev ! im) loaded of
        (Inl e, _) \<Rightarrow> (Inl (LookupFailed e), x)
      | (Inr None, loaded') \<Rightarrow> resolve_images lib env pid ev may_send ims loaded' out x
      | (Inr (Some file), loaded') \<Rightarrow>
          (case resolve_image lib env ev may_send im file out x of
             (Inl e, x') \<Rightarrow> (Inl e, x')
           | (Inr out', x') \<Rightarrow> resolve_images lib env pid ev may_send ims loaded' out' x'))"

definition dsym ::
  "'x sidecar_lib \<Rightarrow> dsym_env \<Rightarrow> project_id \<Rightarrow> event \<Rightarrow> bool \<Rightarrow> 'x \<Rightarrow> (symbol_error + frame list option) \<times> 'x" where
  "dsym lib env pid ev may_send x =
     (if frame_lookups ev = [] then (Inr None, x)
      else (case resolve_images lib env pid ev may_send (de_walk env (remdups (map (\<lambda>(_, _, im). im) (frame_lookups ev)))) None
                   (event_frames ev, False) x of
              (Inl e, x') \<Rightarrow> (Inl e, x')
            | (Inr r, x') \<Rightarrow> (Inr (changed_frames r), x')))"

text \<open>\<open>resolve\<close>: \<open>sidecar\<close> is \<open>None\<close> when none is configured.\<close>

definition resolve ::
  "loader \<Rightarrow> ('x sidecar_lib \<times> dsym_env) option \<Rightarrow> project_id \<Rightarrow> event \<Rightarrow> bool \<Rightarrow> (mapping_cache \<times> nat) \<times> 'x
     \<Rightarrow> (symbol_error + frame list option) \<times> (mapping_cache \<times> nat) \<times> 'x" where
  "resolve ld sidecar pid ev may_send st =
     (case st of (cn, x) \<Rightarrow>
        (case Inline ld pid ev cn of
           (Inl e, cn') \<Rightarrow> (Inl (LookupFailed e), cn', x)
         | (Inr (Some fs), cn') \<Rightarrow> (Inr (Some fs), cn', x)
         | (Inr None, cn') \<Rightarrow>
             (case sidecar of
                None \<Rightarrow> (Inr None, cn', x)
              | Some (lib, env) \<Rightarrow>
                  if isNative ev then (case dsym lib env pid ev may_send x of (r, x') \<Rightarrow> (r, cn', x'))
                  else (Inr None, cn', x))))"

text \<open>\<open>Service.Resolve\<close>, for ingest: the frames if anything resolved, and whether to try again later.\<close>

definition resolve_at_ingest ::
  "loader \<Rightarrow> ('x sidecar_lib \<times> dsym_env) option \<Rightarrow> project_id \<Rightarrow> event \<Rightarrow> (mapping_cache \<times> nat) \<times> 'x
     \<Rightarrow> (frame list option \<times> bool) \<times> (mapping_cache \<times> nat) \<times> 'x" where
  "resolve_at_ingest ld sidecar pid ev st =
     (case resolve ld sidecar pid ev False st of
        (Inl _, st') \<Rightarrow> ((None, True), st')
      | (Inr r, st') \<Rightarrow> ((r, False), st'))"

section \<open>Symbolicating a stored event\<close>

record symbol_db =
  sb_events :: "event_row list"
  sb_dirty :: "dirty_key list"
  sb_issues :: issues

definition moved_issue :: "project_id \<Rightarrow> event_row \<Rightarrow> event \<Rightarrow> id_text \<Rightarrow> upsert_issue_params" where
  "moved_issue pid row ev fp =
     \<lparr>ui_project = pid, ui_fingerprint = fp, ui_title = IssueTitle ev, ui_level = er_level row,
      ui_error_type = nilIfEmpty (ev_error_type ev), ui_transaction = nilIfEmpty (ev_transaction ev),
      ui_platform = nilIfEmpty (ev_platform ev), ui_event_count = 1, ui_stored_count = 1,
      ui_first_seen = er_occurred_at row, ui_last_seen = er_occurred_at row, ui_first_release = er_release row,
      ui_releases = Some [ev_release ev], ui_regress = False\<rparr>"

definition old_fingerprint :: "event_row \<Rightarrow> id_text" where
  "old_fingerprint row = (case er_fingerprint row of None \<Rightarrow> [] | Some fp \<Rightarrow> fp)"

text \<open>The transaction: \<open>symbols\<close> is the JSON of the frames.\<close>

definition set_symbols :: "time \<Rightarrow> project_id \<Rightarrow> event_row \<Rightarrow> event \<Rightarrow> frame list \<Rightarrow> string \<Rightarrow> symbol_db \<Rightarrow> symbol_db" where
  "set_symbols now pid row ev frames symbols db =
     (let newFP = Fingerprint ev frames;
          oldFP = old_fingerprint row;
          db1 = db\<lparr>sb_events := SetEventSymbols pid (er_event_id row) symbols (Ptr newFP) (nilIfEmpty (Culprit frames))
                                 (er_occurred_at row) (sb_events db)\<rparr>
      in if newFP = oldFP \<or> newFP = [] then db1
         else (let db2 = db1\<lparr>sb_dirty := mark_hour (pid, truncate_time (er_occurred_at row) hour) (sb_dirty db1),
                             sb_issues := snd (UpsertIssue now (moved_issue pid row ev newFP) (sb_issues db1))\<rparr>
               in if oldFP = [] then db2
                  else db2\<lparr>sb_issues := DeleteEmptyIssue pid oldFP (AdjustIssueStoredCount now pid oldFP (- 1) (sb_issues db2))\<rparr>))"

text \<open>
  \<open>Event\<close> up to the transaction: the row as it was read and its parsed payload, \<open>None\<close> when there is nothing to
  do. \<open>payload\<close> is \<open>Store.Payload\<close>.
\<close>

definition with_release :: "event_row \<Rightarrow> event \<Rightarrow> event" where
  "with_release row ev =
     (if ev_release ev = [] then (case er_release row of None \<Rightarrow> ev | Some r \<Rightarrow> ev\<lparr>ev_release := r\<rparr>) else ev)"

definition read_event ::
  "json_lib \<Rightarrow> (event_row \<Rightarrow> payload_error + string option) \<Rightarrow> time \<Rightarrow> project_id \<Rightarrow> id_text \<Rightarrow> time \<Rightarrow> event_row list
     \<Rightarrow> symbol_error + (event_row \<times> event) option" where
  "read_event js payload now pid eid tm rows =
     (case GetEventAt rows pid eid tm of
        None \<Rightarrow> Inr None
      | Some row \<Rightarrow>
          if er_symbolicated row then Inr None
          else (case payload row of
                  Inl _ \<Rightarrow> Inl BadPayload
                | Inr None \<Rightarrow> Inr None
                | Inr (Some p) \<Rightarrow> Inr (map_option (\<lambda>ev. (row, with_release row ev)) (ParseEvent js (er_event_id row) (er_occurred_at row) p now))))"

definition Event ::
  "json_lib \<Rightarrow> (event_row \<Rightarrow> payload_error + string option) \<Rightarrow> (event \<Rightarrow> 's \<Rightarrow> (symbol_error + frame list option) \<times> 's)
     \<Rightarrow> (frame list \<Rightarrow> string) \<Rightarrow> bool \<Rightarrow> time \<Rightarrow> project_id \<Rightarrow> id_text \<Rightarrow> time \<Rightarrow> symbol_db \<times> 's
     \<Rightarrow> symbol_error option \<times> symbol_db \<times> 's" where
  "Event js payload res json_frames tx_fails now pid eid tm st =
     (case st of (db, s) \<Rightarrow>
        (case read_event js payload now pid eid tm (sb_events db) of
           Inl e \<Rightarrow> (Some e, st)
         | Inr None \<Rightarrow> (None, st)
         | Inr (Some (row, ev)) \<Rightarrow>
             (case res ev s of
                (Inl e, s') \<Rightarrow> (Some e, db, s')
              | (Inr None, s') \<Rightarrow> (None, db, s')
              | (Inr (Some frames), s') \<Rightarrow>
                  if tx_fails then (Some TxFailed, db, s')
                  else (None, set_symbols now pid row ev frames (json_frames frames) db, s'))))"

section \<open>Uploads and releases\<close>

text \<open>\<open>EnqueueSymbolicateRelease\<close>; \<open>args\<close> renders the event and its time.\<close>

definition EnqueueSymbolicateRelease ::
  "(id_text \<Rightarrow> time \<Rightarrow> string) \<Rightarrow> time \<Rightarrow> project_id \<Rightarrow> string \<Rightarrow> nat \<Rightarrow> event_row list \<Rightarrow> jobs_table \<Rightarrow> nat \<times> jobs_table" where
  "EnqueueSymbolicateRelease args now pid release n rows q =
     (let hits = take n (sort_key (\<lambda>r. - er_occurred_at r)
            (filter (\<lambda>r. er_project r = pid \<and> er_release r = Some release \<and> \<not> er_symbolicated r \<and> er_fingerprint r \<noteq> None) rows));
          ps = map (\<lambda>r. \<lparr>eq_kind = JobKindSymbolicate, eq_project = er_project r, eq_args = args (er_event_id r) (er_occurred_at r),
                 eq_run_after = now\<rparr>) hits
      in (length ps, fold (EnqueueJob now) ps q))"

definition Release ::
  "(id_text \<Rightarrow> time \<Rightarrow> string) \<Rightarrow> time \<Rightarrow> project_id \<Rightarrow> string \<Rightarrow> event_row list \<Rightarrow> jobs_table \<times> mapping_cache
     \<Rightarrow> nat \<times> jobs_table \<times> mapping_cache" where
  "Release args now pid release rows st =
     (case EnqueueSymbolicateRelease args now pid release ReleaseMax rows (fst st) of
        (n, q) \<Rightarrow> (n, q, Invalidate pid release (snd st)))"

text \<open>\<open>upload\<close> with its last step; on an error the cache is left alone.\<close>

definition upload_and_invalidate ::
  "upload_lib \<Rightarrow> time \<Rightarrow> project_id \<Rightarrow> string \<Rightarrow> string \<Rightarrow> string \<Rightarrow> string \<Rightarrow> string option \<Rightarrow> symbol_store \<times> jobs_table \<Rightarrow> mapping_cache
     \<Rightarrow> (upload_error + symbol_file list) \<times> (symbol_store \<times> jobs_table) \<times> mapping_cache" where
  "upload_and_invalidate lib now pid release kind filename data debug_id st c =
     (case upload lib now pid release kind filename data debug_id st of
        (Inl e, st') \<Rightarrow> (Inl e, st', c)
      | (Inr rows, st') \<Rightarrow> (Inr rows, st', Invalidate pid release c))"

definition associate_and_invalidate ::
  "time \<Rightarrow> project_id \<Rightarrow> string \<Rightarrow> string \<Rightarrow> symbol_table \<Rightarrow> mapping_cache \<Rightarrow> symbol_table option \<times> mapping_cache" where
  "associate_and_invalidate now pid release debug_id t c =
     (case Associate now pid release debug_id t of
        None \<Rightarrow> (None, c)
      | Some t' \<Rightarrow> (Some t', if trim_space release = [] then c else Invalidate pid (trim_space release) c))"

section \<open>How old a served mapping can be\<close>

text \<open>
  \<open>h\<close> is the history of the symbol files. What a lookup reads, it reads between its start and the time it records,
  and the record follows the reading within \<open>d\<close>.
\<close>

definition reads_at :: "(time \<Rightarrow> symbol_store) \<Rightarrow> duration \<Rightarrow> time \<Rightarrow> time \<Rightarrow> symbol_store option \<Rightarrow> bool" where
  "reads_at h d start recorded view \<longleftrightarrow> (\<forall>s. view = Some s \<longrightarrow> (\<exists>t. s = h t \<and> start \<le> t \<and> t \<le> recorded \<and> recorded \<le> t + d))"

definition env_ok :: "(time \<Rightarrow> symbol_store) \<Rightarrow> duration \<Rightarrow> load_env \<Rightarrow> bool" where
  "env_ok h d env \<longleftrightarrow> reads_at h d (le_now env) (le_checked env) (le_version env)
     \<and> reads_at h d (le_now env) (le_stored env) (le_fetch1 env) \<and> reads_at h d (le_now env) (le_stored env) (le_fetch2 env)"

text \<open>What the mapping of a key was built from, and when its rows were last known to have that version.\<close>

definition built_at :: "symbol_lib \<Rightarrow> (time \<Rightarrow> symbol_store) \<Rightarrow> cache_key \<Rightarrow> any_mapping option \<Rightarrow> string \<Rightarrow> time \<Rightarrow> bool" where
  "built_at lib h k m v t \<longleftrightarrow> fetchOnce lib (Some (h t)) k = Inr (m, v)"

definition confirmed_at :: "(time \<Rightarrow> symbol_store) \<Rightarrow> cache_key \<Rightarrow> string \<Rightarrow> time \<Rightarrow> time \<Rightarrow> bool" where
  "confirmed_at h k v built t \<longleftrightarrow> t = built \<or> version (h t) k = v"

definition entry_ok :: "symbol_lib \<Rightarrow> (time \<Rightarrow> symbol_store) \<Rightarrow> duration \<Rightarrow> cache_key \<times> cache_entry \<Rightarrow> bool" where
  "entry_ok lib h d x \<longleftrightarrow> (case x of (k, e) \<Rightarrow>
     \<exists>built. built_at lib h k (ce_mapping e) (ce_version e) built \<and> ce_loaded_at e \<le> built + d
       \<and> (\<exists>t. confirmed_at h k (ce_version e) built t \<and> ce_checked_at e \<le> t + d))"

lemma fetch_built:
  assumes "env_ok h d env" and "fetch lib (le_fetch1 env) (le_fetch2 env) k = Inr (m, v)"
  shows "\<exists>t. built_at lib h k m v t \<and> le_now env \<le> t \<and> le_stored env \<le> t + d"
proof -
  obtain view where view: "view = le_fetch1 env \<or> view = le_fetch2 env" "fetchOnce lib view k = Inr (m, v)"
    using assms(2) by (auto simp: fetch_def split: if_splits)
  then obtain s where s: "view = Some s" by (cases view) (auto simp: fetchOnce_def)
  have "reads_at h d (le_now env) (le_stored env) view" using view(1) assms(1) by (auto simp: env_ok_def)
  with s obtain t where "s = h t" "le_now env \<le> t" "le_stored env \<le> t + d" by (auto simp: reads_at_def)
  with view(2) s show ?thesis by (auto simp: built_at_def)
qed

lemma entries_put:
  assumes "list_all P c" and "P (k, e)"
  shows "list_all P (put_entry k e c)"
  using assms by (auto simp: put_entry_def upsert_def list_all_iff)

lemma entries_evict: "list_all P c \<Longrightarrow> list_all P (evictOldest c)"
  by (cases c) (auto simp: evictOldest_def delete_where_def list_all_iff)

lemma load_fresh_ok:
  assumes "list_all (entry_ok lib h d) c" and "env_ok h d env"
  shows "list_all (entry_ok lib h d) (snd (load_fresh lib env k c))"
proof (cases "fetch lib (le_fetch1 env) (le_fetch2 env) k")
  case (Inr mv)
  obtain m v where mv: "mv = (m, v)" by (cases mv)
  obtain t where t: "built_at lib h k m v t" "le_stored env \<le> t + d"
    using fetch_built [OF assms(2)] Inr mv by blast
  have "entry_ok lib h d (k, \<lparr>ce_mapping = m, ce_loaded_at = le_stored env, ce_checked_at = le_stored env, ce_version = v\<rparr>)"
    using t by (auto simp: entry_ok_def confirmed_at_def)
  with assms(1) show ?thesis
    by (simp add: load_fresh_def Inr mv Let_def entries_put entries_evict)
qed (use assms in \<open>simp add: load_fresh_def\<close>)

lemma serve_entry_ok:
  assumes "list_all (entry_ok lib h d) c" and "env_ok h d env" and "entry_ok lib h d (k, e)"
  shows "list_all (entry_ok lib h d) (snd (serve_entry env k e c))"
proof (cases "\<exists>s. le_version env = Some s \<and> version s k = ce_version e")
  case True
  then obtain s where s: "le_version env = Some s" "version s k = ce_version e" by blast
  obtain t where t: "s = h t" "le_checked env \<le> t + d" using assms(2) s(1) by (auto simp: env_ok_def reads_at_def)
  have "entry_ok lib h d (k, e\<lparr>ce_checked_at := le_checked env\<rparr>)"
    using assms(3) s(2) t by (auto simp: entry_ok_def confirmed_at_def)
  with assms(1) show ?thesis by (simp add: serve_entry_def s entries_put)
qed (use assms(1) in \<open>auto simp: serve_entry_def split: option.split\<close>)

lemma cached_ok: "list_all (entry_ok lib h d) c \<Longrightarrow> map_of c k = Some e \<Longrightarrow> entry_ok lib h d (k, e)"
  by (auto simp: list_all_iff dest: map_of_SomeD)

lemma load_ok:
  assumes "list_all (entry_ok lib h d) c" and "env_ok h d env"
  shows "list_all (entry_ok lib h d) (snd (load lib env k c))"
proof (cases "map_of c k")
  case None
  then show ?thesis using load_fresh_ok [OF assms] by (simp add: load_def)
next
  case (Some e)
  note s = serve_entry_ok [OF assms cached_ok [OF assms(1) Some]]
  show ?thesis
  proof (cases "serve_entry env k e c")
    case (Pair served c')
    then show ?thesis using s load_fresh_ok [of lib h d c' env k] assms(2) by (cases served) (simp_all add: load_def Some)
  qed
qed

datatype cache_op = CacheLoad load_env cache_key | CacheInvalidate project_id string

fun cache_step :: "symbol_lib \<Rightarrow> cache_op \<Rightarrow> mapping_cache \<Rightarrow> mapping_cache" where
  "cache_step lib (CacheLoad env k) c = snd (load lib env k c)"
| "cache_step lib (CacheInvalidate pid release) c = Invalidate pid release c"

fun cache_op_ok :: "(time \<Rightarrow> symbol_store) \<Rightarrow> duration \<Rightarrow> cache_op \<Rightarrow> bool" where
  "cache_op_ok h d (CacheLoad env k) = env_ok h d env"
| "cache_op_ok h d (CacheInvalidate pid release) = True"

definition run_cache :: "symbol_lib \<Rightarrow> cache_op list \<Rightarrow> mapping_cache" where
  "run_cache lib ops = fold (cache_step lib) ops []"

lemma run_cache_ok: "list_all (cache_op_ok h d) ops \<Longrightarrow> list_all (entry_ok lib h d) (run_cache lib ops)"
proof (induction ops rule: rev_induct)
  case (snoc op ops)
  then have c: "list_all (entry_ok lib h d) (run_cache lib ops)" by simp
  show ?case
  proof (cases op)
    case (CacheLoad env k)
    then show ?thesis using snoc.prems load_ok [OF c, of env k] by (simp add: run_cache_def)
  next
    case (CacheInvalidate pid release)
    then show ?thesis using c by (auto simp: run_cache_def Invalidate_def delete_where_def list_all_iff)
  qed
qed (simp add: run_cache_def)

lemma serve_entry_age:
  assumes "serve_entry env k e c = (True, c')" and "le_version env \<noteq> None"
  shows "if ce_mapping e = None then le_now env - ce_loaded_at e < missTTL
         else le_now env - ce_checked_at e < revalidateTTL \<or> (\<exists>s. le_version env = Some s \<and> version s k = ce_version e)"
  using assms by (auto simp: serve_entry_def split: if_splits)

text \<open>
  C10. Whatever lookups and invalidations came before: a mapping that is served while the database answers was built
  from the symbol files of a time at which they had the version (their number and latest upload) they still had
  at some time at most \<open>revalidateTTL\<close> before the lookup, and an answer that there is none is from at most
  \<open>missTTL\<close> before it; \<open>d\<close> is what passes between a reading of the database and of the clock after it.
\<close>

theorem load_is_recent:
  assumes "list_all (cache_op_ok h d) ops" and "env_ok h d env" and "le_version env \<noteq> None" and "0 \<le> d"
    and "fst (load lib env k (run_cache lib ops)) = Inr m"
  shows "\<exists>v built. built_at lib h k m v built
     \<and> (if m = None then le_now env < built + d + missTTL
        else (\<exists>t. confirmed_at h k v built t \<and> le_now env < t + d + revalidateTTL))"
proof -
  let ?c = "run_cache lib ops"
  note ok = run_cache_ok [OF assms(1), of lib]
  have ttl: "0 < missTTL" "0 < revalidateTTL" by (simp_all add: missTTL_def revalidateTTL_def)
  have fresh: ?thesis if fr: "fst (load_fresh lib env k c) = Inr m" for c
  proof -
    obtain v where "fetch lib (le_fetch1 env) (le_fetch2 env) k = Inr (m, v)"
      using fr by (auto simp: load_fresh_def Let_def split: sum.splits prod.splits if_splits)
    from fetch_built [OF assms(2) this] obtain t where t: "built_at lib h k m v t" "le_now env \<le> t" by blast
    then show ?thesis using assms(4) ttl
      by (intro exI [of _ v] exI [of _ t]) (auto simp: confirmed_at_def intro!: exI [of _ t])
  qed
  show ?thesis
  proof (cases "map_of ?c k")
    case None
    then show ?thesis using fresh assms(5) by (simp add: load_def)
  next
    case (Some e)
    obtain served c' where se: "serve_entry env k e ?c = (served, c')" by (cases "serve_entry env k e ?c")
    show ?thesis
    proof (cases served)
      case False
      then show ?thesis using fresh assms(5) Some se by (simp add: load_def)
    next
      case True
      then have m: "m = ce_mapping e" using assms(5) Some se by (simp add: load_def)
      obtain built t where b: "built_at lib h k (ce_mapping e) (ce_version e) built" "ce_loaded_at e \<le> built + d"
        "confirmed_at h k (ce_version e) built t" "ce_checked_at e \<le> t + d"
        using cached_ok [OF ok Some] by (auto simp: entry_ok_def)
      have se': "serve_entry env k e ?c = (True, c')" using se True by simp
      note age = serve_entry_age [OF se' assms(3)]
      show ?thesis
      proof (cases "m = None")
        case True
        then show ?thesis using b age m by (intro exI [of _ "ce_version e"] exI [of _ built]) auto
      next
        case False
        then consider "le_now env - ce_checked_at e < revalidateTTL" | s where "le_version env = Some s" "version s k = ce_version e"
          using age m by auto
        then obtain t' where "confirmed_at h k (ce_version e) built t'" "le_now env < t' + d + revalidateTTL"
        proof cases
          case 1
          with b(3,4) show ?thesis by (intro that [of t]) auto
        next
          case 2
          then obtain t' where t': "s = h t'" "le_now env \<le> t'" using assms(2) by (auto simp: env_ok_def reads_at_def)
          with 2(2) assms(4) ttl show ?thesis by (intro that [of t']) (auto simp: confirmed_at_def)
        qed
        then have "\<exists>t. confirmed_at h k (ce_version e) built t \<and> le_now env < t + d + revalidateTTL" by blast
        with b(1) False m show ?thesis by (intro exI [of _ "ce_version e"] exI [of _ built]) (simp del: not_None_eq)
      qed
    qed
  qed
qed


text \<open>
  A release without mappings: the answer that there is none is cached, a minute less a second later it is still
  served, although a file was uploaded in between.
\<close>

definition empty_then_uploaded :: "time \<Rightarrow> symbol_store" where
  "empty_then_uploaded t =
     \<lparr>ss_table = \<lparr>sy_rows = (if t < 30 * second then [] else
        [\<lparr>sf_id = 1, sf_project = 1, sf_kind = SymbolKindProguard, sf_release = Some ''r'', sf_debug_id = None, sf_filename = ''m'',
          sf_size = 0, sf_data = Some ''a.A -> b:'', sf_blob_key = None, sf_uploaded_at = 30 * second\<rparr>]), sy_next = 2\<rparr>,
      ss_blobs = None\<rparr>"

lemma load_is_recent_witness: "\<exists>lib env k ops. fst (load lib env k (run_cache lib ops)) = Inr None
    \<and> (\<exists>v built. built_at lib empty_then_uploaded k None v built \<and> le_now env < built + 1 + missTTL)"
proof -
  define lib where "lib = \<lparr>sl_json = (\<lambda>s. None), sl_walk = (\<lambda>x. x)\<rparr>"
  define env where "env = (\<lambda>t :: time. \<lparr>le_now = t, le_version = Some (empty_then_uploaded t), le_checked = t,
    le_fetch1 = Some (empty_then_uploaded t), le_fetch2 = Some (empty_then_uploaded t), le_stored = t, le_gave_up = False\<rparr>)"
  define k :: cache_key where "k = (1, SymbolKindProguard, ''r'')"
  have env: "env_ok empty_then_uploaded 1 (env t)" for t
    by (auto simp: env_ok_def reads_at_def env_def intro: exI [of _ t])
  have served: "fst (load lib (env (59 * second)) k (run_cache lib [CacheLoad (env 0) k])) = Inr None"
    by (simp add: run_cache_def load_def load_fresh_def fetch_def fetchOnce_def files_of_def k_def env_def
        empty_then_uploaded_def SymbolFilesForRelease_def debugPrefix_def has_prefix_def put_entry_def upsert_def
        serve_entry_def missTTL_def lib_def cacheMax_def Let_def)
  from load_is_recent [OF _ _ _ _ served, of empty_then_uploaded 1] env
  have "\<exists>v built. built_at lib empty_then_uploaded k None v built \<and> le_now (env (59 * second)) < built + 1 + missTTL"
    by (simp add: env_def)
  with served show ?thesis by blast
qed


section \<open>A symbolicated event keeps the counts of the issues\<close>

text \<open>Each issue counts exactly the stored rows that carry its fingerprint, and at most the events it has seen.\<close>

definition counts_match :: "symbol_db \<Rightarrow> bool" where
  "counts_match db \<longleftrightarrow> unique_by issue_key (sb_issues db) \<and> unique_by event_key_of (sb_events db)
     \<and> (\<forall>k. snd k \<noteq> [] \<longrightarrow> snd (count_at (sb_issues db) k) = int (rows_at (sb_events db) k)
                           \<and> snd (count_at (sb_issues db) k) \<le> fst (count_at (sb_issues db) k))"

definition carries :: "project_id \<times> id_text \<Rightarrow> event_row \<Rightarrow> bool" where
  "carries k r \<longleftrightarrow> er_project r = fst k \<and> er_fingerprint r = Some (snd k)"

lemma rows_at_outside: "c \<notin> event_key_of ` set rows \<Longrightarrow> rows_at (update_where (\<lambda>r. event_key_of r = c) f rows) k = rows_at rows k"
  by (induction rows) (auto simp: rows_at_def update_where_def)

lemma rows_at_update:
  assumes "unique_by event_key_of rows" and "row \<in> set rows" and "event_key_of row = c"
  shows "int (rows_at (update_where (\<lambda>r. event_key_of r = c) f rows) k)
       = int (rows_at rows k) - of_bool (carries k row) + of_bool (carries k (f row))"
  using assms
proof (induction rows)
  case (Cons r rows)
  show ?case
  proof (cases "row = r")
    case True
    with Cons.prems have "c \<notin> event_key_of ` set rows" by (auto simp: unique_by_def)
    from rows_at_outside [OF this, of f k] True Cons.prems(3) show ?thesis
      by (auto simp: rows_at_def update_where_def carries_def)
  next
    case False
    with Cons.prems have r: "row \<in> set rows" "event_key_of r \<noteq> c"
      by (auto simp: unique_by_def)
    have "unique_by event_key_of rows" using Cons.prems(1) by (simp add: unique_by_def)
    from Cons.IH [OF this r(1) Cons.prems(3)] r(2) show ?thesis by (simp add: rows_at_def update_where_def)
  qed
qed simp

lemma count_at_adjust:
  "count_at (AdjustIssueStoredCount now pid fp n t) k =
     (if k = (pid, fp) \<and> lookup_by issue_key k t \<noteq> None then (max 0 (fst (count_at t k) + n), max 0 (snd (count_at t k) + n))
      else count_at t k)"
  unfolding count_at_def AdjustIssueStoredCount_def
  by (subst lookup_update_key) (auto simp: adjust_row_def split: option.split)

lemma lookup_delete_empty:
  assumes "unique_by issue_key t"
  shows "lookup_by issue_key k (DeleteEmptyIssue pid fp t) =
     (case lookup_by issue_key k t of None \<Rightarrow> None
      | Some i \<Rightarrow> if k = (pid, fp) \<and> is_event_count i \<le> 0 \<and> is_status i = IssueStatusUnresolved then None else Some i)"
proof -
  have u: "unique_by issue_key (DeleteEmptyIssue pid fp t)"
    unfolding DeleteEmptyIssue_def by (rule unique_delete_where [OF assms])
  show ?thesis
  proof (cases "lookup_by issue_key k (DeleteEmptyIssue pid fp t)")
    case None
    then have gone: "k \<notin> issue_key ` set (DeleteEmptyIssue pid fp t)" by (simp add: lookup_by_None)
    show ?thesis
    proof (cases "lookup_by issue_key k t")
      case (Some i)
      from lookup_by_Some [OF this] gone have "k = (pid, fp) \<and> is_event_count i \<le> 0 \<and> is_status i = IssueStatusUnresolved"
        by (auto simp: DeleteEmptyIssue_def)
      with Some None show ?thesis by simp
    qed (simp add: None)
  next
    case (Some i)
    from lookup_by_Some [OF this] have i: "i \<in> set t" "issue_key i = k"
      and "\<not> (issue_key i = (pid, fp) \<and> is_event_count i \<le> 0 \<and> is_status i = IssueStatusUnresolved)"
      by (auto simp: DeleteEmptyIssue_def)
    moreover have "lookup_by issue_key k t = Some i" using i lookup_by_iff [OF assms] by blast
    ultimately show ?thesis using Some by auto
  qed
qed

lemma count_at_delete_empty:
  assumes "unique_by issue_key t" and "snd (count_at t (pid, fp)) \<le> fst (count_at t (pid, fp))" and "0 \<le> snd (count_at t (pid, fp))"
  shows "snd (count_at (DeleteEmptyIssue pid fp t) k) = snd (count_at t k)
       \<and> (snd (count_at t k) \<le> fst (count_at t k) \<longrightarrow>
            snd (count_at (DeleteEmptyIssue pid fp t) k) \<le> fst (count_at (DeleteEmptyIssue pid fp t) k))"
  using assms(2,3) unfolding count_at_def lookup_delete_empty [OF assms(1)]
  by (cases "lookup_by issue_key k t") (auto split: if_splits)

lemma set_symbols_moves:
  assumes c: "counts_match db" and row: "row \<in> set (sb_events db)" "event_key_of row = (pid, er_event_id row, er_occurred_at row)"
    and fp: "er_fingerprint row \<noteq> None \<longrightarrow> Fingerprint ev frames \<noteq> []"
  shows "counts_match (set_symbols now pid row ev frames symbols db)"
proof -
  define newFP oldFP where n: "newFP = Fingerprint ev frames" "oldFP = old_fingerprint row"
  define rows where "rows = SetEventSymbols pid (er_event_id row) symbols (Ptr newFP) (nilIfEmpty (Culprit frames)) (er_occurred_at row) (sb_events db)"
  define up where "up = snd (UpsertIssue now (moved_issue pid row ev newFP) (sb_issues db))"
  define down where "down = DeleteEmptyIssue pid oldFP (AdjustIssueStoredCount now pid oldFP (- 1) up)"
  have rows: "int (rows_at rows k) = int (rows_at (sb_events db) k) - of_bool (k = (pid, oldFP)) + of_bool (k = (pid, newFP))"
    if "snd k \<noteq> []" for k
    using that c row unfolding rows_def SetEventSymbols_def
    by (subst rows_at_update [where row = row])
       (auto simp: counts_match_def carries_def n(2) old_fingerprint_def Ptr_def prod_eq_iff split: option.splits)
  have keys: "unique_by event_key_of rows"
    using c unfolding rows_def SetEventSymbols_def counts_match_def by (auto intro!: unique_update_where)
  have new: "newFP = [] \<Longrightarrow> oldFP = []" using fp n by (auto simp: old_fingerprint_def split: option.splits)
  have old: "snd k \<noteq> [] \<Longrightarrow> snd (count_at (sb_issues db) k) = int (rows_at (sb_events db) k)"
    "snd k \<noteq> [] \<Longrightarrow> snd (count_at (sb_issues db) k) \<le> fst (count_at (sb_issues db) k)" for k
    using c unfolding counts_match_def by blast+
  have up: "count_at up k = (fst (count_at (sb_issues db) k) + of_bool (k = (pid, newFP)), snd (count_at (sb_issues db) k) + of_bool (k = (pid, newFP)))" for k
    by (simp add: up_def UpsertIssue_def Let_def upsert_at param_key_def moved_issue_def)
  have uniq: "unique_by issue_key up" using c unfolding up_def UpsertIssue_def Let_def counts_match_def upsert_issue_table_def
    by (simp add: issue_table.unique_upsert)
  show ?thesis
  proof (cases "newFP = oldFP \<or> newFP = []")
    case True
    then have "newFP = oldFP" using new by auto
    then have "snd k \<noteq> [] \<Longrightarrow> rows_at rows k = rows_at (sb_events db) k" for k
      using rows [of k] by simp
    moreover have "set_symbols now pid row ev frames symbols db = db\<lparr>sb_events := rows\<rparr>"
      using True by (simp add: set_symbols_def Let_def n rows_def)
    ultimately show ?thesis using keys c by (simp add: counts_match_def del: split_paired_All) (metis (no_types))
  next
    case False
    have moved: "set_symbols now pid row ev frames symbols db
        = db\<lparr>sb_events := rows, sb_dirty := mark_hour (pid, truncate_time (er_occurred_at row) hour) (sb_dirty db),
             sb_issues := (if oldFP = [] then up else down)\<rparr>"
      using False by (simp add: set_symbols_def Let_def n rows_def up_def down_def)
    have "counts_match (db\<lparr>sb_events := rows, sb_dirty := d, sb_issues := down\<rparr>)" if "oldFP \<noteq> []" for d
    proof -
      let ?adj = "AdjustIssueStoredCount now pid oldFP (- 1) up"
      have u: "unique_by issue_key ?adj" using uniq unfolding AdjustIssueStoredCount_def
        by (intro unique_update_where) (simp_all add: adjust_row_def)
      have "0 < rows_at (sb_events db) (pid, oldFP)" using row that n(2)
        by (auto simp: rows_at_def old_fingerprint_def filter_empty_conv split: option.splits)
      then have pos: "0 < snd (count_at up (pid, oldFP))" using old(1) [of "(pid, oldFP)"] that by (simp add: up)
      then have "lookup_by issue_key (pid, oldFP) up \<noteq> None" by (cases "lookup_by issue_key (pid, oldFP) up") (simp_all add: count_at_def)
      then have adj: "count_at ?adj k = (if k = (pid, oldFP) then (max 0 (fst (count_at up k) - 1), max 0 (snd (count_at up k) - 1)) else count_at up k)" for k
        by (simp add: count_at_adjust)
      have le: "snd k \<noteq> [] \<Longrightarrow> snd (count_at ?adj k) \<le> fst (count_at ?adj k)" for k
        using old(2) [of k] by (auto simp: adj up)
      have del: "snd (count_at down k) = snd (count_at ?adj k) \<and> (snd (count_at ?adj k) \<le> fst (count_at ?adj k) \<longrightarrow> snd (count_at down k) \<le> fst (count_at down k))" for k
        unfolding down_def using le [of "(pid, oldFP)"] that adj by (intro count_at_delete_empty [OF u]) simp_all
      have "unique_by issue_key down" unfolding down_def DeleteEmptyIssue_def by (rule unique_delete_where [OF u])
      moreover have "snd (count_at down k) = int (rows_at rows k)" if k: "snd k \<noteq> []" for k
        using rows [OF k] old(1) [OF k] pos False by (auto simp: del adj up)
      moreover have "snd (count_at down k) \<le> fst (count_at down k)" if "snd k \<noteq> []" for k using le [OF that] del [of k] by simp
      ultimately show ?thesis using keys by (simp add: counts_match_def del: split_paired_All)
    qed
    moreover have "counts_match (db\<lparr>sb_events := rows, sb_dirty := d, sb_issues := up\<rparr>)" if o: "oldFP = []" for d
    proof -
      have "snd (count_at up k) = int (rows_at rows k)" "snd (count_at up k) \<le> fst (count_at up k)" if k: "snd k \<noteq> []" for k
        using rows [OF k] old [OF k] k o by (auto simp: up)
      then show ?thesis using keys uniq by (simp add: counts_match_def del: split_paired_All)
    qed
    ultimately show ?thesis by (simp add: moved)
  qed
qed

lemma Fingerprint_empty_frames: "Fingerprint ev frames = [] \<longleftrightarrow> Fingerprint ev [] = []"
proof -
  have "Fingerprint ev fs = [] \<longleftrightarrow> fingerprint_signature ev fs = []" for fs
    using DerivedID_nonempty by (simp add: Fingerprint_def Let_def)
  moreover have "fingerprint_signature ev fs = [] \<longleftrightarrow> (ev_error_type ev = [] \<and> \<not> groupableMessage ev)
      \<and> (ev_sdk_fingerprint ev = [] \<or> (\<exists>p. ev_sdk_fingerprint ev = [p] \<and> isDefaultToken p))" for fs
    by (cases "ev_sdk_fingerprint ev" rule: remdups_adj.cases)
      (auto simp: fingerprint_signature_def Let_def list_ex_iff defaultSignature_empty)
  ultimately show ?thesis by simp
qed

text \<open>
  C11. The job that symbolicates a stored event, from any counts that match: whatever the resolution answers and
  whether or not the transaction goes through, no event is lost or doubled and every issue still counts exactly
  its events, the one the event leaves and the one it joins included. The premise is what ingest established:
  an event that was stored in an issue has something to group by.
\<close>

theorem symbolicated_event_keeps_counts:
  assumes "counts_match db"
    and "\<And>row ev. read_event js payload now pid eid tm (sb_events db) = Inr (Some (row, ev)) \<Longrightarrow> er_fingerprint row \<noteq> None
           \<Longrightarrow> Fingerprint ev [] \<noteq> []"
    and "Event js payload res json_frames tx_fails now pid eid tm (db, s) = (e, db', s')"
  shows "counts_match db' \<and> map event_key_of (sb_events db') = map event_key_of (sb_events db)"
proof -
  have "db' = db \<or> (\<exists>row ev frames. read_event js payload now pid eid tm (sb_events db) = Inr (Some (row, ev))
      \<and> db' = set_symbols now pid row ev frames (json_frames frames) db)"
    using assms(3) by (auto simp: Event_def split: sum.splits option.splits prod.splits if_splits)
  then consider "db' = db" | row ev frames where "read_event js payload now pid eid tm (sb_events db) = Inr (Some (row, ev))"
    "db' = set_symbols now pid row ev frames (json_frames frames) db" by blast
  then show ?thesis
  proof cases
    case 2
    then have "GetEventAt (sb_events db) pid eid tm = Some row"
      by (auto simp: read_event_def split: option.splits sum.splits if_splits)
    then have row: "row \<in> set (sb_events db)" "event_key_of row = (pid, eid, tm)"
      using lookup_by_Some [of event_key_of "(pid, eid, tm)" "sb_events db" row] by (simp_all add: GetEventAt_def)
    have "counts_match db'" unfolding 2(2)
      by (rule set_symbols_moves [OF assms(1) row(1)]) (use row(2) assms(2) [OF 2(1)] Fingerprint_empty_frames in auto)
    moreover have "map event_key_of (sb_events db') = map event_key_of (sb_events db)"
      by (simp add: 2(2) set_symbols_def Let_def SetEventSymbols_def map_update_where)
    ultimately show ?thesis by simp
  qed (use assms(1) in simp)
qed

text \<open>A stored event whose payload now groups by the fingerprint of its SDK leaves its issue, which goes with it.\<close>

definition grouped_json :: json_lib where
  "grouped_json = example_json\<lparr>js_event := (\<lambda>s. Some (example_raw\<lparr>re_fingerprint := [''x'']\<rparr>))\<rparr>"

definition stored_event :: event_row where
  "stored_event = \<lparr>er_occurred_at = 0, er_project = 1, er_event_id = replicate 32 (CHR ''a''), er_level = EventLevelError, er_message = [],
     er_platform = None, er_environment = None, er_release = None, er_device_id = None, er_device_model = None,
     er_os_version = None, er_transaction = None, er_error_type = None, er_culprit = None, er_handled = None,
     er_sdk_name = None, er_user_id = None, er_fingerprint = Some ''old'', er_symbolicated = False, er_tags = [],
     er_symbols = None, er_payload = Some ''{}''\<rparr>"

definition stored_symbols_db :: symbol_db where
  "stored_symbols_db = \<lparr>sb_events = [stored_event], sb_dirty = [],
     sb_issues = [excluded_issue 0 (moved_issue 1 stored_event event0 ''old'')]\<rparr>"

lemma stored_symbols_match: "counts_match stored_symbols_db"
  by (auto simp: counts_match_def stored_symbols_db_def unique_by_def count_at_def lookup_by_def rows_at_def
      excluded_issue_def moved_issue_def stored_event_def)

lemma symbolicated_event_keeps_counts_witness:
  "\<exists>ev. counts_match (set_symbols 1500 1 stored_event ev [] [] stored_symbols_db) \<and> Fingerprint ev [] = DerivedID ''sdk:x''"
proof -
  obtain ev where p: "ParseEvent grouped_json (replicate 32 (CHR ''a'')) 0 ''{}'' 1500 = Some ev" and f: "ev_sdk_fingerprint ev = [''x'']"
  proof (rule that)
    show "ParseEvent grouped_json (replicate 32 (CHR ''a'')) 0 ''{}'' 1500
        = Some (sanitize (event_from grouped_json (replicate 32 (CHR ''a'')) (fst (event_time grouped_json ''t'' 0 1500))
            (snd (event_time grouped_json ''t'' 0 1500)) ''{}'' (example_raw\<lparr>re_fingerprint := [''x'']\<rparr>)))"
      by (simp add: ParseEvent_def trim_braces Let_def grouped_json_def split: prod.split) (simp add: example_raw_def)
  qed (simp add: sanitize_def event_from_def Let_def)
  define ev' where "ev' = with_release stored_event ev"
  have "trim_space ''x'' = ''x''" by (rule trim_space_fixed) (simp_all add: ascii_def space_char_def is_space_def)
  then have fp: "Fingerprint ev' [] = DerivedID ''sdk:x''"
    using f by (simp add: ev'_def with_release_def stored_event_def Fingerprint_def fingerprint_signature_def fingerprint_part_def
        isDefaultToken_def Let_def has_prefix_def)
  have r: "read_event grouped_json (\<lambda>r. Inr (er_payload r)) 1500 1 (replicate 32 (CHR ''a'')) 0 (sb_events stored_symbols_db)
      = Inr (Some (stored_event, ev'))"
    using p by (simp add: read_event_def GetEventAt_def lookup_by_def stored_symbols_db_def ev'_def) (simp add: stored_event_def)
  then have e: "Event grouped_json (\<lambda>r. Inr (er_payload r)) (\<lambda>ev s. (Inr (Some []), s)) (\<lambda>fs. []) False 1500 1 (replicate 32 (CHR ''a'')) 0 (stored_symbols_db, ())
      = (None, set_symbols 1500 1 stored_event ev' [] [] stored_symbols_db, ())"
    by (simp add: Event_def)
  have "counts_match (set_symbols 1500 1 stored_event ev' [] [] stored_symbols_db)"
    using symbolicated_event_keeps_counts [OF stored_symbols_match _ e] r fp DerivedID_nonempty by simp
  with fp show ?thesis by blast
qed

end
