(* ===== verification/Api.thy ===== *)
theory Api
  imports Symbolicate Alerts Access
begin

text \<open>
  The JSON API (\<open>internal/api\<close>): what every handler shares (\<open>api.go\<close>, \<open>response.go\<close>), the time window of a
  request (\<open>window.go\<close>) and the handlers of projects and their keys (\<open>projects.go\<close>). A handler is a computation
  over the tables that stops at its first error, and any of its database calls may fail.
\<close>

section \<open>Errors and answers\<close>

datatype api_error = NotFound | BadRequest string | BadUpload upload_error | WithStatus nat string | Internal

text \<open>What is written: a JSON body, no body, or \<open>{"error": ...}\<close>.\<close>

datatype 'b answer = Answers nat 'b | Done nat | Refuses nat string | RefusesUpload upload_error

text \<open>\<open>UploadError\<close> covers what the caller did wrong; the rest of what an upload can return is the server's.\<close>

definition upload_failure :: "upload_error \<Rightarrow> api_error" where
  "upload_failure e = (case e of NotStored _ \<Rightarrow> Internal | NotQueued \<Rightarrow> Internal | EntryUnreadable \<Rightarrow> Internal | _ \<Rightarrow> BadUpload e)"

definition fail :: "api_error \<Rightarrow> 'b answer" where
  "fail e = (case e of
       NotFound \<Rightarrow> Refuses 404 ''not found''
     | BadRequest m \<Rightarrow> Refuses 400 m
     | BadUpload u \<Rightarrow> RefusesUpload u
     | WithStatus n m \<Rightarrow> Refuses n m
     | Internal \<Rightarrow> Refuses 500 ''internal error'')"

section \<open>Handlers as computations\<close>

record api_db =
  ad_projects :: project_tables
  ad_issues :: issues
  ad_hours :: "issue_hour list"
  ad_events :: "event_row list"
  ad_attachments :: "attachment_row list"
  ad_user_reports :: "user_report_row list"
  ad_client_reports :: "report_count list"
  ad_cron :: cron_state
  ad_alerts :: alert_tables
  ad_symbols :: symbol_store
  ad_jobs :: jobs_table
  ad_cache :: mapping_cache
  ad_chunks :: "chunk list"
  ad_packs :: pack_db

text \<open>The list says which of the coming database calls fail; a failed call has no effect.\<close>

type_synonym api_world = "api_db \<times> bool list"
type_synonym 'a api = "api_world \<Rightarrow> (api_error + 'a) \<times> api_world"

definition ret :: "'a \<Rightarrow> 'a api" where
  "ret a w = (Inr a, w)"

definition stop :: "api_error \<Rightarrow> 'a api" where
  "stop e w = (Inl e, w)"

definition bindA :: "'a api \<Rightarrow> ('a \<Rightarrow> 'b api) \<Rightarrow> 'b api" where
  "bindA m k w = (case m w of (Inl e, w') \<Rightarrow> (Inl e, w') | (Inr a, w') \<Rightarrow> k a w')"

definition call :: "(api_db \<Rightarrow> 'a \<times> api_db) \<Rightarrow> 'a api" where
  "call f w = (case w of (d, fs) \<Rightarrow>
     if fs \<noteq> [] \<and> hd fs then (Inl Internal, d, tl fs) else (case f d of (a, d') \<Rightarrow> (Inr a, d', tl fs)))"

definition ask :: "(api_db \<Rightarrow> 'a) \<Rightarrow> 'a api" where
  "ask f = call (\<lambda>d. (f d, d))"

definition found :: "'a option \<Rightarrow> 'a api" where
  "found x = (case x of None \<Rightarrow> stop NotFound | Some a \<Rightarrow> ret a)"

definition check :: "bool \<Rightarrow> api_error \<Rightarrow> unit api" where
  "check ok e = (if ok then ret () else stop e)"

definition lift :: "api_error + 'a \<Rightarrow> 'a api" where
  "lift r = (case r of Inl e \<Rightarrow> stop e | Inr a \<Rightarrow> ret a)"

definition respond :: "'b answer api \<Rightarrow> api_world \<Rightarrow> 'b answer \<times> api_world" where
  "respond m w = (case m w of (Inl e, w') \<Rightarrow> (fail e, w') | (Inr a, w') \<Rightarrow> (a, w'))"

section \<open>Requests\<close>

text \<open>\<open>ra_query\<close> lists the query parameters, each with its values, in the order Go walks the map.\<close>

record api_request =
  ra_request :: request
  ra_actor :: actor
  ra_now :: time
  ra_body :: string
  ra_path :: "string \<Rightarrow> string"
  ra_query :: "(string \<times> string list) list"

definition query_get :: "(string \<times> string list) list \<Rightarrow> string \<Rightarrow> string" where
  "query_get q k = (case map_of q k of Some (v # vs) \<Rightarrow> v | _ \<Rightarrow> [])"

text \<open>The configuration and what is outside: \<open>time.Parse\<close> of RFC 3339, the blob deletions that fail.\<close>

record api_lib =
  av_public_url :: string
  av_trust_proxy :: bool
  av_addr :: string
  av_allow_private :: bool
  av_time :: "string \<Rightarrow> time option"
  av_stuck :: "string \<Rightarrow> bool"

definition maxJSONBody :: nat where "maxJSONBody = 2 ^ 20"

text \<open>\<open>readJSON\<close>: \<open>dec\<close> is \<open>json.Unmarshal\<close> into the type of the caller, with its error text.\<close>

definition readJSON :: "(string \<Rightarrow> string + 'a) \<Rightarrow> string \<Rightarrow> api_error + 'a" where
  "readJSON dec body =
     (if maxJSONBody < length body then Inl (BadRequest ''body too large or unreadable'')
      else if body = [] then Inl (BadRequest ''empty body'')
      else (case dec body of Inl m \<Rightarrow> Inl (BadRequest (''invalid JSON: '' @ m)) | Inr a \<Rightarrow> Inr a))"

definition lookupProject :: "string \<Rightarrow> project api" where
  "lookupProject ref =
     (if ref = [] then stop NotFound
      else bindA (ask (\<lambda>d. GetProject (ad_projects d) ref)) (\<lambda>p. case p of
             Some p \<Rightarrow> ret p
           | None \<Rightarrow> (case atoi ref of
                        None \<Rightarrow> stop NotFound
                      | Some i \<Rightarrow> bindA (ask (\<lambda>d. GetProjectByID (ad_projects d) i)) found)))"

definition with_project :: "api_request \<Rightarrow> (project \<Rightarrow> 'a api) \<Rightarrow> 'a api" where
  "with_project r k = bindA (lookupProject (ra_path r ''slug'')) k"

text \<open>\<open>strconv.ParseInt\<close> of the path's id.\<close>

definition path_id :: "api_request \<Rightarrow> string \<Rightarrow> int api" where
  "path_id r what = (case atoi (ra_path r ''id'') of None \<Rightarrow> stop (WithStatus 400 (''invalid '' @ what @ '' id'')) | Some i \<Rightarrow> ret i)"

text \<open>How a deletion answers: 404 when no row was there.\<close>

definition deleted :: "bool \<Rightarrow> 'b answer api" where
  "deleted hit = (if hit then ret (Done 204) else stop NotFound)"

definition intParam :: "(string \<times> string list) list \<Rightarrow> string \<Rightarrow> int \<Rightarrow> int api" where
  "intParam q key dflt =
     (let v = query_get q key
      in if v = [] then ret dflt
         else (case atoi v of
                 Some n \<Rightarrow> if n < 0 then stop (BadRequest (key @ '' must be a non-negative integer'')) else ret n
               | None \<Rightarrow> stop (BadRequest (key @ '' must be a non-negative integer''))))"

section \<open>Windows\<close>

definition DefaultDays :: int where "DefaultDays = 7"
definition MaxDays :: int where "MaxDays = 90"

definition window_days :: "string \<Rightarrow> api_error + int" where
  "window_days s =
     (if s = [] then Inr DefaultDays
      else (case atoi s of
              None \<Rightarrow> Inl (BadRequest ''days must be a positive integer'')
            | Some n \<Rightarrow> if n < 1 then Inl (BadRequest ''days must be a positive integer'')
                        else if MaxDays < n then Inl (BadRequest ''days must be <= 90'') else Inr n))"

definition window_time :: "(string \<Rightarrow> time option) \<Rightarrow> string \<Rightarrow> string \<Rightarrow> time \<Rightarrow> api_error + time" where
  "window_time parse what s dflt =
     (if s = [] then Inr dflt
      else (case parse s of None \<Rightarrow> Inl (BadRequest (what @ '' must be RFC3339'')) | Some t \<Rightarrow> Inr t))"

text \<open>\<open>parseWindowAt\<close>; \<open>AddDate(0, 0, -days)\<close> of a UTC time takes whole days off.\<close>

definition parseWindowAt :: "(string \<Rightarrow> time option) \<Rightarrow> (string \<times> string list) list \<Rightarrow> time \<Rightarrow> api_error + time \<times> time" where
  "parseWindowAt parse q now =
     (case window_days (query_get q ''days'') of
        Inl e \<Rightarrow> Inl e
      | Inr days \<Rightarrow>
          (case window_time parse ''to'' (query_get q ''to'') now of
             Inl e \<Rightarrow> Inl e
           | Inr to \<Rightarrow>
               (case window_time parse ''from'' (query_get q ''from'') (to - days * day) of
                  Inl e \<Rightarrow> Inl e
                | Inr from_t \<Rightarrow>
                    if \<not> from_t < to then Inl (BadRequest ''from must be before to'')
                    else if MaxDays * day < to - from_t then Inl (BadRequest ''window may not exceed 90 days'')
                    else Inr (from_t, to))))"

text \<open>
  An accepted window is not empty, at most 90 days long and, without explicit bounds, exactly the days asked for up to
  now; and a refusal is the client's.
\<close>

theorem parseWindowAt_bounds:
  "case parseWindowAt parse q now of
     Inr (a, b) \<Rightarrow> a < b \<and> b - a \<le> MaxDays * day
       \<and> (query_get q ''to'' = [] \<longrightarrow> b = now)
       \<and> (query_get q ''from'' = [] \<longrightarrow> (\<exists>n. 1 \<le> n \<and> n \<le> MaxDays \<and> a = b - n * day
            \<and> (query_get q ''days'' = [] \<longrightarrow> n = DefaultDays) \<and> (query_get q ''days'' \<noteq> [] \<longrightarrow> atoi (query_get q ''days'') = Some n)))
   | Inl e \<Rightarrow> \<exists>m. e = BadRequest m"
proof (cases "window_days (query_get q ''days'')")
  case (Inl e)
  then show ?thesis by (auto simp: parseWindowAt_def window_days_def split: option.splits if_splits)
next
  case (Inr days)
  then have days: "1 \<le> days" "days \<le> MaxDays" "query_get q ''days'' = [] \<longrightarrow> days = DefaultDays"
    "query_get q ''days'' \<noteq> [] \<longrightarrow> atoi (query_get q ''days'') = Some days"
    by (auto simp: window_days_def DefaultDays_def MaxDays_def split: option.splits if_splits)
  have time: "\<exists>m. e = BadRequest m" if "window_time parse w s t = Inl e" for w s t e
    using that by (auto simp: window_time_def split: option.splits if_splits)
  have dflt: "u = t" if "window_time parse w s t = Inr u" "s = []" for w s t u
    using that by (simp add: window_time_def)
  show ?thesis
  proof (cases "window_time parse ''to'' (query_get q ''to'') now")
    case (Inr b)
    then show ?thesis using \<open>window_days _ = _\<close> days time dflt
      by (auto simp: parseWindowAt_def split: sum.split)
  qed (use Inr time in \<open>auto simp: parseWindowAt_def\<close>)
qed


lemma parseWindowAt_bounds_witness:
  "\<exists>a. parseWindowAt (\<lambda>s. None) [(''days'', [''30''])] 0 = Inr (a, 0) \<and> a = - 30 * day"
proof -
  have "atoi ''30'' = Some 30" by (simp add: atoi_def digit_val_def nat_of_digits_def)
  then have w: "parseWindowAt (\<lambda>s. None) [(''days'', [''30''])] 0 = Inr (- 30 * day, 0)"
    by (simp add: parseWindowAt_def window_days_def window_time_def query_get_def MaxDays_def)
  from parseWindowAt_bounds [where parse = "\<lambda>s. None" and q = "[(''days'', [''30''])]" and now = 0] w show ?thesis
    by (auto simp: query_get_def)
qed

section \<open>Projects\<close>

record project_out =
  po_id :: int
  po_slug :: string
  po_name :: string
  po_platform :: "string option"
  po_sample_rate :: rat
  po_created_at :: time
  po_dsn :: string

text \<open>\<open>api.DSN\<close>; \<open>r\<close> is \<open>None\<close> for a nil request.\<close>

definition project_dsn :: "api_lib \<Rightarrow> request option \<Rightarrow> project \<Rightarrow> string" where
  "project_dsn lib r p =
     (let base = (case r of Some r \<Rightarrow> if av_public_url lib = [] then BaseURL r [] (av_trust_proxy lib) else av_public_url lib
                  | None \<Rightarrow> av_public_url lib)
      in Access.DSN (if base = [] then ''http://localhost'' @ av_addr lib else base) (pj_public_key p) (pj_id p))"

definition projectOut :: "api_lib \<Rightarrow> api_request \<Rightarrow> project \<Rightarrow> project_out" where
  "projectOut lib r p =
     \<lparr>po_id = pj_id p, po_slug = pj_slug p, po_name = pj_name p, po_platform = pj_platform p, po_sample_rate = pj_sample_rate p,
      po_created_at = pj_created_at p, po_dsn = project_dsn lib (Some (ra_request r)) p\<rparr>"

definition slug_char :: "char \<Rightarrow> bool" where
  "slug_char c \<longleftrightarrow> c \<in> set ''abcdefghijklmnopqrstuvwxyz0123456789''"

text \<open>\<open>slugRe\<close>.\<close>

definition is_slug :: "string \<Rightarrow> bool" where
  "is_slug s \<longleftrightarrow> s \<noteq> [] \<and> length s \<le> 64 \<and> slug_char (hd s) \<and> list_all (\<lambda>c. slug_char c \<or> c \<in> set ''._-'') s"

definition isNumeric :: "string \<Rightarrow> bool" where
  "isNumeric s \<longleftrightarrow> s \<noteq> [] \<and> list_all (\<lambda>c. c \<in> set ''0123456789'') s"

text \<open>The API's \<open>nilIfEmpty\<close> trims.\<close>

definition nil_if_blank :: "string \<Rightarrow> string option" where
  "nil_if_blank s = (let t = trim_space s in if t = [] then None else Some t)"

definition listProjects :: "api_lib \<Rightarrow> api_request \<Rightarrow> project_out list answer api" where
  "listProjects lib r = bindA (ask (\<lambda>d. ListProjects (ad_projects d))) (\<lambda>ps. ret (Answers 200 (map (projectOut lib r) ps)))"

record new_project =
  np_slug :: string
  np_name :: string
  np_platform :: string

text \<open>\<open>store.CreateProject\<close>: \<open>None\<close> is the unique violation.\<close>

definition create_project_row :: "time \<Rightarrow> string \<Rightarrow> string \<Rightarrow> string option \<Rightarrow> string \<Rightarrow> api_db \<Rightarrow> project option \<times> api_db" where
  "create_project_row now slug name platform key d =
     (case CreateProject now slug name platform key (ad_projects d) of
        None \<Rightarrow> (None, d) | Some (p, t) \<Rightarrow> (Some p, d\<lparr>ad_projects := t\<rparr>))"

definition createProject ::
  "api_lib \<Rightarrow> (string \<Rightarrow> string + new_project) \<Rightarrow> nat list \<Rightarrow> api_request \<Rightarrow> project_out answer api" where
  "createProject lib dec random r =
     bindA (lift (readJSON dec (ra_body r))) (\<lambda>new.
       let slug = trim_space (np_slug new); name0 = trim_space (np_name new)
       in bindA (check (is_slug slug) (WithStatus 400 ''slug must match ^[a-z0-9][a-z0-9._-]{0,63}$'')) (\<lambda>_.
          bindA (check (slug \<noteq> ''bulk'' \<and> \<not> isNumeric slug) (WithStatus 400 ''slug is reserved'')) (\<lambda>_.
          let name = (if name0 = [] then slug else name0)
          in bindA (check (np_platform new = [] \<or> IsFamily (np_platform new))
                      (WithStatus 400 (''platform must be one of '' @ join '', '' Families))) (\<lambda>_.
             bindA (call (create_project_row (ra_now r) slug name (nil_if_blank (np_platform new)) (NewToken random))) (\<lambda>p.
             case p of
               None \<Rightarrow> stop (WithStatus 409 ''slug already exists'')
             | Some p \<Rightarrow>
                 bindA (call (\<lambda>d. ((), d\<lparr>ad_alerts := EnsureRules (pj_id p) (ad_alerts d)\<rparr>))) (\<lambda>_.
                 ret (Answers 201 (projectOut lib r p))))))))"

definition getProject :: "api_lib \<Rightarrow> api_request \<Rightarrow> project_out answer api" where
  "getProject lib r = with_project r (\<lambda>p. ret (Answers 200 (projectOut lib r p)))"

record project_patch =
  pp_name :: "string option"
  pp_platform :: "string option"
  pp_sample_rate :: "rat option"

text \<open>The update a patch asks for, with the checks in the code's order.\<close>

definition patched :: "project \<Rightarrow> project_patch \<Rightarrow> api_error + project_update" where
  "patched p x =
     (let u0 = \<lparr>pu_id = pj_id p, pu_name = pj_name p, pu_platform = pj_platform p, pu_sample_rate = pj_sample_rate p\<rparr>;
          u1 = (case pp_name x of
                  None \<Rightarrow> Inr u0
                | Some n \<Rightarrow> if trim_space n = [] then Inl (WithStatus 400 ''name must not be empty'')
                            else Inr (u0\<lparr>pu_name := trim_space n\<rparr>));
          u2 = and_then u1 (\<lambda>u. case pp_platform x of
                  None \<Rightarrow> Inr u
                | Some f \<Rightarrow> if f \<noteq> [] \<and> \<not> IsFamily f
                            then Inl (WithStatus 400 (''platform must be one of '' @ join '', '' Families))
                            else Inr (u\<lparr>pu_platform := nil_if_blank f\<rparr>))
      in and_then u2 (\<lambda>u. case pp_sample_rate x of
           None \<Rightarrow> Inr u
         | Some q \<Rightarrow> if q < 0 \<or> 1 < q then Inl (WithStatus 400 ''sample_rate must be between 0 and 1'')
                     else Inr (u\<lparr>pu_sample_rate := q\<rparr>)))"

definition updateProject :: "api_lib \<Rightarrow> (string \<Rightarrow> string + project_patch) \<Rightarrow> api_request \<Rightarrow> project_out answer api" where
  "updateProject lib dec r =
     with_project r (\<lambda>p.
       bindA (lift (readJSON dec (ra_body r))) (\<lambda>x.
       bindA (lift (patched p x)) (\<lambda>u.
       bindA (call (\<lambda>d. case UpdateProject u (ad_projects d) of (np, t) \<Rightarrow> (np, d\<lparr>ad_projects := t\<rparr>))) (\<lambda>np.
       bindA (found np) (\<lambda>np.
       ret (Answers 200 (projectOut lib r np)))))))"

text \<open>The rows of every table go with their project (\<open>ON DELETE CASCADE\<close>).\<close>

definition cascade :: "project_id \<Rightarrow> api_db \<Rightarrow> api_db" where
  "cascade pid d = d\<lparr>
     ad_projects := DeleteProject pid (ad_projects d),
     ad_issues := delete_where (\<lambda>i. is_project i = pid) (ad_issues d),
     ad_hours := delete_where (\<lambda>h. ih_project h = pid) (ad_hours d),
     ad_events := delete_where (\<lambda>e. er_project e = pid) (ad_events d),
     ad_attachments := delete_where (\<lambda>a. attachment_row.ar_project a = pid) (ad_attachments d),
     ad_user_reports := delete_where (\<lambda>u. up_project u = pid) (ad_user_reports d),
     ad_client_reports := delete_where (\<lambda>c. rc_project c = pid) (ad_client_reports d),
     ad_cron := \<lparr>cs_monitors = delete_where (\<lambda>m. mo_project m = pid) (cs_monitors (ad_cron d)),
                 cs_checkins = delete_where (\<lambda>c. ck_project c = pid) (cs_checkins (ad_cron d))\<rparr>,
     ad_alerts := (ad_alerts d)\<lparr>
       al_rules := delete_where (\<lambda>x. alert_rule.ar_project x = pid) (al_rules (ad_alerts d)),
       al_channels := delete_where (\<lambda>c. ch_project c = pid) (al_channels (ad_alerts d)),
       al_subscriptions := delete_where (\<lambda>s. snd s = pid) (al_subscriptions (ad_alerts d))\<rparr>,
     ad_symbols := (ad_symbols d)\<lparr>ss_table := (ss_table (ad_symbols d))\<lparr>
       sy_rows := delete_where (\<lambda>f. sf_project f = pid) (sy_rows (ss_table (ad_symbols d)))\<rparr>\<rparr>,
     ad_jobs := (ad_jobs d)\<lparr>jt_rows := delete_where (\<lambda>j. jb_project j = pid) (jt_rows (ad_jobs d))\<rparr>,
     ad_packs := (ad_packs d)\<lparr>
       pk_spool := delete_where (\<lambda>e. sl_project e = pid) (pk_spool (ad_packs d)),
       pk_packs := delete_where (\<lambda>p. pa_project p = pid) (pk_packs (ad_packs d)),
       pk_places := delete_where (\<lambda>p. pl_project p = pid) (pk_places (ad_packs d))\<rparr>\<rparr>"

definition delete_symbol_blobs :: "(string \<Rightarrow> bool) \<Rightarrow> string list \<Rightarrow> api_db \<Rightarrow> api_db" where
  "delete_symbol_blobs stuck keys d = d\<lparr>ad_symbols := snd (DeleteBlobs stuck keys (ad_symbols d))\<rparr>"

definition delete_pack_blobs :: "(string \<Rightarrow> bool) \<Rightarrow> project_id \<Rightarrow> (int \<times> time) list \<Rightarrow> api_db \<Rightarrow> api_db" where
  "delete_pack_blobs stuck pid ps d = d\<lparr>ad_packs := DeleteProjectPacks stuck pid ps (ad_packs d)\<rparr>"

text \<open>The objects are not database calls: their deletion has its own failures (\<open>av_stuck\<close>), which are logged.\<close>

definition effect :: "(api_db \<Rightarrow> api_db) \<Rightarrow> unit api" where
  "effect f w = (Inr (), f (fst w), snd w)"

definition deleteProject :: "api_lib \<Rightarrow> api_request \<Rightarrow> unit answer api" where
  "deleteProject lib r =
     with_project r (\<lambda>p.
       bindA (ask (\<lambda>d. SymbolFileBlobKeys (ss_table (ad_symbols d)) (pj_id p))) (\<lambda>keys.
       bindA (ask (\<lambda>d. ProjectPacks (pj_id p) (ad_packs d))) (\<lambda>packs.
       bindA (call (\<lambda>d. ((), cascade (pj_id p) d))) (\<lambda>_.
       bindA (effect (delete_symbol_blobs (av_stuck lib) keys)) (\<lambda>_.
       bindA (effect (delete_pack_blobs (av_stuck lib) (pj_id p) packs)) (\<lambda>_.
       ret (Done 204)))))))"

section \<open>Keys\<close>

text \<open>A project that went away since it was looked up updates no row.\<close>

definition rotate_row :: "time \<Rightarrow> project_id \<Rightarrow> string \<Rightarrow> api_db \<Rightarrow> (api_error + project) \<times> api_db" where
  "rotate_row now pid key d =
     (case RotateProjectKey now pid key (ad_projects d) of
        Some (p, t) \<Rightarrow> (Inr p, d\<lparr>ad_projects := t\<rparr>)
      | None \<Rightarrow> (Inl (if GetProjectByID (ad_projects d) pid = None then NotFound else Internal), d))"

definition rotateKey :: "api_lib \<Rightarrow> nat list \<Rightarrow> api_request \<Rightarrow> project_out answer api" where
  "rotateKey lib random r =
     with_project r (\<lambda>p.
       bindA (call (rotate_row (ra_now r) (pj_id p) (NewToken random))) (\<lambda>x.
       bindA (lift x) (\<lambda>np. ret (Answers 200 (projectOut lib r np)))))"

record project_key_out =
  ko_id :: int
  ko_dsn :: string
  ko_retired_at :: time
  ko_last_used_at :: "time option"

definition projectKeyOut :: "api_lib \<Rightarrow> api_request \<Rightarrow> project \<Rightarrow> project_key \<Rightarrow> project_key_out" where
  "projectKeyOut lib r p k =
     \<lparr>ko_id = kk_id k, ko_dsn = project_dsn lib (Some (ra_request r)) (p\<lparr>pj_public_key := kk_public_key k\<rparr>),
      ko_retired_at = kk_retired_at k, ko_last_used_at = kk_last_used_at k\<rparr>"

definition listProjectKeys :: "api_lib \<Rightarrow> api_request \<Rightarrow> project_key_out list answer api" where
  "listProjectKeys lib r =
     with_project r (\<lambda>p.
       bindA (ask (\<lambda>d. ListProjectKeys (ad_projects d) (pj_id p))) (\<lambda>ks.
       ret (Answers 200 (map (projectKeyOut lib r p) ks))))"

definition deleteProjectKey :: "api_request \<Rightarrow> unit answer api" where
  "deleteProjectKey r =
     with_project r (\<lambda>p.
       bindA (path_id r ''key'') (\<lambda>i.
       bindA (call (\<lambda>d. case DeleteProjectKey (pj_id p) i (ad_projects d) of (n, t) \<Rightarrow> (n, d\<lparr>ad_projects := t\<rparr>))) (\<lambda>n.
       deleted (0 < n))))"

end
