(* ===== verification/ApiUploads.thy ===== *)
theory ApiUploads
  imports Api Sha256
begin

text \<open>
  The symbol files of the API (\<open>internal/api/symbols.go\<close>) and sentry-cli's chunked upload (\<open>chunks.go\<close>): the SHA-1
  that names chunks and files, the reading of a multipart body of chunks, and the assembly of a file from them.
  Shown: a chunk is always stored under the hash of its bytes, and a file whose chunks have arrived is stored with
  exactly its bytes.
\<close>

section \<open>SHA-1\<close>

definition sha1_init :: "u32 list" where
  "sha1_init = [1732584193, 4023233417, 2562383102, 271733878, 3285377520]"

definition rotl32 :: "nat \<Rightarrow> u32 \<Rightarrow> u32" where
  "rotl32 n x = rotr32 (32 - n) x"

text \<open>The message schedule, newest word first.\<close>

definition sha1_next :: "u32 list \<Rightarrow> u32" where
  "sha1_next ws = rotl32 1 (ws ! 2 XOR ws ! 7 XOR ws ! 13 XOR ws ! 15)"

definition sha1_schedule :: "nat list \<Rightarrow> u32 list" where
  "sha1_schedule block =
     rev (((\<lambda>ws. sha1_next ws # ws) ^^ 64) (rev (map word_of_be (chunks_of 4 block))))"

fun sha1_round :: "u32 list \<Rightarrow> nat \<times> u32 \<Rightarrow> u32 list" where
  "sha1_round [a, b, c, d, e] (i, w) =
     (let (f, k) = (if i < 20 then ((b AND c) OR (NOT b AND d), 1518500249)
                    else if i < 40 then (b XOR c XOR d, 1859775393)
                    else if i < 60 then ((b AND c) OR (b AND d) OR (c AND d), 2400959708)
                    else (b XOR c XOR d, 3395469782))
      in [rotl32 5 a + f + e + k + w, a, rotl32 30 b, c, d])"
| "sha1_round s _ = s"

definition sha1_block :: "u32 list \<Rightarrow> nat list \<Rightarrow> u32 list" where
  "sha1_block s block = map2 (+) s (foldl sha1_round s (enumerate 0 (sha1_schedule block)))"

text \<open>\<open>sha1.Sum\<close> pads as SHA-256 does.\<close>

definition sha1 :: "nat list \<Rightarrow> nat list" where
  "sha1 m = concat (map (\<lambda>w. be_bytes 4 (unat w)) (foldl sha1_block sha1_init (chunks_of 64 (sha_pad m))))"

definition checksum :: "string \<Rightarrow> string" where
  "checksum data = hex_encode (sha1 (bytes data))"

section \<open>Chunks\<close>

definition chunkSize :: nat where "chunkSize = 8 * 2 ^ 20"
definition maxAssembleFiles :: nat where "maxAssembleFiles = 64"
definition chunksPerRequest :: nat where "chunksPerRequest = 8"
definition maxRequestSize :: nat where "maxRequestSize = chunkSize * chunksPerRequest + 2 ^ 20"

text \<open>
  What \<open>NextPart\<close> gives over the bounded body: a part, with its bytes if they can be read, or an error; the list
  ends at \<open>io.EOF\<close>. \<open>None\<close> when the body is not multipart.
\<close>

record part =
  ml_form :: string
  ml_file :: string
  ml_content :: "string option"

datatype part_step = NextPart part | PartError

definition put_chunk :: "time \<Rightarrow> string \<Rightarrow> string \<Rightarrow> api_db \<Rightarrow> api_db" where
  "put_chunk now h data d = d\<lparr>ad_chunks := PutUploadChunk now h data (ad_chunks d)\<rparr>"

text \<open>The bytes of a part behind \<open>io.LimitReader(part, chunkSize+1)\<close>, checked against its name.\<close>

definition part_data :: "part \<Rightarrow> api_error + string" where
  "part_data p =
     (case ml_content p of
        None \<Rightarrow> Inl (BadRequest ''chunk too large'')
      | Some content \<Rightarrow>
          (let data = take (chunkSize + 1) content
           in if chunkSize < length data then Inl (BadRequest ''chunk too large'')
              else if checksum data \<noteq> to_lower (ml_file p) then Inl (BadRequest (''chunk checksum mismatch: '' @ ml_file p))
              else Inr data))"

fun read_parts :: "time \<Rightarrow> nat \<Rightarrow> part_step list \<Rightarrow> unit api" where
  "read_parts now n [] = ret ()"
| "read_parts now n (PartError # ps) = stop (BadRequest ''invalid multipart body'')"
| "read_parts now n (NextPart p # ps) =
     (if ml_form p \<noteq> ''file'' then read_parts now n ps
      else if chunksPerRequest < n + 1 then stop (BadRequest ''at most 8 chunks per request'')
      else bindA (lift (part_data p)) (\<lambda>data.
           bindA (call (\<lambda>d. ((), put_chunk now (to_lower (ml_file p)) data d))) (\<lambda>_.
           read_parts now (n + 1) ps)))"

definition sentryChunkUploadPost :: "part_step list option \<Rightarrow> api_request \<Rightarrow> unit answer api" where
  "sentryChunkUploadPost parts r =
     (case parts of
        None \<Rightarrow> stop (BadRequest ''multipart body expected'')
      | Some ps \<Rightarrow> bindA (read_parts (ra_now r) 0 ps) (\<lambda>_. ret (Done 200)))"

section \<open>Debug files as sentry-cli sees them\<close>

record sentry_debug_file =
  df_id :: string
  df_uuid :: string
  df_debug_id :: string
  df_name :: string
  df_cpu_name :: string
  df_sha1 :: string
  df_size :: int
  df_date_created :: time
  df_symbol_type :: string
  df_features :: "string list"
  df_release :: string

definition sentryDebugFileFrom :: "symbol_file \<Rightarrow> string \<Rightarrow> sentry_debug_file" where
  "sentryDebugFileFrom f sha =
     \<lparr>df_id = itoa_int (sf_id f), df_uuid = deref (sf_debug_id f), df_debug_id = deref (sf_debug_id f), df_name = sf_filename f, df_cpu_name = ''any'',
      df_sha1 = sha, df_size = sf_size f, df_date_created = sf_uploaded_at f,
      df_symbol_type = (case sf_kind f of SymbolKindProguard \<Rightarrow> ''proguard'' | SymbolKindSourcemap \<Rightarrow> ''sourcebundle'' | SymbolKindDsym \<Rightarrow> ''macho''),
      df_features = (case sf_kind f of SymbolKindProguard \<Rightarrow> [''mapping''] | SymbolKindSourcemap \<Rightarrow> [''sources''] | SymbolKindDsym \<Rightarrow> [''debug'', ''symtab'']),
      df_release = deref (sf_release f)\<rparr>"

section \<open>Assembly\<close>

record assemble_request =
  aq_name :: string
  aq_chunks :: "string list"
  aq_debug_id :: string

datatype assemble_state = StateOk sentry_debug_file | StateNotFound "string list" | StateTooLarge | StateMismatch | StateUpload upload_error

text \<open>The upload and the invalidation of the cache, on the tables of the API.\<close>

definition upload_symbols ::
  "upload_lib \<Rightarrow> time \<Rightarrow> project_id \<Rightarrow> string \<Rightarrow> string \<Rightarrow> string \<Rightarrow> string \<Rightarrow> string option \<Rightarrow> api_db
     \<Rightarrow> (upload_error + symbol_file list) \<times> api_db" where
  "upload_symbols ulib now pid release kind name data debug_id d =
     (case upload_and_invalidate ulib now pid release kind name data debug_id (ad_symbols d, ad_jobs d) (ad_cache d) of
        (res, (s, q), c) \<Rightarrow> (res, d\<lparr>ad_symbols := s, ad_jobs := q, ad_cache := c\<rparr>))"

text \<open>A call whose failure is only logged; and one whose own failures are its result.\<close>

definition attempt :: "(api_db \<Rightarrow> api_db) \<Rightarrow> unit api" where
  "attempt f w = (case w of (d, fs) \<Rightarrow> (Inr (), if fs \<noteq> [] \<and> hd fs then d else f d, tl fs))"

definition run_upload :: "(api_db \<Rightarrow> (upload_error + symbol_file list) \<times> api_db) \<Rightarrow> (upload_error + symbol_file list) api" where
  "run_upload f w = (case f (fst w) of (r, d) \<Rightarrow> (Inr r, d, snd w))"

definition assemble_file :: "upload_lib \<Rightarrow> time \<Rightarrow> project_id \<Rightarrow> string \<times> assemble_request \<Rightarrow> assemble_state api" where
  "assemble_file ulib now pid kf =
     (case kf of (key, f) \<Rightarrow>
        let sum = to_lower key; chunks = map to_lower (aq_chunks f)
        in if MaxUpload < (int (length (aq_chunks f)) - 1) * int chunkSize then ret StateTooLarge
           else bindA (ask (\<lambda>d. UploadChunksPresent chunks (ad_chunks d))) (\<lambda>present.
             let missing = filter (\<lambda>c. c \<notin> set present) chunks
             in if missing \<noteq> [] \<or> chunks = [] then ret (StateNotFound missing)
                else bindA (ask (\<lambda>d. GetUploadChunks chunks (ad_chunks d))) (\<lambda>parts.
                  let data = concat (map snd parts)
                  in if MaxUpload < int (length data) then ret StateTooLarge
                     else if checksum data \<noteq> sum then ret StateMismatch
                     else bindA (run_upload (upload_symbols ulib now pid [] [] (if aq_name f = [] then sum else aq_name f) data
                                   (given_debug_id (aq_debug_id f)))) (\<lambda>res.
                       case res of
                         Inl e \<Rightarrow> (case upload_failure e of BadUpload u \<Rightarrow> ret (StateUpload u) | e \<Rightarrow> stop e)
                       | Inr rows \<Rightarrow>
                           bindA (attempt (\<lambda>d. d\<lparr>ad_chunks := DeleteUploadChunks chunks (ad_chunks d)\<rparr>)) (\<lambda>_.
                           ret (StateOk (sentryDebugFileFrom (hd rows) sum)))))))"

text \<open>The files of a request in the order Go walks the map; a later key that differs only in case replaces the answer.\<close>

fun assemble_files :: "upload_lib \<Rightarrow> time \<Rightarrow> project_id \<Rightarrow> (string \<times> assemble_request) list \<Rightarrow> (string \<times> assemble_state) list
    \<Rightarrow> (string \<times> assemble_state) list api" where
  "assemble_files ulib now pid [] out = ret out"
| "assemble_files ulib now pid (kf # kfs) out =
     bindA (assemble_file ulib now pid kf) (\<lambda>s.
     assemble_files ulib now pid kfs (upsert fst (\<lambda>old new. new) (to_lower (fst kf), s) out))"

definition sentry_project :: "api_request \<Rightarrow> (project \<Rightarrow> 'a api) \<Rightarrow> 'a api" where
  "sentry_project r k = bindA (lookupProject (ra_path r ''project'')) k"

definition sentryAssemble ::
  "upload_lib \<Rightarrow> (string \<Rightarrow> string + (string \<times> assemble_request) list) \<Rightarrow> api_request
     \<Rightarrow> (string \<times> assemble_state) list answer api" where
  "sentryAssemble ulib dec r =
     sentry_project r (\<lambda>p.
       bindA (lift (readJSON dec (ra_body r))) (\<lambda>files.
       bindA (check (length files \<le> maxAssembleFiles) (BadRequest ''at most 64 files per assemble request'')) (\<lambda>_.
       bindA (assemble_files ulib (ra_now r) (pj_id p) files []) (\<lambda>out. ret (Answers 200 out)))))"

text \<open>\<open>Symbols.Associate\<close> on the tables of the API.\<close>

definition associate_symbols :: "time \<Rightarrow> project_id \<Rightarrow> string \<Rightarrow> string \<Rightarrow> api_db \<Rightarrow> unit option \<times> api_db" where
  "associate_symbols now pid release debug_id d =
     (case associate_and_invalidate now pid release debug_id (ss_table (ad_symbols d)) (ad_cache d) of
        (None, _) \<Rightarrow> (None, d)
      | (Some t, c) \<Rightarrow> (Some (), d\<lparr>ad_symbols := (ad_symbols d)\<lparr>ss_table := t\<rparr>, ad_cache := c\<rparr>))"

definition run_associate :: "time \<Rightarrow> project_id \<Rightarrow> string \<Rightarrow> string \<Rightarrow> unit api" where
  "run_associate now pid release debug_id =
     (if trim_space release = [] then ret ()
      else bindA (call (associate_symbols now pid release debug_id)) (\<lambda>x. case x of None \<Rightarrow> stop Internal | Some _ \<Rightarrow> ret ()))"

record associate_request =
  as_app_id :: string
  as_version :: string
  as_build :: string

definition app_release :: "associate_request \<Rightarrow> string" where
  "app_release q =
     (let v = trim_space (as_version q)
      in if as_app_id q \<noteq> [] \<and> v \<noteq> []
         then as_app_id q @ ''@'' @ v @ (if as_build q \<noteq> [] then ''+'' @ as_build q else []) else v)"

definition sentryAssociate :: "(string \<Rightarrow> string + associate_request) \<Rightarrow> api_request \<Rightarrow> string list answer api" where
  "sentryAssociate dec r =
     sentry_project r (\<lambda>p.
       bindA (lift (readJSON dec (ra_body r))) (\<lambda>q.
       bindA (run_associate (ra_now r) (pj_id p) (app_release q) []) (\<lambda>_. ret (Answers 200 []))))"

definition sentryProguardArtifactRelease ::
  "(string \<Rightarrow> string + string \<times> string) \<Rightarrow> api_request \<Rightarrow> unit answer api" where
  "sentryProguardArtifactRelease dec r =
     sentry_project r (\<lambda>p.
       bindA (lift (readJSON dec (ra_body r))) (\<lambda>(uuid, release).
       bindA (if uuid = [] then ret () else run_associate (ra_now r) (pj_id p) release uuid) (\<lambda>_. ret (Answers 201 ()))))"

section \<open>Symbol files\<close>

definition listSymbols :: "api_request \<Rightarrow> symbol_file list answer api" where
  "listSymbols r =
     with_project r (\<lambda>p. bindA (ask (\<lambda>d. ListSymbolFiles (ss_table (ad_symbols d)) (pj_id p))) (\<lambda>fs. ret (Answers 200 fs)))"

text \<open>\<open>form\<close>: the name and bytes \<open>ReadMultipartUpload\<close> found, or its error, and the form values.\<close>

record upload_form =
  uf_file :: "api_error + string \<times> string"
  uf_release :: string
  uf_kind :: string

definition upload_rows ::
  "upload_lib \<Rightarrow> time \<Rightarrow> project_id \<Rightarrow> string \<Rightarrow> string \<Rightarrow> string \<Rightarrow> string \<Rightarrow> symbol_file list api" where
  "upload_rows ulib now pid release kind name data =
     bindA (run_upload (upload_symbols ulib now pid release kind name data None)) (\<lambda>res.
       case res of Inl e \<Rightarrow> stop (upload_failure e) | Inr rows \<Rightarrow> ret rows)"

definition uploadSymbols :: "upload_lib \<Rightarrow> upload_form \<Rightarrow> api_request \<Rightarrow> symbol_file list answer api" where
  "uploadSymbols ulib form r =
     with_project r (\<lambda>p.
       bindA (lift (uf_file form)) (\<lambda>(name, data).
       bindA (upload_rows ulib (ra_now r) (pj_id p) (trim_space (uf_release form)) (trim_space (uf_kind form)) name data) (\<lambda>rows.
       ret (Answers 201 rows))))"

definition delete_symbol_row :: "(string \<Rightarrow> bool) \<Rightarrow> project_id \<Rightarrow> int \<Rightarrow> api_db \<Rightarrow> (bool \<times> file_error option) \<times> api_db" where
  "delete_symbol_row stuck pid i d =
     (case delete_symbol_file stuck pid i (ad_symbols d) of (hit, err, s) \<Rightarrow> ((hit, err), d\<lparr>ad_symbols := s\<rparr>))"

text \<open>The row is gone when its object cannot be deleted, but the answer is an error.\<close>

definition deleteSymbol :: "api_lib \<Rightarrow> api_request \<Rightarrow> unit answer api" where
  "deleteSymbol lib r =
     with_project r (\<lambda>p.
       bindA (path_id r ''symbol file'') (\<lambda>i.
       bindA (call (delete_symbol_row (av_stuck lib) (pj_id p) i)) (\<lambda>(hit, err).
       if err \<noteq> None then stop Internal else deleted hit)))"

definition sentryUploadDSYMs :: "upload_lib \<Rightarrow> upload_form \<Rightarrow> api_request \<Rightarrow> sentry_debug_file list answer api" where
  "sentryUploadDSYMs ulib form r =
     sentry_project r (\<lambda>p.
       bindA (lift (uf_file form)) (\<lambda>(name, data).
       bindA (upload_rows ulib (ra_now r) (pj_id p) (trim_space (uf_release form)) [] name data) (\<lambda>rows.
       ret (Answers 201 (map (\<lambda>f. sentryDebugFileFrom f []) rows)))))"

definition wanted_ids :: "(string \<times> string list) list \<Rightarrow> string set" where
  "wanted_ids q = set (map to_lower (case map_of q ''debug_id'' of None \<Rightarrow> [] | Some vs \<Rightarrow> vs))"

definition sentryListDSYMs :: "api_request \<Rightarrow> sentry_debug_file list answer api" where
  "sentryListDSYMs r =
     sentry_project r (\<lambda>p.
       bindA (ask (\<lambda>d. ListSymbolFiles (ss_table (ad_symbols d)) (pj_id p))) (\<lambda>fs.
       let want = wanted_ids (ra_query r)
       in ret (Answers 200 (map (\<lambda>f. sentryDebugFileFrom f [])
            (filter (\<lambda>f. want = {} \<or> to_lower (deref (sf_debug_id f)) \<in> want) fs)))))"


section \<open>Chunks are named by their bytes\<close>

lemmas api_simps = bindA_def ret_def stop_def call_def ask_def found_def check_def lift_def

definition chunk_contents :: "chunk list \<Rightarrow> (string \<times> string) set" where
  "chunk_contents t = (\<lambda>c. (cu_sha1 c, cu_data c)) ` set t"

definition chunks_ok :: "chunk list \<Rightarrow> bool" where
  "chunks_ok t \<longleftrightarrow> unique_by cu_sha1 t \<and> list_all (\<lambda>c. cu_sha1 c = checksum (cu_data c) \<and> length (cu_data c) \<le> chunkSize) t"

text \<open>The chunks a body carries.\<close>

definition sent :: "part_step list \<Rightarrow> string set" where
  "sent ps = {x. \<exists>p. NextPart p \<in> set ps \<and> ml_form p = ''file'' \<and> part_data p = Inr x}"

lemma put_chunk_contents:
  "chunk_contents (PutUploadChunk now h x t) = (if h \<in> cu_sha1 ` set t then chunk_contents t else insert (h, x) (chunk_contents t))"
  by (auto simp: PutUploadChunk_def set_insert_nothing chunk_contents_def)

lemma part_data_ok: "part_data p = Inr x \<Longrightarrow> to_lower (ml_file p) = checksum x \<and> length x \<le> chunkSize"
  by (auto simp: part_data_def Let_def split: option.splits if_splits)

lemma put_chunk_ok:
  assumes "chunks_ok t" and "length x \<le> chunkSize"
  shows "chunks_ok (PutUploadChunk now (checksum x) x t)"
  using assms by (auto simp: chunks_ok_def PutUploadChunk_def unique_insert_nothing list_all_iff set_insert_nothing)

lemma read_parts_effect:
  assumes "read_parts now n ps (d, fs) = (r, d', fs')"
  shows "(chunks_ok (ad_chunks d) \<longrightarrow> chunks_ok (ad_chunks d')) \<and> d' = d\<lparr>ad_chunks := ad_chunks d'\<rparr>
    \<and> chunk_contents (ad_chunks d) \<subseteq> chunk_contents (ad_chunks d')
    \<and> chunk_contents (ad_chunks d') \<subseteq> chunk_contents (ad_chunks d) \<union> (\<lambda>x. (checksum x, x)) ` sent ps
    \<and> (r = Inr () \<longrightarrow> checksum ` sent ps \<subseteq> fst ` chunk_contents (ad_chunks d'))"
  using assms
proof (induction now n ps arbitrary: d fs rule: read_parts.induct)
  case (1 now n)
  then show ?case by (simp add: ret_def sent_def)
next
  case (2 now n ps)
  then show ?case by (auto simp: stop_def)
next
  case (3 now n p ps)
  show ?case
  proof (cases "ml_form p = ''file''")
    case False
    then have s: "sent (NextPart p # ps) = sent ps" by (auto simp: sent_def)
    have "read_parts now n ps (d, fs) = (r, d', fs')" using 3(3) False by simp
    from 3(1) [OF False this] show ?thesis unfolding s .
  next
    case form: True
    consider (bad) "d' = d" "r \<noteq> Inr ()" | (good) x where "part_data p = Inr x"
        "read_parts now (n + 1) ps (put_chunk now (to_lower (ml_file p)) x d, tl fs) = (r, d', fs')" "\<not> chunksPerRequest < n + 1"
      using 3(3) form by (auto simp: api_simps split: if_splits sum.splits)
    then show ?thesis
    proof cases
      case bad
      then show ?thesis by auto
    next
      case good
      let ?d = "put_chunk now (to_lower (ml_file p)) x d"
      note x = part_data_ok [OF good(1)]
      have IH: "(chunks_ok (ad_chunks ?d) \<longrightarrow> chunks_ok (ad_chunks d')) \<and> d' = ?d\<lparr>ad_chunks := ad_chunks d'\<rparr>
          \<and> chunk_contents (ad_chunks ?d) \<subseteq> chunk_contents (ad_chunks d')
          \<and> chunk_contents (ad_chunks d') \<subseteq> chunk_contents (ad_chunks ?d) \<union> (\<lambda>x. (checksum x, x)) ` sent ps
          \<and> (r = Inr () \<longrightarrow> checksum ` sent ps \<subseteq> fst ` chunk_contents (ad_chunks d'))"
        by (rule 3(2)) (use form good in simp_all)
      have sent: "sent (NextPart p # ps) = insert x (sent ps)" using form good(1) by (auto simp: sent_def)
      have put: "chunk_contents (ad_chunks ?d) = (if checksum x \<in> cu_sha1 ` set (ad_chunks d) then chunk_contents (ad_chunks d)
          else insert (checksum x, x) (chunk_contents (ad_chunks d)))"
        by (simp add: put_chunk_def put_chunk_contents x)
      then have "checksum x \<in> fst ` chunk_contents (ad_chunks ?d)" by (auto simp: chunk_contents_def image_image)
      then have "checksum x \<in> fst ` chunk_contents (ad_chunks d')" using IH by (meson image_mono subsetD)
      moreover have "d' = d\<lparr>ad_chunks := ad_chunks d'\<rparr>" using IH by (simp add: put_chunk_def)
      moreover have "chunks_ok (ad_chunks d) \<longrightarrow> chunks_ok (ad_chunks d')"
        using IH put_chunk_ok x by (simp add: put_chunk_def)
      ultimately show ?thesis using IH unfolding sent put by (auto split: if_splits)
    qed
  qed
qed

text \<open>The requests of an upload, one after the other.\<close>

fun post_all :: "(time \<times> part_step list) list \<Rightarrow> unit api" where
  "post_all [] = ret ()"
| "post_all ((now, ps) # posts) = bindA (read_parts now 0 ps) (\<lambda>_. post_all posts)"

lemma post_all_effect:
  assumes "post_all posts (d, fs) = (Inr (), d', fs')" and "chunks_ok (ad_chunks d)"
  shows "chunks_ok (ad_chunks d') \<and> d' = d\<lparr>ad_chunks := ad_chunks d'\<rparr>
    \<and> chunk_contents (ad_chunks d') \<subseteq> chunk_contents (ad_chunks d) \<union> (\<lambda>x. (checksum x, x)) ` \<Union> (sent ` snd ` set posts)
    \<and> checksum ` \<Union> (sent ` snd ` set posts) \<subseteq> fst ` chunk_contents (ad_chunks d')
    \<and> chunk_contents (ad_chunks d) \<subseteq> chunk_contents (ad_chunks d')"
  using assms
proof (induction posts arbitrary: d fs rule: post_all.induct)
  case 1
  then show ?case by (simp add: ret_def)
next
  case (2 now ps posts)
  then obtain d1 fs1 where one: "read_parts now 0 ps (d, fs) = (Inr (), d1, fs1)" and rest: "post_all posts (d1, fs1) = (Inr (), d', fs')"
    by (auto simp: bindA_def split: prod.splits sum.splits)
  note E = read_parts_effect [OF one]
  have "chunks_ok (ad_chunks d1)" using E 2(3) by simp
  note R = 2(1) [OF rest this]
  obtain t where t: "d1 = d\<lparr>ad_chunks := t\<rparr>" using E by blast
  have "d' = d1\<lparr>ad_chunks := ad_chunks d'\<rparr>" using R by blast
  then have frame: "d' = d\<lparr>ad_chunks := ad_chunks d'\<rparr>" unfolding t by simp
  have sets: "chunk_contents (ad_chunks d1) \<subseteq> chunk_contents (ad_chunks d) \<union> (\<lambda>x. (checksum x, x)) ` sent ps"
    "chunk_contents (ad_chunks d') \<subseteq> chunk_contents (ad_chunks d1) \<union> (\<lambda>x. (checksum x, x)) ` \<Union> (sent ` snd ` set posts)"
    "chunk_contents (ad_chunks d) \<subseteq> chunk_contents (ad_chunks d1)" "chunk_contents (ad_chunks d1) \<subseteq> chunk_contents (ad_chunks d')"
    "checksum ` sent ps \<subseteq> fst ` chunk_contents (ad_chunks d1)"
    "checksum ` \<Union> (sent ` snd ` set posts) \<subseteq> fst ` chunk_contents (ad_chunks d')"
    using E [THEN conjunct2, THEN conjunct2] R [THEN conjunct2, THEN conjunct2] by simp_all
  have S: "\<Union> (sent ` snd ` set ((now, ps) # posts)) = sent ps \<union> \<Union> (sent ` snd ` set posts)" by simp
  show ?case unfolding S image_Un
  proof (intro conjI)
    show "checksum ` sent ps \<union> checksum ` \<Union> (sent ` snd ` set posts) \<subseteq> fst ` chunk_contents (ad_chunks d')"
      using sets(5,6) image_mono [OF sets(4), of fst] by simp
    show "chunk_contents (ad_chunks d') \<subseteq> chunk_contents (ad_chunks d)
        \<union> ((\<lambda>x. (checksum x, x)) ` sent ps \<union> (\<lambda>x. (checksum x, x)) ` \<Union> (sent ` snd ` set posts))"
      using sets(1,2) by (simp only: Un_assoc [symmetric]) (rule order_trans, assumption, rule Un_mono, assumption, rule order_refl)
    show "chunk_contents (ad_chunks d) \<subseteq> chunk_contents (ad_chunks d')" using sets(3,4) by (rule order_trans)
    show "d' = d\<lparr>ad_chunks := ad_chunks d'\<rparr>" by (rule frame)
    show "chunks_ok (ad_chunks d')" using R by simp
  qed
qed


section \<open>A chunked upload arrives\<close>

text \<open>Nothing goes wrong with the write of one symbol file; its object key is new.\<close>

definition store_works :: "upload_lib \<Rightarrow> project_id \<Rightarrow> symbol_store \<Rightarrow> bool" where
  "store_works ulib pid s \<longleftrightarrow> \<not> ul_put_fails ulib 0 \<and> \<not> ul_row_fails ulib 0
     \<and> (ss_blobs s \<noteq> None \<longrightarrow> checkKey (SymbolKey (ul_random ulib 0) pid)
          \<and> list_all (\<lambda>f. sf_blob_key f \<noteq> Some (SymbolKey (ul_random ulib 0) pid)) (sy_rows (ss_table s)))"

lemma deleteBlobs_table: "ss_table (snd (deleteBlobs stuck ks s)) = ss_table s"
  by (induction stuck ks s rule: deleteBlobs.induct) (auto split: option.split)

lemma upsert_returns_row:
  assumes up: "UpsertSymbolFile now p t = Some (row, t')"
  shows "row \<in> set (sy_rows t')" and "sf_project row = us_project p" and "sf_size row = us_size p"
    and "sf_blob_key row = us_blob_key p" and "sf_data row = us_data p"
proof -
  define x where "x = symbol_row_of now (sy_next t) p"
  define key where "key = symbol_key"
  have x: "sf_project x = us_project p" "sf_size x = us_size p" "sf_blob_key x = us_blob_key p" "sf_data x = us_data p"
    by (simp_all add: x_def symbol_row_of_def)
  have row: "row = (case lookup_by key (key x) (sy_rows t) of None \<Rightarrow> x | Some f \<Rightarrow> merge_symbol f x)"
    and rows: "sy_rows t' = upsert key merge_symbol x (sy_rows t)"
    using up unfolding x_def key_def UpsertSymbolFile_def Let_def by (simp_all split: if_splits) force+
  have "lookup_by key (key x) (sy_rows t') = Some row"
    unfolding row rows key_def by (rule symbol_files.lookup_upsert_same)
  from lookup_by_Some [OF this] show "row \<in> set (sy_rows t')" by blast
  have "row = x \<or> (\<exists>f. row = merge_symbol f x \<and> key f = key x)"
  proof (cases "lookup_by key (key x) (sy_rows t)")
    case None
    then show ?thesis by (simp add: row)
  next
    case (Some f)
    from lookup_by_Some [OF Some] Some show ?thesis by (auto simp: row)
  qed
  then show "sf_project row = us_project p" "sf_size row = us_size p" "sf_blob_key row = us_blob_key p" "sf_data row = us_data p"
    using x by (auto simp: key_def merge_symbol_def)
qed

lemma putSymbolFile_stores:
  assumes "ss_blobs s \<noteq> None \<Longrightarrow> checkKey (SymbolKey b (us_project p))
      \<and> list_all (\<lambda>f. sf_blob_key f \<noteq> Some (SymbolKey b (us_project p))) (sy_rows (ss_table s))"
  obtains row s' where "putSymbolFile now b False False stuck p data s = (Inr row, s')" "row \<in> set (sy_rows (ss_table s'))"
    "sf_project row = us_project p" "sf_size row = us_size p" "symbolBytes (sf_data row) (sf_blob_key row) s' = Inr data"
proof (cases "ss_blobs s")
  case None
  let ?p = "p\<lparr>us_data := Some data, us_blob_key := None\<rparr>"
  obtain row t where up: "UpsertSymbolFile now ?p (ss_table s) = Some (row, t)"
    by (simp add: UpsertSymbolFile_def located_def Let_def)
  note row = upsert_returns_row(1) [OF up]
  have "sf_project row = us_project p" "sf_size row = us_size p" "sf_blob_key row = None" "sf_data row = Some data"
    using upsert_returns_row [OF up] by auto
  with None up row show ?thesis
    by (intro that [of row "s\<lparr>ss_table := t\<rparr>"]) (simp_all add: putSymbolFile_def put_row_def symbolBytes_def)
next
  case (Some m)
  let ?key = "SymbolKey b (us_project p)" and ?p = "p\<lparr>us_data := None, us_blob_key := Some (SymbolKey b (us_project p))\<rparr>"
  let ?s1 = "s\<lparr>ss_blobs := Some (m(?key \<mapsto> data))\<rparr>"
  obtain row t where up: "UpsertSymbolFile now ?p (ss_table s) = Some (row, t)"
    by (simp add: UpsertSymbolFile_def located_def Let_def)
  note row = upsert_returns_row(1) [OF up]
  let ?s' = "snd (deleteBlobs stuck [replaced_key p s] (?s1\<lparr>ss_table := t\<rparr>))"
  have fields: "sf_project row = us_project p" "sf_size row = us_size p" "sf_blob_key row = Some ?key" "sf_data row = None"
    using upsert_returns_row [OF up] by auto
  have "replaced_key p s \<noteq> Some ?key"
    using assms Some lookup_by_Some [of symbol_key _ "sy_rows (ss_table s)"]
    by (auto simp: replaced_key_def SymbolFileBlobKey_def list_all_iff split: option.splits)
  then have "symbolBytes None (Some ?key) ?s' = Inr data"
    by (cases "replaced_key p s") (auto simp: symbolBytes_def Get_def Delete_def)
  moreover have "putSymbolFile now b False False stuck p data s = (Inr row, ?s')"
    using Some assms up by (simp add: putSymbolFile_def put_row_def Put_def Let_def)
  moreover have "row \<in> set (sy_rows (ss_table ?s'))" using row by (simp add: deleteBlobs_table)
  ultimately show ?thesis using fields by (intro that [of row ?s']) simp_all
qed


lemma filter_unique: "unique_by key t \<Longrightarrow> r \<in> set t \<Longrightarrow> filter (\<lambda>c. key c = key r) t = [r]"
proof (induction t)
  case (Cons a t)
  then have u: "unique_by key t" "key a \<notin> key ` set t" by (simp_all add: unique_by_def)
  show ?case
  proof (cases "r = a")
    case True
    have "filter (\<lambda>c. key c = key a) t = []" using u(2) by (auto simp: filter_empty_conv image_iff)
    then show ?thesis by (simp add: True)
  next
    case False
    then have "r \<in> set t" using Cons.prems by simp
    moreover from this have "key r \<in> key ` set t" by (rule imageI)
    then have "key a \<noteq> key r" using u(2) by auto
    ultimately show ?thesis using Cons.IH [OF u(1)] by simp
  qed
qed simp

lemma GetUploadChunks_in_order:
  assumes "unique_by cu_sha1 t" and "(\<lambda>x. (checksum x, x)) ` set xs \<subseteq> chunk_contents t"
  shows "map snd (GetUploadChunks (map checksum xs) t) = xs"
proof -
  let ?rows = "\<lambda>h. map (\<lambda>c. (cu_sha1 c, cu_data c)) (filter (\<lambda>c. cu_sha1 c = h) t)"
  have one: "map snd (?rows (checksum x)) = [x]" if x: "x \<in> set xs" for x
  proof -
    have "(checksum x, x) \<in> chunk_contents t" using assms(2) x by (rule subsetD [OF _ imageI])
    then obtain c where "c \<in> set t" "cu_sha1 c = checksum x" "cu_data c = x" by (auto simp: chunk_contents_def)
    then show ?thesis using filter_unique [OF assms(1), of c] by simp
  qed
  have "map (\<lambda>x. map snd (?rows (checksum x))) xs = map (\<lambda>x. [x]) xs" by (rule map_cong [OF refl one])
  then have "concat (map (\<lambda>x. map snd (?rows (checksum x))) xs) = xs" by (simp only: concat_map_singleton list.map_ident)
  moreover have "map snd (GetUploadChunks (map checksum xs) t) = concat (map (\<lambda>x. map snd (?rows (checksum x))) xs)"
    unfolding GetUploadChunks_def map_concat map_map comp_def ..
  ultimately show ?thesis by (simp only:)
qed

text \<open>A file without a release or a kind of its own, its data ready.\<close>

lemma upload_symbols_stores:
  assumes "data \<noteq> []" and "int (length data) \<le> MaxUpload" and "\<not> isZip name data" and "classify (ul_macho ulib) name data = Some k"
    and "store_works ulib pid (ad_symbols d)"
  obtains row d' where "upload_symbols ulib now pid [] [] name data debug_id d = (Inr [row], d')"
    "row \<in> set (sy_rows (ss_table (ad_symbols d')))" "sf_project row = pid"
    "symbolBytes (sf_data row) (sf_blob_key row) (ad_symbols d') = Inr data" "ad_chunks d' = ad_chunks d"
proof -
  let ?debug = "case debug_id of None \<Rightarrow> DebugIDFor (ul_macho ulib) k (file_base name) data | Some x \<Rightarrow> Some x"
  let ?p = "\<lparr>us_project = pid, us_kind = k, us_release = None, us_debug_id = ?debug,
      us_filename = stored_name [] k (file_base name) ?debug, us_size = int (length data), us_data = None, us_blob_key = None\<rparr>"
  have fresh: "ss_blobs (ad_symbols d) \<noteq> None \<Longrightarrow> checkKey (SymbolKey (ul_random ulib 0) (us_project ?p))
      \<and> list_all (\<lambda>f. sf_blob_key f \<noteq> Some (SymbolKey (ul_random ulib 0) (us_project ?p))) (sy_rows (ss_table (ad_symbols d)))"
    using assms(5) by (simp add: store_works_def)
  obtain row s' where put: "putSymbolFile now (ul_random ulib 0) False False (ul_stuck ulib) ?p data (ad_symbols d) = (Inr row, s')"
      "row \<in> set (sy_rows (ss_table s'))" "sf_project row = us_project ?p"
      "symbolBytes (sf_data row) (sf_blob_key row) s' = Inr data"
    by (rule putSymbolFile_stores [OF fresh]) (assumption, blast)
  have no_kind: "symbol_kind_of_text [] = None" by code_simp
  have "upsert_file ulib now 0 pid [] k (file_base name) data debug_id (ad_symbols d) = (Inr row, s')"
    using put(1) assms(5) by (simp add: upsert_file_def Let_def store_works_def)
  then have "upload ulib now pid [] [] name data debug_id (ad_symbols d, ad_jobs d) = (Inr [row], s', ad_jobs d)"
    using assms(1-4) 
    by (simp add: upload_def upload_single_def Let_def no_kind)
  then have "upload_symbols ulib now pid [] [] name data debug_id d
      = (Inr [row], d\<lparr>ad_symbols := s', ad_jobs := ad_jobs d, ad_cache := Invalidate pid [] (ad_cache d)\<rparr>)"
    by (simp add: upload_symbols_def upload_and_invalidate_def)
  then show ?thesis by (rule that) (use put in simp_all)
qed


text \<open>
  C27. A file sent in pieces arrives: when the requests of the upload all succeed and the assembly names the pieces by
  their hashes, the answer is \<open>ok\<close> with a row of the project whose bytes are the pieces put together. It rests on no
  two of the chunks at hand having the same hash.
\<close>

theorem chunked_upload_arrives:
  assumes "post_all posts (d, []) = (Inr (), d1, [])" and "chunks_ok (ad_chunks d)"
    and "inj_on checksum (snd ` chunk_contents (ad_chunks d) \<union> \<Union> (sent ` snd ` set posts))"
    and "set pieces \<subseteq> \<Union> (sent ` snd ` set posts)" and "(int (length pieces) - 1) * int chunkSize \<le> MaxUpload"
    and "data = concat pieces" and "data \<noteq> []" and "int (length data) \<le> MaxUpload"
    and "map to_lower (aq_chunks f) = map checksum pieces" and "to_lower key = checksum data" and "aq_name f \<noteq> []"
    and "\<not> isZip (aq_name f) data" and "classify (ul_macho ulib) (aq_name f) data = Some k"
    and "store_works ulib pid (ad_symbols d)"
  shows "\<exists>row d2. assemble_file ulib now pid (key, f) (d1, []) = (Inr (StateOk (sentryDebugFileFrom row (checksum data))), d2, [])
     \<and> row \<in> set (sy_rows (ss_table (ad_symbols d2))) \<and> sf_project row = pid
     \<and> symbolBytes (sf_data row) (sf_blob_key row) (ad_symbols d2) = Inr data"
proof -
  note E = post_all_effect [OF assms(1,2)]
  have symbols: "ad_symbols d1 = ad_symbols d" by (subst E [THEN conjunct2, THEN conjunct1]) simp
  have unique: "unique_by cu_sha1 (ad_chunks d1)" using E by (simp add: chunks_ok_def)
  have stored: "(checksum x, x) \<in> chunk_contents (ad_chunks d1)" if x: "x \<in> set pieces" for x
  proof -
    have "checksum x \<in> fst ` chunk_contents (ad_chunks d1)" 
      using E [THEN conjunct2, THEN conjunct2, THEN conjunct2, THEN conjunct1] subsetD [OF assms(4) x]
      by (rule subsetD [OF _ imageI])
    then obtain y where y: "(checksum x, y) \<in> chunk_contents (ad_chunks d1)" by auto
    then have "checksum y = checksum x" using E by (auto simp: chunks_ok_def chunk_contents_def list_all_iff)
    moreover have "y \<in> snd ` chunk_contents (ad_chunks d) \<union> \<Union> (sent ` snd ` set posts)"
      using subsetD [OF E [THEN conjunct2, THEN conjunct2, THEN conjunct1] y] by (auto intro: rev_image_eqI)
    ultimately have "y = x" using assms(3,4) x by (auto dest: inj_onD)
    with y show ?thesis by simp
  qed
  have parts: "map snd (GetUploadChunks (map checksum pieces) (ad_chunks d1)) = pieces"
    using stored by (intro GetUploadChunks_in_order [OF unique]) auto
  have "checksum x \<in> set (UploadChunksPresent (map checksum pieces) (ad_chunks d1))" if x: "x \<in> set pieces" for x
  proof -
    obtain c where "c \<in> set (ad_chunks d1)" "cu_sha1 c = checksum x" using stored [OF x] by (auto simp: chunk_contents_def)
    then show ?thesis using x unfolding UploadChunksPresent_def set_map set_filter by (intro image_eqI [of _ _ c]) simp_all
  qed
  then have missing: "filter (\<lambda>c. c \<notin> set (UploadChunksPresent (map checksum pieces) (ad_chunks d1))) (map checksum pieces) = []"
    by (simp add: filter_empty_conv)
  have store: "store_works ulib pid (ad_symbols d1)" using assms(14) symbols by simp
  obtain row d2 where up: "upload_symbols ulib now pid [] [] (aq_name f) data (given_debug_id (aq_debug_id f)) d1 = (Inr [row], d2)"
      "row \<in> set (sy_rows (ss_table (ad_symbols d2)))" "sf_project row = pid"
      "symbolBytes (sf_data row) (sf_blob_key row) (ad_symbols d2) = Inr data"
    by (rule upload_symbols_stores [OF assms(7,8,12,13) store]) blast
  have len: "length (aq_chunks f) = length pieces" using assms(9) by (metis length_map)
  have "pieces \<noteq> []" using assms(6,7) by auto
  then have "assemble_file ulib now pid (key, f) (d1, [])
      = (Inr (StateOk (sentryDebugFileFrom row (checksum data))), d2\<lparr>ad_chunks := DeleteUploadChunks (map checksum pieces) (ad_chunks d2)\<rparr>, [])"
    using assms(5,6,8,10,11) missing parts up(1)
    by (simp add: assemble_file_def Let_def len assms(9) api_simps run_upload_def attempt_def)
  with up(2-4) show ?thesis by auto
qed


lemma checksum_lower: "\<forall>c \<in> set (checksum data). lower_hex c"
  unfolding checksum_def by (rule hex_encode_lower) (auto simp: sha1_def be_bytes_def)

lemma to_lower_checksum: "to_lower (checksum data) = checksum data"
proof -
  have hex: "(of_char c :: nat) < 103 \<and> \<not> (65 \<le> (of_char c :: nat) \<and> (of_char c :: nat) \<le> 90)" if c: "c \<in> set (checksum data)" for c
  proof -
    have "lower_hex c" using checksum_lower c by blast
    then show ?thesis by (auto simp: lower_hex_def is_hex_def digit_val_def Let_def split: if_splits)
  qed
  have "ascii (checksum data)" unfolding ascii_def using hex by fastforce
  moreover have "map lower_char (checksum data) = checksum data"
    using hex unfolding lower_char_def Let_def by (intro map_idI) (metis (no_types))
  ultimately show ?thesis by (simp add: to_lower_ascii)
qed

definition example_ulib :: upload_lib where
  "example_ulib = \<lparr>ul_unzip = (\<lambda>d. None), ul_macho = \<lparr>ml_fat = (\<lambda>d. None), ml_thin = (\<lambda>d. None)\<rparr>, ul_random = (\<lambda>n. [171, 205]),
     ul_put_fails = (\<lambda>n. False), ul_row_fails = (\<lambda>n. False), ul_stuck = (\<lambda>k. False), ul_release_args = (\<lambda>r. r), ul_queue_fails = False\<rparr>"

text \<open>A mapping that repeats a chunk, which is sent once.\<close>

lemma chunked_upload_arrives_witness:
  "\<forall>d :: api_db. let line = ''a.b -> c:''; sum = checksum (line @ line);
        d0 = d\<lparr>ad_chunks := [], ad_symbols := \<lparr>ss_table = \<lparr>sy_rows = [], sy_next = 1\<rparr>, ss_blobs = Some Map.empty\<rparr>\<rparr>;
        d1 = put_chunk 5 (checksum line) line d0
      in \<exists>row d2. assemble_file example_ulib 9 3 (sum, \<lparr>aq_name = ''mapping.txt'', aq_chunks = [checksum line, checksum line], aq_debug_id = []\<rparr>) (d1, [])
             = (Inr (StateOk (sentryDebugFileFrom row sum)), d2, [])
           \<and> row \<in> set (sy_rows (ss_table (ad_symbols d2))) \<and> sf_project row = 3
           \<and> symbolBytes (sf_data row) (sf_blob_key row) (ad_symbols d2) = Inr (line @ line)"
proof (intro allI)
  fix d :: api_db
  define line where "line = ''a.b -> c:''"
  define p where "p = NextPart \<lparr>ml_form = ''file'', ml_file = checksum line, ml_content = Some line\<rparr>"
  define d0 where "d0 = d\<lparr>ad_chunks := [], ad_symbols := \<lparr>ss_table = \<lparr>sy_rows = [], sy_next = 1\<rparr>, ss_blobs = Some Map.empty\<rparr>\<rparr>"
  have part: "part_data \<lparr>ml_form = ''file'', ml_file = checksum line, ml_content = Some line\<rparr> = Inr line"
    by (simp add: part_data_def to_lower_checksum line_def chunkSize_def)
  define posts :: "(time \<times> part_step list) list" where "posts = [(5, [p])]"
  have sent: "\<Union> (sent ` snd ` set posts) = {line}" by (auto simp: posts_def sent_def p_def part)
  have post: "post_all posts (d0, []) = (Inr (), put_chunk 5 (checksum line) line d0, [])"
    by (simp add: posts_def p_def part api_simps to_lower_checksum chunksPerRequest_def)
  have kind: "\<not> isZip ''mapping.txt'' (line @ line)" "classify (ul_macho example_ulib) ''mapping.txt'' (line @ line) = Some SymbolKindProguard"
    unfolding line_def by code_simp+
  have "checkKey (SymbolKey [171, 205] 3)" by code_simp
  then have works: "store_works example_ulib 3 (ad_symbols d0)" by (simp add: store_works_def d0_def example_ulib_def)
  have chunks: "ad_chunks d0 = []" by (simp add: d0_def)
  have inj: "inj_on checksum (snd ` chunk_contents (ad_chunks d0) \<union> \<Union> (sent ` snd ` set posts))"
    unfolding sent by (simp add: chunks chunk_contents_def)
  have sub: "set [line, line] \<subseteq> \<Union> (sent ` snd ` set posts)" unfolding sent by simp
  have line: "line \<noteq> []" "int (length line) \<le> 100" by (simp_all add: line_def)
  show "let line = ''a.b -> c:''; sum = checksum (line @ line);
        d0 = d\<lparr>ad_chunks := [], ad_symbols := \<lparr>ss_table = \<lparr>sy_rows = [], sy_next = 1\<rparr>, ss_blobs = Some Map.empty\<rparr>\<rparr>;
        d1 = put_chunk 5 (checksum line) line d0
      in \<exists>row d2. assemble_file example_ulib 9 3 (sum, \<lparr>aq_name = ''mapping.txt'', aq_chunks = [checksum line, checksum line], aq_debug_id = []\<rparr>) (d1, [])
             = (Inr (StateOk (sentryDebugFileFrom row sum)), d2, [])
           \<and> row \<in> set (sy_rows (ss_table (ad_symbols d2))) \<and> sf_project row = 3
           \<and> symbolBytes (sf_data row) (sf_blob_key row) (ad_symbols d2) = Inr (line @ line)"
    unfolding Let_def d0_def [symmetric] line_def [symmetric]
    by (rule chunked_upload_arrives [OF post _ inj sub])
      (use line in \<open>simp_all add: kind chunks works chunks_ok_def unique_by_def to_lower_checksum
         chunkSize_def MaxUpload_def\<close>)
qed

end
