(* ===== verification/Spec2Isabelle.thy ===== *)
theory Spec2Isabelle
  imports Analyze Issues Retention Envelope PackRuns IngestHttp SignIn Alerts Symbolicate ApiUploads
begin

text \<open>
  CrashCart, a self-hosted error tracker that speaks the Sentry protocol (Go, \<open>internal/\<close> and \<open>cmd/\<close>): a model of
  its logic and the theorems that make it correct.

  \<^bold>\<open>How the program works.\<close> An SDK posts an envelope to the ingest handler, which resolves the DSN key of the
  project, bounds and decompresses the body, parses the items and writes all of them in one transaction: events are
  scrubbed, symbolicated if a mapping is at hand, fingerprinted into issues and stored; sessions, check-ins,
  releases, reports and attachments go to their tables; alerts and symbolication become jobs of a queue. Workers
  lease jobs and retry them. A flusher moves payloads from the spool into packs of a blob store. A leader rolls the
  dirty hours up into statistics, expires weeks of partitions, and looks for spikes, missed check-ins and issues
  whose ignoring is over. Users and API keys read and change this state through the web pages and the API.

  \<^bold>\<open>Which theory models which part.\<close> A Go struct is a record with a two-letter prefix, an enum a datatype, a table
  the list of its rows, an operation a definition of the same name; a database or blob store that fails is an option,
  an oracle or a view \<open>None\<close> given as an argument.
  \<^item> Foundations: \<open>Prelude\<close> (statements on tables, the locale \<open>keyed_table\<close> of an upsert's contract, normalising
    functions, reachability with its invariant rule), \<open>GoStrings\<close>, \<open>GoText\<close> (bytes, UTF-8, cutting and cleaning
    texts), \<open>Sha256\<close>, \<open>Ids\<close> (\<open>sentry/id.go\<close>, \<open>platform.go\<close>), \<open>Enums\<close> (\<open>store/enums.go\<close>, a locale of an enum and
    its texts), \<open>Weeks\<close>.
  \<^item> Parsing and grouping: \<open>Events\<close>, \<open>EventParse\<close>, \<open>Envelope\<close> (\<open>sentry/envelope.go\<close>), \<open>Analyze\<close>
    (\<open>sentry/analyze.go\<close>: frames, fingerprints, titles, culprits), \<open>Pii\<close> (\<open>ingest/pii.go\<close>).
  \<^item> Storage: \<open>Issues\<close>, \<open>EventStore\<close>, \<open>SideTables\<close>, \<open>Jobs\<close>, \<open>Accounts\<close> (\<open>store/*.go\<close>), \<open>Blobs\<close>, \<open>Packs\<close>,
    \<open>PackRuns\<close> (\<open>blob/\<close>, \<open>store/packs.go\<close>, \<open>spool.go\<close>, and packers, writers and sweeps interleaved).
  \<^item> Ingest: \<open>Ingest\<close>, \<open>IngestRuns\<close>, \<open>IngestErrors\<close>, \<open>IngestHttp\<close> (\<open>ingest/ingest.go\<close>: the analysis, the transaction
    with its steps in order, what can fail, the two handlers).
  \<^item> Background work: \<open>Worker\<close> (\<open>jobs/worker.go\<close>), \<open>Monitors\<close> (\<open>monitors/\<close> and their alerts), \<open>Rollup\<close>,
    \<open>RollupRuns\<close>, \<open>Retention\<close> (\<open>retention/retention.go\<close>), \<open>Alerts\<close> (\<open>alerts/\<close>).
  \<^item> Symbolication: \<open>SourceMaps\<close>, \<open>ProGuard\<close>, \<open>SymbolFiles\<close>, \<open>Symbolicate\<close> (\<open>symbolicate/\<close>).
  \<^item> Access: \<open>Access\<close>, \<open>SignIn\<close> (\<open>auth/\<close>, \<open>web/account.go\<close>).
  This theory holds what spans the sweep and the payload packs.

  \<^bold>\<open>What the lemmas show.\<close> Types and bounds of what a parser lets through whatever the bytes; invariants of every
  table under all of its operations; the counts of issues against the stored events, through ingest and
  symbolication; equivalences (resends, load addresses, line numbers, a binary search and its specification);
  round trips (envelope framing, source maps, page cursors); the refinement of the hourly statistics by the dirty-hour
  protocol at every interleaving, and of the symbol-file writer by steps that may stop anywhere; safety of leases,
  sweeps, packs, keys, sessions and alert cooldowns; termination of the rollup and of draining the spool; and, as
  negative results, what the code does not keep (two rollups at once, a lost reply of a commit). The findings listed
  beside the development name source lines where code and intent part.

  \<^bold>\<open>Bounds and fuel.\<close> Times are nanoseconds as \<open>int\<close>, wrapped (\<open>wrap32\<close>, \<open>wrap64\<close>) where the code can overflow;
  addresses and hashes are words. Loops are structural or have a measure. The only fuel is the nesting of
  indexed source maps (\<open>ParseSourceMap\<close>): the length of the text is enough, as a section is shorter than the map
  that holds it, and \<open>ParseSourceMap_recursion\<close> shows that the result satisfies the unbounded recursion.

  \<^bold>\<open>Parameters.\<close> What is not under \<open>src/\<close> or below the level of the model is an argument: JSON decoding,
  \<open>time.Parse\<close>, cron expressions, gzip, zip and Mach-O reading, bcrypt, random bytes, the sidecar process, HTTP
  posts, the iteration order of Go maps, SQL pattern matching. Floats are rationals. Table order stands for one of
  the orders Postgres may give.

  \<^bold>\<open>Not modelled.\<close> The S3 client and \<open>gzip.go\<close> (wrappers of services), the templates and generated pages of
  \<open>web/\<close>, read-only reports (\<open>stats.go\<close>, \<open>web.go\<close> of the store), configuration, migrations, the server's
  wiring, command-line tools, demo data and test harnesses.
\<close>

section \<open>The sweep and the payload packs\<close>

lemma stored_payload_other_object:
  assumes "\<And>pid w i. key \<noteq> PackKey pid w i"
  shows "stored_payload (delete_object key db) k = stored_payload db k"
proof -
  have "PayloadLocation (delete_object key db) k = PayloadLocation db k"
    by (simp add: PayloadLocation_def delete_object_def)
  moreover have "GetRange (PackKey pid w i) off n (pk_blobs (delete_object key db)) = GetRange (PackKey pid w i) off n (pk_blobs db)"
    for pid w i off n using not_sym [OF assms] by (simp add: delete_object_def GetRange_def Delete_def)
  ultimately show ?thesis by (simp only: stored_payload_def)
qed

lemma SymbolKey_not_pack: "SymbolKey b p \<noteq> PackKey pid w i"
  by (simp add: SymbolKey_def PackKey_def)

lemma stored_payload_symbol_objects:
  assumes "\<And>key. Some key \<in> set keys \<Longrightarrow> \<exists>b p. key = SymbolKey b p"
  shows "stored_payload (delete_symbol_objects stuck keys db) k = stored_payload db k"
  using assms
proof (induction keys arbitrary: db)
  case (Cons x keys)
  have rest: "stored_payload (delete_symbol_objects stuck keys d) k = stored_payload d k" for d
    using Cons by simp
  show ?case
  proof (cases x)
    case (Some key)
    with Cons.prems [of key] obtain b p where "key = SymbolKey b p" by (metis list.set_intros(1))
    then have "stored_payload (delete_object key db) k = stored_payload db k"
      by (intro stored_payload_other_object) (simp add: SymbolKey_not_pack)
    with rest Some show ?thesis by (simp add: delete_symbol_objects_def)
  qed (use rest in \<open>simp add: delete_symbol_objects_def\<close>)
qed (simp add: delete_symbol_objects_def)

text \<open>A row at or after the Monday of the cutoff lies in a week whose packs have not expired.\<close>

lemma week_alive:
  assumes "weekStart cutoff \<le> x"
  shows "\<not> week_expired cutoff (weekStart x)"
proof -
  have "weekStart (weekStart cutoff) \<le> weekStart x"
  proof (rule ccontr)
    assume "\<not> weekStart (weekStart cutoff) \<le> weekStart x"
    then have l: "weekStart x < weekStart cutoff" by (simp add: weeks.idem)
    from week_starts_apart [OF weeks.canonical_f [of x] weeks.canonical_f [of cutoff]] l
    show False using weekStart_near [of x] assms by linarith
  qed
  then have "weekStart cutoff \<le> weekStart x" by (simp add: weeks.idem)
  moreover have "truncate_time cutoff day \<le> cutoff" unfolding truncate_day
    by (rule day_split [of cutoff]) simp
  ultimately show ?thesis using weekStart_near [of cutoff] unfolding week_expired_def by linarith
qed


text \<open>The event of the packing example, its payload in the spool, swept on day five with a retention of four days.\<close>

definition swept_event :: event_row where
  "swept_event = (example_event (replicate 32 (CHR ''a'')))\<lparr>er_project := 1, er_occurred_at := 0\<rparr>"

definition swept_tables :: sweep_tables where
  "swept_tables = (sweep_example 0)\<lparr>sw_packs := ps_db pack_example1,
     sw_events := \<lparr>pt_parts = [(weekStart 0, [swept_event])], pt_default = []\<rparr>\<rparr>"


end
